(* ===== verification/States.thy ===== *)
theory States
  imports Prelude
begin

text \<open>
  The pipeline state machine, \<open>core/states.py\<close>: the ticket states with the texts they are
  stored as, the table of legal transitions, the stage that consumes each active state, and the
  test \<open>can_transition\<close> with its two resume edges. The lemmas say that the texts identify
  the states, which states are final, that no state is a dead end, and what an edge out of BLOCKED
  or AWAITING_USER_REPLY can be.
\<close>

definition ASK_USER_MARKER :: string where
  "ASK_USER_MARKER = ''[ASK_USER]''"

datatype State =
    CLASSIFYING
  | DRAFT
  | HUMAN_ISSUE_APPROVAL
  | READY
  | DOCUMENTING
  | CODE_REVIEW
  | DELIVERABLE
  | HUMAN_MR_APPROVAL
  | IMPLEMENT_COMPLETE
  | WAITING_AUTO_MERGE
  | REBASING
  | FIXING_CI
  | ADDRESSING_REVIEW
  | DONE
  | CLOSED
  | ERRORED
  | BLOCKED
  | ASKED
  | ANSWERED
  | AWAITING_USER_REPLY
  | EPIC_OPEN
  | EPIC_CLOSED

fun state_value :: "State \<Rightarrow> string" where
  "state_value CLASSIFYING = ''classifying''"
| "state_value DRAFT = ''draft''"
| "state_value HUMAN_ISSUE_APPROVAL = ''human_issue_approval''"
| "state_value READY = ''ready''"
| "state_value DOCUMENTING = ''documenting''"
| "state_value CODE_REVIEW = ''code_review''"
| "state_value DELIVERABLE = ''deliverable''"
| "state_value HUMAN_MR_APPROVAL = ''human_mr_approval''"
| "state_value IMPLEMENT_COMPLETE = ''implement_complete''"
| "state_value WAITING_AUTO_MERGE = ''waiting_auto_merge''"
| "state_value REBASING = ''rebasing''"
| "state_value FIXING_CI = ''fixing_ci''"
| "state_value ADDRESSING_REVIEW = ''addressing_review''"
| "state_value DONE = ''done''"
| "state_value CLOSED = ''closed''"
| "state_value ERRORED = ''errored''"
| "state_value BLOCKED = ''blocked''"
| "state_value ASKED = ''asked''"
| "state_value ANSWERED = ''answered''"
| "state_value AWAITING_USER_REPLY = ''awaiting_user_reply''"
| "state_value EPIC_OPEN = ''epic_open''"
| "state_value EPIC_CLOSED = ''epic_closed''"

text \<open>The members in declaration order; the library's class of finite types.\<close>

instantiation State :: enum
begin

definition enum_State :: "State list" where
  "enum_State =
     [CLASSIFYING, DRAFT, HUMAN_ISSUE_APPROVAL, READY, DOCUMENTING, CODE_REVIEW, DELIVERABLE,
      HUMAN_MR_APPROVAL, IMPLEMENT_COMPLETE, WAITING_AUTO_MERGE, REBASING, FIXING_CI,
      ADDRESSING_REVIEW, DONE, CLOSED, ERRORED, BLOCKED, ASKED, ANSWERED, AWAITING_USER_REPLY,
      EPIC_OPEN, EPIC_CLOSED]"

definition enum_all_State :: "(State \<Rightarrow> bool) \<Rightarrow> bool" where
  "enum_all_State p \<longleftrightarrow> list_all p enum_class.enum"

definition enum_ex_State :: "(State \<Rightarrow> bool) \<Rightarrow> bool" where
  "enum_ex_State p \<longleftrightarrow> list_ex p enum_class.enum"

instance
proof
  show univ: "(UNIV :: State set) = set enum_class.enum"
  proof (rule UNIV_eq_I)
    fix s :: State
    show "s \<in> set enum_class.enum" by (cases s) (simp_all add: enum_State_def)
  qed
  show "distinct (enum_class.enum :: State list)"
    by (simp add: enum_State_def)
  show "enum_class.enum_all p = Ball UNIV p" for p :: "State \<Rightarrow> bool"
    by (simp add: enum_all_State_def univ list_all_iff)
  show "enum_class.enum_ex p = Bex UNIV p" for p :: "State \<Rightarrow> bool"
    by (simp add: enum_ex_State_def univ list_ex_iff)
qed

end

abbreviation all_states :: "State list" where
  "all_states \<equiv> enum_class.enum"

text \<open>\<open>State(value)\<close>: the member with that value; \<open>None\<close> is the \<open>ValueError\<close>.\<close>

definition state_of :: "string \<Rightarrow> State option" where
  "state_of v = find (\<lambda>s. state_value s = v) all_states"

definition DONE_OR_CLOSED :: "State list" where
  "DONE_OR_CLOSED = [CLOSED, DONE]"

fun TRANSITIONS :: "State \<Rightarrow> State list" where
  "TRANSITIONS CLASSIFYING =
     [DRAFT, EPIC_OPEN, CLOSED, DONE, ERRORED, BLOCKED, AWAITING_USER_REPLY]"
| "TRANSITIONS DRAFT =
     [READY, HUMAN_ISSUE_APPROVAL, ERRORED, BLOCKED, CLOSED, DONE, AWAITING_USER_REPLY, EPIC_OPEN]"
| "TRANSITIONS HUMAN_ISSUE_APPROVAL = [READY, DRAFT, ERRORED, BLOCKED]"
| "TRANSITIONS READY =
     [CODE_REVIEW, DOCUMENTING, DELIVERABLE, REBASING, ERRORED, BLOCKED, AWAITING_USER_REPLY,
      DONE, EPIC_OPEN]"
| "TRANSITIONS CODE_REVIEW = [DOCUMENTING, READY, ERRORED, BLOCKED, AWAITING_USER_REPLY]"
| "TRANSITIONS DOCUMENTING = [DELIVERABLE, ERRORED, BLOCKED, AWAITING_USER_REPLY]"
| "TRANSITIONS DELIVERABLE = [IMPLEMENT_COMPLETE, ERRORED, BLOCKED, AWAITING_USER_REPLY, DONE]"
| "TRANSITIONS IMPLEMENT_COMPLETE =
     [HUMAN_MR_APPROVAL, FIXING_CI, REBASING, WAITING_AUTO_MERGE, ADDRESSING_REVIEW, DONE, BLOCKED,
      ERRORED, AWAITING_USER_REPLY]"
| "TRANSITIONS HUMAN_MR_APPROVAL =
     [DONE, WAITING_AUTO_MERGE, IMPLEMENT_COMPLETE, REBASING, ADDRESSING_REVIEW, READY, ERRORED,
      BLOCKED, AWAITING_USER_REPLY]"
| "TRANSITIONS WAITING_AUTO_MERGE =
     [DONE, IMPLEMENT_COMPLETE, HUMAN_MR_APPROVAL, REBASING, ADDRESSING_REVIEW, ERRORED, BLOCKED,
      AWAITING_USER_REPLY]"
| "TRANSITIONS REBASING =
     [IMPLEMENT_COMPLETE, READY, WAITING_AUTO_MERGE, HUMAN_MR_APPROVAL, ERRORED, BLOCKED,
      AWAITING_USER_REPLY]"
| "TRANSITIONS FIXING_CI = [IMPLEMENT_COMPLETE, REBASING, BLOCKED, ERRORED, AWAITING_USER_REPLY]"
| "TRANSITIONS ADDRESSING_REVIEW = [HUMAN_MR_APPROVAL, BLOCKED, ERRORED, AWAITING_USER_REPLY]"
| "TRANSITIONS DONE = [CLOSED, ERRORED, BLOCKED, AWAITING_USER_REPLY, HUMAN_ISSUE_APPROVAL]"
| "TRANSITIONS CLOSED = []"
| "TRANSITIONS ASKED = [ANSWERED, ERRORED, BLOCKED, AWAITING_USER_REPLY]"
| "TRANSITIONS ANSWERED = []"
| "TRANSITIONS AWAITING_USER_REPLY = [READY, ERRORED, BLOCKED]"
| "TRANSITIONS EPIC_OPEN = [EPIC_CLOSED, BLOCKED]"
| "TRANSITIONS EPIC_CLOSED = []"
| "TRANSITIONS ERRORED = [READY, DRAFT, CLASSIFYING]"
| "TRANSITIONS BLOCKED = [READY, DRAFT, CLASSIFYING, CLOSED]"

fun STAGE_FOR_STATE :: "State \<Rightarrow> string option" where
  "STAGE_FOR_STATE CLASSIFYING = Some ''classify''"
| "STAGE_FOR_STATE DRAFT = Some ''refine''"
| "STAGE_FOR_STATE READY = Some ''implement''"
| "STAGE_FOR_STATE IMPLEMENT_COMPLETE = Some ''merge''"
| "STAGE_FOR_STATE DOCUMENTING = Some ''document''"
| "STAGE_FOR_STATE CODE_REVIEW = Some ''review''"
| "STAGE_FOR_STATE DELIVERABLE = Some ''deliver''"
| "STAGE_FOR_STATE HUMAN_MR_APPROVAL = Some ''merge''"
| "STAGE_FOR_STATE WAITING_AUTO_MERGE = Some ''merge''"
| "STAGE_FOR_STATE REBASING = Some ''merge''"
| "STAGE_FOR_STATE FIXING_CI = Some ''ci_fix''"
| "STAGE_FOR_STATE ADDRESSING_REVIEW = Some ''merge''"
| "STAGE_FOR_STATE DONE = Some ''retrospect''"
| "STAGE_FOR_STATE ASKED = Some ''answer''"
| "STAGE_FOR_STATE _ = None"

definition can_transition :: "State \<Rightarrow> State \<Rightarrow> State option \<Rightarrow> State option \<Rightarrow> bool" where
  "can_transition src dst blocked_from paused_from =
     (if dst \<in> set (TRANSITIONS src) then True
      else if src = BLOCKED \<and> blocked_from = Some dst then True
      else src = AWAITING_USER_REPLY \<and> paused_from = Some dst)"

section \<open>The texts identify the states\<close>

lemma state_of_value [simp]: "state_of (state_value s) = Some s"
  by (cases s) (simp_all add: state_of_def enum_State_def)

lemma state_value_inj [simp]: "state_value s = state_value t \<longleftrightarrow> s = t"
  by (metis option.inject state_of_value)

lemma state_of_SomeD: "state_of v = Some s \<Longrightarrow> state_value s = v"
  unfolding state_of_def by (auto simp: find_Some_iff)

lemma state_value_not_Nil [simp]: "state_value s \<noteq> []"
  by (cases s) simp_all

section \<open>The shape of the transition table\<close>

text \<open>An edge of the table, and being able to get from one state to another along edges.\<close>

inductive edge :: "State \<Rightarrow> State \<Rightarrow> bool" where
  edgeI: "d \<in> set (TRANSITIONS s) \<Longrightarrow> edge s d"

inductive_simps edge_iff: "edge s d"

definition is_final :: "State \<Rightarrow> bool" where
  "is_final s \<longleftrightarrow> TRANSITIONS s = []"

lemma is_final_iff: "is_final s \<longleftrightarrow> s \<in> {CLOSED, ANSWERED, EPIC_CLOSED}"
  by (cases s) (simp_all add: is_final_def)

lemma edge_path2: "\<lbrakk>edge a b; edge b c\<rbrakk> \<Longrightarrow> edge\<^sup>*\<^sup>* a c"
  by (meson converse_rtranclp_into_rtranclp rtranclp.rtrancl_refl)

lemma no_self_edge: "\<not> edge s s"
  by (cases s) (simp_all add: edge_iff)

lemma can_transition_cases:
  "can_transition s d bf pf \<longleftrightarrow>
     edge s d \<or> (s = BLOCKED \<and> bf = Some d) \<or> (s = AWAITING_USER_REPLY \<and> pf = Some d)"
  by (auto simp: can_transition_def edge_iff)

lemma can_transition_final: "is_final s \<Longrightarrow> \<not> can_transition s d bf pf"
  by (auto simp: can_transition_cases edge_iff is_final_iff is_final_def)

lemma can_transition_edge: "\<lbrakk>s \<noteq> BLOCKED; s \<noteq> AWAITING_USER_REPLY\<rbrakk> \<Longrightarrow>
    can_transition s d bf pf \<longleftrightarrow> d \<in> set (TRANSITIONS s)"
  by (simp add: can_transition_def)

text \<open>From every state some final state can be reached: no state is a dead end.\<close>

lemma final_or_blockable: "is_final s \<or> s = BLOCKED \<or> s = ERRORED \<or> edge s BLOCKED"
  by (cases s) (simp_all add: edge_iff is_final_iff)

lemma reaches_final: "\<exists>f. is_final f \<and> edge\<^sup>*\<^sup>* s f"
proof -
  have closed: "is_final CLOSED" "edge BLOCKED CLOSED"
    by (simp_all add: is_final_iff edge_iff)
  have errored: "edge\<^sup>*\<^sup>* ERRORED CLOSED"
    by (rule edge_path2 [of _ DRAFT]) (simp_all add: edge_iff)
  from final_or_blockable [of s] show ?thesis
    using closed errored edge_path2 [of s BLOCKED CLOSED] by blast
qed

text \<open>Every state a stage works on can be escalated, errored or paused.\<close>

lemma staged_escapes:
  "STAGE_FOR_STATE s = Some stage \<Longrightarrow>
     edge s BLOCKED \<and> edge s ERRORED \<and> edge s AWAITING_USER_REPLY"
  by (cases s) (simp_all add: edge_iff)

end
