(* ===== verification/Json.thy ===== *)
theory Json
  imports Prelude
begin

text \<open>
  The part of Python's \<open>json\<close> module the code uses: \<open>dumps\<close> with the default or the
  compact separators and \<open>loads\<close>. Ticket columns (\<open>depends_on\<close>, \<open>unblocks\<close>,
  \<open>labels\<close>, \<open>block_reason\<close>), the implement-stage artifact files and the canonical
  payload of the history hash are texts in this format. Bytes above 127 are written as they are.
  The main result is \<open>loads_dumps\<close>: what \<open>dumps\<close> writes, \<open>loads\<close> reads back.
\<close>

datatype json =
    JNull
  | JBool bool
  | JInt int
  | JFloat string
  | JStr string
  | JArr "json list"
  | JObj "(string \<times> json) list"

section \<open>Writing\<close>

abbreviation quote_c :: char where "quote_c \<equiv> CHR 0x22"
abbreviation bslash_c :: char where "bslash_c \<equiv> CHR 0x5C"

definition hex_digit :: "nat \<Rightarrow> char" where
  "hex_digit n = (if n < 10 then char_of (48 + n) else char_of (87 + n))"

definition escape_char :: "char \<Rightarrow> string" where
  "escape_char c =
     (if c = quote_c then [bslash_c, quote_c]
      else if c = bslash_c then [bslash_c, bslash_c]
      else if c = CHR 0x0A then [bslash_c, CHR ''n'']
      else if c = CHR 0x0D then [bslash_c, CHR ''r'']
      else if c = CHR 0x09 then [bslash_c, CHR ''t'']
      else if c = CHR 0x0C then [bslash_c, CHR ''f'']
      else if c = CHR 0x08 then [bslash_c, CHR ''b'']
      else if code c < 32 \<or> code c = 127 then
        [bslash_c, CHR ''u'', CHR ''0'', CHR ''0'',
         hex_digit (code c div 16), hex_digit (code c mod 16)]
      else [c])"

definition dump_str :: "string \<Rightarrow> string" where
  "dump_str s = [quote_c] @ concat (map escape_char s) @ [quote_c]"

fun dumps_with :: "string \<Rightarrow> string \<Rightarrow> json \<Rightarrow> string" where
  "dumps_with is ks JNull = ''null''"
| "dumps_with is ks (JBool b) = (if b then ''true'' else ''false'')"
| "dumps_with is ks (JInt i) = show_int i"
| "dumps_with is ks (JFloat s) = s"
| "dumps_with is ks (JStr s) = dump_str s"
| "dumps_with is ks (JArr xs) = ''['' @ join is (map (dumps_with is ks) xs) @ '']''"
| "dumps_with is ks (JObj ps) =
     ''{'' @ join is (map (\<lambda>p. dump_str (fst p) @ ks @ dumps_with is ks (snd p)) ps) @ ''}''"

definition dumps :: "json \<Rightarrow> string" where
  "dumps j = dumps_with '', '' '': '' j"

definition dumps_compact :: "json \<Rightarrow> string" where
  "dumps_compact j = dumps_with '','' '':'' j"

section \<open>Reading\<close>

definition hex_val :: "char \<Rightarrow> nat option" where
  "hex_val c =
     (if is_digit c then Some (code c - 48)
      else if 97 \<le> code c \<and> code c \<le> 102 then Some (code c - 87)
      else if 65 \<le> code c \<and> code c \<le> 70 then Some (code c - 55)
      else None)"

definition hex4 :: "string \<Rightarrow> (nat \<times> string) option" where
  "hex4 s =
     (case s of a # b # c # d # r \<Rightarrow>
        (case (hex_val a, hex_val b, hex_val c, hex_val d) of
           (Some i, Some j, Some k, Some l) \<Rightarrow> Some (4096 * i + 256 * j + 16 * k + l, r)
         | _ \<Rightarrow> None)
      | _ \<Rightarrow> None)"

definition utf8 :: "nat \<Rightarrow> string" where
  "utf8 n =
     (if n < 128 then [char_of n]
      else if n < 2048 then [char_of (192 + n div 64), char_of (128 + n mod 64)]
      else if n < 65536 then
        [char_of (224 + n div 4096), char_of (128 + n div 64 mod 64), char_of (128 + n mod 64)]
      else [char_of (240 + n div 262144), char_of (128 + n div 4096 mod 64),
            char_of (128 + n div 64 mod 64), char_of (128 + n mod 64)])"

definition simple_escape :: "char \<Rightarrow> char option" where
  "simple_escape e =
     (if e = quote_c then Some quote_c
      else if e = bslash_c then Some bslash_c
      else if e = CHR ''/'' then Some CHR ''/''
      else if e = CHR ''b'' then Some CHR 0x08
      else if e = CHR ''f'' then Some CHR 0x0C
      else if e = CHR ''n'' then Some CHR 0x0A
      else if e = CHR ''r'' then Some CHR 0x0D
      else if e = CHR ''t'' then Some CHR 0x09
      else None)"

text \<open>A low surrogate that completes the high surrogate \<open>u\<close> just read.\<close>

definition low_surrogate :: "nat \<Rightarrow> string \<Rightarrow> (string \<times> string) option" where
  "low_surrogate u r =
     (case r of
        a # b # r' \<Rightarrow>
          if a = bslash_c \<and> b = CHR ''u'' then
            (case hex4 r' of
               Some (v, r'') \<Rightarrow>
                 if 56320 \<le> v \<and> v \<le> 57343
                 then Some (utf8 (65536 + 1024 * (u - 55296) + (v - 56320)), r'')
                 else None
             | None \<Rightarrow> None)
          else None
      | _ \<Rightarrow> None)"

text \<open>One unit of a string body: the bytes it denotes and the rest of the text.\<close>

definition str_unit :: "string \<Rightarrow> (string \<times> string) option" where
  "str_unit s =
     (case s of
        [] \<Rightarrow> None
      | c # cs \<Rightarrow>
          if c = bslash_c then
            (case cs of
               [] \<Rightarrow> None
             | e # r \<Rightarrow>
                 if e = CHR ''u'' then
                   (case hex4 r of
                      None \<Rightarrow> None
                    | Some (u, r') \<Rightarrow>
                        if 55296 \<le> u \<and> u \<le> 56319 then
                          (case low_surrogate u r' of
                             Some p \<Rightarrow> Some p
                           | None \<Rightarrow> Some (utf8 u, r'))
                        else Some (utf8 u, r'))
                 else (case simple_escape e of None \<Rightarrow> None | Some d \<Rightarrow> Some ([d], r)))
          else if code c < 32 then None
          else Some ([c], cs))"

lemma hex4_length: "hex4 s = Some (n, r) \<Longrightarrow> length r < length s"
  by (auto simp: hex4_def split: list.splits option.splits)

lemma low_surrogate_length: "low_surrogate u s = Some (x, r) \<Longrightarrow> length r < length s"
  by (auto simp: low_surrogate_def split: list.splits option.splits if_splits prod.splits
           dest: hex4_length)

lemma str_unit_length: "str_unit s = Some (x, r) \<Longrightarrow> length r < length s"
  by (fastforce simp: str_unit_def split: list.splits option.splits if_splits prod.splits
           dest: hex4_length low_surrogate_length)

function parse_str :: "string \<Rightarrow> (string \<times> string) option" where
  "parse_str s =
     (case s of
        [] \<Rightarrow> None
      | c # cs \<Rightarrow>
          if c = quote_c then Some ([], cs)
          else (case str_unit s of
                  None \<Rightarrow> None
                | Some (x, r) \<Rightarrow>
                    (case parse_str r of
                       None \<Rightarrow> None
                     | Some (y, r') \<Rightarrow> Some (x @ y, r'))))"
  by pat_completeness auto
termination
  by (relation "measure length") (auto dest: str_unit_length)

declare parse_str.simps [simp del]

definition is_json_space :: "char \<Rightarrow> bool" where
  "is_json_space c \<longleftrightarrow> c = CHR 0x20 \<or> c = CHR 0x09 \<or> c = CHR 0x0A \<or> c = CHR 0x0D"

definition skip_ws :: "string \<Rightarrow> string" where
  "skip_ws s = dropWhile is_json_space s"

definition frac_part :: "string \<Rightarrow> string" where
  "frac_part s =
     (case s of
        [] \<Rightarrow> []
      | c # cs \<Rightarrow>
          if c = CHR ''.'' \<and> takeWhile is_digit cs \<noteq> [] then c # takeWhile is_digit cs else [])"

definition exp_part :: "string \<Rightarrow> string" where
  "exp_part s =
     (case s of
        [] \<Rightarrow> []
      | c # cs \<Rightarrow>
          if c = CHR ''e'' \<or> c = CHR ''E'' then
            (let sg = (case cs of d # _ \<Rightarrow> if d = CHR ''+'' \<or> d = CHR ''-'' then [d] else []
                       | [] \<Rightarrow> []);
                 ds = takeWhile is_digit (drop (length sg) cs)
             in if ds = [] then [] else c # sg @ ds)
          else [])"

definition int_part :: "string \<Rightarrow> string" where
  "int_part s =
     (let ds = takeWhile is_digit s
      in if ds \<noteq> [] \<and> hd ds = CHR ''0'' then [CHR ''0''] else ds)"

definition parse_num :: "string \<Rightarrow> (json \<times> string) option" where
  "parse_num s =
     (let neg = (s \<noteq> [] \<and> hd s = CHR ''-'');
          r = (if neg then tl s else s);
          ip = int_part r;
          r1 = drop (length ip) r;
          fp = frac_part r1;
          ep = exp_part (drop (length fp) r1);
          rest = drop (length fp + length ep) r1;
          val = int (digits_val ip)
      in if ip = [] then None
         else if fp = [] \<and> ep = [] then Some (JInt (if neg then - val else val), rest)
         else Some (JFloat ((if neg then ''-'' else []) @ ip @ fp @ ep), rest))"

definition parse_word :: "string \<Rightarrow> (json \<times> string) option" where
  "parse_word s =
     (if startswith ''null'' s then Some (JNull, drop 4 s)
      else if startswith ''true'' s then Some (JBool True, drop 4 s)
      else if startswith ''false'' s then Some (JBool False, drop 5 s)
      else if startswith ''NaN'' s then Some (JFloat ''NaN'', drop 3 s)
      else if startswith ''Infinity'' s then Some (JFloat ''Infinity'', drop 8 s)
      else if startswith ''-Infinity'' s then Some (JFloat ''-Infinity'', drop 9 s)
      else None)"

text \<open>The recursive part takes fuel: every call reads at least one character.\<close>

fun jvalue :: "nat \<Rightarrow> string \<Rightarrow> (json \<times> string) option"
  and jelems :: "nat \<Rightarrow> string \<Rightarrow> (json list \<times> string) option"
  and jpairs :: "nat \<Rightarrow> string \<Rightarrow> ((string \<times> json) list \<times> string) option" where
  "jvalue 0 s = None"
| "jvalue (Suc n) s =
     (case s of
        [] \<Rightarrow> None
      | c # cs \<Rightarrow>
          if c = quote_c then map_option (\<lambda>(x, r). (JStr x, r)) (parse_str cs)
          else if c = CHR ''['' then
            (case skip_ws cs of
               [] \<Rightarrow> None
             | d # r \<Rightarrow> if d = CHR '']'' then Some (JArr [], r)
                        else map_option (\<lambda>(xs, r'). (JArr xs, r')) (jelems n (d # r)))
          else if c = CHR ''{'' then
            (case skip_ws cs of
               [] \<Rightarrow> None
             | d # r \<Rightarrow> if d = CHR ''}'' then Some (JObj [], r)
                        else map_option (\<lambda>(ps, r'). (JObj ps, r')) (jpairs n (d # r)))
          else (case parse_num s of Some p \<Rightarrow> Some p | None \<Rightarrow> parse_word s))"
| "jelems 0 s = None"
| "jelems (Suc n) s =
     (case jvalue n s of
        None \<Rightarrow> None
      | Some (v, r) \<Rightarrow>
          (case skip_ws r of
             [] \<Rightarrow> None
           | d # r' \<Rightarrow>
               if d = CHR '']'' then Some ([v], r')
               else if d = CHR '','' then
                 map_option (\<lambda>(vs, r''). (v # vs, r'')) (jelems n (skip_ws r'))
               else None))"
| "jpairs 0 s = None"
| "jpairs (Suc n) s =
     (case s of
        [] \<Rightarrow> None
      | c # cs \<Rightarrow>
          if c \<noteq> quote_c then None
          else (case parse_str cs of
             None \<Rightarrow> None
           | Some (k, r) \<Rightarrow>
               (case skip_ws r of
                  [] \<Rightarrow> None
                | e # r1 \<Rightarrow>
                    if e \<noteq> CHR '':'' then None
                    else (case jvalue n (skip_ws r1) of
                       None \<Rightarrow> None
                     | Some (v, r2) \<Rightarrow>
                         (case skip_ws r2 of
                            [] \<Rightarrow> None
                          | d # r3 \<Rightarrow>
                              if d = CHR ''}'' then Some ([(k, v)], r3)
                              else if d = CHR '','' then
                                map_option (\<lambda>(ps, r4). ((k, v) # ps, r4)) (jpairs n (skip_ws r3))
                              else None)))))"

text \<open>\<open>json.loads\<close>: \<open>None\<close> is \<open>JSONDecodeError\<close>.\<close>

definition loads :: "string \<Rightarrow> json option" where
  "loads s =
     (case jvalue (2 * Suc (length s)) (skip_ws s) of
        Some (v, r) \<Rightarrow> if skip_ws r = [] then Some v else None
      | None \<Rightarrow> None)"

text \<open>\<open>d.get(k)\<close> of a decoded object: of repeated keys the last one counts.\<close>

definition obj_get :: "json \<Rightarrow> string \<Rightarrow> json option" where
  "obj_get j k = (case j of JObj ps \<Rightarrow> map_of (rev ps) k | _ \<Rightarrow> None)"

text \<open>\<open>bool(v)\<close> of a decoded value; a float counts as false when its digits are all zero.\<close>

definition json_true :: "json \<Rightarrow> bool" where
  "json_true v =
     (case v of
        JNull \<Rightarrow> False
      | JBool b \<Rightarrow> b
      | JInt i \<Rightarrow> i \<noteq> 0
      | JFloat s \<Rightarrow> (\<exists>c \<in> set (takeWhile (\<lambda>c. c \<noteq> CHR ''e'' \<and> c \<noteq> CHR ''E'') s).
                       c \<noteq> CHR ''0'' \<and> c \<noteq> CHR ''.'' \<and> c \<noteq> CHR ''-'')
      | JStr s \<Rightarrow> s \<noteq> []
      | JArr xs \<Rightarrow> xs \<noteq> []
      | JObj ps \<Rightarrow> ps \<noteq> [])"

section \<open>Round trip\<close>

lemma code_less [simp]: "code c < 256"
  unfolding code_def using nat_of_char_less_256 [of c] by simp

lemma char_of_code [simp]: "char_of (code c) = c"
  by (simp add: code_def)

lemma code_eq_iff: "code c = code d \<longleftrightarrow> c = d"
  by (metis char_of_code)

lemma hex_val_hex_digit [simp]: "n < 16 \<Longrightarrow> hex_val (hex_digit n) = Some n"
  by (auto simp: hex_val_def hex_digit_def is_digit_def)

lemma hex4_escape:
  "code c < 256 \<Longrightarrow> hex4 (CHR ''0'' # CHR ''0'' # hex_digit (code c div 16) # hex_digit (code c mod 16) # t)
     = Some (code c, t)"
proof -
  have "hex_val CHR ''0'' = Some 0"
    by (simp add: hex_val_def is_digit_def code_def)
  moreover have "code c div 16 < 16"
    using code_less [of c] by (simp add: div_less_iff_less_mult)
  moreover have "16 * (code c div 16) + code c mod 16 = code c"
    by simp
  ultimately show ?thesis
    by (simp add: hex4_def)
qed

lemma utf8_ascii [simp]: "code c < 128 \<Longrightarrow> utf8 (code c) = [c]"
  by (simp add: utf8_def)

lemma str_unit_escape [simp]: "str_unit (escape_char c @ t) = Some ([c], t)"
proof (cases "code c < 32 \<or> code c = 127")
  case True
  then have "code c < 128" "code c < 55296" by auto
  then show ?thesis
    using hex4_escape [of c t] True
    by (auto simp: escape_char_def str_unit_def simple_escape_def)
next
  case False
  then show ?thesis
    by (auto simp: escape_char_def str_unit_def simple_escape_def code_def)
qed

lemma escape_char_hd: "\<exists>d ds. escape_char c = d # ds \<and> d \<noteq> quote_c"
  by (auto simp: escape_char_def)

lemma parse_str_unit:
  assumes "str_unit s = Some (x, r)" "s \<noteq> []" "hd s \<noteq> quote_c"
  shows "parse_str s = (case parse_str r of None \<Rightarrow> None | Some (y, r') \<Rightarrow> Some (x @ y, r'))"
  using assms by (subst parse_str.simps) (auto split: list.splits)

lemma parse_str_escaped: "parse_str (concat (map escape_char s) @ quote_c # rest) = Some (s, rest)"
proof (induction s)
  case Nil
  show ?case by (simp add: parse_str.simps [of "quote_c # rest"])
next
  case (Cons c s)
  let ?t = "concat (map escape_char s) @ quote_c # rest"
  from escape_char_hd [of c] have ne: "escape_char c @ ?t \<noteq> []" "hd (escape_char c @ ?t) \<noteq> quote_c"
    by auto
  show ?case
    using parse_str_unit [OF str_unit_escape ne] Cons.IH by simp
qed

text \<open>
  After a number the text must not go on with a character a number could contain.
\<close>

definition num_stop :: "string \<Rightarrow> bool" where
  "num_stop r \<longleftrightarrow> r = [] \<or>
     (\<not> is_digit (hd r) \<and> hd r \<noteq> CHR ''.'' \<and> hd r \<noteq> CHR ''e'' \<and> hd r \<noteq> CHR ''E'')"

lemma num_stop_parts [simp]:
  assumes "num_stop r" shows "frac_part r = []" "exp_part r = []" "takeWhile is_digit r = []"
  using assms by (cases r; auto simp: num_stop_def frac_part_def exp_part_def)+

lemma takeWhile_show_nat [simp]:
  "num_stop r \<Longrightarrow> takeWhile is_digit (show_nat n @ r) = show_nat n"
  using show_nat_digits [of n] by (simp add: takeWhile_append2)

lemma show_nat_zero: "show_nat 0 = ''0''"
proof -
  have "digit_char 0 = CHR ''0''" by (simp add: code_eq_iff [symmetric] code_def digit_char_def)
  then show ?thesis by (simp add: show_nat.simps)
qed

lemma hd_show_nat: "0 < n \<Longrightarrow> hd (show_nat n) \<noteq> CHR ''0''"
proof (induction n rule: show_nat.induct)
  case (1 n)
  show ?case
  proof (cases "n < 10")
    case True
    have "code (digit_char n) \<noteq> code CHR ''0''"
      using True 1 by (simp add: code_def digit_char_def)
    then have "digit_char n \<noteq> CHR ''0''" by metis
    then show ?thesis using True by (subst show_nat.simps) simp
  next
    case False
    with 1 show ?thesis by (subst show_nat.simps) simp
  qed
qed

lemma int_part_show_nat [simp]: "num_stop r \<Longrightarrow> int_part (show_nat n @ r) = show_nat n"
  using hd_show_nat [of n] show_nat_zero
  by (cases "n = 0") (auto simp: int_part_def Let_def is_digit_def code_def)

lemma parse_num_show_nat:
  assumes r: "num_stop r"
  shows "parse_num (show_nat n @ r) = Some (JInt (int n), r)"
proof -
  obtain c cs where c: "show_nat n = c # cs" "is_digit c"
    using show_nat_cons by blast
  with sign_not_digit have neg: "hd (show_nat n @ r) \<noteq> CHR ''-''" by auto
  show ?thesis
    unfolding parse_num_def Let_def
    using neg r by simp
qed

lemma parse_num_minus:
  assumes r: "num_stop r"
  shows "parse_num (CHR ''-'' # show_nat n @ r) = Some (JInt (- int n), r)"
  unfolding parse_num_def Let_def
  using r by simp

lemma parse_num_show_int: "num_stop r \<Longrightarrow> parse_num (show_int i @ r) = Some (JInt i, r)"
  by (simp add: show_int_def parse_num_show_nat parse_num_minus)

lemma parse_num_word [simp]:
  "parse_num (CHR ''n'' # s) = None" "parse_num (CHR ''t'' # s) = None"
  "parse_num (CHR ''f'' # s) = None"
  by (simp_all add: parse_num_def int_part_def Let_def is_digit_def code_def)

fun no_float :: "json \<Rightarrow> bool" where
  "no_float (JFloat s) = False"
| "no_float (JArr xs) = (\<forall>x \<in> set xs. no_float x)"
| "no_float (JObj ps) = (\<forall>p \<in> set ps. no_float (snd p))"
| "no_float _ = True"

definition sep_of :: "char \<Rightarrow> string \<Rightarrow> bool" where
  "sep_of c s \<longleftrightarrow> (\<exists>w. s = c # w \<and> (\<forall>x \<in> set w. is_json_space x))"

lemma sep_ofE [elim]:
  assumes "sep_of c s" obtains w where "s = c # w" "\<forall>x \<in> set w. is_json_space x"
  using assms by (auto simp: sep_of_def)

lemma dump_str_parse:
  "dump_str s @ r = quote_c # (concat (map escape_char s) @ quote_c # r)"
  by (simp add: dump_str_def)

text \<open>A written value starts with a character that is neither white space nor a closing bracket.\<close>

definition opens :: "string \<Rightarrow> bool" where
  "opens s \<longleftrightarrow> s \<noteq> [] \<and> \<not> is_json_space (hd s) \<and> hd s \<noteq> CHR '']'' \<and> hd s \<noteq> CHR ''}''"

lemma opens_dumps: "no_float j \<Longrightarrow> opens (dumps_with is ks j)"
proof (cases j)
  case (JInt i)
  obtain c cs where c: "show_nat (nat i) = c # cs" "is_digit c"
    using show_nat_cons by blast
  then show ?thesis using JInt
    by (auto simp: opens_def show_int_def is_json_space_def is_digit_def code_def)
qed (auto simp: opens_def dump_str_def is_json_space_def)

lemma skip_ws_sep [simp]:
  "\<lbrakk>\<forall>x \<in> set w. is_json_space x; opens s\<rbrakk> \<Longrightarrow> skip_ws (w @ s @ t) = s @ t"
  by (cases s) (simp_all add: skip_ws_def opens_def)

lemma skip_ws_opens [simp]: "opens s \<Longrightarrow> skip_ws (s @ t) = s @ t"
  by (cases s) (simp_all add: skip_ws_def opens_def)

lemma skip_ws_close [simp]:
  "skip_ws (CHR '']'' # t) = CHR '']'' # t" "skip_ws (CHR ''}'' # t) = CHR ''}'' # t"
  "skip_ws (CHR '','' # t) = CHR '','' # t" "skip_ws (CHR '':'' # t) = CHR '':'' # t"
  by (simp_all add: skip_ws_def is_json_space_def)

lemma num_stop_close [simp]:
  "num_stop (CHR '']'' # t)" "num_stop (CHR ''}'' # t)" "num_stop (CHR '','' # t)" "num_stop []"
  by (simp_all add: num_stop_def is_digit_def code_def)

lemma join_cons: "xs \<noteq> [] \<Longrightarrow> join sep (x # xs) = x @ sep @ join sep xs"
  by (cases xs) simp_all

fun need :: "json \<Rightarrow> nat" where
  "need (JArr xs) = Suc (foldr (\<lambda>x n. Suc (max (need x) n)) xs 0)"
| "need (JObj ps) = Suc (foldr (\<lambda>p n. Suc (max (need (snd p)) n)) ps 0)"
| "need _ = 1"

abbreviation needs :: "json list \<Rightarrow> nat" where
  "needs xs \<equiv> foldr (\<lambda>x n. Suc (max (need x) n)) xs 0"

abbreviation needs_pairs :: "(string \<times> json) list \<Rightarrow> nat" where
  "needs_pairs ps \<equiv> foldr (\<lambda>p n. Suc (max (need (snd p)) n)) ps 0"

lemma jelems_dumps:
  assumes is_sep: "sep_of CHR '','' is"
    and "xs \<noteq> []" "\<forall>x \<in> set xs. no_float x" "needs xs \<le> n"
    and IH: "\<And>x n r. \<lbrakk>x \<in> set xs; num_stop r; need x \<le> n\<rbrakk>
             \<Longrightarrow> jvalue n (dumps_with is ks x @ r) = Some (x, r)"
  shows "jelems n (join is (map (dumps_with is ks) xs) @ CHR '']'' # r) = Some (xs, r)"
  using assms(2-)
proof (induction xs arbitrary: n)
  case (Cons x xs)
  from Cons.prems(3) obtain m where n: "n = Suc m" "need x \<le> m" "needs xs \<le> m"
    by (cases n) auto
  obtain w where w: "is = CHR '','' # w" "\<forall>c \<in> set w. is_json_space c"
    using is_sep by blast
  have x: "\<And>r. num_stop r \<Longrightarrow> jvalue m (dumps_with is ks x @ r) = Some (x, r)"
    using Cons.prems(4) n(2) by simp
  show ?case
  proof (cases "xs = []")
    case True
    with n x show ?thesis by simp
  next
    case False
    let ?rest = "join is (map (dumps_with is ks) xs)"
    have o: "opens ?rest"
      using False Cons.prems(2) opens_dumps [of "hd xs" "is" ks]
      by (cases xs; cases "tl xs") (auto simp: opens_def)
    have "jelems m (?rest @ CHR '']'' # r) = Some (xs, r)"
      using Cons.IH [OF False _ n(3)] Cons.prems(2,4) by simp
    with n x w o False show ?thesis
      by (simp add: join_cons)
  qed
qed simp

definition dump_pair :: "string \<Rightarrow> string \<Rightarrow> string \<times> json \<Rightarrow> string" where
  "dump_pair is ks p = dump_str (fst p) @ ks @ dumps_with is ks (snd p)"

lemma jpairs_dumps:
  assumes is_sep: "sep_of CHR '','' is" and ks_sep: "sep_of CHR '':'' ks"
    and "ps \<noteq> []" "\<forall>p \<in> set ps. no_float (snd p)" "needs_pairs ps \<le> n"
    and IH: "\<And>p n r. \<lbrakk>p \<in> set ps; num_stop r; need (snd p) \<le> n\<rbrakk>
             \<Longrightarrow> jvalue n (dumps_with is ks (snd p) @ r) = Some (snd p, r)"
  shows "jpairs n (join is (map (dump_pair is ks) ps) @ CHR ''}'' # r) = Some (ps, r)"
  using assms(3-)
proof (induction ps arbitrary: n)
  case (Cons p ps)
  from Cons.prems(3) obtain m where n: "n = Suc m" "need (snd p) \<le> m" "needs_pairs ps \<le> m"
    by (cases n) auto
  obtain w where w: "is = CHR '','' # w" "\<forall>c \<in> set w. is_json_space c"
    using is_sep by blast
  obtain v where v: "ks = CHR '':'' # v" "\<forall>c \<in> set v. is_json_space c"
    using ks_sep by blast
  have x: "\<And>r. num_stop r \<Longrightarrow> jvalue m (dumps_with is ks (snd p) @ r) = Some (snd p, r)"
    using Cons.prems(4) n(2) by simp
  have ov: "opens (dumps_with is ks (snd p))"
    using Cons.prems(2) opens_dumps by simp
  have isd: "\<And>t. is @ t = CHR '','' # w @ t"
    by (simp add: w)
  have dp: "\<And>t. dump_pair is ks p @ t =
      quote_c # (concat (map escape_char (fst p)) @ quote_c # (CHR '':'' # v @ dumps_with is ks (snd p) @ t))"
    by (simp add: dump_pair_def dump_str_def v)
  show ?case
  proof (cases "ps = []")
    case True
    with n x v(2) ov show ?thesis
      by (simp add: dp parse_str_escaped)
  next
    case False
    let ?rest = "join is (map (dump_pair is ks) ps)"
    have o: "opens ?rest"
      using False
      by (cases ps; cases "tl ps")
         (auto simp: opens_def dump_pair_def dump_str_def is_json_space_def)
    have "jpairs m (?rest @ CHR ''}'' # r) = Some (ps, r)"
      using Cons.IH [OF False _ n(3)] Cons.prems(2,4) by simp
    with n x w(2) v(2) o ov False show ?thesis
      by (simp add: join_cons dp isd parse_str_escaped)
  qed
qed simp

lemma jvalue_dumps:
  assumes seps: "sep_of CHR '','' is" "sep_of CHR '':'' ks"
  shows "\<lbrakk>no_float j; num_stop r; need j \<le> n\<rbrakk>
         \<Longrightarrow> jvalue n (dumps_with is ks j @ r) = Some (j, r)"
proof (induction j arbitrary: n r)
  case (JInt i)
  obtain c cs where c: "show_nat (nat i) = c # cs" "is_digit c"
    using show_nat_cons by blast
  from c(2) have "c \<noteq> quote_c" "c \<noteq> CHR ''[''" "c \<noteq> CHR ''{''"
    by (auto simp: is_digit_def code_def)
  with c obtain d ds where d: "show_int i @ r = d # ds" "d \<noteq> quote_c" "d \<noteq> CHR ''[''" "d \<noteq> CHR ''{''"
    by (cases "i < 0") (auto simp: show_int_def)
  with JInt parse_num_show_int [of r i] show ?case
    by (cases n) simp_all
next
  case (JStr s)
  then show ?case
    by (cases n) (simp_all add: dump_str_parse parse_str_escaped)
next
  case (JArr xs)
  then obtain m where n: "n = Suc m" "needs xs \<le> m" by (cases n) auto
  show ?case
  proof (cases "xs = []")
    case False
    let ?rest = "join is (map (dumps_with is ks) xs)"
    have o: "opens ?rest"
      using False JArr.prems(1) opens_dumps [of "hd xs" "is" ks]
      by (cases xs; cases "tl xs") (auto simp: opens_def)
    have "jelems m (?rest @ CHR '']'' # r) = Some (xs, r)"
      using JArr False n(2) by (intro jelems_dumps [OF seps(1)]) auto
    with n o show ?thesis
      by (cases ?rest) (auto simp: opens_def skip_ws_def)
  qed (use n in simp)
next
  case (JObj ps)
  then obtain m where n: "n = Suc m" "needs_pairs ps \<le> m" by (cases n) auto
  show ?case
  proof (cases "ps = []")
    case False
    let ?rest = "join is (map (dump_pair is ks) ps)"
    have o: "opens ?rest"
      using False
      by (cases ps; cases "tl ps")
         (auto simp: opens_def dump_pair_def dump_str_def is_json_space_def)
    have "jpairs m (?rest @ CHR ''}'' # r) = Some (ps, r)"
      using JObj False n(2) by (intro jpairs_dumps [OF seps]) (auto simp: snds.simps)
    with n o show ?thesis
      by (cases ?rest) (auto simp: opens_def skip_ws_def dump_pair_def [abs_def])
  qed (use n in simp)
next
  case JNull
  then obtain m where n: "n = Suc m" by (cases n) auto
  then show ?case by (simp add: parse_word_def startswith_def)
next
  case (JBool b)
  then obtain m where n: "n = Suc m" by (cases n) auto
  then show ?case by (cases b) (simp_all add: parse_word_def startswith_def)
qed simp

lemma dumps_not_Nil: "no_float j \<Longrightarrow> dumps_with is ks j \<noteq> []"
  using opens_dumps [of j] by (simp add: opens_def)

lemma length_join: "(\<Sum>x\<leftarrow>xs. length x) \<le> length (join sep xs)"
  by (induction sep xs rule: join.induct) auto

lemma needs_le:
  "(\<And>x. x \<in> set xs \<Longrightarrow> f x \<le> 2 * g x) \<Longrightarrow> (\<And>x. x \<in> set xs \<Longrightarrow> 0 < g x) \<Longrightarrow>
   foldr (\<lambda>x n. Suc (max (f x) n)) xs (0::nat) \<le> Suc (2 * (\<Sum>x\<leftarrow>xs. g x))"
proof (induction xs)
  case (Cons x xs)
  then have "foldr (\<lambda>x n. Suc (max (f x) n)) xs 0 \<le> Suc (2 * (\<Sum>x\<leftarrow>xs. g x))"
    "f x \<le> 2 * g x" "0 < g x" by auto
  then show ?case by simp
qed simp

lemma need_le: "no_float j \<Longrightarrow> need j \<le> 2 * length (dumps_with is ks j)"
proof (induction j)
  case (JArr xs)
  have "needs xs \<le> Suc (2 * (\<Sum>x\<leftarrow>xs. length (dumps_with is ks x)))"
    using JArr by (intro needs_le) (auto dest: dumps_not_Nil)
  moreover have "(\<Sum>x\<leftarrow>xs. length (dumps_with is ks x)) \<le> length (join is (map (dumps_with is ks) xs))"
    using length_join [of "map (dumps_with is ks) xs"] by (simp add: o_def)
  ultimately show ?case by simp
next
  case (JObj ps)
  have "needs_pairs ps \<le> Suc (2 * (\<Sum>p\<leftarrow>ps. length (dump_pair is ks p)))"
    using JObj
    by (intro needs_le) (force simp: dump_pair_def dump_str_def snds.simps)+
  moreover have "(\<Sum>p\<leftarrow>ps. length (dump_pair is ks p)) \<le> length (join is (map (dump_pair is ks) ps))"
    using length_join [of "map (dump_pair is ks) ps"] by (simp add: o_def)
  ultimately show ?case by (simp add: dump_pair_def [abs_def])
qed (auto simp: show_int_def dump_str_def Suc_le_eq)

lemma loads_dumps_with:
  assumes "sep_of CHR '','' is" "sep_of CHR '':'' ks" "no_float j"
  shows "loads (dumps_with is ks j) = Some j"
proof -
  let ?s = "dumps_with is ks j"
  have "jvalue (2 * Suc (length ?s)) (?s @ []) = Some (j, [])"
    using need_le [OF assms(3), of "is" ks] by (intro jvalue_dumps assms) simp_all
  moreover have "skip_ws ?s = ?s"
    using skip_ws_opens [OF opens_dumps [OF assms(3)], of "is" ks "[]"] by simp
  ultimately show ?thesis by (simp add: loads_def skip_ws_def)
qed

text \<open>Values without floats survive a trip through their text.\<close>

lemma loads_dumps [simp]: "no_float j \<Longrightarrow> loads (dumps j) = Some j"
  unfolding dumps_def by (rule loads_dumps_with) (auto simp: sep_of_def is_json_space_def)

lemma loads_dumps_compact [simp]: "no_float j \<Longrightarrow> loads (dumps_compact j) = Some j"
  unfolding dumps_compact_def by (rule loads_dumps_with) (auto simp: sep_of_def)

text \<open>Hence the compact text, which the history hash is taken of, determines the value.\<close>

lemma dumps_compact_inj:
  "\<lbrakk>no_float i; no_float j; dumps_compact i = dumps_compact j\<rbrakk> \<Longrightarrow> i = j"
  by (metis loads_dumps_compact option.inject)

end
