(* ===== verification/Models.thy ===== *)
theory Models
  imports States Json
begin

text \<open>
  The management-plane data model, \<open>core/models.py\<close>: ticket kinds and sources with the texts
  they are stored as, the case-tolerant enum column, the rows of the three tables (ticket, history
  event, comment), and the timezone-safe datetime column of \<open>core/datetime_utils.py\<close>.
  The lemmas are the round trips of the two column types.
\<close>

section \<open>Enumerations\<close>

datatype SourceKind =
    S_USER | S_RETROSPECT | S_AUDIT | S_SURVEY | S_AGENT | S_CI | S_HEALTH | S_CONFIG_SYNC
  | S_MEMBER_SYNC | S_TEST_GAP | S_AGENT_CHECK | S_BC_CHECK | S_DATA_DIR_GC | S_DEPENDABOT_ALERTS
  | S_COMPLETENESS_CHECK | S_COPY_PASTE | S_FORGE_PARITY | S_TRACE_HEALTH | S_TRACE_REVIEW
  | S_MODULE_CURATOR | S_ROADMAP_SYNC | S_STATE_SYNC | S_FRONTEND_SYNC | S_TRIAGE_BOILERPLATE
  | S_DOCSTRING_COVERAGE | S_MODULE_SIZE | S_MYPY_BASELINE | S_META | S_RUN_HEALTH
  | S_LANGFUSE_CLEANUP | S_CI_FIX_DEPENDENCY | S_IMPLEMENT_BASELINE_DEPENDENCY
  | S_ORPHANED_PR_CHECK | S_PERIODIC_CONFIG | S_REPO_DESCRIPTION_SYNC | S_CONFIG_STANDARD
  | S_INFRASTRUCTURE

fun source_value :: "SourceKind \<Rightarrow> string" where
  "source_value S_USER = ''user''"
| "source_value S_RETROSPECT = ''retrospect''"
| "source_value S_AUDIT = ''audit''"
| "source_value S_SURVEY = ''survey''"
| "source_value S_AGENT = ''agent''"
| "source_value S_CI = ''ci''"
| "source_value S_HEALTH = ''health''"
| "source_value S_CONFIG_SYNC = ''config_sync''"
| "source_value S_MEMBER_SYNC = ''member_sync''"
| "source_value S_TEST_GAP = ''test_gap''"
| "source_value S_AGENT_CHECK = ''agent_check''"
| "source_value S_BC_CHECK = ''bc_check''"
| "source_value S_DATA_DIR_GC = ''data_dir_gc''"
| "source_value S_DEPENDABOT_ALERTS = ''dependabot_alerts''"
| "source_value S_COMPLETENESS_CHECK = ''completeness_check''"
| "source_value S_COPY_PASTE = ''copy_paste''"
| "source_value S_FORGE_PARITY = ''forge_parity''"
| "source_value S_TRACE_HEALTH = ''trace-health''"
| "source_value S_TRACE_REVIEW = ''trace-review''"
| "source_value S_MODULE_CURATOR = ''module_curator''"
| "source_value S_ROADMAP_SYNC = ''roadmap_sync''"
| "source_value S_STATE_SYNC = ''state_sync''"
| "source_value S_FRONTEND_SYNC = ''frontend_sync''"
| "source_value S_TRIAGE_BOILERPLATE = ''triage_boilerplate''"
| "source_value S_DOCSTRING_COVERAGE = ''docstring_coverage''"
| "source_value S_MODULE_SIZE = ''module_size''"
| "source_value S_MYPY_BASELINE = ''mypy_baseline''"
| "source_value S_META = ''meta''"
| "source_value S_RUN_HEALTH = ''run-health''"
| "source_value S_LANGFUSE_CLEANUP = ''langfuse-cleanup''"
| "source_value S_CI_FIX_DEPENDENCY = ''ci_fix_dependency''"
| "source_value S_IMPLEMENT_BASELINE_DEPENDENCY = ''implement_baseline_dependency''"
| "source_value S_ORPHANED_PR_CHECK = ''orphaned_pr_check''"
| "source_value S_PERIODIC_CONFIG = ''periodic_config''"
| "source_value S_REPO_DESCRIPTION_SYNC = ''repo_description_sync''"
| "source_value S_CONFIG_STANDARD = ''config_standard''"
| "source_value S_INFRASTRUCTURE = ''infrastructure''"

datatype TicketKind = TASK | INQUIRY | EPIC

fun kind_name :: "TicketKind \<Rightarrow> string" where
  "kind_name TASK = ''TASK''"
| "kind_name INQUIRY = ''INQUIRY''"
| "kind_name EPIC = ''EPIC''"

definition kind_by_name :: "string \<Rightarrow> TicketKind option" where
  "kind_by_name n = find (\<lambda>k. kind_name k = n) [TASK, INQUIRY, EPIC]"

definition upper_char :: "char \<Rightarrow> char" where
  "upper_char c = (if is_lower c then char_of (code c - 32) else c)"

definition upper :: "string \<Rightarrow> string" where
  "upper s = map upper_char s"

text \<open>
  \<open>CaseTolerantEnum\<close> for \<open>TicketKind\<close>. What is bound is nothing, a member, or a text of
  any case; the error side is \<open>ValueError\<close> with the offending text.
\<close>

datatype bind_value = BindNone | BindMember TicketKind | BindText string

definition kind_bind_param :: "bind_value \<Rightarrow> string + string option" where
  "kind_bind_param v =
     (case v of
        BindNone \<Rightarrow> Inr None
      | BindMember k \<Rightarrow> Inr (Some (kind_name k))
      | BindText s \<Rightarrow>
          (case kind_by_name (upper s) of
             Some k \<Rightarrow> Inr (Some (kind_name k))
           | None \<Rightarrow> Inl s))"

definition kind_result_value :: "string option \<Rightarrow> string + TicketKind option" where
  "kind_result_value v =
     (case v of
        None \<Rightarrow> Inr None
      | Some s \<Rightarrow>
          (case kind_by_name (upper s) of
             Some k \<Rightarrow> Inr (Some k)
           | None \<Rightarrow> Inl s))"

lemma kind_by_name_upper_name [simp]: "kind_by_name (upper (kind_name k)) = Some k"
  by (cases k) (simp_all add: kind_by_name_def upper_def upper_char_def is_lower_def code_def)

section \<open>Datetimes\<close>

text \<open>
  A datetime is its wall-clock reading in microseconds since 1970-01-01T00:00, and the offset
  from UTC in microseconds when it is timezone-aware.
\<close>

record datetime =
  wall :: int
  tzinfo :: "int option"

definition instant_of :: "datetime \<Rightarrow> int" where
  "instant_of d = wall d - (case tzinfo d of None \<Rightarrow> 0 | Some off \<Rightarrow> off)"

text \<open>\<open>TZDateTime\<close>: the left side is the \<open>TypeError\<close> for a naive value.\<close>

definition tz_bind_param :: "datetime option \<Rightarrow> unit + datetime option" where
  "tz_bind_param v =
     (case v of
        None \<Rightarrow> Inr None
      | Some d \<Rightarrow>
          (case tzinfo d of
             None \<Rightarrow> Inl ()
           | Some off \<Rightarrow> Inr (Some \<lparr>wall = wall d - off, tzinfo = None\<rparr>)))"

definition tz_result_value :: "datetime option \<Rightarrow> datetime option" where
  "tz_result_value v = map_option (\<lambda>d. d\<lparr>tzinfo := Some 0\<rparr>) v"

definition as_utc :: "datetime \<Rightarrow> datetime" where
  "as_utc d = (if tzinfo d \<noteq> None then d else d\<lparr>tzinfo := Some 0\<rparr>)"

text \<open>
  From here on a timestamp is an aware UTC datetime, written as its instant: the number of
  microseconds since the epoch. Its two texts, \<open>isoformat()\<close> and the id stamp
  \<open>strftime("%Y%m%dT%H%M%SZ")\<close>, use the proleptic Gregorian calendar.
\<close>

type_synonym instant = int

definition civil_of_days :: "int \<Rightarrow> int \<times> int \<times> int" where
  "civil_of_days days =
     (let z = days + 719468;
          era = z div 146097;
          doe = z mod 146097;
          yoe = (doe - doe div 1460 + doe div 36524 - doe div 146096) div 365;
          doy = doe - (365 * yoe + yoe div 4 - yoe div 100);
          mp = (5 * doy + 2) div 153;
          d = doy - (153 * mp + 2) div 5 + 1;
          m = (if mp < 10 then mp + 3 else mp - 9);
          y = yoe + era * 400 + (if m \<le> 2 then 1 else 0)
      in (y, m, d))"

definition pad :: "nat \<Rightarrow> int \<Rightarrow> string" where
  "pad k n = (let s = show_int n in replicate (k - length s) (CHR ''0'') @ s)"

definition isoformat :: "instant \<Rightarrow> string" where
  "isoformat i =
     (let us = i mod 1000000; s = i div 1000000; days = s div 86400; sod = s mod 86400;
          (y, m, d) = civil_of_days days
      in pad 4 y @ ''-'' @ pad 2 m @ ''-'' @ pad 2 d @ ''T'' @
         pad 2 (sod div 3600) @ '':'' @ pad 2 (sod div 60 mod 60) @ '':'' @ pad 2 (sod mod 60) @
         (if us = 0 then [] else ''.'' @ pad 6 us) @ ''+00:00'')"

definition id_stamp :: "instant \<Rightarrow> string" where
  "id_stamp i =
     (let s = i div 1000000; days = s div 86400; sod = s mod 86400; (y, m, d) = civil_of_days days
      in pad 4 y @ pad 2 m @ pad 2 d @ ''T'' @
         pad 2 (sod div 3600) @ pad 2 (sod div 60 mod 60) @ pad 2 (sod mod 60) @ ''Z'')"

section \<open>Rows\<close>

text \<open>
  Columns that hold a state name (\<open>blocked_from\<close>, \<open>paused_from\<close>) or JSON
  (\<open>depends_on\<close>, \<open>unblocks\<close>, \<open>labels\<close>, \<open>block_reason\<close>) hold the raw
  text, as in the database.
\<close>

record Ticket =
  tid :: string
  title :: string
  tstate :: State
  kind :: TicketKind
  workspace_path :: string
  content_hash :: string
  branch :: "string option"
  parent_id :: "string option"
  source :: string
  blocked_from :: "string option"
  block_reason :: "string option"
  paused_from :: "string option"
  origin_session :: "string option"
  cost_usd :: rat
  pre_redraft_cost_usd :: rat
  pre_redraft_trace_count :: int
  review_rounds :: int
  implement_cycles :: int
  refine_passes :: int
  refine_output_hash :: string
  retry_attempt :: int
  last_transient_error :: "string option"
  next_retry_at :: "instant option"
  depends_on :: "string option"
  unblocks :: "string option"
  labels :: "string option"
  tool_calls_override :: "int option"
  board_id :: string
  priority :: bool
  created_at :: instant
  updated_at :: instant

record TicketEvent =
  ev_id :: nat
  ev_ticket :: string
  ev_state :: State
  ev_note :: "string option"
  ev_at :: instant
  ev_prev :: "string option"
  ev_hash :: string

record Comment =
  c_id :: nat
  c_ticket :: string
  c_body :: string
  c_author :: string
  c_parent :: "nat option"
  c_closed :: "instant option"
  c_created :: instant

section \<open>Round trips of the column types\<close>

lemma kind_result_after_bind:
  "kind_bind_param v = Inr s \<Longrightarrow>
     kind_result_value s =
       Inr (case v of BindNone \<Rightarrow> None | BindMember k \<Rightarrow> Some k | BindText x \<Rightarrow> kind_by_name (upper x))"
  by (auto simp: kind_bind_param_def kind_result_value_def split: bind_value.splits option.splits)

lemma tz_roundtrip:
  "\<lbrakk>tz_bind_param (Some d) = Inr s; tz_result_value s = Some d'\<rbrakk>
   \<Longrightarrow> instant_of d' = instant_of d \<and> tzinfo d' = Some 0"
  by (auto simp: tz_bind_param_def tz_result_value_def instant_of_def split: option.splits)

end
