(* ===== verification/Store.thy ===== *)
theory Store
  imports Models "HOL-Library.List_Lexorder" "HOL-Library.AList"
begin

text \<open>
  What the ticket service stands on: the errors it raises, the per-board databases
  (\<open>core/db.py\<close>), the hash-chained history events (\<open>core/service/_helpers.py\<close>),
  board discovery (\<open>core/service/_base.py\<close>) and the read-only queries
  (\<open>core/service/_queries.py\<close>).

  A board's database is its three tables as row lists. Rows are listed in the order SQLite scans
  them: insertion order, which for history and comments is the order of their ids, because a new
  id is one more than the largest in the table. A committed session is one update of the board in
  the world; an exception before the commit leaves the board as it was.
\<close>

section \<open>Errors\<close>

text \<open>
  Each constructor of the two reason types is one \<open>raise\<close> of the source, with the values its
  message shows. \<open>RecursionError\<close> is Python's own.
\<close>

datatype value_fault =
    BoardRequired
  | TicketNotFound string "string list"
  | UnsafeTicketId string
  | BadState string
  | BadSortField string
  | ParentCommentMissing nat
  | ForeignParentComment nat string "nat list"
  | CommentAmbiguous nat "string list"
  | CommentNotOnAnyBoard nat "string list"
  | OnlyTopLevel
  | ThreadAlreadyClosed
  | ThreadNotClosed
  | NotAwaitingReply State
  | NoOpenQuestion
  | NoDependsOnFor TicketKind
  | SelfDependency string
  | FilesOnMetaBoard string string "string list"
  | BoardlessCreate string string
  | ParentMissing string
  | OverrideTooSmall
  | DependencyCycle "string list"
  | TargetRequired
  | UnknownTarget string
  | SameBoard string string
  | HasChildren string
  | NotMigratable string State
  | SubtreeNotMigratable "string list"
  | WorkspaceExists string string

datatype transition_fault =
    NotAllowed State State
  | OpenQuestions State "nat list"
  | NotBlocked State
  | NoBlockedFrom
  | NotIssueApproval State
  | EmptyBody
  | NotMrApproval State
  | AlreadyTerminal State
  | NotMarkDoneable State
  | NotMerged string string
  | NotRedraftable State
  | TerminalDescription State

datatype error =
    KeyError string
  | CommentKeyError nat
  | ValueError value_fault
  | TransitionError string transition_fault
  | AmbiguousTicketId string nat
  | IntegrityError string
  | AttributeError
  | RuntimeError string
  | RecursionError

type_synonym 'a result = "error + 'a"

section \<open>Row tables\<close>

definition lookup_by :: "('r \<Rightarrow> 'k) \<Rightarrow> 'k \<Rightarrow> 'r list \<Rightarrow> 'r option" where
  "lookup_by key k rows = find (\<lambda>r. key r = k) rows"

definition replace_by :: "('r \<Rightarrow> 'k) \<Rightarrow> 'r \<Rightarrow> 'r list \<Rightarrow> 'r list" where
  "replace_by key r rows = map (\<lambda>x. if key x = key r then r else x) rows"

definition delete_by :: "('r \<Rightarrow> 'k) \<Rightarrow> 'k \<Rightarrow> 'r list \<Rightarrow> 'r list" where
  "delete_by key k rows = filter (\<lambda>x. key x \<noteq> k) rows"

definition next_id :: "('r \<Rightarrow> nat) \<Rightarrow> 'r list \<Rightarrow> nat" where
  "next_id key rows = Suc (foldr max (map key rows) 0)"

section \<open>Boards, workspaces and the world\<close>

record board_db =
  tickets :: "Ticket list"
  events :: "TicketEvent list"
  comments :: "Comment list"

definition empty_board :: board_db where
  "empty_board = \<lparr>tickets = [], events = [], comments = []\<rparr>"

text \<open>
  A workspace directory: \<open>description.md\<close> when it is there, the files of \<open>artifacts/\<close>
  by name, whether the clones \<open>repo/\<close> and \<open>repos/\<close> are there.
\<close>

record workspace_dir =
  description :: "string option"
  artifacts :: "string \<rightharpoonup> string"
  has_repo :: bool
  has_repos :: bool

definition empty_workspace :: workspace_dir where
  "empty_workspace =
     \<lparr>description = None, artifacts = Map.empty, has_repo = False, has_repos = False\<rparr>"

text \<open>
  The world: the boards with a \<open>mill.db\<close>, in the order a scan of the data directory finds
  them; the workspace directories by board and ticket; the wall clock, which stands still during
  one call; the calls made to the \<open>_on_transition\<close> callback (the ticket and its old state).
\<close>

record world =
  boards :: "(string \<times> board_db) list"
  workspaces :: "string \<times> string \<rightharpoonup> workspace_dir"
  clock :: instant
  notices :: "(Ticket \<times> string) list"

definition board :: "world \<Rightarrow> string \<Rightarrow> board_db" where
  "board w b = (case map_of (boards w) b of None \<Rightarrow> empty_board | Some d \<Rightarrow> d)"

definition put_board :: "string \<Rightarrow> board_db \<Rightarrow> world \<Rightarrow> world" where
  "put_board b d w = w\<lparr>boards := AList.update b d (boards w)\<rparr>"

section \<open>The service\<close>

text \<open>
  \<open>repos_config\<close> is the repos registry as (repo id, board id) pairs in file order, or
  \<open>None\<close> when \<open>get_repos_config()\<close> raises.
\<close>

record settings =
  data_dir :: string
  default_repo_id :: string
  repos_config :: "(string \<times> string) list option"
  max_archived_tickets :: int
  max_events_per_ticket :: int
  max_comments_per_ticket :: int
  board_hygiene_draft_ttl_days :: int
  implement_max_spawns_per_ticket :: int
  max_implement_review_cycles :: int
  ci_fix_max_identical_failures :: int
  auto_fix_max_cycles :: int
  implement_zero_diff_abort_threshold :: int
  branch_prefix :: string
  forge_target_branch :: string

text \<open>
  What the service calls outside the repository: the two digests (as hexadecimal text), the
  \<open>git\<close> program run on a clone (return code and standard output, or \<open>None\<close> when
  starting it raises), the cached \<open>origin\<close> refresh and the cost of a Langfuse session.
\<close>

record externals =
  blake2b :: "string \<Rightarrow> string"
  sha256 :: "string \<Rightarrow> string"
  git :: "string \<times> string \<Rightarrow> string list \<Rightarrow> (int \<times> string) option"
  refresh_origin_target :: "string \<times> string \<Rightarrow> string \<Rightarrow> string"
  session_cost :: "string \<Rightarrow> string option \<Rightarrow> rat"

record service =
  settings_of :: settings
  ext :: externals
  svc_board :: string
  has_callback :: bool

definition ARCHIVABLE_STATES :: "State list" where
  "ARCHIVABLE_STATES = [CLOSED, ANSWERED, EPIC_CLOSED]"

definition on_transition :: "service \<Rightarrow> Ticket \<Rightarrow> string \<Rightarrow> world \<Rightarrow> world" where
  "on_transition svc t old w =
     (if has_callback svc then w\<lparr>notices := notices w @ [(t, old)]\<rparr> else w)"

section \<open>Rows of a board\<close>

definition find_ticket :: "board_db \<Rightarrow> string \<Rightarrow> Ticket option" where
  "find_ticket d i = lookup_by tid i (tickets d)"

definition find_comment :: "board_db \<Rightarrow> nat \<Rightarrow> Comment option" where
  "find_comment d c = lookup_by c_id c (comments d)"

definition put_ticket :: "Ticket \<Rightarrow> board_db \<Rightarrow> board_db" where
  "put_ticket t d = d\<lparr>tickets := replace_by tid t (tickets d)\<rparr>"

definition insert_ticket :: "Ticket \<Rightarrow> board_db \<Rightarrow> board_db" where
  "insert_ticket t d = d\<lparr>tickets := tickets d @ [t]\<rparr>"

definition map_comments :: "(Comment \<Rightarrow> Comment) \<Rightarrow> board_db \<Rightarrow> board_db" where
  "map_comments f d = d\<lparr>comments := map f (comments d)\<rparr>"

definition filter_comments :: "(Comment \<Rightarrow> bool) \<Rightarrow> board_db \<Rightarrow> board_db" where
  "filter_comments p d = d\<lparr>comments := filter p (comments d)\<rparr>"

text \<open>Setting or clearing \<open>closed_at\<close> on the rows with the given ids.\<close>

definition set_closed :: "nat set \<Rightarrow> instant option \<Rightarrow> board_db \<Rightarrow> board_db" where
  "set_closed cs at_time d =
     map_comments (\<lambda>c. if c_id c \<in> cs then c\<lparr>c_closed := at_time\<rparr> else c) d"

text \<open>
  SQL's \<open>LIKE\<close>, which \<open>startswith\<close> and \<open>endswith\<close> of a column become:
  \<open>%\<close> stands for any text, \<open>_\<close> for any one character, and the case of ASCII letters
  does not matter.
\<close>

definition drop_char :: "string \<Rightarrow> string" where
  "drop_char s = dropWhile (\<lambda>c. 128 \<le> code c \<and> code c < 192) (tl s)"

fun sql_like :: "string \<Rightarrow> string \<Rightarrow> bool" where
  "sql_like [] s \<longleftrightarrow> s = []"
| "sql_like (p # ps) [] \<longleftrightarrow> p = CHR ''%'' \<and> sql_like ps []"
| "sql_like (p # ps) (c # cs) \<longleftrightarrow>
     (if p = CHR ''%'' then sql_like ps (c # cs) \<or> sql_like (p # ps) cs
      else if p = CHR ''_'' then sql_like ps (drop_char (c # cs))
      else lower_char p = lower_char c \<and> sql_like ps cs)"

definition sql_startswith :: "string \<Rightarrow> string \<Rightarrow> bool" where
  "sql_startswith p s \<longleftrightarrow> sql_like (p @ ''%'') s"

definition sql_endswith :: "string \<Rightarrow> string \<Rightarrow> bool" where
  "sql_endswith p s \<longleftrightarrow> sql_like (''%'' @ p) s"

text \<open>The comment a new row becomes: a fresh id, created now, open.\<close>

definition new_comment ::
    "board_db \<Rightarrow> string \<Rightarrow> string \<Rightarrow> string \<Rightarrow> nat option \<Rightarrow> instant \<Rightarrow> Comment" where
  "new_comment d i body author parent now =
     \<lparr>c_id = next_id c_id (comments d), c_ticket = i, c_body = body, c_author = author,
      c_parent = parent, c_closed = None, c_created = now\<rparr>"

definition insert_comment :: "Comment \<Rightarrow> board_db \<Rightarrow> board_db" where
  "insert_comment c d = d\<lparr>comments := comments d @ [c]\<rparr>"

definition events_of :: "board_db \<Rightarrow> string \<Rightarrow> TicketEvent list" where
  "events_of d i = filter (\<lambda>e. ev_ticket e = i) (events d)"

definition comments_of :: "board_db \<Rightarrow> string \<Rightarrow> Comment list" where
  "comments_of d i = filter (\<lambda>c. c_ticket c = i) (comments d)"

definition children_of :: "board_db \<Rightarrow> string \<Rightarrow> Ticket list" where
  "children_of d i = filter (\<lambda>t. parent_id t = Some i) (tickets d)"

section \<open>The history hash chain\<close>

fun opt_str :: "string option \<Rightarrow> json" where
  "opt_str None = JNull"
| "opt_str (Some s) = JStr s"

text \<open>\<open>_event_hash\<close>: the digest of the compact JSON object with its keys sorted.\<close>

definition event_payload ::
    "string \<Rightarrow> string \<Rightarrow> string option \<Rightarrow> string \<Rightarrow> string option \<Rightarrow> json" where
  "event_payload i st note stamp prev =
     JObj [(''at'', JStr stamp), (''note'', opt_str note), (''prev_hash'', opt_str prev),
           (''state'', JStr st), (''ticket_id'', JStr i)]"

definition event_hash ::
    "externals \<Rightarrow> string \<Rightarrow> string \<Rightarrow> string option \<Rightarrow> string \<Rightarrow> string option \<Rightarrow> string" where
  "event_hash x i st note stamp prev = blake2b x (dumps_compact (event_payload i st note stamp prev))"

definition prev_hash_for :: "board_db \<Rightarrow> string \<Rightarrow> string option" where
  "prev_hash_for d i =
     (case rev (events_of d i) of
        [] \<Rightarrow> None
      | e # _ \<Rightarrow> if ev_hash e = [] then None else Some (ev_hash e))"

definition make_event ::
    "externals \<Rightarrow> board_db \<Rightarrow> string \<Rightarrow> State \<Rightarrow> string option \<Rightarrow> instant \<Rightarrow> TicketEvent" where
  "make_event x d i st note now =
     (let prev = prev_hash_for d i
      in \<lparr>ev_id = next_id ev_id (events d), ev_ticket = i, ev_state = st, ev_note = note,
          ev_at = now, ev_prev = prev,
          ev_hash = event_hash x i (state_value st) note (isoformat now) prev\<rparr>)"

definition insert_event :: "TicketEvent \<Rightarrow> board_db \<Rightarrow> board_db" where
  "insert_event e d = d\<lparr>events := events d @ [e]\<rparr>"

text \<open>\<open>s.add(_make_event(...))\<close>.\<close>

definition add_event ::
    "externals \<Rightarrow> string \<Rightarrow> State \<Rightarrow> string option \<Rightarrow> instant \<Rightarrow> board_db \<Rightarrow> board_db" where
  "add_event x i st note now d = insert_event (make_event x d i st note now) d"

section \<open>Text helpers of the service\<close>

text \<open>
  \<open>_slug\<close>: runs of characters outside \<open>a-z0-9\<close> become one dash; at most 40 characters,
  no dash at either end, and never empty.
\<close>

definition slug_char :: "char \<Rightarrow> bool" where
  "slug_char c \<longleftrightarrow> is_lower c \<or> is_digit c"

fun sub_runs :: "bool \<Rightarrow> string \<Rightarrow> string" where
  "sub_runs gap [] = []"
| "sub_runs gap (c # cs) =
     (if slug_char c then c # sub_runs False cs
      else if gap then sub_runs True cs
      else CHR ''-'' # sub_runs True cs)"

abbreviation strip_dashes :: "string \<Rightarrow> string" where
  "strip_dashes \<equiv> strip_by (\<lambda>c. c = CHR ''-'')"

definition slug :: "string \<Rightarrow> string" where
  "slug text =
     (let s = strip_dashes (take 40 (strip_dashes (sub_runs False (lower text))))
      in if s = [] then ''ticket'' else s)"

fun json_strings :: "json list \<Rightarrow> string list option" where
  "json_strings [] = Some []"
| "json_strings (JStr s # js) = map_option (\<lambda>ss. s # ss) (json_strings js)"
| "json_strings (_ # js) = None"

definition parse_depends_on_str :: "string option \<Rightarrow> string list" where
  "parse_depends_on_str raw =
     (if \<not> truthy raw then []
      else (case loads (the raw) of
              Some (JArr js) \<Rightarrow> (case json_strings js of Some ss \<Rightarrow> ss | None \<Rightarrow> [])
            | _ \<Rightarrow> []))"

definition parse_labels :: "string option \<Rightarrow> string list" where
  "parse_labels raw =
     (if \<not> truthy raw then []
      else (case loads (the raw) of
              Some (JArr js) \<Rightarrow> (case json_strings js of Some ss \<Rightarrow> ss | None \<Rightarrow> [])
            | _ \<Rightarrow> []))"

definition parse_depends_on :: "Ticket \<Rightarrow> string list" where
  "parse_depends_on t = parse_depends_on_str (depends_on t)"

section \<open>Finding a ticket's board\<close>

text \<open>\<open>_collect_candidate_boards\<close>: bound board, registry, disk scan, default repo.\<close>

definition add_candidate :: "string \<Rightarrow> string list \<Rightarrow> string list" where
  "add_candidate b bs = (if b \<in> set bs then bs else bs @ [b])"

definition collect_candidate_boards :: "service \<Rightarrow> world \<Rightarrow> string list" where
  "collect_candidate_boards svc w =
     (let c0 = (if svc_board svc \<noteq> [] then [svc_board svc] else []);
          c1 = (case repos_config (settings_of svc) of
                  None \<Rightarrow> c0
                | Some repos \<Rightarrow>
                    fold (\<lambda>rc bs. if snd rc \<noteq> [] then add_candidate (snd rc) bs else bs) repos c0);
          c2 = fold (\<lambda>db bs. add_candidate (fst db) bs) (boards w) c1;
          d = default_repo_id (settings_of svc)
      in if d \<noteq> [] \<and> d \<notin> set c2 \<and> map_of (boards w) d \<noteq> None then c2 @ [d] else c2)"

definition resolve_board_id :: "service \<Rightarrow> Ticket \<Rightarrow> Ticket" where
  "resolve_board_id svc t =
     (if board_id t \<noteq> [] then t
      else if default_repo_id (settings_of svc) \<noteq> []
        then t\<lparr>board_id := default_repo_id (settings_of svc)\<rparr>
      else t)"

fun first_hit :: "world \<Rightarrow> string list \<Rightarrow> string \<Rightarrow> Ticket option" where
  "first_hit w [] i = None"
| "first_hit w (b # bs) i =
     (case find_ticket (board w b) i of Some t \<Rightarrow> Some t | None \<Rightarrow> first_hit w bs i)"

definition get_anywhere :: "service \<Rightarrow> string \<Rightarrow> world \<Rightarrow> Ticket option \<times> string list" where
  "get_anywhere svc i w =
     (let cs = collect_candidate_boards svc w
      in (map_option (resolve_board_id svc) (first_hit w cs i), cs))"

definition get_ticket :: "service \<Rightarrow> string \<Rightarrow> world \<Rightarrow> Ticket option" where
  "get_ticket svc i w =
     (if svc_board svc = [] then fst (get_anywhere svc i w)
      else (case find_ticket (board w (svc_board svc)) i of
              Some t \<Rightarrow> Some (resolve_board_id svc t)
            | None \<Rightarrow> fst (get_anywhere svc i w)))"

definition board_for :: "service \<Rightarrow> string \<Rightarrow> world \<Rightarrow> string result" where
  "board_for svc i w =
     (if svc_board svc \<noteq> [] \<and> find_ticket (board w (svc_board svc)) i \<noteq> None
        then Inr (svc_board svc)
      else (case get_anywhere svc i w of
              (Some t, _) \<Rightarrow> Inr (if board_id t \<noteq> [] then board_id t else svc_board svc)
            | (None, cs) \<Rightarrow>
                if svc_board svc \<noteq> [] then Inr (svc_board svc)
                else Inl (ValueError (TicketNotFound i cs))))"

text \<open>Opening a session: \<open>_db_path\<close> refuses an empty board id.\<close>

definition open_board :: "string \<Rightarrow> world \<Rightarrow> board_db result" where
  "open_board b w = (if b = [] then Inl (ValueError BoardRequired) else Inr (board w b))"

definition open_board_for :: "service \<Rightarrow> string \<Rightarrow> world \<Rightarrow> (string \<times> board_db) result" where
  "open_board_for svc i w =
     (case board_for svc i w of
        Inl e \<Rightarrow> Inl e
      | Inr b \<Rightarrow> (case open_board b w of Inl e \<Rightarrow> Inl e | Inr d \<Rightarrow> Inr (b, d)))"

text \<open>
  The opening of most operations: a session on the board of the ticket, and \<open>_get_ticket\<close>
  in it.
\<close>

definition with_ticket ::
    "service \<Rightarrow> string \<Rightarrow> (string \<Rightarrow> board_db \<Rightarrow> Ticket \<Rightarrow> 'a result \<times> world) \<Rightarrow> world \<Rightarrow>
     'a result \<times> world" where
  "with_ticket svc i k w =
     (case open_board_for svc i w of
        Inl e \<Rightarrow> (Inl e, w)
      | Inr (b, d) \<Rightarrow>
          (case find_ticket d i of
             None \<Rightarrow> (Inl (KeyError i), w)
           | Some t \<Rightarrow> k b d t))"

section \<open>Queries\<close>

definition resolve_by_suffix :: "service \<Rightarrow> string \<Rightarrow> world \<Rightarrow> string option result" where
  "resolve_by_suffix svc end_text w =
     (let matches = dedup_first (concat (map (\<lambda>b.
            map tid (filter (\<lambda>t. sql_endswith end_text (tid t)) (tickets (board w b))))
            (collect_candidate_boards svc w)))
      in case matches of
           [] \<Rightarrow> Inr None
         | [i] \<Rightarrow> Inr (Some i)
         | _ \<Rightarrow> Inl (AmbiguousTicketId end_text (length matches)))"

definition str_key :: "string \<Rightarrow> int list" where
  "str_key s = map (\<lambda>c. int (code c)) s"

definition sort_column :: "string \<Rightarrow> (Ticket \<Rightarrow> int list) option" where
  "sort_column f =
     (if f = ''created_at'' then Some (\<lambda>t. [created_at t])
      else if f = ''updated_at'' then Some (\<lambda>t. [updated_at t])
      else if f = ''title'' then Some (\<lambda>t. str_key (title t))
      else if f = ''state'' then Some (\<lambda>t. str_key (upper (state_value (tstate t))))
      else if f = ''priority'' then Some (\<lambda>t. [if priority t then 1 else 0])
      else if f = ''kind'' then Some (\<lambda>t. str_key (kind_name (kind t)))
      else None)"

text \<open>SQL's \<open>LIMIT\<close> and \<open>OFFSET\<close>: a negative limit is none, a negative offset zero.\<close>

definition window :: "int \<Rightarrow> int option \<Rightarrow> 'a list \<Rightarrow> 'a list" where
  "window off lmt xs =
     (let ys = drop (nat off) xs
      in case lmt of None \<Rightarrow> ys | Some l \<Rightarrow> if l < 0 then ys else take (nat l) ys)"

definition list_tickets ::
    "service \<Rightarrow> State option \<Rightarrow> State list \<Rightarrow> int \<Rightarrow> int option \<Rightarrow> string \<Rightarrow> instant option \<Rightarrow>
     instant option \<Rightarrow> world \<Rightarrow> Ticket list result" where
  "list_tickets svc st exclude off lmt sort_by created_after updated_after w =
     (case sort_column sort_by of
        None \<Rightarrow> Inl (ValueError (BadSortField sort_by))
      | Some col \<Rightarrow>
          (case open_board (svc_board svc) w of
             Inl e \<Rightarrow> Inl e
           | Inr d \<Rightarrow>
               Inr (map (resolve_board_id svc) (window off lmt (sort_key col (filter
                 (\<lambda>t. (st = None \<or> st = Some (tstate t))
                    \<and> tstate t \<notin> set exclude
                    \<and> (case created_after of None \<Rightarrow> True | Some a \<Rightarrow> a < created_at t)
                    \<and> (case updated_after of None \<Rightarrow> True | Some a \<Rightarrow> a < updated_at t))
                 (tickets d)))))))"

definition history ::
    "service \<Rightarrow> string \<Rightarrow> int option \<Rightarrow> int \<Rightarrow> string \<Rightarrow> world \<Rightarrow> TicketEvent list result" where
  "history svc i lmt off order w =
     (case open_board_for svc i w of
        Inl e \<Rightarrow> Inl e
      | Inr (b, d) \<Rightarrow>
          Inr (window off lmt
                (sort_key (\<lambda>e. if order = ''desc'' then - ev_at e else ev_at e) (events_of d i))))"

definition recent_proposals_for ::
    "service \<Rightarrow> string \<Rightarrow> int \<Rightarrow> world \<Rightarrow> Ticket list result" where
  "recent_proposals_for svc src lmt w =
     (case open_board (svc_board svc) w of
        Inl e \<Rightarrow> Inl e
      | Inr d \<Rightarrow> Inr (window 0 (Some lmt)
          (sort_key (\<lambda>t. - created_at t) (filter (\<lambda>t. source t = src) (tickets d)))))"

definition recent_tickets ::
    "service \<Rightarrow> int \<Rightarrow> string list option \<Rightarrow> string option \<Rightarrow> world \<Rightarrow> Ticket list result" where
  "recent_tickets svc lmt sources bid w =
     (case open_board (case bid of Some b \<Rightarrow> b | None \<Rightarrow> svc_board svc) w of
        Inl e \<Rightarrow> Inl e
      | Inr d \<Rightarrow> Inr (window 0 (Some lmt) (sort_key (\<lambda>t. - created_at t)
          (filter (\<lambda>t. case sources of None \<Rightarrow> True | Some ss \<Rightarrow> source t \<in> set ss) (tickets d)))))"

definition list_children :: "service \<Rightarrow> string \<Rightarrow> world \<Rightarrow> Ticket list result" where
  "list_children svc i w =
     (case open_board_for svc i w of Inl e \<Rightarrow> Inl e | Inr (b, d) \<Rightarrow> Inr (children_of d i))"

fun union_by_id :: "string list \<Rightarrow> Ticket list \<Rightarrow> Ticket list" where
  "union_by_id seen [] = []"
| "union_by_id seen (t # ts) =
     (if tid t \<in> set seen then union_by_id seen ts else t # union_by_id (tid t # seen) ts)"

definition list_children_across_boards :: "service \<Rightarrow> string \<Rightarrow> world \<Rightarrow> Ticket list" where
  "list_children_across_boards svc p w =
     map (resolve_board_id svc)
       (union_by_id [] (concat (map (\<lambda>b. children_of (board w b) p) (collect_candidate_boards svc w))))"

text \<open>
  \<open>_all_descendants\<close>: the queue and the visited ids of the breadth-first walk. Every round
  takes one id off the queue, and an id enters the queue only with a ticket of the board that was
  not visited before.
\<close>

definition new_children :: "board_db \<Rightarrow> string list \<Rightarrow> string \<Rightarrow> Ticket list" where
  "new_children d visited p = union_by_id visited (children_of d p)"

definition unvisited :: "board_db \<Rightarrow> string list \<Rightarrow> nat" where
  "unvisited d visited = card (set (map tid (tickets d)) - set visited)"

lemma union_by_id_subset: "set (union_by_id seen ts) \<subseteq> set ts"
  by (induction seen ts rule: union_by_id.induct) auto

lemma union_by_id_fresh: "t \<in> set (union_by_id seen ts) \<Longrightarrow> tid t \<notin> set seen"
  by (induction seen ts rule: union_by_id.induct) (auto split: if_splits)

lemma new_children_shrink:
  assumes "new_children d visited p \<noteq> []"
  shows "unvisited d (map tid (new_children d visited p) @ visited) < unvisited d visited"
proof -
  obtain c where c: "c \<in> set (new_children d visited p)"
    using assms by (cases "new_children d visited p") auto
  then have "c \<in> set (tickets d)" "tid c \<notin> set visited"
    using union_by_id_subset union_by_id_fresh
    by (fastforce simp: new_children_def children_of_def)+
  with c show ?thesis
    unfolding unvisited_def by (intro psubset_card_mono) auto
qed

function descend :: "board_db \<Rightarrow> string list \<Rightarrow> string list \<Rightarrow> Ticket list" where
  "descend d visited [] = []"
| "descend d visited (p # queue) =
     (let new = new_children d visited p
      in new @ descend d (map tid new @ visited) (queue @ map tid new))"
  by pat_completeness auto

termination descend
proof (relation "inv_image (less_than <*lex*> less_than)
                   (\<lambda>(d, visited, queue). (unvisited d visited, length queue))")
  fix d :: board_db and visited :: "string list" and p :: string
    and queue :: "string list" and new :: "Ticket list"
  assume "new = new_children d visited p"
  then show "((d, map tid new @ visited, queue @ map tid new), d, visited, p # queue)
        \<in> inv_image (less_than <*lex*> less_than)
             (\<lambda>(d, visited, queue). (unvisited d visited, length queue))"
    using new_children_shrink [of d visited p] by (cases "new = []") auto
qed (auto intro: wf_inv_image wf_lex_prod)

definition all_descendants :: "service \<Rightarrow> string \<Rightarrow> world \<Rightarrow> Ticket list result" where
  "all_descendants svc i w =
     (case open_board_for svc i w of Inl e \<Rightarrow> Inl e | Inr (b, d) \<Rightarrow> Inr (descend d [i] [i]))"

definition cumulative_cost ::
    "service \<Rightarrow> string \<Rightarrow> (string \<Rightarrow> rat) \<Rightarrow> world \<Rightarrow> rat result" where
  "cumulative_cost svc i cost_fn w =
     (case all_descendants svc i w of
        Inl e \<Rightarrow> Inl e
      | Inr ds \<Rightarrow> Inr (foldl (\<lambda>total t. total + cost_fn (tid t)) (cost_fn i) ds))"

definition unmet_dependencies :: "service \<Rightarrow> Ticket \<Rightarrow> world \<Rightarrow> string list" where
  "unmet_dependencies svc t w =
     filter (\<lambda>i. case get_ticket svc i w of
                   None \<Rightarrow> False
                 | Some dep \<Rightarrow> tid t \<notin> set (parse_depends_on dep) \<and> tstate dep \<notin> {CLOSED, DONE})
       (parse_depends_on t)"

definition list_comments :: "service \<Rightarrow> string \<Rightarrow> world \<Rightarrow> Comment list result" where
  "list_comments svc i w =
     (case open_board_for svc i w of
        Inl e \<Rightarrow> Inl e
      | Inr (b, d) \<Rightarrow>
          (case find_ticket d i of
             None \<Rightarrow> Inl (KeyError i)
           | Some _ \<Rightarrow> Inr (sort_key c_created (comments_of d i))))"

definition ask_threads :: "board_db \<Rightarrow> string \<Rightarrow> Comment list" where
  "ask_threads d i =
     filter (\<lambda>c. c_parent c = None \<and> sql_startswith ASK_USER_MARKER (c_body c)) (comments_of d i)"

definition open_ask_user_threads :: "board_db \<Rightarrow> string \<Rightarrow> Comment list" where
  "open_ask_user_threads d i = filter (\<lambda>c. c_closed c = None) (ask_threads d i)"

text \<open>The most recent open question: \<open>order_by(created_at.desc()).limit(1)\<close>.\<close>

definition latest_question :: "board_db \<Rightarrow> string \<Rightarrow> Comment option" where
  "latest_question d i =
     (case sort_key (\<lambda>c. - c_created c) (open_ask_user_threads d i) of [] \<Rightarrow> None | c # _ \<Rightarrow> Some c)"

definition pending_question :: "service \<Rightarrow> string \<Rightarrow> world \<Rightarrow> string option result" where
  "pending_question svc i w =
     (case open_board_for svc i w of
        Inl e \<Rightarrow> Inl e
      | Inr (b, d) \<Rightarrow>
          Inr (map_option
                (\<lambda>c. strip (lstrip_by (\<lambda>x. x = CHR 0x0A)
                   (if take (length ASK_USER_MARKER) (c_body c) = ASK_USER_MARKER
                    then drop (length ASK_USER_MARKER) (c_body c) else c_body c)))
                (latest_question d i)))"

end
