(* ===== verification/Board.thy ===== *)
theory Board
  imports Store
begin

text \<open>
  The laws of the row tables as an interface, interpreted on the ticket and the comment table; the
  invariants of a board, with the lemma for each primitive write that it keeps them; and the
  integrity pass over the history hash chains (\<open>agents/runners/verify_runner.py\<close>) with the
  proof that it finds exactly the broken chains.
\<close>

section \<open>Row tables\<close>

text \<open>What a client of a table with a primary key relies on.\<close>

locale row_table =
  fixes key :: "'r \<Rightarrow> 'k"
    and get :: "'k \<Rightarrow> 'r list \<Rightarrow> 'r option"
    and put :: "'r \<Rightarrow> 'r list \<Rightarrow> 'r list"
    and del :: "'k \<Rightarrow> 'r list \<Rightarrow> 'r list"
  assumes get_SomeD: "get k rs = Some r \<Longrightarrow> r \<in> set rs \<and> key r = k"
    and get_None: "get k rs = None \<longleftrightarrow> k \<notin> key ` set rs"
    and get_put: "get k (put r rs) = (if k = key r \<and> get k rs \<noteq> None then Some r else get k rs)"
    and keys_put: "map key (put r rs) = map key rs"
    and set_put: "set (put r rs) \<subseteq> insert r {x \<in> set rs. key x \<noteq> key r}"
    and get_del: "get k (del k' rs) = (if k = k' then None else get k rs)"
    and set_del: "set (del k rs) = {x \<in> set rs. key x \<noteq> k}"
    and keys_del: "map key (del k rs) = filter (\<lambda>j. j \<noteq> k) (map key rs)"
begin

lemma get_present: "r \<in> set rs \<Longrightarrow> \<exists>r'. get (key r) rs = Some r'"
  using get_None [of "key r" rs] by (cases "get (key r) rs") auto

lemma get_unique:
  assumes d: "distinct (map key rs)" and r: "r \<in> set rs"
  shows "get (key r) rs = Some r"
proof -
  obtain r' where r': "get (key r) rs = Some r'" using get_present [OF r] by blast
  then have "r' \<in> set rs" "key r' = key r" using get_SomeD by auto
  with d r have "r' = r" by (auto simp: distinct_map dest: inj_onD)
  with r' show ?thesis by simp
qed

lemma get_put_same: "get (key r) rs \<noteq> None \<Longrightarrow> get (key r) (put r rs) = Some r"
  by (simp add: get_put)

lemma get_put_other: "k \<noteq> key r \<Longrightarrow> get k (put r rs) = get k rs"
  by (simp add: get_put)

lemma distinct_put: "distinct (map key rs) \<Longrightarrow> distinct (map key (put r rs))"
  by (simp add: keys_put)

lemma distinct_del: "distinct (map key rs) \<Longrightarrow> distinct (map key (del k rs))"
  by (simp add: keys_del)

lemma set_put_mem: "x \<in> set (put r rs) \<Longrightarrow> x = r \<or> (x \<in> set rs \<and> key x \<noteq> key r)"
  using set_put by fastforce

lemma sorted_put: "sorted_wrt ord (map key rs) \<Longrightarrow> sorted_wrt ord (map key (put r rs))"
  by (simp add: keys_put)

lemma key_image_put: "key ` set (put r rs) = key ` set rs"
  using keys_put [of r rs] by (metis list.set_map)

lemma put_absent: "get (key r) rs = None \<Longrightarrow> key r \<notin> key ` set (put r rs)"
  by (simp add: key_image_put get_None)

end

lemma lookup_by_SomeD: "lookup_by key k rs = Some r \<Longrightarrow> r \<in> set rs \<and> key r = k"
  by (auto simp: lookup_by_def find_Some_iff)

lemma lookup_by_None: "lookup_by key k rs = None \<longleftrightarrow> k \<notin> key ` set rs"
  by (auto simp: lookup_by_def find_None_iff)

lemma lookup_replace_by:
  "lookup_by key k (replace_by key r rs) =
     (if k = key r \<and> lookup_by key k rs \<noteq> None then Some r else lookup_by key k rs)"
  by (induction rs) (auto simp: lookup_by_def replace_by_def)

lemma keys_replace_by: "map key (replace_by key r rs) = map key rs"
  by (auto simp: replace_by_def)

lemma lookup_delete_by: "lookup_by key k (delete_by key k' rs) = (if k = k' then None else lookup_by key k rs)"
  by (induction rs) (auto simp: lookup_by_def delete_by_def)

lemma keys_delete_by: "map key (delete_by key k rs) = filter (\<lambda>j. j \<noteq> k) (map key rs)"
  by (induction rs) (auto simp: delete_by_def)

lemma set_replace_by: "set (replace_by key r rs) \<subseteq> insert r {x \<in> set rs. key x \<noteq> key r}"
  by (auto simp: replace_by_def)

lemma set_delete_by: "set (delete_by key k rs) = {x \<in> set rs. key x \<noteq> k}"
  by (auto simp: delete_by_def)

lemma row_table_laws: "row_table key (lookup_by key) (replace_by key) (delete_by key)"
  by unfold_locales
    (rule lookup_by_SomeD lookup_by_None lookup_replace_by keys_replace_by
       lookup_delete_by keys_delete_by set_replace_by set_delete_by, assumption?)+

interpretation ticket_rows: row_table tid "lookup_by tid" "replace_by tid" "delete_by tid"
  by (rule row_table_laws)

interpretation comment_rows: row_table c_id "lookup_by c_id" "replace_by c_id" "delete_by c_id"
  by (rule row_table_laws)

text \<open>A fresh id is larger than every id of the table.\<close>

lemma less_next_id: "r \<in> set rows \<Longrightarrow> key r < next_id key rows"
  unfolding next_id_def by (induction rows) (auto simp: less_Suc_eq_le le_max_iff_disj)

lemma sorted_wrt_snoc: "sorted_wrt (<) (xs @ [x]) \<longleftrightarrow> sorted_wrt (<) xs \<and> (\<forall>y \<in> set xs. y < x)"
  by (simp add: sorted_wrt_append)

section \<open>The invariants of a board\<close>

text \<open>
  \<open>rows_ok\<close>: primary keys are unique and ids grow. \<open>links_ok\<close>: in the history of each
  ticket every event points at the hash of the event before it, the first at nothing.
  \<open>agrees\<close>: every ticket has a history and its last event names the state the ticket is in.
  \<open>no_orphans\<close>: every event and comment belongs to a ticket of the board.
  \<open>sealed\<close>: the stored hash of every event is the hash of its contents.
\<close>

definition hash_of :: "TicketEvent \<Rightarrow> string option" where
  "hash_of e = (if ev_hash e = [] then None else Some (ev_hash e))"

fun chain_from :: "string option \<Rightarrow> TicketEvent list \<Rightarrow> bool" where
  "chain_from p [] \<longleftrightarrow> True"
| "chain_from p (e # es) \<longleftrightarrow> ev_prev e = p \<and> chain_from (hash_of e) es"

definition computed_hash :: "externals \<Rightarrow> TicketEvent \<Rightarrow> string" where
  "computed_hash x e =
     event_hash x (ev_ticket e) (state_value (ev_state e)) (ev_note e) (isoformat (ev_at e)) (ev_prev e)"

definition ids :: "board_db \<Rightarrow> string set" where
  "ids d = tid ` set (tickets d)"

definition rows_ok :: "board_db \<Rightarrow> bool" where
  "rows_ok d \<longleftrightarrow>
     distinct (map tid (tickets d)) \<and>
     sorted_wrt (<) (map ev_id (events d)) \<and> sorted_wrt (<) (map c_id (comments d))"

definition links_ok :: "board_db \<Rightarrow> bool" where
  "links_ok d \<longleftrightarrow> (\<forall>i \<in> ev_ticket ` set (events d). chain_from None (events_of d i))"

definition agrees :: "board_db \<Rightarrow> bool" where
  "agrees d \<longleftrightarrow>
     (\<forall>t \<in> set (tickets d).
        events_of d (tid t) \<noteq> [] \<and> ev_state (last (events_of d (tid t))) = tstate t)"

definition no_orphans :: "board_db \<Rightarrow> bool" where
  "no_orphans d \<longleftrightarrow>
     (\<forall>e \<in> set (events d). ev_ticket e \<in> ids d) \<and> (\<forall>c \<in> set (comments d). c_ticket c \<in> ids d)"

definition sealed :: "externals \<Rightarrow> board_db \<Rightarrow> bool" where
  "sealed x d \<longleftrightarrow> (\<forall>e \<in> set (events d). ev_hash e = computed_hash x e)"

definition wf_board :: "board_db \<Rightarrow> bool" where
  "wf_board d \<longleftrightarrow> rows_ok d \<and> links_ok d \<and> agrees d \<and> no_orphans d"

definition intact :: "externals \<Rightarrow> board_db \<Rightarrow> bool" where
  "intact x d \<longleftrightarrow> wf_board d \<and> sealed x d"

text \<open>A property of every board of the world and its name.\<close>

definition all_boards :: "(string \<Rightarrow> board_db \<Rightarrow> bool) \<Rightarrow> world \<Rightarrow> bool" where
  "all_boards B w \<longleftrightarrow> (\<forall>p \<in> set (boards w). B (fst p) (snd p))"

definition wf_world :: "world \<Rightarrow> bool" where
  "wf_world w \<longleftrightarrow> all_boards (\<lambda>b. wf_board) w"

definition intact_world :: "externals \<Rightarrow> world \<Rightarrow> bool" where
  "intact_world x w \<longleftrightarrow> all_boards (\<lambda>b. intact x) w"

text \<open>
  \<open>homed\<close>: every board has a name and every row carries the name of its board, which is what
  creation and migration stamp on it.
\<close>

definition homed :: "world \<Rightarrow> bool" where
  "homed w \<longleftrightarrow> all_boards (\<lambda>b d. b \<noteq> [] \<and> (\<forall>t \<in> set (tickets d). board_id t = b)) w"

subsection \<open>Boards in the world\<close>

lemma board_put [simp]: "board (put_board b d w) b' = (if b' = b then d else board w b')"
  by (simp add: board_def put_board_def update_conv')

lemma put_board_fields [simp]:
  "workspaces (put_board b d w) = workspaces w" "clock (put_board b d w) = clock w"
  "notices (put_board b d w) = notices w"
  by (simp_all add: put_board_def)

lemma set_update_subset: "set (AList.update k v al) \<subseteq> insert (k, v) (set al)"
  by (induction al) auto

lemma wf_empty_board [simp]: "wf_board empty_board" "sealed x empty_board"
  by (simp_all add: wf_board_def rows_ok_def links_ok_def agrees_def no_orphans_def sealed_def
      empty_board_def)

lemma all_boards_board: "\<lbrakk>all_boards B w; B b empty_board\<rbrakk> \<Longrightarrow> B b (board w b)"
  by (auto simp: all_boards_def board_def split: option.split dest!: map_of_SomeD)

lemma all_boards_put: "\<lbrakk>all_boards B w; B b d\<rbrakk> \<Longrightarrow> all_boards B (put_board b d w)"
  using set_update_subset by (fastforce simp: all_boards_def put_board_def)

lemma all_boards_cong [simp]:
  "all_boards B (w\<lparr>workspaces := ws\<rparr>) = all_boards B w"
  "all_boards B (w\<lparr>notices := ns\<rparr>) = all_boards B w"
  by (simp_all add: all_boards_def)

lemma wf_world_board: "wf_world w \<Longrightarrow> wf_board (board w b)"
  unfolding wf_world_def by (erule all_boards_board) simp

lemma intact_world_board: "intact_world x w \<Longrightarrow> intact x (board w b)"
  unfolding intact_world_def by (erule all_boards_board) (simp add: intact_def)

lemma board_cong [simp]:
  "board (w\<lparr>workspaces := ws\<rparr>) = board w" "board (w\<lparr>notices := ns\<rparr>) = board w"
  by (simp_all add: board_def fun_eq_iff)

lemma on_transition_fields [simp]:
  "boards (on_transition svc t old w) = boards w" "workspaces (on_transition svc t old w) = workspaces w"
  "clock (on_transition svc t old w) = clock w" "board (on_transition svc t old w) = board w"
  "all_boards B (on_transition svc t old w) = all_boards B w"
  by (simp_all add: on_transition_def)

subsection \<open>The primitive writes\<close>

lemma find_ticket_SomeD: "find_ticket d i = Some t \<Longrightarrow> t \<in> set (tickets d) \<and> tid t = i"
  by (simp add: find_ticket_def ticket_rows.get_SomeD)

lemma find_ticket_ids: "find_ticket d i = None \<longleftrightarrow> i \<notin> ids d"
  by (simp add: find_ticket_def ids_def ticket_rows.get_None)

lemma ids_present: "find_ticket d i = Some t \<Longrightarrow> i \<in> ids d"
  using find_ticket_ids [of d i] by simp

lemma find_ticket_unique: "\<lbrakk>rows_ok d; t \<in> set (tickets d)\<rbrakk> \<Longrightarrow> find_ticket d (tid t) = Some t"
  by (simp add: find_ticket_def rows_ok_def ticket_rows.get_unique)

lemma put_ticket_fields [simp]:
  "events (put_ticket t d) = events d" "comments (put_ticket t d) = comments d"
  "events_of (put_ticket t d) = events_of d" "comments_of (put_ticket t d) = comments_of d"
  "ids (put_ticket t d) = ids d"
  "map tid (tickets (put_ticket t d)) = map tid (tickets d)"
  by (simp_all add: put_ticket_def events_of_def comments_of_def fun_eq_iff ids_def
      ticket_rows.key_image_put ticket_rows.keys_put)

lemma find_put_ticket [simp]:
  "find_ticket (put_ticket t d) i =
     (if i = tid t \<and> find_ticket d i \<noteq> None then Some t else find_ticket d i)"
  by (auto simp add: find_ticket_def put_ticket_def ticket_rows.get_put)

lemma map_comments_fields [simp]:
  "tickets (map_comments f d) = tickets d" "events (map_comments f d) = events d"
  "events_of (map_comments f d) = events_of d" "ids (map_comments f d) = ids d"
  "find_ticket (map_comments f d) = find_ticket d"
  "comments (map_comments f d) = map f (comments d)"
  by (simp_all add: map_comments_def events_of_def fun_eq_iff ids_def find_ticket_def)

lemma filter_comments_fields [simp]:
  "tickets (filter_comments p d) = tickets d" "events (filter_comments p d) = events d"
  "events_of (filter_comments p d) = events_of d" "ids (filter_comments p d) = ids d"
  "find_ticket (filter_comments p d) = find_ticket d"
  "comments (filter_comments p d) = filter p (comments d)"
  by (simp_all add: filter_comments_def events_of_def fun_eq_iff ids_def find_ticket_def)

lemma sorted_wrt_map_filter:
  "sorted_wrt r (map f xs) \<Longrightarrow> sorted_wrt r (map f (filter p xs))"
  by (induction xs) auto

lemma insert_comment_fields [simp]:
  "tickets (insert_comment c d) = tickets d" "events (insert_comment c d) = events d"
  "events_of (insert_comment c d) = events_of d" "ids (insert_comment c d) = ids d"
  "find_ticket (insert_comment c d) = find_ticket d"
  by (simp_all add: insert_comment_def events_of_def fun_eq_iff ids_def find_ticket_def)

lemma add_event_fields [simp]:
  "tickets (add_event x i st note now d) = tickets d"
  "comments (add_event x i st note now d) = comments d"
  "comments_of (add_event x i st note now d) = comments_of d"
  "find_ticket (add_event x i st note now d) = find_ticket d"
  "ids (add_event x i st note now d) = ids d"
  "events (add_event x i st note now d) = events d @ [make_event x d i st note now]"
  by (simp_all add: add_event_def insert_event_def fun_eq_iff find_ticket_def ids_def comments_of_def)

lemma make_event_fields [simp]:
  "ev_ticket (make_event x d i st note now) = i" "ev_state (make_event x d i st note now) = st"
  "ev_note (make_event x d i st note now) = note" "ev_at (make_event x d i st note now) = now"
  "ev_prev (make_event x d i st note now) = prev_hash_for d i"
  "ev_id (make_event x d i st note now) = next_id ev_id (events d)"
  by (simp_all add: make_event_def Let_def)

lemma events_of_add_event [simp]:
  "events_of (add_event x i st note now d) j =
     events_of d j @ (if j = i then [make_event x d i st note now] else [])"
  by (simp add: events_of_def)

lemma make_event_sealed: "ev_hash (make_event x d i st note now) = computed_hash x (make_event x d i st note now)"
  by (simp add: computed_hash_def) (simp add: make_event_def Let_def)

lemma chain_from_snoc:
  "chain_from p (es @ [e]) \<longleftrightarrow>
     chain_from p es \<and> ev_prev e = (if es = [] then p else hash_of (last es))"
  by (induction es arbitrary: p) auto

lemma prev_hash_for_last:
  "prev_hash_for d i = (if events_of d i = [] then None else hash_of (last (events_of d i)))"
  by (cases "events_of d i" rule: rev_cases) (auto simp: prev_hash_for_def hash_of_def)

lemma links_okD: "links_ok d \<Longrightarrow> chain_from None (events_of d i)"
proof (cases "i \<in> ev_ticket ` set (events d)")
  case False
  then have "events_of d i = []" by (auto simp: events_of_def filter_empty_conv)
  then show ?thesis by simp
next
  case True
  assume "links_ok d"
  with True show ?thesis by (simp only: links_ok_def)
qed

lemma links_okI: "(\<And>i. chain_from None (events_of d i)) \<Longrightarrow> links_ok d"
  by (simp add: links_ok_def)

lemma links_ok_add_event: "links_ok d \<Longrightarrow> links_ok (add_event x i st note now d)"
  by (rule links_okI) (auto simp: chain_from_snoc prev_hash_for_last links_okD)

lemma sealed_add_event [inv_intros]: "sealed x d \<Longrightarrow> sealed x (add_event x i st note now d)"
  by (auto simp: sealed_def make_event_sealed)

lemma rows_ok_add_event: "rows_ok d \<Longrightarrow> rows_ok (add_event x i st note now d)"
  by (auto simp: rows_ok_def sorted_wrt_append intro: less_next_id)

lemma tickets_put_mem:
  assumes "t' \<in> set (tickets (put_ticket t d))"
  shows "t' = t \<or> (t' \<in> set (tickets d) \<and> tid t' \<noteq> tid t)"
  using ticket_rows.set_put_mem [of t' t "tickets d"] assms by (simp add: put_ticket_def)

lemma agreesD:
  "\<lbrakk>agrees d; u \<in> set (tickets d)\<rbrakk>
   \<Longrightarrow> events_of d (tid u) \<noteq> [] \<and> ev_state (last (events_of d (tid u))) = tstate u"
  by (simp add: agrees_def)

lemma agreesI:
  "(\<And>u. u \<in> set (tickets d) \<Longrightarrow>
      events_of d (tid u) \<noteq> [] \<and> ev_state (last (events_of d (tid u))) = tstate u) \<Longrightarrow> agrees d"
  by (simp add: agrees_def)

text \<open>
  The write every state change ends with: the row with its new state, then the event for it. The
  invariant survives whatever else of the row changed.
\<close>

lemma wf_record [inv_intros]:
  assumes wf: "wf_board d" and found: "find_ticket d i = Some t0"
    and t: "tid t = i" "tstate t = st"
  shows "wf_board (add_event x i st note now (put_ticket t d))"
proof -
  have i: "i \<in> ids d" using found by (rule ids_present)
  have ev: "events_of d (tid u) \<noteq> [] \<and> ev_state (last (events_of d (tid u))) = tstate u"
    if "u \<in> set (tickets d)" for u
    using wf that by (simp add: wf_board_def agrees_def)
  have "agrees (add_event x i st note now (put_ticket t d))"
    unfolding agrees_def
  proof
    fix u assume "u \<in> set (tickets (add_event x i st note now (put_ticket t d)))"
    then have "u = t \<or> (u \<in> set (tickets d) \<and> tid u \<noteq> i)"
      using t tickets_put_mem [of u t d] by simp
    then show "events_of (add_event x i st note now (put_ticket t d)) (tid u) \<noteq> [] \<and>
          ev_state (last (events_of (add_event x i st note now (put_ticket t d)) (tid u))) = tstate u"
    proof
      assume "u = t" then show ?thesis using t by simp
    next
      assume "u \<in> set (tickets d) \<and> tid u \<noteq> i" then show ?thesis using ev [of u] by simp
    qed
  qed
  moreover have "rows_ok (put_ticket t d)"
    using wf by (simp add: wf_board_def rows_ok_def)
  moreover have "links_ok (put_ticket t d)"
    using wf by (simp add: wf_board_def links_ok_def)
  ultimately show ?thesis
    using wf i by (auto simp: wf_board_def no_orphans_def rows_ok_add_event links_ok_add_event)
qed

text \<open>A row update that leaves the state alone needs no event.\<close>

lemma wf_put_ticket [inv_intros]:
  assumes wf: "wf_board d" and found: "find_ticket d i = Some t0"
    and t: "tid t = i" "tstate t = tstate t0"
  shows "wf_board (put_ticket t d)"
proof -
  have t0: "t0 \<in> set (tickets d)" "tid t0 = i" using find_ticket_SomeD [OF found] by auto
  have ag: "agrees d" using wf by (simp add: wf_board_def)
  have "agrees (put_ticket t d)"
  proof (rule agreesI)
    fix u assume "u \<in> set (tickets (put_ticket t d))"
    then have "u = t \<or> u \<in> set (tickets d)" using tickets_put_mem by blast
    then show "events_of (put_ticket t d) (tid u) \<noteq> [] \<and>
        ev_state (last (events_of (put_ticket t d) (tid u))) = tstate u"
      using agreesD [OF ag, of u] agreesD [OF ag t0(1)] t t0(2) by auto
  qed
  moreover have "links_ok (put_ticket t d)"
    using wf by (simp add: wf_board_def links_ok_def)
  ultimately show ?thesis
    using wf by (simp add: wf_board_def no_orphans_def rows_ok_def)
qed

text \<open>An event that repeats the state the ticket is in.\<close>

lemma wf_add_step_event [inv_intros]:
  assumes wf: "wf_board d" and found: "find_ticket d i = Some t"
  shows "wf_board (add_event x i (tstate t) note now d)"
proof -
  have t: "t \<in> set (tickets d)" "tid t = i" using find_ticket_SomeD [OF found] by auto
  have same: "u = t" if "u \<in> set (tickets d)" "tid u = i" for u
    using wf that t find_ticket_unique [of d u] found by (auto simp: wf_board_def)
  have "agrees (add_event x i (tstate t) note now d)"
    using wf same by (fastforce simp: wf_board_def agrees_def)
  with wf show ?thesis
    using ids_present [OF found]
    by (auto simp: wf_board_def no_orphans_def rows_ok_add_event links_ok_add_event)
qed

lemma wf_insert_comment [inv_intros]:
  assumes "wf_board d" "find_ticket d i = Some t" "c_ticket c = i" "c_id c = next_id c_id (comments d)"
  shows "wf_board (insert_comment c d)"
proof -
  have "rows_ok (insert_comment c d)"
    using assms by (auto simp: wf_board_def rows_ok_def insert_comment_def sorted_wrt_append
        intro: less_next_id)
  moreover have "no_orphans (insert_comment c d)"
    using assms ids_present [of d i] by (auto simp: wf_board_def no_orphans_def insert_comment_def ids_def)
  moreover have "links_ok (insert_comment c d) \<longleftrightarrow> links_ok d" "agrees (insert_comment c d) \<longleftrightarrow> agrees d"
    by (simp_all add: links_ok_def agrees_def)
  ultimately show ?thesis using assms by (simp add: wf_board_def)
qed

lemma new_comment_fields [simp]:
  "c_ticket (new_comment d i body author parent now) = i"
  "c_id (new_comment d i body author parent now) = next_id c_id (comments d)"
  "c_body (new_comment d i body author parent now) = body"
  "c_author (new_comment d i body author parent now) = author"
  "c_parent (new_comment d i body author parent now) = parent"
  "c_closed (new_comment d i body author parent now) = None"
  "c_created (new_comment d i body author parent now) = now"
  by (simp_all add: new_comment_def)

lemma wf_map_comments [inv_intros]:
  assumes wf: "wf_board d" and f: "\<And>c. c_id (f c) = c_id c" "\<And>c. c_ticket (f c) = c_ticket c"
  shows "wf_board (map_comments f d)"
proof -
  have "c_id \<circ> f = c_id"
    using f by (simp add: fun_eq_iff)
  then have "rows_ok (map_comments f d) \<longleftrightarrow> rows_ok d"
    by (simp add: rows_ok_def)
  moreover have "no_orphans (map_comments f d) \<longleftrightarrow> no_orphans d"
    using f by (simp add: no_orphans_def)
  moreover have "links_ok (map_comments f d) \<longleftrightarrow> links_ok d" "agrees (map_comments f d) \<longleftrightarrow> agrees d"
    by (simp_all add: links_ok_def agrees_def)
  ultimately show ?thesis using wf by (simp add: wf_board_def)
qed

lemma wf_filter_comments [inv_intros]:
  assumes wf: "wf_board d"
  shows "wf_board (filter_comments p d)"
proof -
  have "rows_ok (filter_comments p d)"
    using wf by (simp add: wf_board_def rows_ok_def sorted_wrt_map_filter)
  moreover have "no_orphans (filter_comments p d)"
    using wf by (simp add: wf_board_def no_orphans_def)
  moreover have "links_ok (filter_comments p d) \<longleftrightarrow> links_ok d"
    "agrees (filter_comments p d) \<longleftrightarrow> agrees d"
    by (simp_all add: links_ok_def agrees_def)
  ultimately show ?thesis using wf by (simp add: wf_board_def)
qed

lemma sealed_frame [simp]:
  "sealed x (put_ticket t d) = sealed x d" "sealed x (map_comments f d) = sealed x d"
  "sealed x (filter_comments p d) = sealed x d"
  "sealed x (insert_comment c d) = sealed x d"
  by (simp_all add: sealed_def)

section \<open>The integrity pass\<close>

text \<open>
  \<open>run_verify_pass\<close>: per board, the events grouped by ticket; an event with an empty hash is
  skipped, every other is re-hashed and its link compared. A break is the event id, the ticket and
  the field that is wrong.
\<close>

type_synonym chain_break = "nat \<times> string \<times> string"

fun verify_chain :: "externals \<Rightarrow> string option \<Rightarrow> TicketEvent list \<Rightarrow> chain_break list" where
  "verify_chain x expected [] = []"
| "verify_chain x expected (e # es) =
     (if ev_hash e = [] then verify_chain x None es
      else
        (if computed_hash x e \<noteq> ev_hash e \<or> ev_prev e \<noteq> expected
         then [(ev_id e, ev_ticket e,
                if computed_hash x e \<noteq> ev_hash e then ''hash'' else ''prev_hash'')]
         else [])
        @ verify_chain x (Some (ev_hash e)) es)"

record verify_result =
  total_events :: nat
  tickets_verified :: nat
  breaks :: "chain_break list"

definition verify_board ::
    "externals \<Rightarrow> string option \<Rightarrow> board_db \<Rightarrow> verify_result \<Rightarrow> verify_result" where
  "verify_board x only d r =
     (let evs = filter (\<lambda>e. case only of None \<Rightarrow> True | Some i \<Rightarrow> ev_ticket e = i) (events d);
          chains = map (\<lambda>i. filter (\<lambda>e. ev_ticket e = i) evs) (dedup_first (map ev_ticket evs));
          found = map (verify_chain x None) chains
      in \<lparr>total_events = total_events r + length evs,
          tickets_verified = tickets_verified r + length (filter (\<lambda>bs. bs = []) found),
          breaks = breaks r @ concat found\<rparr>)"

definition verify_boards :: "settings \<Rightarrow> world \<Rightarrow> string list" where
  "verify_boards st w =
     dedup_first ((case repos_config st of None \<Rightarrow> [] | Some repos \<Rightarrow> map snd repos) @ map fst (boards w))"

definition run_verify_pass ::
    "externals \<Rightarrow> settings \<Rightarrow> string option \<Rightarrow> world \<Rightarrow> verify_result" where
  "run_verify_pass x st only w =
     fold (\<lambda>b r. verify_board x only (board w b) r) (verify_boards st w)
       \<lparr>total_events = 0, tickets_verified = 0, breaks = []\<rparr>"

lemma verify_chain_clean:
  "\<lbrakk>chain_from p es; \<forall>e \<in> set es. ev_hash e = computed_hash x e\<rbrakk> \<Longrightarrow> verify_chain x p es = []"
  by (induction x p es rule: verify_chain.induct) (auto simp: hash_of_def)

lemma verify_chain_complete:
  "\<lbrakk>verify_chain x p es = []; \<forall>e \<in> set es. ev_hash e \<noteq> []\<rbrakk>
   \<Longrightarrow> chain_from p es \<and> (\<forall>e \<in> set es. ev_hash e = computed_hash x e)"
proof (induction es arbitrary: p)
  case (Cons e es)
  have ne: "ev_hash e \<noteq> []" using Cons.prems(2) by simp
  have e: "ev_hash e = computed_hash x e" "ev_prev e = p" and
    rest: "verify_chain x (Some (ev_hash e)) es = []"
    using Cons.prems(1) ne by (simp_all split: if_split_asm)
  show ?case
    using Cons.IH [OF rest] Cons.prems(2) e ne by (simp add: hash_of_def)
qed simp

lemma breaks_fold:
  "breaks (fold (\<lambda>b r. verify_board x only (board w b) r) bs r) =
     breaks r @ concat (map (\<lambda>b. breaks (verify_board x only (board w b)
        \<lparr>total_events = 0, tickets_verified = 0, breaks = []\<rparr>)) bs)"
  by (induction bs arbitrary: r) (simp_all add: verify_board_def Let_def)

lemma verify_board_breaks:
  "breaks (verify_board x None d \<lparr>total_events = 0, tickets_verified = 0, breaks = []\<rparr>) = [] \<longleftrightarrow>
     (\<forall>i. verify_chain x None (events_of d i) = [])"
proof -
  have "verify_chain x None (events_of d i) = []" if "i \<notin> ev_ticket ` set (events d)" for i
  proof -
    have "events_of d i = []" using that by (auto simp: events_of_def filter_empty_conv)
    then show ?thesis by simp
  qed
  then have "(\<forall>i. verify_chain x None (events_of d i) = []) \<longleftrightarrow>
      (\<forall>i \<in> ev_ticket ` set (events d). verify_chain x None (events_of d i) = [])"
    by blast
  then show ?thesis
    by (simp add: verify_board_def Let_def events_of_def)
qed

lemma run_verify_pass_breaks:
  "breaks (run_verify_pass x st None w) = [] \<longleftrightarrow>
     (\<forall>b \<in> set (verify_boards st w). \<forall>i. verify_chain x None (events_of (board w b) i) = [])"
  by (auto simp: run_verify_pass_def breaks_fold verify_board_breaks)

end
