(* ===== verification/Workspace.thy ===== *)
theory Workspace
  imports Board
begin

text \<open>
  The per-ticket workspace, \<open>core/workspace.py\<close>, and the files of its \<open>artifacts/\<close>
  directory that decide whether the implement stage may run again: the spawn counter and its
  exhaustion marker, the CI guard counters, the zero-diff counter, the stall state and the
  spec-fingerprint override. The routines that reset them on a resume are the module-level helpers
  of \<open>core/service/_transition_mixin.py\<close> and \<open>stages/implement/_shared.py\<close>.
  A file that cannot be read or written (an \<open>OSError\<close>) is not modelled.
\<close>

type_synonym files = "string \<rightharpoonup> string"

section \<open>The directory\<close>

text \<open>\<open>Path(ticket_id).name == ticket_id\<close>, not a dot name, and below the root.\<close>

definition safe_id :: "string \<Rightarrow> bool" where
  "safe_id i \<longleftrightarrow> i \<noteq> [] \<and> CHR ''/'' \<notin> set i \<and> i \<noteq> ''.'' \<and> i \<noteq> ''..''"

definition ws_dir :: "world \<Rightarrow> string \<times> string \<Rightarrow> workspace_dir" where
  "ws_dir w k = (case workspaces w k of None \<Rightarrow> empty_workspace | Some d \<Rightarrow> d)"

definition put_ws :: "string \<times> string \<Rightarrow> workspace_dir \<Rightarrow> world \<Rightarrow> world" where
  "put_ws k d w = w\<lparr>workspaces := (workspaces w)(k \<mapsto> d)\<rparr>"

text \<open>\<open>Workspace(workspaces_dir_for(board), id)\<close> creates the directory.\<close>

definition make_workspace ::
    "string \<Rightarrow> string \<Rightarrow> world \<Rightarrow> (string \<times> string) result \<times> world" where
  "make_workspace b i w =
     (if b = [] then (Inl (ValueError BoardRequired), w)
      else if \<not> safe_id i then (Inl (ValueError (UnsafeTicketId i)), w)
      else (Inr (b, i), put_ws (b, i) (ws_dir w (b, i)) w))"

definition open_workspace ::
    "service \<Rightarrow> Ticket \<Rightarrow> world \<Rightarrow> (string \<times> string) result \<times> world" where
  "open_workspace svc t w =
     make_workspace (if board_id t \<noteq> [] then board_id t else svc_board svc) (tid t) w"

text \<open>\<open>Path.read_text\<close> turns every line ending into a newline.\<close>

fun read_text :: "string \<Rightarrow> string" where
  "read_text [] = []"
| "read_text [c] = (if c = CHR 0x0D then nl else [c])"
| "read_text (c # d # cs) =
     (if c = CHR 0x0D then CHR 0x0A # (if d = CHR 0x0A then read_text cs else read_text (d # cs))
      else c # read_text (d # cs))"

definition read_description :: "workspace_dir \<Rightarrow> string" where
  "read_description d = (case description d of None \<Rightarrow> [] | Some text \<Rightarrow> read_text text)"

definition content_hash_of :: "externals \<Rightarrow> workspace_dir \<Rightarrow> string" where
  "content_hash_of x d = (case description d of None \<Rightarrow> [] | Some text \<Rightarrow> sha256 x text)"

text \<open>The new directory and the hash \<open>write_description\<close> returns.\<close>

definition write_description :: "externals \<Rightarrow> string \<Rightarrow> workspace_dir \<Rightarrow> workspace_dir \<times> string" where
  "write_description x text d =
     (let d' = d\<lparr>description := Some text\<rparr> in (d', content_hash_of x d'))"

definition prune_clone :: "workspace_dir \<Rightarrow> workspace_dir" where
  "prune_clone d = d\<lparr>has_repo := False\<rparr>"

definition unlink :: "string \<Rightarrow> files \<Rightarrow> files" where
  "unlink name a = a(name := None)"

definition edit_artifacts :: "string \<times> string \<Rightarrow> (files \<Rightarrow> files) \<Rightarrow> world \<Rightarrow> world" where
  "edit_artifacts k f w =
     (let d = ws_dir w k in put_ws k (d\<lparr>artifacts := f (artifacts d)\<rparr>) w)"

section \<open>Counters and the exhaustion marker\<close>

definition read_counter :: "string option \<Rightarrow> int" where
  "read_counter file =
     (case file of
        None \<Rightarrow> 0
      | Some text \<Rightarrow> (case py_int (strip (read_text text)) of None \<Rightarrow> 0 | Some n \<Rightarrow> n))"

definition write_counter :: "string \<Rightarrow> int \<Rightarrow> files \<Rightarrow> files" where
  "write_counter name n a = a(name \<mapsto> show_int n)"

definition SPAWN_EXHAUSTION_MARKER :: string where
  "SPAWN_EXHAUSTION_MARKER = ''implement_spawn_exhausted.json''"

text \<open>
  \<open>str(v)\<close> and \<open>int(v)\<close> of a decoded value. The text of a float or a container is written
  as JSON: no caller compares it with anything it could equal. \<open>int\<close> truncates a float;
  \<open>None\<close> stands for its \<open>TypeError\<close> or \<open>ValueError\<close>.
\<close>

definition py_str :: "json \<Rightarrow> string" where
  "py_str v =
     (case v of
        JNull \<Rightarrow> ''None''
      | JBool b \<Rightarrow> (if b then ''True'' else ''False'')
      | JStr s \<Rightarrow> s
      | _ \<Rightarrow> dumps v)"

definition trunc_float :: "string \<Rightarrow> int" where
  "trunc_float s =
     (let neg = startswith ''-'' s;
          body = (if neg then drop 1 s else s);
          whole = takeWhile is_digit body;
          r1 = drop (length whole) body;
          frac = (if startswith ''.'' r1 then takeWhile is_digit (drop 1 r1) else []);
          expo = drop 1 (dropWhile (\<lambda>c. c \<noteq> CHR ''e'' \<and> c \<noteq> CHR ''E'') r1);
          e = (case py_int expo of None \<Rightarrow> 0 | Some n \<Rightarrow> n) - int (length frac);
          m = int (digits_val (whole @ frac));
          v = (if 0 \<le> e then m * 10 ^ nat e else m div 10 ^ nat (- e))
      in if neg then - v else v)"

definition int_of_json :: "json \<Rightarrow> int option" where
  "int_of_json v =
     (case v of
        JInt i \<Rightarrow> Some i
      | JBool b \<Rightarrow> Some (if b then 1 else 0)
      | JStr s \<Rightarrow> py_int s
      | JFloat s \<Rightarrow> Some (trunc_float s)
      | _ \<Rightarrow> None)"

text \<open>A decoded value that is no object has no \<open>get\<close>: \<open>AttributeError\<close>.\<close>

definition dict_get :: "json \<Rightarrow> string \<Rightarrow> json \<Rightarrow> json result" where
  "dict_get j k dflt =
     (case j of
        JObj ps \<Rightarrow> Inr (case obj_get j k of None \<Rightarrow> dflt | Some v \<Rightarrow> v)
      | _ \<Rightarrow> Inl AttributeError)"

definition read_spawn_exhaustion_marker :: "files \<Rightarrow> (string \<times> int) option result" where
  "read_spawn_exhaustion_marker a =
     (case a SPAWN_EXHAUSTION_MARKER of
        None \<Rightarrow> Inr None
      | Some text \<Rightarrow>
          (case loads (read_text text) of
             None \<Rightarrow> Inr None
           | Some data \<Rightarrow>
               (case dict_get data ''spec_fp'' (JStr []) of
                  Inl e \<Rightarrow> Inl e
                | Inr fp \<Rightarrow>
                    (let spec_fp = strip (py_str fp)
                     in case dict_get data ''count'' (JInt 0) of
                          Inl e \<Rightarrow> Inl e
                        | Inr c \<Rightarrow>
                            (case int_of_json c of
                               None \<Rightarrow> Inr None
                             | Some count \<Rightarrow>
                                 Inr (if spec_fp = [] \<or> count < 1 then None
                                      else Some (spec_fp, count)))))))"

definition record_spawn_exhaustion_marker :: "string \<Rightarrow> int \<Rightarrow> files \<Rightarrow> files" where
  "record_spawn_exhaustion_marker spec_fp count a =
     a(SPAWN_EXHAUSTION_MARKER \<mapsto>
         dumps (JObj [(''spec_fp'', JStr spec_fp), (''count'', JInt count)]))"

definition clear_spawn_exhaustion_marker :: "files \<Rightarrow> files" where
  "clear_spawn_exhaustion_marker a = unlink SPAWN_EXHAUSTION_MARKER a"

section \<open>Guards of the implement and the merge stage\<close>

definition reset_implement_spawn_counter :: "files \<Rightarrow> files" where
  "reset_implement_spawn_counter a =
     unlink ''implement_spawn_aborts.jsonl''
       (unlink ''implement_spawn_state.json''
         (clear_spawn_exhaustion_marker (unlink ''implement_spawn_count'' a)))"

text \<open>
  The loop over the two (file, ceiling) pairs; the labels of the counters that were reset, in
  order, and then the fingerprint the first of them compares against.
\<close>

fun reset_tripped :: "(string \<times> int) list \<Rightarrow> files \<Rightarrow> string list \<times> files" where
  "reset_tripped [] a = ([], a)"
| "reset_tripped ((fname, cap) # cs) a =
     (if cap \<le> 0 then reset_tripped cs a
      else if read_counter (a fname) < cap then reset_tripped cs a
      else (let (labels, a') = reset_tripped cs (unlink fname a) in (fname # labels, a')))"

definition reset_tripped_ci_fix_guards :: "settings \<Rightarrow> files \<Rightarrow> string list \<times> files" where
  "reset_tripped_ci_fix_guards st a =
     (let (reset, a1) = reset_tripped
            [(''ci_identical_failure_count.txt'', ci_fix_max_identical_failures st),
             (''auto_fix_cycles.txt'', auto_fix_max_cycles st)] a
      in (reset,
          if ''ci_identical_failure_count.txt'' \<in> set reset
          then unlink ''ci_failure_fingerprint.txt'' a1 else a1))"

definition persist_spec_fingerprint_override :: "files \<Rightarrow> files" where
  "persist_spec_fingerprint_override a =
     (case a ''implement.md'' of
        None \<Rightarrow> a
      | Some md \<Rightarrow>
          (case find (startswith ''spec-fingerprint: '') (splitlines (read_text md)) of
             None \<Rightarrow> a
           | Some line \<Rightarrow>
               (let spec_fp = strip (drop (length ''spec-fingerprint: '') line)
                in if spec_fp \<noteq> [] then a(''implement_spec_override'' \<mapsto> spec_fp) else a)))"

text \<open>The scan of \<open>implement.md\<close>: the last fingerprint and the last stall count win.\<close>

fun scan_stall :: "string \<Rightarrow> int \<Rightarrow> string list \<Rightarrow> string \<times> int" where
  "scan_stall fp n [] = (fp, n)"
| "scan_stall fp n (line # ls) =
     (if startswith ''summary-fingerprint: '' line
        then scan_stall (strip (drop (length ''summary-fingerprint: '') line)) n ls
      else if startswith ''stall-count: '' line
        then scan_stall fp
          (case py_int (strip (drop (length ''stall-count: '') line)) of None \<Rightarrow> 0 | Some k \<Rightarrow> k) ls
      else scan_stall fp n ls)"

text \<open>Reading a JSON file that may be absent or malformed, as the empty object then.\<close>

definition read_json :: "string option \<Rightarrow> json" where
  "read_json file =
     (case file of
        None \<Rightarrow> JObj []
      | Some text \<Rightarrow> (case loads (read_text text) of None \<Rightarrow> JObj [] | Some j \<Rightarrow> j))"

text \<open>\<open>prev[k] = v\<close> on a decoded object: a repeated key keeps its first place, last value.\<close>

definition dict_set :: "json \<Rightarrow> string \<Rightarrow> json \<Rightarrow> json" where
  "dict_set j k v =
     (case j of
        JObj ps \<Rightarrow>
          JObj (AList.update k v
            (map (\<lambda>n. (n, the (map_of (rev ps) n))) (dedup_first (map fst ps))))
      | _ \<Rightarrow> j)"

definition STALL_STATE :: string where
  "STALL_STATE = ''implement_stall_state.json''"

definition stall_json :: "string \<Rightarrow> int \<Rightarrow> json \<Rightarrow> json" where
  "stall_json fp n resume_fp =
     JObj [(''summary_fingerprint'', JStr fp), (''stall_count'', JInt n),
           (''resume_fingerprint'', resume_fp)]"

definition persist_stall_state_from_implement_md :: "bool \<Rightarrow> files \<Rightarrow> files result" where
  "persist_stall_state_from_implement_md reset_count a =
     (let md = (case a ''implement.md'' of None \<Rightarrow> [] | Some text \<Rightarrow> read_text text)
      in if md = [] then
           (if reset_count \<and> a STALL_STATE \<noteq> None then
              (let prev = read_json (a STALL_STATE)
               in case dict_get prev ''stall_count'' JNull of
                    Inl e \<Rightarrow> Inl e
                  | Inr n \<Rightarrow>
                      Inr (if json_true n
                           then a(STALL_STATE \<mapsto> dumps (dict_set prev ''stall_count'' (JInt 0)))
                           else a))
            else Inr a)
         else
           (let (summary_fp, count) = scan_stall [] 0 (splitlines md)
            in case (if reset_count then Inr (JStr summary_fp)
                     else if a STALL_STATE \<noteq> None
                       then dict_get (read_json (a STALL_STATE)) ''resume_fingerprint'' (JStr [])
                     else Inr (JStr [])) of
                 Inl e \<Rightarrow> Inl e
               | Inr resume_fp \<Rightarrow>
                   (let stall_count = (if reset_count then 0 else count)
                    in Inr (if summary_fp \<noteq> [] \<or> stall_count \<noteq> 0 \<or> reset_count
                            then a(STALL_STATE \<mapsto> dumps (stall_json summary_fp stall_count resume_fp))
                            else a))))"

definition clear_stale_implement_guard :: "bool \<Rightarrow> files \<Rightarrow> files result" where
  "clear_stale_implement_guard reset_stall a =
     (case persist_stall_state_from_implement_md reset_stall a of
        Inl e \<Rightarrow> Inl e
      | Inr a1 \<Rightarrow> Inr (unlink ''implement.md'' (persist_spec_fingerprint_override a1)))"

definition ZERO_DIFF_COUNT_FILENAME :: string where
  "ZERO_DIFF_COUNT_FILENAME = ''implement_zero_diff_count''"

definition ZERO_DIFF_PAUSE_FILENAME :: string where
  "ZERO_DIFF_PAUSE_FILENAME = ''implement_zero_diff_paused''"

definition read_zero_diff_count :: "files \<Rightarrow> int" where
  "read_zero_diff_count a = read_counter (a ZERO_DIFF_COUNT_FILENAME)"

definition write_zero_diff_count :: "int \<Rightarrow> files \<Rightarrow> files" where
  "write_zero_diff_count n a = a(ZERO_DIFF_COUNT_FILENAME \<mapsto> show_int n)"

definition clear_conversation_state :: "string \<Rightarrow> files \<Rightarrow> files" where
  "clear_conversation_state stage a = unlink (stage @ ''_conversation_state.json'') a"

section \<open>Laws\<close>

lemma ws_dir_put [simp]: "ws_dir (put_ws k d w) k' = (if k' = k then d else ws_dir w k')"
  by (simp add: ws_dir_def put_ws_def)

lemma put_ws_fields [simp]:
  "boards (put_ws k d w) = boards w" "clock (put_ws k d w) = clock w"
  "notices (put_ws k d w) = notices w" "board (put_ws k d w) = board w"
  "all_boards B (put_ws k d w) = all_boards B w"
  by (simp_all add: put_ws_def)

lemma edit_artifacts_fields [simp]:
  "boards (edit_artifacts k f w) = boards w" "clock (edit_artifacts k f w) = clock w"
  "notices (edit_artifacts k f w) = notices w" "board (edit_artifacts k f w) = board w"
  "all_boards B (edit_artifacts k f w) = all_boards B w"
  by (simp_all add: edit_artifacts_def Let_def)

lemma artifacts_edit [simp]:
  "artifacts (ws_dir (edit_artifacts k f w) k') =
     (if k' = k then f (artifacts (ws_dir w k)) else artifacts (ws_dir w k'))"
  by (simp add: edit_artifacts_def Let_def)

lemma make_workspace_fields [simp]:
  "boards (snd (make_workspace b i w)) = boards w" "clock (snd (make_workspace b i w)) = clock w"
  "notices (snd (make_workspace b i w)) = notices w" "board (snd (make_workspace b i w)) = board w"
  "all_boards B (snd (make_workspace b i w)) = all_boards B w"
  "ws_dir (snd (make_workspace b i w)) = ws_dir w"
  by (simp_all add: make_workspace_def fun_eq_iff)

lemma open_workspace_fields [simp]:
  "boards (snd (open_workspace svc t w)) = boards w" "clock (snd (open_workspace svc t w)) = clock w"
  "notices (snd (open_workspace svc t w)) = notices w" "board (snd (open_workspace svc t w)) = board w"
  "ws_dir (snd (open_workspace svc t w)) = ws_dir w"
  by (simp_all add: open_workspace_def)

lemma make_workspace_Inr: "make_workspace b i w = (Inr k, w') \<Longrightarrow> k = (b, i) \<and> b \<noteq> [] \<and> safe_id i"
  by (auto simp: make_workspace_def split: if_splits)

text \<open>What \<open>write_counter\<close> stores, \<open>read_counter\<close> reads back.\<close>

lemma read_text_no_cr: "CHR 0x0D \<notin> set s \<Longrightarrow> read_text s = s"
  by (induction s rule: read_text.induct) auto

lemma show_int_no_cr: "CHR 0x0D \<notin> set (show_int i)"
  using show_int_no_space [of i] by (auto simp: is_space_def code_def)

lemma read_counter_show [simp]: "read_counter (Some (show_int n)) = n"
  by (simp add: read_counter_def read_text_no_cr show_int_no_cr)

lemma counter_roundtrip: "read_counter (write_counter name n a name) = n"
  by (simp add: write_counter_def)

text \<open>The text \<open>dumps\<close> writes has no carriage return, so reading the file back changes nothing.\<close>

lemma read_counter_None [simp]: "read_counter None = 0"
  by (simp add: read_counter_def)

lemma unlink_apply [simp]: "unlink n a m = (if m = n then None else a m)"
  by (simp add: unlink_def)

text \<open>
  After a reset no counter is at its ceiling, and a counter below its ceiling is as it was.
\<close>

lemma reset_tripped_other: "f \<notin> fst ` set cs \<Longrightarrow> snd (reset_tripped cs a) f = a f"
  by (induction cs a rule: reset_tripped.induct) (auto split: prod.split)

lemma reset_tripped_sound:
  "\<lbrakk>(f, c) \<in> set cs; distinct (map fst cs)\<rbrakk> \<Longrightarrow>
     snd (reset_tripped cs a) f = (if 0 < c \<and> c \<le> read_counter (a f) then None else a f) \<and>
     (f \<in> set (fst (reset_tripped cs a)) \<longleftrightarrow> 0 < c \<and> c \<le> read_counter (a f))"
proof (induction cs a rule: reset_tripped.induct)
  case (2 g d cs a)
  have other: "h \<notin> fst ` set cs \<Longrightarrow> h \<notin> set (fst (reset_tripped cs b))" for h b
    by (induction cs b rule: reset_tripped.induct) (auto split: prod.split)
  show ?case
  proof (cases "(f, c) = (g, d)")
    case True
    with 2 have "g \<notin> fst ` set cs" by simp
    with True show ?thesis
      using reset_tripped_other [of g cs] other [of g]
      by (auto simp: case_prod_beta Let_def)
  next
    case False
    then have mem: "(f, c) \<in> set cs" and dist: "distinct (map fst cs)" and ne: "f \<noteq> g"
      using 2 by force+
    have keep: "unlink g a f = a f" using ne by simp
    show ?thesis
      using "2.IH"(1) [OF _ mem dist] "2.IH"(2) [OF _ _ mem dist] "2.IH"(3) [OF _ _ mem dist] ne
      unfolding keep by (auto simp: case_prod_beta Let_def simp del: unlink_apply)
  qed
qed simp

end
