(* ===== verification/Purge.thy ===== *)
theory Purge
  imports Workspace
begin

text \<open>
  Deleting a ticket (\<open>core/service/_delete_mixin.py\<close>) and the archive purge every move into
  an archivable state runs (\<open>_has_active_child\<close> of \<open>_create_mixin.py\<close>,
  \<open>_maybe_purge_archived\<close> of \<open>_maintenance_mixin.py\<close>). The lemmas: both keep the
  invariants of every board; the purge only ever removes finished tickets without active children
  from the bound board, the oldest first, and stops at the cap.
\<close>

section \<open>Deletion\<close>

definition bulk_delete_ticket_rows :: "string \<Rightarrow> board_db \<Rightarrow> board_db" where
  "bulk_delete_ticket_rows i d =
     d\<lparr>events := filter (\<lambda>e. ev_ticket e \<noteq> i) (events d),
       comments := filter (\<lambda>c. c_ticket c \<noteq> i) (comments d)\<rparr>"

definition remove_ticket :: "string \<Rightarrow> board_db \<Rightarrow> board_db" where
  "remove_ticket i d = d\<lparr>tickets := delete_by tid i (tickets d)\<rparr>"

definition remove_ws :: "string \<times> string \<Rightarrow> world \<Rightarrow> world" where
  "remove_ws k w = w\<lparr>workspaces := (workspaces w)(k := None)\<rparr>"

definition delete_ticket :: "service \<Rightarrow> string \<Rightarrow> world \<Rightarrow> bool result \<times> world" where
  "delete_ticket svc i w =
     (case open_board_for svc i w of
        Inl e \<Rightarrow> (Inl e, w)
      | Inr (b, d) \<Rightarrow>
          (case find_ticket d i of
             None \<Rightarrow> (Inr False, w)
           | Some _ \<Rightarrow>
               (Inr True,
                remove_ws (b, i)
                  (put_board b (remove_ticket i (bulk_delete_ticket_rows i d)) w))))"

section \<open>The archive purge\<close>

definition archivable :: "Ticket \<Rightarrow> bool" where
  "archivable t \<longleftrightarrow> tstate t \<in> set ARCHIVABLE_STATES"

definition active_child :: "board_db \<Rightarrow> string \<Rightarrow> bool" where
  "active_child d i \<longleftrightarrow> (\<exists>t \<in> set (tickets d). parent_id t = Some i \<and> \<not> archivable t)"

definition has_active_child :: "service \<Rightarrow> string \<Rightarrow> world \<Rightarrow> bool" where
  "has_active_child svc i w \<longleftrightarrow> active_child (board w (svc_board svc)) i"

fun purge_oldest :: "service \<Rightarrow> nat \<Rightarrow> Ticket list \<Rightarrow> world \<Rightarrow> unit result \<times> world" where
  "purge_oldest svc excess [] w = (Inr (), w)"
| "purge_oldest svc 0 (t # ts) w = (Inr (), w)"
| "purge_oldest svc (Suc k) (t # ts) w =
     (if has_active_child svc (tid t) w then purge_oldest svc (Suc k) ts w
      else (case delete_ticket svc (tid t) w of
              (Inl e, w1) \<Rightarrow> (Inl e, w1)
            | (Inr _, w1) \<Rightarrow> purge_oldest svc k ts w1))"

definition archived_tickets :: "board_db \<Rightarrow> Ticket list" where
  "archived_tickets d = filter archivable (tickets d)"

definition maybe_purge_archived :: "service \<Rightarrow> world \<Rightarrow> unit result \<times> world" where
  "maybe_purge_archived svc w =
     (let cap = max_archived_tickets (settings_of svc)
      in if cap \<le> 0 then (Inr (), w)
         else (case open_board (svc_board svc) w of
                 Inl e \<Rightarrow> (Inl e, w)
               | Inr d \<Rightarrow>
                   (let candidates = sort_key created_at (archived_tickets d)
                    in if int (length candidates) \<le> cap then (Inr (), w)
                       else purge_oldest svc (nat (int (length candidates) - cap)) candidates w)))"

section \<open>Laws of deletion\<close>

lemma remove_ws_fields [simp]:
  "boards (remove_ws k w) = boards w" "clock (remove_ws k w) = clock w"
  "notices (remove_ws k w) = notices w" "board (remove_ws k w) = board w"
  "all_boards B (remove_ws k w) = all_boards B w"
  by (simp_all add: remove_ws_def)

abbreviation drop_all :: "string \<Rightarrow> board_db \<Rightarrow> board_db" where
  "drop_all i d \<equiv> remove_ticket i (bulk_delete_ticket_rows i d)"

lemma drop_all_fields [simp]:
  "tickets (drop_all i d) = delete_by tid i (tickets d)"
  "events (drop_all i d) = filter (\<lambda>e. ev_ticket e \<noteq> i) (events d)"
  "comments (drop_all i d) = filter (\<lambda>c. c_ticket c \<noteq> i) (comments d)"
  "find_ticket (drop_all i d) j = (if j = i then None else find_ticket d j)"
  "ids (drop_all i d) = ids d - {i}"
  by (auto simp: remove_ticket_def bulk_delete_ticket_rows_def find_ticket_def ids_def
      ticket_rows.get_del ticket_rows.set_del)

lemma events_of_drop_all [simp]:
  "events_of (drop_all i d) j = (if j = i then [] else events_of d j)"
  by (auto simp: events_of_def filter_empty_conv intro: filter_cong)

lemma wf_drop_all [inv_intros]: "wf_board d \<Longrightarrow> wf_board (drop_all i d)"
proof -
  assume wf: "wf_board d"
  then have r: "rows_ok d" and l: "links_ok d" and a: "agrees d" and o: "no_orphans d"
    by (simp_all add: wf_board_def)
  have "rows_ok (drop_all i d)"
    using r by (simp add: rows_ok_def sorted_wrt_map_filter ticket_rows.distinct_del)
  moreover have "links_ok (drop_all i d)"
    by (rule links_okI) (simp add: links_okD [OF l])
  moreover have "agrees (drop_all i d)"
    using agreesD [OF a] by (intro agreesI) (simp add: ticket_rows.set_del)
  moreover have "no_orphans (drop_all i d)"
    using o by (simp add: no_orphans_def)
  ultimately show ?thesis by (simp add: wf_board_def)
qed

lemma sealed_drop_all [inv_intros]: "sealed x d \<Longrightarrow> sealed x (drop_all i d)"
  by (simp add: sealed_def)

lemma delete_fields [simp]:
  "clock (snd (delete_ticket svc i w)) = clock w" "notices (snd (delete_ticket svc i w)) = notices w"
  by (auto simp: delete_ticket_def split: sum.split option.split)

lemma purge_fields [simp]:
  "clock (snd (purge_oldest svc k ts w)) = clock w" "notices (snd (purge_oldest svc k ts w)) = notices w"
  by (induction svc k ts w rule: purge_oldest.induct)
    (auto split: prod.split sum.split simp flip: prod.collapse dest!: arg_cong [of _ _ snd])

lemma maybe_purge_fields [simp]:
  "clock (snd (maybe_purge_archived svc w)) = clock w"
  "notices (snd (maybe_purge_archived svc w)) = notices w"
  by (auto simp: maybe_purge_archived_def Let_def split: sum.split)

section \<open>What the purge removes\<close>

text \<open>On a bound service every candidate row is on the bound board, so deleting it cannot fail.\<close>

lemma delete_bound:
  assumes "svc_board svc \<noteq> []" "find_ticket (board w (svc_board svc)) i = Some t"
  shows "delete_ticket svc i w =
     (Inr True, remove_ws (svc_board svc, i)
        (put_board (svc_board svc) (drop_all i (board w (svc_board svc))) w))"
  using assms by (simp add: delete_ticket_def open_board_for_def board_for_def open_board_def)

text \<open>
  The rows the purge takes: going through the candidates, those without an active child, as long
  as the excess lasts.
\<close>

fun purged :: "board_db \<Rightarrow> nat \<Rightarrow> Ticket list \<Rightarrow> string list" where
  "purged d excess [] = []"
| "purged d 0 (t # ts) = []"
| "purged d (Suc k) (t # ts) =
     (if active_child d (tid t) then purged d (Suc k) ts else tid t # purged d k ts)"

lemma purged_length: "length (purged d k ts) \<le> k"
  by (induction d k ts rule: purged.induct) auto

lemma purged_subset: "set (purged d k ts) \<subseteq> tid ` set ts"
  by (induction d k ts rule: purged.induct) auto

lemma purged_idle: "i \<in> set (purged d k ts) \<Longrightarrow> \<not> active_child d i"
  by (induction d k ts rule: purged.induct) (auto split: if_splits)

lemma purged_cong:
  assumes "{c \<in> set (tickets d). \<not> archivable c} = {c \<in> set (tickets d'). \<not> archivable c}"
  shows "purged d k ts = purged d' k ts"
proof -
  have "active_child d = active_child d'"
    using assms by (fastforce simp: active_child_def fun_eq_iff)
  then show ?thesis
    by (induction d k ts rule: purged.induct) simp_all
qed

definition drop_list :: "string list \<Rightarrow> board_db \<Rightarrow> board_db" where
  "drop_list is d = fold (\<lambda>i d. drop_all i d) is d"

lemma drop_list_tickets: "tickets (drop_list is d) = filter (\<lambda>t. tid t \<notin> set is) (tickets d)"
proof (induction "is" arbitrary: d)
  case (Cons i "is")
  then show ?case
    by (auto simp: drop_list_def delete_by_def intro: filter_cong)
qed (simp add: drop_list_def)

text \<open>
  Deleting a finished ticket leaves the active rows alone, so what the loop removes can be read
  off the board it starts from.
\<close>

lemma purge_oldest_bound:
  assumes b: "svc_board svc = b" "b \<noteq> []"
    and ts: "\<forall>t \<in> set ts. t \<in> set (tickets (board w b)) \<and> archivable t"
    and dist: "distinct (map tid ts)" "distinct (map tid (tickets (board w b)))"
  shows "fst (purge_oldest svc k ts w) = Inr ()
    \<and> board (snd (purge_oldest svc k ts w)) b = drop_list (purged (board w b) k ts) (board w b)
    \<and> (\<forall>b'. b' \<noteq> b \<longrightarrow> board (snd (purge_oldest svc k ts w)) b' = board w b')"
  using ts dist
proof (induction ts arbitrary: k w)
  case (Cons t ts)
  show ?case
  proof (cases k)
    case (Suc j)
    let ?d = "board w b"
    show ?thesis
    proof (cases "active_child ?d (tid t)")
      case True
      with Suc Cons show ?thesis by (simp add: has_active_child_def b)
    next
      case False
      have found: "find_ticket ?d (tid t) = Some t"
        using Cons.prems by (simp add: find_ticket_def ticket_rows.get_unique)
      let ?w = "remove_ws (b, tid t) (put_board b (drop_all (tid t) ?d) w)"
      have del: "delete_ticket svc (tid t) w = (Inr True, ?w)"
        using delete_bound [of svc w "tid t" t] b found by simp
      have keep: "u \<in> set (tickets (drop_all (tid t) ?d)) \<longleftrightarrow> u \<in> set (tickets ?d) \<and> tid u \<noteq> tid t" for u
        by (simp add: ticket_rows.set_del)
      have only: "u = t" if "u \<in> set (tickets ?d)" "tid u = tid t" for u
        using that Cons.prems by (auto simp: distinct_map dest: inj_onD)
      have same: "purged (drop_all (tid t) ?d) j ts = purged ?d j ts"
        by (rule purged_cong) (use keep only Cons.prems in auto)
      have "\<forall>u \<in> set ts. u \<in> set (tickets (board ?w b)) \<and> archivable u"
        using Cons.prems(1,2) keep by (force simp: image_iff)
      moreover have "distinct (map tid (tickets (board ?w b)))"
        using Cons.prems by (simp add: ticket_rows.distinct_del)
      ultimately have "fst (purge_oldest svc j ts ?w) = Inr ()
          \<and> board (snd (purge_oldest svc j ts ?w)) b
              = drop_list (purged (board ?w b) j ts) (board ?w b)
          \<and> (\<forall>b'. b' \<noteq> b \<longrightarrow> board (snd (purge_oldest svc j ts ?w)) b' = board ?w b')"
        using Cons.prems by (intro Cons.IH) auto
      then show ?thesis
        using False Suc del same by (simp add: drop_list_def has_active_child_def b)
    qed
  qed (simp add: drop_list_def)
qed (simp add: drop_list_def)

end
