(* ===== verification/Invariant.thy ===== *)
theory Invariant
  imports Purge
begin

text \<open>
  The interface between the operations of the service and an invariant of a board: the laws say
  that the invariant survives each primitive write, and every operation is proved once, in this
  locale, to keep the invariant on all boards of the world. It is interpreted on the
  well-formedness of a board, and on well-formedness together with intact hashes.
\<close>

locale board_invariant =
  fixes B :: "string \<Rightarrow> board_db \<Rightarrow> bool" and x :: externals
  assumes empty: "b \<noteq> [] \<Longrightarrow> B b empty_board"
    and record_event: "\<lbrakk>B b d; find_ticket d i = Some t0; tid t = i; tstate t = st;
            board_id t = board_id t0\<rbrakk> \<Longrightarrow> B b (add_event x i st note now (put_ticket t d))"
    and update_row: "\<lbrakk>B b d; find_ticket d i = Some t0; tid t = i; tstate t = tstate t0;
            board_id t = board_id t0\<rbrakk> \<Longrightarrow> B b (put_ticket t d)"
    and step_event: "\<lbrakk>B b d; find_ticket d i = Some t\<rbrakk> \<Longrightarrow> B b (add_event x i (tstate t) note now d)"
    and add_comment_row: "\<lbrakk>B b d; find_ticket d i = Some t\<rbrakk>
          \<Longrightarrow> B b (insert_comment (new_comment d i body author parent now) d)"
    and edit_comments: "\<lbrakk>B b d; \<And>c. c_id (f c) = c_id c; \<And>c. c_ticket (f c) = c_ticket c\<rbrakk>
          \<Longrightarrow> B b (map_comments f d)"
    and drop_comments: "B b d \<Longrightarrow> B b (filter_comments p d)"
    and drop_ticket: "B b d \<Longrightarrow> B b (drop_all i d)"
    and drop_dangling: "\<lbrakk>B b d; i \<notin> ids d\<rbrakk> \<Longrightarrow> B b (bulk_delete_ticket_rows i d)"
    and restart: "\<lbrakk>B b d; find_ticket d i = Some t0; tid t = i; tstate t = st;
            board_id t = board_id t0\<rbrakk>
          \<Longrightarrow> B b (add_event x i st note now (put_ticket t (bulk_delete_ticket_rows i d)))"
    and new_ticket: "\<lbrakk>B b d; find_ticket d i = None; tid t = i; tstate t = st; board_id t = b\<rbrakk>
          \<Longrightarrow> B b (add_event x i st note now (insert_ticket t d))"
begin

lemma at_board: "\<lbrakk>all_boards B w; b \<noteq> []\<rbrakk> \<Longrightarrow> B b (board w b)"
  by (simp add: all_boards_board empty)

lemma close_rows: "B b d \<Longrightarrow> B b (set_closed cs at_time d)"
  unfolding set_closed_def by (rule edit_comments) auto

lemma delete_keeps: "all_boards B w \<Longrightarrow> all_boards B (snd (delete_ticket svc i w))"
  by (auto simp: delete_ticket_def open_board_for_def open_board_def
      intro!: all_boards_put drop_ticket at_board split: sum.split option.split)

lemma purge_oldest_keeps: "all_boards B w \<Longrightarrow> all_boards B (snd (purge_oldest svc k ts w))"
proof (induction svc k ts w rule: purge_oldest.induct)
  case (3 svc k t ts w)
  then show ?case
    using delete_keeps [of w svc "tid t"] by (auto split: prod.split sum.split)
qed simp_all

lemma purge_keeps: "all_boards B w \<Longrightarrow> all_boards B (snd (maybe_purge_archived svc w))"
  by (auto simp: maybe_purge_archived_def Let_def purge_oldest_keeps split: sum.split)

text \<open>What an operation does inside the session \<open>with_ticket\<close> opens.\<close>

lemma with_ticket_keeps:
  assumes "all_boards B w"
    and "\<And>b t. \<lbrakk>b \<noteq> []; find_ticket (board w b) i = Some t; B b (board w b)\<rbrakk>
          \<Longrightarrow> all_boards B (snd (k b (board w b) t))"
  shows "all_boards B (snd (with_ticket svc i k w))"
  using assms at_board [OF assms(1)]
  by (auto simp: with_ticket_def open_board_for_def open_board_def split: sum.split option.split)

end

section \<open>Well-formed boards\<close>

lemma bulk_delete_fields [simp]:
  "tickets (bulk_delete_ticket_rows i d) = tickets d"
  "events (bulk_delete_ticket_rows i d) = filter (\<lambda>e. ev_ticket e \<noteq> i) (events d)"
  "comments (bulk_delete_ticket_rows i d) = filter (\<lambda>c. c_ticket c \<noteq> i) (comments d)"
  "find_ticket (bulk_delete_ticket_rows i d) = find_ticket d"
  "ids (bulk_delete_ticket_rows i d) = ids d"
  by (simp_all add: bulk_delete_ticket_rows_def find_ticket_def fun_eq_iff ids_def)

lemma events_of_bulk_delete [simp]:
  "events_of (bulk_delete_ticket_rows i d) j = (if j = i then [] else events_of d j)"
  by (auto simp: events_of_def filter_empty_conv intro: filter_cong)

lemma comments_of_bulk_delete [simp]:
  "comments_of (bulk_delete_ticket_rows i d) j = (if j = i then [] else comments_of d j)"
  by (auto simp: comments_of_def filter_empty_conv intro: filter_cong)

lemma rows_ok_bulk_delete: "rows_ok d \<Longrightarrow> rows_ok (bulk_delete_ticket_rows i d)"
  by (simp add: rows_ok_def sorted_wrt_map_filter)

lemma links_ok_bulk_delete: "links_ok d \<Longrightarrow> links_ok (bulk_delete_ticket_rows i d)"
  by (rule links_okI) (simp add: links_okD)

lemma wf_drop_dangling:
  assumes "wf_board d" "i \<notin> ids d"
  shows "wf_board (bulk_delete_ticket_rows i d)"
proof -
  have "agrees (bulk_delete_ticket_rows i d)"
    using assms by (auto simp: wf_board_def agrees_def ids_def)
  then show ?thesis
    using assms by (simp add: wf_board_def rows_ok_bulk_delete links_ok_bulk_delete no_orphans_def)
qed

lemma rows_ok_put_ticket [simp]: "rows_ok (put_ticket t d) = rows_ok d"
  by (simp add: rows_ok_def)

lemma links_ok_put_ticket [simp]: "links_ok (put_ticket t d) = links_ok d"
  by (simp add: links_ok_def)

lemma wf_restart:
  assumes wf: "wf_board d" and found: "find_ticket d i = Some t0" and t: "tid t = i" "tstate t = st"
  shows "wf_board (add_event x i st note now (put_ticket t (bulk_delete_ticket_rows i d)))"
proof -
  let ?d = "bulk_delete_ticket_rows i d"
  let ?d' = "add_event x i st note now (put_ticket t ?d)"
  have ag: "agrees d" using wf by (simp add: wf_board_def)
  have "agrees ?d'"
  proof (rule agreesI)
    fix u assume "u \<in> set (tickets ?d')"
    then have "u = t \<or> (u \<in> set (tickets d) \<and> tid u \<noteq> i)"
      using tickets_put_mem [of u t ?d] t by simp
    then show "events_of ?d' (tid u) \<noteq> [] \<and> ev_state (last (events_of ?d' (tid u))) = tstate u"
      using t agreesD [OF ag, of u] by auto
  qed
  moreover have "rows_ok ?d'" "links_ok ?d'"
    using wf by (simp_all add: wf_board_def rows_ok_add_event links_ok_add_event rows_ok_bulk_delete
        links_ok_bulk_delete)
  moreover have "no_orphans ?d'"
    using wf ids_present [OF found] by (auto simp: wf_board_def no_orphans_def)
  ultimately show ?thesis by (simp add: wf_board_def)
qed

lemma insert_ticket_fields [simp]:
  "tickets (insert_ticket t d) = tickets d @ [t]" "events (insert_ticket t d) = events d"
  "comments (insert_ticket t d) = comments d" "events_of (insert_ticket t d) = events_of d"
  "comments_of (insert_ticket t d) = comments_of d" "ids (insert_ticket t d) = insert (tid t) (ids d)"
  by (simp_all add: insert_ticket_def events_of_def comments_of_def fun_eq_iff ids_def)

lemma lookup_by_snoc:
  "lookup_by key k (rs @ [r]) =
     (case lookup_by key k rs of Some u \<Rightarrow> Some u | None \<Rightarrow> if key r = k then Some r else None)"
  by (induction rs) (auto simp: lookup_by_def)

lemma find_insert_ticket [simp]:
  "find_ticket (insert_ticket t d) i =
     (case find_ticket d i of Some u \<Rightarrow> Some u | None \<Rightarrow> if tid t = i then Some t else None)"
  by (simp add: find_ticket_def insert_ticket_def lookup_by_snoc)

lemma no_history: "\<lbrakk>no_orphans d; i \<notin> ids d\<rbrakk> \<Longrightarrow> events_of d i = [] \<and> comments_of d i = []"
  by (auto simp: no_orphans_def events_of_def comments_of_def filter_empty_conv)

lemma wf_new_ticket:
  assumes wf: "wf_board d" and fresh: "find_ticket d i = None" and t: "tid t = i" "tstate t = st"
  shows "wf_board (add_event x i st note now (insert_ticket t d))"
proof -
  let ?d' = "add_event x i st note now (insert_ticket t d)"
  have i: "i \<notin> ids d" using fresh by (simp add: find_ticket_ids)
  have ag: "agrees d" and no: "no_orphans d" using wf by (simp_all add: wf_board_def)
  have "agrees ?d'"
  proof (rule agreesI)
    fix u assume "u \<in> set (tickets ?d')"
    then have "u = t \<or> (u \<in> set (tickets d) \<and> tid u \<noteq> i)"
      using i by (auto simp: ids_def)
    then show "events_of ?d' (tid u) \<noteq> [] \<and> ev_state (last (events_of ?d' (tid u))) = tstate u"
      using t agreesD [OF ag, of u] by auto
  qed
  moreover have "rows_ok (insert_ticket t d)"
    using wf i t by (auto simp: wf_board_def rows_ok_def ids_def)
  moreover have "links_ok (insert_ticket t d)"
    using wf by (simp add: wf_board_def links_ok_def)
  moreover have "no_orphans ?d'"
    using no t by (auto simp: no_orphans_def)
  ultimately show ?thesis by (simp add: wf_board_def rows_ok_add_event links_ok_add_event)
qed

lemma wf_board_invariant: "board_invariant (\<lambda>b. wf_board) x"
proof
  show "wf_board (insert_comment (new_comment d i body author parent now) d)"
    if "wf_board d" "find_ticket d i = Some t" for d i t body author parent now
    using that by (rule wf_insert_comment) simp_all
qed (auto intro: wf_record wf_put_ticket wf_add_step_event wf_map_comments wf_filter_comments
       wf_drop_all wf_drop_dangling wf_restart wf_new_ticket)

interpretation wf: board_invariant "\<lambda>b. wf_board" x for x
  by (rule wf_board_invariant)

lemma sealed_bulk_delete: "sealed x d \<Longrightarrow> sealed x (bulk_delete_ticket_rows i d)"
  by (simp add: sealed_def)

lemma sealed_insert_ticket: "sealed x (insert_ticket t d) = sealed x d"
  by (simp add: sealed_def)

lemma intact_board_invariant: "board_invariant (\<lambda>b. intact x) x"
proof
  show "intact x (insert_comment (new_comment d i body author parent now) d)"
    if "intact x d" "find_ticket d i = Some t" for d i t body author parent now
    using that by (simp add: intact_def wf.add_comment_row)
qed (auto simp: intact_def sealed_add_event sealed_bulk_delete sealed_insert_ticket
       intro: wf_record wf_put_ticket wf_add_step_event wf_map_comments
       wf_filter_comments wf_drop_all wf_drop_dangling wf_restart wf_new_ticket sealed_drop_all)

interpretation intact: board_invariant "\<lambda>b. intact x" x for x
  by (rule intact_board_invariant)

section \<open>Where a ticket lives\<close>

lemma homed_invariant:
  "board_invariant (\<lambda>b d. b \<noteq> [] \<and> (\<forall>t \<in> set (tickets d). board_id t = b)) x"
proof
  fix b i st n now and d :: board_db and t0 t :: Ticket
  assume *: "b \<noteq> [] \<and> (\<forall>t \<in> set (tickets d). board_id t = b)"
    "find_ticket d i = Some t0" "board_id t = board_id t0"
  then have "board_id t = b" using find_ticket_SomeD by auto
  with * show "b \<noteq> [] \<and> (\<forall>u \<in> set (tickets (put_ticket t d)). board_id u = b)"
    and "b \<noteq> [] \<and> (\<forall>u \<in> set (tickets (add_event x i st n now (put_ticket t d))). board_id u = b)"
    and "b \<noteq> [] \<and> (\<forall>u \<in> set (tickets (add_event x i st n now
           (put_ticket t (bulk_delete_ticket_rows i d)))). board_id u = b)"
    by (auto dest!: tickets_put_mem)
qed (auto simp: empty_board_def ticket_rows.set_del)

interpretation homed: board_invariant "\<lambda>b d. b \<noteq> [] \<and> (\<forall>t \<in> set (tickets d). board_id t = b)" x for x
  by (rule homed_invariant)

lemma homed_row:
  assumes "homed w" "find_ticket (board w b) i = Some t"
  shows "board_id t = b \<and> b \<noteq> []"
proof -
  have t: "t \<in> set (tickets (board w b))" using find_ticket_SomeD [OF assms(2)] by simp
  then obtain d where d: "map_of (boards w) b = Some d"
    by (auto simp: board_def empty_board_def split: option.splits)
  then have "(b, d) \<in> set (boards w)" by (rule map_of_SomeD)
  then have "b \<noteq> [] \<and> (\<forall>t \<in> set (tickets d). board_id t = b)"
    using assms(1) by (auto simp: homed_def all_boards_def)
  with t d show ?thesis by (simp add: board_def)
qed

lemma first_hit_SomeD:
  "first_hit w bs i = Some t \<Longrightarrow> \<exists>b \<in> set bs. find_ticket (board w b) i = Some t"
  by (induction w bs i rule: first_hit.induct) (auto split: option.splits)

lemma get_ticket_homed:
  assumes h: "homed w" and g: "get_ticket svc i w = Some t"
  shows "find_ticket (board w (board_id t)) i = Some t \<and> board_id t \<noteq> []
    \<and> board_for svc i w = Inr (board_id t)"
proof -
  have any: "find_ticket (board w (board_id t)) i = Some t \<and> board_id t \<noteq> []"
    if "fst (get_anywhere svc i w) = Some t"
    using that h homed_row [OF h]
    by (fastforce simp: get_anywhere_def Let_def resolve_board_id_def dest!: first_hit_SomeD)
  show ?thesis
  proof (cases "svc_board svc = [] \<or> find_ticket (board w (svc_board svc)) i = None")
    case True
    then have a: "fst (get_anywhere svc i w) = Some t"
      using g by (auto simp: get_ticket_def split: if_splits)
    then show ?thesis
      using any [OF a] True by (auto simp: board_for_def split: prod.split)
  next
    case False
    then obtain u where u: "find_ticket (board w (svc_board svc)) i = Some u" by auto
    moreover have "t = u"
      using False g u homed_row [OF h u] by (simp add: get_ticket_def resolve_board_id_def)
    ultimately show ?thesis
      using False homed_row [OF h u] by (simp add: board_for_def)
  qed
qed

lemma get_ticket_opens:
  assumes "homed w" "get_ticket svc i w = Some t"
  shows "open_board_for svc i w = Inr (board_id t, board w (board_id t))"
  using get_ticket_homed [OF assms] by (simp add: open_board_for_def open_board_def)

lemma with_ticket_homed:
  assumes "homed w" "get_ticket svc i w = Some t"
  shows "with_ticket svc i k w = k (board_id t) (board w (board_id t)) t"
  using get_ticket_opens [OF assms] get_ticket_homed [OF assms] by (simp add: with_ticket_def)

lemma first_hit_None: "first_hit w bs i = None \<Longrightarrow> b \<in> set bs \<Longrightarrow> find_ticket (board w b) i = None"
  by (induction w bs i rule: first_hit.induct) (auto split: option.splits)

text \<open>A ticket that \<open>get\<close> does not find makes every operation fail before it does anything.\<close>

lemma with_ticket_missing:
  assumes "get_ticket svc i w = None"
  shows "\<exists>e. with_ticket svc i k w = (Inl e, w)"
proof -
  have any: "fst (get_anywhere svc i w) = None"
    and here: "svc_board svc \<noteq> [] \<Longrightarrow> find_ticket (board w (svc_board svc)) i = None"
    using assms by (auto simp: get_ticket_def split: if_splits option.splits)
  then show ?thesis
    by (auto simp: with_ticket_def open_board_for_def board_for_def open_board_def split: prod.split)
qed

end
