(* ===== verification/Transition.thy ===== *)
theory Transition
  imports Invariant
begin

text \<open>
  The state transition, \<open>transition\<close> and \<open>_fire_unblocks\<close> of
  \<open>core/service/_transition_mixin.py\<close>. The session of a transition is cut along the
  comments of the source into its guards (\<open>transition_guards\<close>), the columns it rewrites
  (\<open>blocked_columns\<close>, \<open>paused_columns\<close>), the workspace files it clears
  (\<open>transition_files\<close>) and the final write (\<open>transition_commit\<close>). A completion
  fires the tickets it unblocks, each by a transition of its own; the nesting is bounded by a fuel
  argument, and \<open>transition\<close> gives it more than the number of blocked tickets.
\<close>

definition IMPLEMENT_PROGRESS_STATES :: "State list" where
  "IMPLEMENT_PROGRESS_STATES = [CODE_REVIEW, DOCUMENTING, DELIVERABLE, IMPLEMENT_COMPLETE]"

definition UNBLOCK_TRIGGER_STATES :: "State list" where
  "UNBLOCK_TRIGGER_STATES = [DONE, CLOSED, EPIC_CLOSED]"

definition TERMINAL_STATES :: "State list" where
  "TERMINAL_STATES = [DONE, CLOSED, ERRORED]"

definition TERMINAL_EPIC_STATES :: "State list" where
  "TERMINAL_EPIC_STATES = [EPIC_CLOSED]"

text \<open>\<open>State(column) if column else None\<close>.\<close>

definition stored_state :: "string option \<Rightarrow> State option result" where
  "stored_state col =
     (if \<not> truthy col then Inr None
      else (case state_of (the col) of
              None \<Rightarrow> Inl (ValueError (BadState (the col)))
            | Some s \<Rightarrow> Inr (Some s)))"

text \<open>\<open>bool(note and note.strip())\<close>.\<close>

definition note_text :: "string option \<Rightarrow> bool" where
  "note_text n \<longleftrightarrow> truthy n \<and> strip (the n) \<noteq> []"

text \<open>Closing a list of threads.\<close>

definition close_threads :: "instant \<Rightarrow> Comment list \<Rightarrow> board_db \<Rightarrow> board_db" where
  "close_threads now cs d = set_closed (c_id ` set cs) (Some now) d"

text \<open>
  The guards: the state machine, and no open question at a terminal state, except that closing a
  ticket that was blocked out of AWAITING_USER_REPLY closes its questions.
\<close>

definition transition_guards ::
    "string \<Rightarrow> Ticket \<Rightarrow> State \<Rightarrow> instant \<Rightarrow> board_db \<Rightarrow> board_db result" where
  "transition_guards i t dst now d =
     (case stored_state (blocked_from t) of
        Inl e \<Rightarrow> Inl e
      | Inr bf \<Rightarrow>
     (case stored_state (paused_from t) of
        Inl e \<Rightarrow> Inl e
      | Inr pf \<Rightarrow>
          if \<not> can_transition (tstate t) dst bf pf
            then Inl (TransitionError i (NotAllowed (tstate t) dst))
          else if dst \<in> set TERMINAL_STATES \<and> open_ask_user_threads d i \<noteq> []
            then (if tstate t = BLOCKED \<and> dst = CLOSED
                     \<and> blocked_from t = Some (state_value AWAITING_USER_REPLY)
                  then Inr (close_threads now (open_ask_user_threads d i) d)
                  else Inl (TransitionError i
                         (OpenQuestions dst (map c_id (open_ask_user_threads d i)))))
          else Inr d))"

text \<open>Entering BLOCKED records where from and why; leaving it clears both.\<close>

definition blocked_columns ::
    "State \<Rightarrow> string option \<Rightarrow> string option \<Rightarrow> Ticket \<Rightarrow> Ticket \<times> string option" where
  "blocked_columns dst note reason t =
     (if dst = BLOCKED then
        (t\<lparr>blocked_from := Some (state_value (tstate t)), block_reason := reason\<rparr>,
         if note_text note then note
         else Some (''blocked from '' @ state_value (tstate t) @ '' (no reason recorded)''))
      else if tstate t = BLOCKED then (t\<lparr>blocked_from := None, block_reason := None\<rparr>, note)
      else (t, note))"

definition paused_columns :: "State \<Rightarrow> Ticket \<Rightarrow> Ticket" where
  "paused_columns dst t =
     (if dst = AWAITING_USER_REPLY then
        (if \<not> truthy (paused_from t) then t\<lparr>paused_from := Some (state_value (tstate t))\<rparr> else t)
      else if tstate t = AWAITING_USER_REPLY \<and> dst \<noteq> BLOCKED then t\<lparr>paused_from := None\<rparr>
      else t)"

text \<open>A change of artifact files that may fail, in the ticket's workspace.\<close>

definition in_artifacts ::
    "service \<Rightarrow> Ticket \<Rightarrow> (files \<Rightarrow> files result) \<Rightarrow> world \<Rightarrow> unit result \<times> world" where
  "in_artifacts svc t f w =
     (case open_workspace svc t w of
        (Inl e, w1) \<Rightarrow> (Inl e, w1)
      | (Inr k, w1) \<Rightarrow>
          (case f (artifacts (ws_dir w1 k)) of
             Inl e \<Rightarrow> (Inl e, w1)
           | Inr a \<Rightarrow> (Inr (), edit_artifacts k (\<lambda>_. a) w1)))"

definition transition_files ::
    "service \<Rightarrow> Ticket \<Rightarrow> State \<Rightarrow> string option \<Rightarrow> world \<Rightarrow> unit result \<times> world" where
  "transition_files svc t dst note w =
     (if dst = READY \<and> (tstate t = BLOCKED \<or> tstate t = AWAITING_USER_REPLY)
        then in_artifacts svc t (clear_stale_implement_guard (note_text note)) w
      else if tstate t = READY \<and> dst \<in> set IMPLEMENT_PROGRESS_STATES
        then in_artifacts svc t (\<lambda>a. Inr (reset_implement_spawn_counter a)) w
      else (Inr (), w))"

text \<open>
  The write: the row, its event, the commit; then the archive purge, the callback, and the tickets
  to unblock.
\<close>

definition transition_commit ::
    "service \<Rightarrow> string \<Rightarrow> string \<Rightarrow> board_db \<Rightarrow> Ticket \<Rightarrow> State \<Rightarrow> string option \<Rightarrow> world \<Rightarrow>
     (Ticket \<times> string list option) result \<times> world" where
  "transition_commit svc i b d t dst note w =
     (let old = state_value (tstate t);
          t1 = t\<lparr>tstate := dst, updated_at := clock w\<rparr>;
          d1 = add_event (ext svc) i dst note (clock w) (put_ticket t1 d);
          w1 = put_board b d1 w
      in case (if dst \<in> set ARCHIVABLE_STATES then maybe_purge_archived svc w1 else (Inr (), w1)) of
           (Inl e, w2) \<Rightarrow> (Inl e, w2)
         | (Inr _, w2) \<Rightarrow>
             (Inr (t1, Some (if dst \<in> set UNBLOCK_TRIGGER_STATES
                             then parse_depends_on_str (unblocks t1) else [])),
              on_transition svc t1 old w2))"

text \<open>Sending a paused ticket back to implement answers its questions: they are closed.\<close>

definition close_answered :: "string \<Rightarrow> Ticket \<Rightarrow> State \<Rightarrow> instant \<Rightarrow> board_db \<Rightarrow> board_db" where
  "close_answered i t dst now d =
     (if tstate t = AWAITING_USER_REPLY \<and> dst = READY
      then close_threads now (open_ask_user_threads d i) d else d)"

text \<open>
  The whole session. The second component of the result is \<open>None\<close> for the early return on an
  epic that is closed again.
\<close>

definition transition_session ::
    "service \<Rightarrow> string \<Rightarrow> State \<Rightarrow> string option \<Rightarrow> string option \<Rightarrow> string \<Rightarrow> board_db \<Rightarrow> Ticket \<Rightarrow>
     world \<Rightarrow> (Ticket \<times> string list option) result \<times> world" where
  "transition_session svc i dst note reason b d t w =
     (if tstate t = dst \<and> dst \<in> set TERMINAL_EPIC_STATES then (Inr (t, None), w)
      else
        (case transition_guards i t dst (clock w) d of
           Inl e \<Rightarrow> (Inl e, w)
         | Inr d1 \<Rightarrow>
             (let (t1, note1) = blocked_columns dst note reason t;
                  d2 = close_answered i t dst (clock w) d1
              in case transition_files svc t dst note w of
                   (Inl e, w1) \<Rightarrow> (Inl e, w1)
                 | (Inr _, w1) \<Rightarrow>
                     transition_commit svc i b d2 (paused_columns dst t1) dst note1 w1)))"

definition transition_step ::
    "service \<Rightarrow> string \<Rightarrow> State \<Rightarrow> string option \<Rightarrow> string option \<Rightarrow> world \<Rightarrow>
     (Ticket \<times> string list option) result \<times> world" where
  "transition_step svc i dst note reason w =
     with_ticket svc i (\<lambda>b d t. transition_session svc i dst note reason b d t w) w"

text \<open>The state a parked ticket returns to.\<close>

definition unblock_dst :: "Ticket \<Rightarrow> State result" where
  "unblock_dst t =
     (if \<not> truthy (blocked_from t) then Inr DRAFT
      else (case state_of (the (blocked_from t)) of
              None \<Rightarrow> Inl (ValueError (BadState (the (blocked_from t))))
            | Some parked \<Rightarrow>
                Inr (if can_transition BLOCKED parked (Some parked) None then parked else DRAFT)))"

definition unblock_note :: "string \<Rightarrow> string" where
  "unblock_note solver = ''auto-unblocked: solver '' @ solver @ '' completed''"

fun transition_n ::
    "nat \<Rightarrow> service \<Rightarrow> string \<Rightarrow> State \<Rightarrow> string option \<Rightarrow> string option \<Rightarrow> world \<Rightarrow>
     Ticket result \<times> world"
and fire_unblocks :: "nat \<Rightarrow> service \<Rightarrow> string \<Rightarrow> string list \<Rightarrow> world \<Rightarrow> world" where
  "transition_n 0 svc i dst note reason w = (Inl RecursionError, w)"
| "transition_n (Suc n) svc i dst note reason w =
     (case transition_step svc i dst note reason w of
        (Inl e, w1) \<Rightarrow> (Inl e, w1)
      | (Inr (t, None), w1) \<Rightarrow> (Inr t, w1)
      | (Inr (t, Some targets), w1) \<Rightarrow>
          (let w2 = fire_unblocks n svc i targets w1
           in (Inr (case get_ticket svc i w2 of Some t' \<Rightarrow> t' | None \<Rightarrow> t), w2)))"
| "fire_unblocks n svc solver [] w = w"
| "fire_unblocks n svc solver (i # is) w =
     fire_unblocks n svc solver is
       (case get_ticket svc i w of
          None \<Rightarrow> w
        | Some target \<Rightarrow>
            if tstate target \<noteq> BLOCKED then w
            else (case unblock_dst target of
                    Inl e \<Rightarrow> w
                  | Inr dst \<Rightarrow>
                      snd (transition_n n svc i dst (Some (unblock_note solver)) None w)))"

definition blocked_count :: "world \<Rightarrow> nat" where
  "blocked_count w = sum_list (map (\<lambda>p. length (filter (\<lambda>t. tstate t = BLOCKED) (tickets (snd p)))) (boards w))"

definition transition ::
    "service \<Rightarrow> string \<Rightarrow> State \<Rightarrow> string option \<Rightarrow> string option \<Rightarrow> world \<Rightarrow> Ticket result \<times> world" where
  "transition svc i dst note reason w =
     transition_n (Suc (Suc (blocked_count w))) svc i dst note reason w"

section \<open>Frame\<close>

lemma in_artifacts_fields [simp]:
  "boards (snd (in_artifacts svc t f w)) = boards w" "clock (snd (in_artifacts svc t f w)) = clock w"
  "notices (snd (in_artifacts svc t f w)) = notices w" "board (snd (in_artifacts svc t f w)) = board w"
  by (auto simp: in_artifacts_def open_workspace_def case_prod_beta split: sum.split)

lemma transition_files_fields [simp]:
  "boards (snd (transition_files svc t dst note w)) = boards w"
  "clock (snd (transition_files svc t dst note w)) = clock w"
  "notices (snd (transition_files svc t dst note w)) = notices w"
  "board (snd (transition_files svc t dst note w)) = board w"
  by (simp_all add: transition_files_def)

lemma all_boards_same: "boards w' = boards w \<Longrightarrow> all_boards B w' = all_boards B w"
  by (simp add: all_boards_def)

lemma in_artifacts_boards [simp]: "all_boards B (snd (in_artifacts svc t f w)) = all_boards B w"
  by (rule all_boards_same) simp

lemma close_threads_fields [simp]:
  "tickets (close_threads now cs d) = tickets d" "events (close_threads now cs d) = events d"
  "events_of (close_threads now cs d) = events_of d" "ids (close_threads now cs d) = ids d"
  "find_ticket (close_threads now cs d) = find_ticket d"
  by (simp_all add: close_threads_def set_closed_def)

lemma close_answered_fields [simp]:
  "tickets (close_answered i t dst now d) = tickets d" "events (close_answered i t dst now d) = events d"
  "events_of (close_answered i t dst now d) = events_of d" "ids (close_answered i t dst now d) = ids d"
  "find_ticket (close_answered i t dst now d) = find_ticket d"
  by (simp_all add: close_answered_def)

lemma transition_guards_cases:
  "transition_guards i t dst now d = Inr d1 \<Longrightarrow>
     d1 = d \<or> d1 = close_threads now (open_ask_user_threads d i) d"
  by (auto simp: transition_guards_def split: sum.splits if_splits)

lemma transition_guards_fields:
  assumes "transition_guards i t dst now d = Inr d1"
  shows "tickets d1 = tickets d" "events d1 = events d" "find_ticket d1 = find_ticket d"
  using transition_guards_cases [OF assms] by auto

lemma blocked_columns_fields [simp]:
  "tid (fst (blocked_columns dst note reason t)) = tid t"
  "tstate (fst (blocked_columns dst note reason t)) = tstate t"
  "board_id (fst (blocked_columns dst note reason t)) = board_id t"
  "unblocks (fst (blocked_columns dst note reason t)) = unblocks t"
  "paused_from (fst (blocked_columns dst note reason t)) = paused_from t"
  by (simp_all add: blocked_columns_def)

lemma paused_columns_fields [simp]:
  "tid (paused_columns dst t) = tid t" "tstate (paused_columns dst t) = tstate t"
  "board_id (paused_columns dst t) = board_id t" "unblocks (paused_columns dst t) = unblocks t"
  "blocked_from (paused_columns dst t) = blocked_from t"
  "block_reason (paused_columns dst t) = block_reason t"
  by (simp_all add: paused_columns_def)

section \<open>Invariants\<close>

context board_invariant
begin

lemma guards_keep: "\<lbrakk>transition_guards i t dst now d = Inr d1; B b d\<rbrakk> \<Longrightarrow> B b d1"
  using close_rows by (auto simp: close_threads_def dest!: transition_guards_cases)

lemma transition_commit_keeps:
  assumes x: "ext svc = x" and w: "all_boards B w" and d: "B b d"
    and t: "find_ticket d i = Some t0" "tid t = i" "board_id t = board_id t0"
  shows "all_boards B (snd (transition_commit svc i b d t dst note w))"
proof -
  have row: "B b (add_event x i dst note (clock w) (put_ticket (t\<lparr>tstate := dst, updated_at := clock w\<rparr>) d))"
    using t by (intro record_event [OF d t(1)]) simp_all
  have put: "all_boards B (put_board b (add_event x i dst note (clock w)
      (put_ticket (t\<lparr>tstate := dst, updated_at := clock w\<rparr>) d)) w)"
    using w row by (rule all_boards_put)
  show ?thesis
    using put purge_keeps [OF put, of svc] x
    by (auto simp: transition_commit_def Let_def case_prod_beta split: sum.split)
qed

lemma transition_session_keeps:
  assumes x: "ext svc = x" and w: "all_boards B w" and Bd: "B b d" and found: "find_ticket d i = Some t"
  shows "all_boards B (snd (transition_session svc i dst note reason b d t w))"
proof (cases "transition_guards i t dst (clock w) d")
  case (Inl e)
  then show ?thesis using w by (simp add: transition_session_def)
next
  case (Inr d1)
  let ?w1 = "snd (transition_files svc t dst note w)"
  let ?t = "paused_columns dst (fst (blocked_columns dst note reason t))"
  have w1: "all_boards B ?w1" using w by (simp add: all_boards_same [of ?w1 w])
  have d2: "B b (close_answered i t dst (clock w) d1)"
    using guards_keep [OF Inr Bd] close_rows by (simp add: close_answered_def close_threads_def)
  have "find_ticket (close_answered i t dst (clock w) d1) i = Some t"
    using transition_guards_fields [OF Inr] found by simp
  then have "all_boards B (snd (transition_commit svc i b (close_answered i t dst (clock w) d1) ?t
      dst (snd (blocked_columns dst note reason t)) ?w1))"
    using transition_commit_keeps [OF x w1 d2] find_ticket_SomeD [OF found] by simp
  then show ?thesis
    using Inr w w1 by (simp add: transition_session_def Let_def case_prod_beta split: sum.split)
qed

lemma transition_step_keeps:
  assumes x: "ext svc = x" and w: "all_boards B w"
  shows "all_boards B (snd (transition_step svc i dst note reason w))"
  unfolding transition_step_def
  by (rule with_ticket_keeps [OF w], rule transition_session_keeps [OF x w])

lemma transition_n_keeps:
  "\<lbrakk>ext svc = x; all_boards B w\<rbrakk> \<Longrightarrow> all_boards B (snd (transition_n n svc i dst note reason w))"
  "\<lbrakk>ext svc = x; all_boards B w\<rbrakk> \<Longrightarrow> all_boards B (fire_unblocks n svc solver is w)"
proof (induction n svc i dst "note" reason w and n svc solver "is" w
    rule: transition_n_fire_unblocks.induct)
  case (2 n svc i dst nt reason w)
  then show ?case
    using transition_step_keeps [of svc w i dst nt reason]
    by (auto simp: Let_def split: prod.splits sum.splits option.splits)
next
  case (4 n svc solver i "is" w)
  have "all_boards B (case get_ticket svc i w of
          None \<Rightarrow> w
        | Some target \<Rightarrow>
            if tstate target \<noteq> BLOCKED then w
            else (case unblock_dst target of
                    Inl e \<Rightarrow> w
                  | Inr dst \<Rightarrow>
                      snd (transition_n n svc i dst (Some (unblock_note solver)) None w)))"
    using 4 by (auto split: option.splits sum.splits)
  then show ?case using 4 by simp
qed simp_all

lemma transition_keeps:
  "\<lbrakk>ext svc = x; all_boards B w\<rbrakk> \<Longrightarrow> all_boards B (snd (transition svc i dst note reason w))"
  unfolding transition_def by (rule transition_n_keeps)

end

lemmas homed_transition_step =
  homed.transition_step_keeps [OF refl, folded homed_def]
lemmas wf_transition_step =
  wf.transition_step_keeps [OF refl, folded wf_world_def]

end
