(* ===== verification/Cascade.thy ===== *)
theory Cascade
  imports Transition
begin

text \<open>
  Why the cascade of unblocks ends. A nested transition only fires further unblocks after taking a
  ticket out of BLOCKED, so each level of nesting has one blocked ticket less: with more fuel than
  blocked tickets the fuel never shows (\<open>transition_fuel\<close>).
\<close>

section \<open>Counting the blocked tickets\<close>

definition blocked_rows :: "board_db \<Rightarrow> nat" where
  "blocked_rows d = length (filter (\<lambda>t. tstate t = BLOCKED) (tickets d))"

lemma blocked_count_alt: "blocked_count w = sum_list (map (\<lambda>p. blocked_rows (snd p)) (boards w))"
  by (simp add: blocked_count_def blocked_rows_def)

lemma sum_update:
  "sum_list (map (\<lambda>p. f (snd p)) (AList.update k v al)) +
     (case map_of al k of None \<Rightarrow> 0 | Some u \<Rightarrow> f u) =
   sum_list (map (\<lambda>p. f (snd p)) al) + (f v :: nat)"
  by (induction al) auto

lemma blocked_count_put:
  "blocked_count (put_board b d w) + blocked_rows (board w b) = blocked_count w + blocked_rows d"
  using sum_update [of blocked_rows b d "boards w"]
  by (auto simp: blocked_count_alt put_board_def board_def blocked_rows_def empty_board_def
      split: option.splits)

lemma blocked_count_same: "boards w' = boards w \<Longrightarrow> blocked_count w' = blocked_count w"
  by (simp add: blocked_count_def)

lemma blocked_rows_same: "tickets d' = tickets d \<Longrightarrow> blocked_rows d' = blocked_rows d"
  by (simp add: blocked_rows_def)

lemma blocked_replace:
  "\<lbrakk>distinct (map tid ts); t0 \<in> set ts; tid t = tid t0\<rbrakk> \<Longrightarrow>
     length (filter (\<lambda>u. tstate u = BLOCKED) (replace_by tid t ts)) + of_bool (tstate t0 = BLOCKED) =
     length (filter (\<lambda>u. tstate u = BLOCKED) ts) + of_bool (tstate t = BLOCKED)"
proof (induction ts)
  case (Cons u ts)
  have other: "replace_by tid t ts = ts" if "tid t \<notin> tid ` set ts"
    using that unfolding replace_by_def by (intro map_idI) (simp, metis image_eqI)
  show ?case
  proof (cases "u = t0")
    case True
    then have "tid t \<notin> tid ` set ts" using Cons.prems by simp
    then show ?thesis using True Cons.prems(3) other by (simp add: replace_by_def)
  next
    case False
    then have "t0 \<in> set ts" using Cons.prems by simp
    moreover from this have "tid u \<noteq> tid t" using Cons.prems by auto
    ultimately show ?thesis using Cons by (auto simp: replace_by_def)
  qed
qed simp

lemma blocked_rows_put:
  assumes "distinct (map tid (tickets d))" "find_ticket d i = Some t0" "tid t = i"
  shows "blocked_rows (put_ticket t d) + of_bool (tstate t0 = BLOCKED) =
     blocked_rows d + of_bool (tstate t = BLOCKED)"
  using blocked_replace [of "tickets d" t0 t] find_ticket_SomeD [OF assms(2)] assms
  by (simp add: blocked_rows_def put_ticket_def)

lemma length_filter_conj: "length (filter (\<lambda>u. p u \<and> q u) xs) \<le> length (filter q xs)"
  by (induction xs) auto

lemma blocked_rows_drop: "blocked_rows (drop_all i d) \<le> blocked_rows d"
  by (simp add: blocked_rows_def delete_by_def length_filter_conj)

lemma blocked_count_delete: "blocked_count (snd (delete_ticket svc i w)) \<le> blocked_count w"
proof -
  have "blocked_count (put_board b (drop_all i (board w b)) w) \<le> blocked_count w" for b
    using blocked_count_put [of b "drop_all i (board w b)" w] blocked_rows_drop [of i "board w b"]
    by simp
  then show ?thesis
    by (auto simp: delete_ticket_def open_board_for_def open_board_def remove_ws_def
        blocked_count_def split: sum.split option.split)
qed

lemma blocked_count_purge_oldest: "blocked_count (snd (purge_oldest svc k ts w)) \<le> blocked_count w"
proof (induction svc k ts w rule: purge_oldest.induct)
  case (3 svc k t ts w)
  then show ?case
    using blocked_count_delete [of svc "tid t" w]
    by (fastforce split: prod.split sum.split dest: order_trans)
qed simp_all

lemma blocked_count_purge: "blocked_count (snd (maybe_purge_archived svc w)) \<le> blocked_count w"
  using blocked_count_purge_oldest by (simp add: maybe_purge_archived_def Let_def split: sum.split)

section \<open>One session\<close>

text \<open>A session rewrites one row, and may purge; what it does to the number of blocked tickets.\<close>

lemma blocked_count_commit:
  assumes wf: "distinct (map tid (tickets d))" and found: "find_ticket d i = Some t0" "tid t = i"
    and b: "tickets (board w b) = tickets d"
  shows "blocked_count (snd (transition_commit svc i b d t dst note w)) + of_bool (tstate t0 = BLOCKED)
    \<le> blocked_count w + of_bool (dst = BLOCKED)"
proof -
  let ?d = "add_event (ext svc) i dst note (clock w) (put_ticket (t\<lparr>tstate := dst, updated_at := clock w\<rparr>) d)"
  let ?w1 = "put_board b ?d w"
  have row: "blocked_rows ?d + of_bool (tstate t0 = BLOCKED) = blocked_rows d + of_bool (dst = BLOCKED)"
    using blocked_rows_put [OF wf found(1), of "t\<lparr>tstate := dst, updated_at := clock w\<rparr>"] found(2)
    by (simp add: blocked_rows_def)
  have "blocked_rows (board w b) = blocked_rows d"
    using b by (rule blocked_rows_same)
  then have "blocked_count ?w1 + of_bool (tstate t0 = BLOCKED) = blocked_count w + of_bool (dst = BLOCKED)"
    using blocked_count_put [of b ?d w] row by simp
  moreover have "blocked_count (snd (maybe_purge_archived svc ?w1)) \<le> blocked_count ?w1"
    by (rule blocked_count_purge)
  ultimately show ?thesis
    by (auto simp: transition_commit_def Let_def case_prod_beta on_transition_def blocked_count_def
        split: sum.split)
qed

text \<open>A session either leaves the boards alone or ends in the commit.\<close>

lemma transition_session_cases:
  assumes found: "find_ticket d i = Some t"
  obtains (quiet) r w1 where "transition_session svc i dst note reason b d t w = (r, w1)"
      "boards w1 = boards w" "\<And>u ts. r \<noteq> Inr (u, Some ts)"
  | (commit) d2 t1 n w1 where
      "transition_session svc i dst note reason b d t w = transition_commit svc i b d2 t1 dst n w1"
      "boards w1 = boards w" "tickets d2 = tickets d" "events d2 = events d"
      "find_ticket d2 = find_ticket d" "tid t1 = i" "tstate t1 = tstate t" "board_id t1 = board_id t"
proof (cases "tstate t = dst \<and> dst \<in> set TERMINAL_EPIC_STATES")
  case True
  then show ?thesis by (intro quiet [of "Inr (t, None)" w]) (auto simp: transition_session_def)
next
  case go: False
  show ?thesis
  proof (cases "transition_guards i t dst (clock w) d")
    case (Inl e)
    then show ?thesis using go by (intro quiet [of "Inl e" w]) (auto simp: transition_session_def)
  next
    case (Inr d1)
    let ?f = "transition_files svc t dst note w"
    show ?thesis
    proof (cases "fst ?f")
      case (Inl e)
      then show ?thesis
        using go Inr
        by (intro quiet [of "Inl e" "snd ?f"])
          (auto simp: transition_session_def Let_def case_prod_beta)
    next
      case ok: (Inr u)
      show ?thesis
      proof (rule commit [of "close_answered i t dst (clock w) d1"
            "paused_columns dst (fst (blocked_columns dst note reason t))"
            "snd (blocked_columns dst note reason t)" "snd ?f"])
        show "transition_session svc i dst note reason b d t w =
            transition_commit svc i b (close_answered i t dst (clock w) d1)
              (paused_columns dst (fst (blocked_columns dst note reason t))) dst
              (snd (blocked_columns dst note reason t)) (snd ?f)"
          using go Inr ok by (auto simp: transition_session_def Let_def case_prod_beta)
      qed (use transition_guards_fields [OF Inr] find_ticket_SomeD [OF found] in auto)
    qed
  qed
qed

lemma commit_targets:
  "fst (transition_commit svc i b d t dst note w) = Inr (u, Some ts) \<Longrightarrow>
     dst \<notin> set UNBLOCK_TRIGGER_STATES \<Longrightarrow> ts = []"
  by (auto simp: transition_commit_def Let_def case_prod_beta split: sum.splits if_splits)

lemma blocked_count_session:
  assumes wf: "wf_world w" and found: "find_ticket (board w b) i = Some t"
  shows "blocked_count (snd (transition_session svc i dst note reason b (board w b) t w))
      \<le> blocked_count w + of_bool (dst = BLOCKED \<and> tstate t \<noteq> BLOCKED)"
proof (rule transition_session_cases [OF found, of svc dst "note" reason b w])
  fix r w1
  assume "transition_session svc i dst note reason b (board w b) t w = (r, w1)" "boards w1 = boards w"
  then show ?thesis using blocked_count_same [of w1 w] by simp
next
  fix d2 t1 n w1
  assume *: "transition_session svc i dst note reason b (board w b) t w
      = transition_commit svc i b d2 t1 dst n w1"
    "boards w1 = boards w" "tickets d2 = tickets (board w b)" "find_ticket d2 = find_ticket (board w b)"
    "tid t1 = i"
  have "distinct (map tid (tickets d2))"
    using wf_world_board [OF wf, of b] *(3) by (simp add: wf_board_def rows_ok_def)
  then have "blocked_count (snd (transition_commit svc i b d2 t1 dst n w1)) + of_bool (tstate t = BLOCKED)
      \<le> blocked_count w1 + of_bool (dst = BLOCKED)"
    using * found by (intro blocked_count_commit) (simp_all add: board_def)
  then show ?thesis
    using * blocked_count_same [of w1 w] by (auto simp: of_bool_def split: if_splits)
qed

lemma session_targets:
  assumes found: "find_ticket d i = Some t"
    and r: "fst (transition_session svc i dst note reason b d t w) = Inr (u, Some ts)" "ts \<noteq> []"
  shows "dst \<in> set UNBLOCK_TRIGGER_STATES"
proof (rule transition_session_cases [OF found, of svc dst "note" reason b w])
  fix r' w1
  assume "transition_session svc i dst note reason b d t w = (r', w1)" "\<And>u ts. r' \<noteq> Inr (u, Some ts)"
  then show ?thesis using r by simp
next
  fix d2 t1 n w1
  assume "transition_session svc i dst note reason b d t w = transition_commit svc i b d2 t1 dst n w1"
  then show ?thesis using commit_targets r by metis
qed

lemma blocked_count_session_less:
  assumes wf: "wf_world w" and found: "find_ticket (board w b) i = Some t" and t: "tstate t = BLOCKED"
    and r: "fst (transition_session svc i dst note reason b (board w b) t w) = Inr (u, Some ts)" "ts \<noteq> []"
  shows "blocked_count (snd (transition_session svc i dst note reason b (board w b) t w)) < blocked_count w"
proof (rule transition_session_cases [OF found, of svc dst "note" reason b w])
  fix r' w1
  assume "transition_session svc i dst note reason b (board w b) t w = (r', w1)"
    "\<And>u ts. r' \<noteq> Inr (u, Some ts)"
  then show ?thesis using r by simp
next
  fix d2 t1 n w1
  assume *: "transition_session svc i dst note reason b (board w b) t w
      = transition_commit svc i b d2 t1 dst n w1"
    "boards w1 = boards w" "tickets d2 = tickets (board w b)" "find_ticket d2 = find_ticket (board w b)"
    "tid t1 = i"
  have "dst \<in> set UNBLOCK_TRIGGER_STATES"
    by (rule session_targets [OF found r])
  then have dst: "dst \<noteq> BLOCKED" by (auto simp: UNBLOCK_TRIGGER_STATES_def)
  have "distinct (map tid (tickets d2))"
    using wf_world_board [OF wf, of b] *(3) by (simp add: wf_board_def rows_ok_def)
  then have "blocked_count (snd (transition_commit svc i b d2 t1 dst n w1)) + of_bool (tstate t = BLOCKED)
      \<le> blocked_count w1 + of_bool (dst = BLOCKED)"
    using * found by (intro blocked_count_commit) (simp_all add: board_def)
  then show ?thesis
    using * t dst blocked_count_same [of w1 w] by simp
qed

section \<open>The cascade\<close>

lemma step_at:
  assumes "homed w" "get_ticket svc i w = Some t"
  shows "transition_step svc i dst note reason w =
     transition_session svc i dst note reason (board_id t) (board w (board_id t)) t w"
  unfolding transition_step_def by (rule with_ticket_homed [OF assms])

lemma step_missing:
  "get_ticket svc i w = None \<Longrightarrow> \<exists>e. transition_step svc i dst note reason w = (Inl e, w)"
  unfolding transition_step_def by (rule with_ticket_missing)

lemma found_at: "\<lbrakk>homed w; get_ticket svc i w = Some t\<rbrakk> \<Longrightarrow> find_ticket (board w (board_id t)) i = Some t"
  using get_ticket_homed by blast

lemma blocked_count_step:
  "\<lbrakk>wf_world w; homed w; get_ticket svc i w = Some t; tstate t = BLOCKED\<rbrakk>
   \<Longrightarrow> blocked_count (snd (transition_step svc i dst note reason w)) \<le> blocked_count w"
  using blocked_count_session [of w "board_id t" i t svc dst "note" reason]
  by (simp add: step_at found_at)

lemma step_wf_homed:
  "\<lbrakk>wf_world w; homed w\<rbrakk> \<Longrightarrow> wf_world (snd (transition_step svc i dst note reason w))
     \<and> homed (snd (transition_step svc i dst note reason w))"
  unfolding wf_world_def homed_def
  by (intro conjI wf.transition_step_keeps [OF refl] homed.transition_step_keeps [OF refl])

lemma fire_wf_homed:
  "\<lbrakk>wf_world w; homed w\<rbrakk> \<Longrightarrow> wf_world (fire_unblocks n svc solver is w)
     \<and> homed (fire_unblocks n svc solver is w)"
  unfolding wf_world_def homed_def
  by (intro conjI wf.transition_n_keeps(2) [OF refl] homed.transition_n_keeps(2) [OF refl])

lemma transition_n_wf_homed:
  "\<lbrakk>wf_world w; homed w\<rbrakk> \<Longrightarrow> wf_world (snd (transition_n n svc i dst note reason w))
     \<and> homed (snd (transition_n n svc i dst note reason w))"
  unfolding wf_world_def homed_def
  by (intro conjI wf.transition_n_keeps(1) [OF refl] homed.transition_n_keeps(1) [OF refl])

text \<open>One target of the cascade.\<close>

definition unblock_one :: "nat \<Rightarrow> service \<Rightarrow> string \<Rightarrow> string \<Rightarrow> world \<Rightarrow> world" where
  "unblock_one n svc solver i w =
     (case get_ticket svc i w of
        None \<Rightarrow> w
      | Some target \<Rightarrow>
          if tstate target \<noteq> BLOCKED then w
          else (case unblock_dst target of
                  Inl e \<Rightarrow> w
                | Inr dst \<Rightarrow>
                    snd (transition_n n svc i dst (Some (unblock_note solver)) None w)))"

lemma fire_Cons: "fire_unblocks n svc solver (i # is) w = fire_unblocks n svc solver is (unblock_one n svc solver i w)"
  by (simp add: unblock_one_def)

lemma unblock_one_wf_homed:
  "\<lbrakk>wf_world w; homed w\<rbrakk> \<Longrightarrow> wf_world (unblock_one n svc solver i w) \<and> homed (unblock_one n svc solver i w)"
  using transition_n_wf_homed by (simp add: unblock_one_def split: option.split sum.split)

declare fire_unblocks.simps(2) [simp del]

lemma blocked_count_cascade:
  "\<lbrakk>wf_world w; homed w; \<exists>t. get_ticket svc i w = Some t \<and> tstate t = BLOCKED\<rbrakk>
    \<Longrightarrow> blocked_count (snd (transition_n n svc i dst note reason w)) \<le> blocked_count w"
  "\<lbrakk>wf_world w; homed w\<rbrakk> \<Longrightarrow> blocked_count (fire_unblocks n svc solver is w) \<le> blocked_count w"
proof (induction n svc i dst "note" reason w and n svc solver "is" w
    rule: transition_n_fire_unblocks.induct)
  case (2 n svc i dst nt reason w)
  let ?s = "transition_step svc i dst nt reason w"
  have le: "blocked_count (snd ?s) \<le> blocked_count w"
    using 2 blocked_count_step by blast
  obtain r w1 where s: "?s = (r, w1)" by (cases ?s)
  have w1: "wf_world w1" "homed w1" using step_wf_homed [of w svc i dst nt reason] 2 s by auto
  show ?case
  proof (cases "\<exists>u ts. r = Inr (u, Some ts)")
    case True
    then obtain u ts where r: "r = Inr (u, Some ts)" by blast
    have "blocked_count (fire_unblocks n svc i ts w1) \<le> blocked_count w1"
      using "2.IH" [OF s [symmetric] r refl refl w1] by simp
    then show ?thesis using le s r by (simp add: Let_def)
  next
    case False
    then show ?thesis using le s by (auto split: sum.split option.split prod.split)
  qed
next
  case (4 n svc solver i "is" w)
  have "blocked_count (unblock_one n svc solver i w) \<le> blocked_count w"
    using 4 by (auto simp: unblock_one_def split: option.split sum.split)
  moreover have "blocked_count (fire_unblocks n svc solver is (unblock_one n svc solver i w))
      \<le> blocked_count (unblock_one n svc solver i w)"
    using 4 unblock_one_wf_homed [of w n svc solver i] by (simp add: unblock_one_def)
  ultimately show ?case by (simp add: fire_Cons)
qed simp_all

text \<open>The fuel does not show once it exceeds the number of blocked tickets.\<close>

lemma fire_fuel:
  "\<lbrakk>wf_world w; homed w; blocked_count w < n; blocked_count w < n'\<rbrakk>
   \<Longrightarrow> fire_unblocks n svc solver is w = fire_unblocks n' svc solver is w"
proof (induction "blocked_count w" arbitrary: w n n' solver "is" rule: less_induct)
  case less
  have one: "unblock_one n svc solver i v = unblock_one n' svc solver i v"
    if v: "wf_world v" "homed v" "blocked_count v \<le> blocked_count w" for i v
  proof -
    obtain p p' where p: "n = Suc p" "n' = Suc p'" "blocked_count w \<le> p" "blocked_count w \<le> p'"
      using less.prems(3,4) by (metis Suc_leI Suc_le_D Suc_le_mono)
    have "transition_n (Suc p) svc i dst nt None v = transition_n (Suc p') svc i dst nt None v"
      if t: "get_ticket svc i v = Some t" "tstate t = BLOCKED" for dst nt t
    proof -
      obtain r w1 where s: "transition_step svc i dst nt None v = (r, w1)"
        by (cases "transition_step svc i dst nt None v")
      have w1: "wf_world w1" "homed w1" using step_wf_homed [of v svc i dst nt None] v s by auto
      have "fire_unblocks p svc i ts w1 = fire_unblocks p' svc i ts w1" if r: "r = Inr (u, Some ts)" for u ts
      proof (cases "ts = []")
        case False
        have "blocked_count w1 < blocked_count v"
          using blocked_count_session_less [OF v(1) found_at [OF v(2) t(1)] t(2), of svc dst nt None u ts]
            s r False
            step_at [OF v(2) t(1), of dst nt None] by simp
        then show ?thesis using v(3) p w1 by (intro less.hyps) simp_all
      qed simp
      then show ?thesis using s by (auto simp: Let_def split: sum.split option.split)
    qed
    then show ?thesis using p by (auto simp: unblock_one_def split: option.split sum.split)
  qed
  have "fire_unblocks n svc solver is v = fire_unblocks n' svc solver is v"
    if "wf_world v" "homed v" "blocked_count v \<le> blocked_count w" for v
    using that
  proof (induction "is" arbitrary: v)
    case (Cons i "is")
    have "blocked_count (unblock_one n svc solver i v) \<le> blocked_count v"
      using blocked_count_cascade(2) [of v n svc solver "[i]"] Cons.prems by (simp add: fire_Cons)
    then show ?case
      using Cons unblock_one_wf_homed [of v n svc solver i] one by (simp add: fire_Cons)
  qed simp
  then show ?case using less.prems by simp
qed

lemma transition_fuel:
  assumes w: "wf_world w" "homed w" and n: "Suc (Suc (blocked_count w)) \<le> n"
  shows "transition_n n svc i dst note reason w = transition svc i dst note reason w"
proof -
  obtain p where p: "n = Suc p" "blocked_count w < p" using n by (cases n) auto
  obtain r w1 where s: "transition_step svc i dst note reason w = (r, w1)"
    by (cases "transition_step svc i dst note reason w")
  have w1: "wf_world w1" "homed w1" using step_wf_homed [of w svc i dst "note" reason] w s by auto
  have "fire_unblocks p svc i ts w1 = fire_unblocks (Suc (blocked_count w)) svc i ts w1"
    if r: "r = Inr (u, Some ts)" for u ts
  proof (cases "ts = []")
    case False
    obtain t where t: "get_ticket svc i w = Some t"
    proof (cases "get_ticket svc i w")
      case None
      then show ?thesis
        using step_missing [OF None, of dst "note" reason] s r by auto
    qed
    have s': "transition_session svc i dst note reason (board_id t) (board w (board_id t)) t w = (r, w1)"
      using s by (simp add: step_at [OF w(2) t])
    have "dst \<in> set UNBLOCK_TRIGGER_STATES"
      using session_targets [OF found_at [OF w(2) t], of svc dst "note" reason "board_id t" w u ts]
        s' r False by simp
    then have "blocked_count w1 \<le> blocked_count w"
      using blocked_count_session [OF w(1) found_at [OF w(2) t], of svc dst "note" reason] s'
      by (auto simp: UNBLOCK_TRIGGER_STATES_def)
    then show ?thesis using w1 p by (intro fire_fuel) simp_all
  qed simp
  then show ?thesis
    using s p by (auto simp: transition_def Let_def split: sum.split option.split)
qed

end
