(* ===== verification/Regex.thy ===== *)
theory Regex
  imports Prelude
begin

text \<open>
  Python's \<open>re\<close> for the patterns the code uses: character classes, sequence, ordered
  alternation, greedy bounded and unbounded and lazy repetition, boundaries of words and lines, lookahead and
  numbered groups. A backtracking engine tries alternatives in order, so a match is modelled by the list of
  all ways to match, best first; the engine takes the first. Classes are those of ASCII, and a
  repetition does not go on after an empty round.
\<close>

datatype rx =
    Cls "char \<Rightarrow> bool"
  | Eps
  | Cat rx rx
  | Alt rx rx
  | Rep nat "nat option" rx
  | Lazy rx
  | WordB
  | LineStart
  | LineEnd
  | TextEnd
  | Look rx
  | Grp nat rx

text \<open>Where a match stands: the character before, the text to come, the groups so far.\<close>

record rx_state =
  rx_before :: "char option"
  rx_rest :: string
  rx_groups :: "nat \<rightharpoonup> string"

definition word_char :: "char \<Rightarrow> bool" where
  "word_char c \<longleftrightarrow> is_lower c \<or> is_upper c \<or> is_digit c \<or> c = CHR ''_''"

definition at_word_boundary :: "rx_state \<Rightarrow> bool" where
  "at_word_boundary s \<longleftrightarrow>
     (case rx_before s of None \<Rightarrow> False | Some c \<Rightarrow> word_char c) \<noteq>
     (case rx_rest s of [] \<Rightarrow> False | c # _ \<Rightarrow> word_char c)"

definition step_char :: "rx_state \<Rightarrow> rx_state" where
  "step_char s = s\<lparr>rx_before := Some (hd (rx_rest s)), rx_rest := tl (rx_rest s)\<rparr>"

definition consumed :: "rx_state \<Rightarrow> rx_state \<Rightarrow> string" where
  "consumed s s' = take (length (rx_rest s) - length (rx_rest s')) (rx_rest s)"

definition shorter :: "rx_state \<Rightarrow> rx_state \<Rightarrow> bool" where
  "shorter s s' \<longleftrightarrow> length (rx_rest s') < length (rx_rest s)"

text \<open>One round fewer of a repetition's upper bound.\<close>

definition less_one :: "nat option \<Rightarrow> nat option" where
  "less_one n = map_option (\<lambda>k. k - 1) n"

function ways :: "rx \<Rightarrow> rx_state \<Rightarrow> rx_state list" where
  "ways (Cls p) s = (case rx_rest s of [] \<Rightarrow> [] | c # _ \<Rightarrow> if p c then [step_char s] else [])"
| "ways Eps s = [s]"
| "ways (Cat a b) s = concat (map (\<lambda>s'. ways b s') (ways a s))"
| "ways (Alt a b) s = ways a s @ ways b s"
| "ways (Rep m n a) s =
     (if n = Some 0 then []
      else concat (map (\<lambda>s'. ways (Rep (m - 1) (less_one n) a) s') (filter (shorter s) (ways a s))))
     @ (if m = 0 then [s] else [])"
| "ways (Lazy a) s =
     s # concat (map (\<lambda>s'. ways (Lazy a) s') (filter (shorter s) (ways a s)))"
| "ways WordB s = (if at_word_boundary s then [s] else [])"
| "ways LineStart s = (if rx_before s = None \<or> rx_before s = Some (CHR 0x0A) then [s] else [])"
| "ways LineEnd s = (case rx_rest s of [] \<Rightarrow> [s] | c # _ \<Rightarrow> if c = CHR 0x0A then [s] else [])"
| "ways TextEnd s = (if rx_rest s = [] then [s] else [])"
| "ways (Look a) s = (if ways a s = [] then [] else [s])"
| "ways (Grp k a) s = map (\<lambda>s'. s'\<lparr>rx_groups := (rx_groups s')(k \<mapsto> consumed s s')\<rparr>) (ways a s)"
  by pat_completeness auto

termination ways
  by (relation "measures [\<lambda>(r, s). size r, \<lambda>(r, s). length (rx_rest s)]")
    (auto simp: shorter_def)

lemmas ways_Rep = ways.simps(5)
lemmas ways_Lazy = ways.simps(6)
declare ways.simps(5,6) [simp del]

definition rx_match :: "rx \<Rightarrow> rx_state \<Rightarrow> rx_state option" where
  "rx_match r s = (case ways r s of [] \<Rightarrow> None | s' # _ \<Rightarrow> Some s')"

text \<open>
  \<open>finditer\<close>: the matches from left to right, none overlapping; after an empty match the scan
  moves on by one character. Each match is its text and its groups.
\<close>

function rx_scan :: "rx \<Rightarrow> rx_state \<Rightarrow> (string \<times> (nat \<rightharpoonup> string)) list" where
  "rx_scan r s =
     (case rx_match r s of
        None \<Rightarrow> if rx_rest s = [] then [] else rx_scan r (step_char s)
      | Some s' \<Rightarrow>
          (consumed s s', rx_groups s') #
          (if shorter s s' then rx_scan r (s'\<lparr>rx_groups := Map.empty\<rparr>)
           else if rx_rest s = [] then [] else rx_scan r (step_char s)))"
  by pat_completeness auto

termination rx_scan
  by (relation "measure (\<lambda>(r, s). length (rx_rest s))") (auto simp: shorter_def step_char_def)

declare rx_scan.simps [simp del]

definition start_state :: "string \<Rightarrow> rx_state" where
  "start_state text = \<lparr>rx_before = None, rx_rest = text, rx_groups = Map.empty\<rparr>"

definition finditer :: "rx \<Rightarrow> string \<Rightarrow> (string \<times> (nat \<rightharpoonup> string)) list" where
  "finditer r text = rx_scan r (start_state text)"

definition findall :: "rx \<Rightarrow> string \<Rightarrow> string list" where
  "findall r text = map fst (finditer r text)"

text \<open>\<open>match\<close> and \<open>fullmatch\<close> at the start of the text.\<close>

definition match_start :: "rx \<Rightarrow> string \<Rightarrow> (nat \<rightharpoonup> string) option" where
  "match_start r text = map_option rx_groups (rx_match r (start_state text))"

definition fullmatch :: "rx \<Rightarrow> string \<Rightarrow> (nat \<rightharpoonup> string) option" where
  "fullmatch r text =
     (case filter (\<lambda>s. rx_rest s = []) (ways r (start_state text)) of
        [] \<Rightarrow> None
      | s # _ \<Rightarrow> Some (rx_groups s))"

definition rx_search :: "rx \<Rightarrow> string \<Rightarrow> bool" where
  "rx_search r text \<longleftrightarrow> finditer r text \<noteq> []"

text \<open>\<open>sub\<close> with a replacement that is a plain text.\<close>

function rx_replace :: "rx \<Rightarrow> string \<Rightarrow> rx_state \<Rightarrow> string" where
  "rx_replace r new s =
     (let skip = (case rx_rest s of [] \<Rightarrow> [] | c # _ \<Rightarrow> c # rx_replace r new (step_char s))
      in case rx_match r s of
           None \<Rightarrow> skip
         | Some s' \<Rightarrow>
             new @ (if shorter s s' then rx_replace r new (s'\<lparr>rx_groups := Map.empty\<rparr>) else skip))"
  by pat_completeness auto

termination rx_replace
  by (relation "measure (\<lambda>(r, new, s). length (rx_rest s))") (auto simp: shorter_def step_char_def)

declare rx_replace.simps [simp del]

definition rx_sub :: "rx \<Rightarrow> string \<Rightarrow> string \<Rightarrow> string" where
  "rx_sub r new text = rx_replace r new (start_state text)"

section \<open>Pattern building\<close>

definition chr_rx :: "char \<Rightarrow> rx" where
  "chr_rx c = Cls (\<lambda>x. x = c)"

definition one_ci :: "char \<Rightarrow> rx" where
  "one_ci c = Cls (\<lambda>x. lower_char x = lower_char c)"

primrec lit_with :: "(char \<Rightarrow> rx) \<Rightarrow> string \<Rightarrow> rx" where
  "lit_with f [] = Eps"
| "lit_with f (c # cs) = Cat (f c) (lit_with f cs)"

abbreviation lit :: "string \<Rightarrow> rx" where "lit \<equiv> lit_with chr_rx"
abbreviation lit_ci :: "string \<Rightarrow> rx" where "lit_ci \<equiv> lit_with one_ci"

fun alts :: "rx list \<Rightarrow> rx" where
  "alts [] = Cls (\<lambda>_. False)"
| "alts [r] = r"
| "alts (r # s # rs) = Alt r (alts (s # rs))"

fun seqs :: "rx list \<Rightarrow> rx" where
  "seqs [] = Eps"
| "seqs [r] = r"
| "seqs (r # s # rs) = Cat r (seqs (s # rs))"

abbreviation opt_rx :: "rx \<Rightarrow> rx" where "opt_rx \<equiv> Rep 0 (Some 1)"
abbreviation star_rx :: "rx \<Rightarrow> rx" where "star_rx \<equiv> Rep 0 None"
abbreviation plus_rx :: "rx \<Rightarrow> rx" where "plus_rx \<equiv> Rep 1 None"

section \<open>Laws\<close>

text \<open>A match consumes a prefix of the text.\<close>

definition suffix_state :: "rx_state \<Rightarrow> rx_state \<Rightarrow> bool" where
  "suffix_state s s' \<longleftrightarrow> (\<exists>p. rx_rest s = p @ rx_rest s')"

lemma suffix_state_refl [simp]: "suffix_state s s"
  by (simp add: suffix_state_def)

lemma suffix_state_trans: "\<lbrakk>suffix_state a b; suffix_state b c\<rbrakk> \<Longrightarrow> suffix_state a c"
  by (auto simp: suffix_state_def)

lemma suffix_step: "rx_rest s \<noteq> [] \<Longrightarrow> suffix_state s (step_char s)"
  by (cases "rx_rest s") (auto simp: suffix_state_def step_char_def)

lemma ways_suffix: "s' \<in> set (ways r s) \<Longrightarrow> suffix_state s s'"
proof (induction r s arbitrary: s' rule: ways.induct)
  case (1 p s)
  then show ?case using suffix_step [of s] by (cases "rx_rest s") (auto split: if_splits)
next
  case (3 a b s)
  then show ?case by simp (blast intro: suffix_state_trans)
next
  case (5 m n a s)
  from "5.prems" consider "s' = s"
    | s1 where "n \<noteq> Some 0" "s1 \<in> set (filter (shorter s) (ways a s))"
        "s' \<in> set (ways (Rep (m - 1) (less_one n) a) s1)"
    unfolding ways_Rep [of m n a s] by (auto split: if_split_asm)
  then show ?case
  proof cases
    case 2
    then have "suffix_state s s1" "suffix_state s1 s'"
      using "5.IH"(1) "5.IH"(2) by auto
    then show ?thesis by (rule suffix_state_trans)
  qed simp
next
  case (6 a s)
  from "6.prems" consider "s' = s"
    | s1 where "s1 \<in> set (filter (shorter s) (ways a s))" "s' \<in> set (ways (Lazy a) s1)"
    unfolding ways_Lazy [of a s] by auto
  then show ?case
  proof cases
    case 2
    then have "suffix_state s s1" "suffix_state s1 s'" using "6.IH" by auto
    then show ?thesis by (rule suffix_state_trans)
  qed simp
next
  case (12 k a s)
  then show ?case by (auto simp: suffix_state_def)
qed (auto split: if_splits list.splits)

lemma consumed_append: "suffix_state s s' \<Longrightarrow> rx_rest s = consumed s s' @ rx_rest s'"
  by (auto simp: suffix_state_def consumed_def)

text \<open>Every match found is a piece of the text.\<close>

lemma rx_scan_piece: "(m, g) \<in> set (rx_scan r s) \<Longrightarrow> \<exists>a b. rx_rest s = a @ m @ b"
proof (induction r s rule: rx_scan.induct)
  case (1 r s)
  have step: "\<exists>a b. rx_rest s = a @ m @ b" if "rx_rest s \<noteq> []" "\<exists>a b. rx_rest (step_char s) = a @ m @ b"
    using that by (cases "rx_rest s") (auto simp: step_char_def, metis append_Cons)
  show ?case
  proof (cases "rx_match r s")
    case None
    then show ?thesis
      using 1 step by (auto simp: rx_scan.simps [of r s] split: if_splits)
  next
    case (Some s')
    then have "s' \<in> set (ways r s)" by (auto simp: rx_match_def split: list.splits)
    then have split: "rx_rest s = consumed s s' @ rx_rest s'"
      by (intro consumed_append ways_suffix)
    then have here: "\<exists>a b. rx_rest s = a @ consumed s s' @ b" by (metis append_Nil)
    have later: "\<exists>a b. rx_rest s = a @ m @ b" if "\<exists>a b. rx_rest s' = a @ m @ b"
      using that split by (metis append_assoc)
    show ?thesis
      using 1 Some step here later
      by (auto simp: rx_scan.simps [of r s] split: if_splits)
  qed
qed

lemma findall_piece: "m \<in> set (findall r text) \<Longrightarrow> contains m text"
  using rx_scan_piece by (fastforce simp: findall_def finditer_def start_state_def contains_iff)

end
