(* ===== verification/Merge_Check.thy ===== *)
theory Merge_Check
  imports Workspace Regex
begin

text \<open>
  The two checks a manual completion runs against the clone of the ticket's repository:
  \<open>verify_merge_before_done\<close> (\<open>core/service/_helpers.py\<close>) and
  \<open>_verify_citations\<close> (\<open>core/service/_transition_mixin.py\<close>). The \<open>git\<close> program is
  a parameter that maps its arguments to the answer it gives when it is called; \<open>None\<close> is an
  exception when starting it. The refresh of \<open>origin\<close> by \<open>fetch\<close> changes only what later
  calls answer.
\<close>

section \<open>Merge verification\<close>

definition branch_of :: "settings \<Rightarrow> string \<Rightarrow> string option \<Rightarrow> string" where
  "branch_of st i branch_name = (if truthy branch_name then the branch_name else branch_prefix st @ i)"

definition target_of :: "settings \<Rightarrow> string" where
  "target_of st = ''origin/'' @ forge_target_branch st"

text \<open>The last fallback: some changed file names the ticket on the target.\<close>

fun content_evidence :: "externals \<Rightarrow> string \<times> string \<Rightarrow> string \<Rightarrow> string \<Rightarrow> string list \<Rightarrow> bool" where
  "content_evidence x repo target i [] = False"
| "content_evidence x repo target i (path # paths) =
     (case git x repo [''show'', target @ '':'' @ path] of
        None \<Rightarrow> content_evidence x repo target i paths
      | Some (rc, out) \<Rightarrow>
          (if rc = 0 \<and> contains i out then True else content_evidence x repo target i paths))"

definition changed_files :: "string \<Rightarrow> string list" where
  "changed_files out = filter (\<lambda>f. f \<noteq> []) (split_on (\<lambda>c. c = CHR 0x0A) (strip out))"

definition verify_merge_before_done ::
    "externals \<Rightarrow> settings \<Rightarrow> string \<times> string \<Rightarrow> workspace_dir \<Rightarrow> string \<Rightarrow> string option \<Rightarrow> unit result" where
  "verify_merge_before_done x st repo d i branch_name =
     (if \<not> has_repo d then Inr ()
      else
        (let branch = branch_of st i branch_name; target = target_of st
         in case git x repo [''rev-parse'', ''--verify'', branch] of
              None \<Rightarrow> Inr ()
            | Some (rc, out) \<Rightarrow>
          if rc \<noteq> 0 then Inr ()
          else (let tip = strip out
         in case git x repo [''rev-parse'', ''--verify'', target] of
              None \<Rightarrow> Inr ()
            | Some (rc, out) \<Rightarrow>
          if rc \<noteq> 0 then Inr ()
          else (let sha = strip out
         in case git x repo [''merge-base'', ''--is-ancestor'', tip, target] of
              None \<Rightarrow> Inr ()
            | Some (rc, out) \<Rightarrow>
          if rc = 0 then Inr ()
          else (case git x repo [''log'', target, ''--oneline'', ''--fixed-strings'', ''--grep='' @ i] of
              None \<Rightarrow> Inr ()
            | Some (rc, out) \<Rightarrow>
          if rc = 0 \<and> strip out \<noteq> [] then Inr ()
          else (case git x repo [''diff'', ''--name-only'', target @ ''..'' @ tip] of
              None \<Rightarrow> Inr ()
            | Some (rc, out) \<Rightarrow>
          if rc \<noteq> 0 then Inr ()
          else if changed_files out = [] then Inr ()
          else if content_evidence x repo target i (changed_files out) then Inr ()
          else Inl (TransitionError i (NotMerged branch
                 (if sha \<noteq> [] then target @ '' @ '' @ take 12 sha else target)))))))))"

section \<open>Citations\<close>

text \<open>\<open>(?:PR\s+)?#(\d{1,5})\<close>, ignoring case; group 1 is the number.\<close>

definition PR_CITATION_RE :: rx where
  "PR_CITATION_RE =
     seqs [opt_rx (Cat (lit_ci ''PR'') (plus_rx (Cls is_space))), chr_rx (CHR ''#''),
           Grp 1 (Rep 1 (Some 5) (Cls is_digit))]"

definition pr_citations :: "string \<Rightarrow> string list" where
  "pr_citations text = map (\<lambda>(m, g). or_empty (g 1)) (finditer PR_CITATION_RE text)"

text \<open>\<open>\b(?=[0-9a-f]*[a-f])[0-9a-f]{7,40}\b\<close>.\<close>

definition is_hex_letter :: "char \<Rightarrow> bool" where
  "is_hex_letter c \<longleftrightarrow> 97 \<le> code c \<and> code c \<le> 102"

definition is_hex_char :: "char \<Rightarrow> bool" where
  "is_hex_char c \<longleftrightarrow> is_digit c \<or> is_hex_letter c"

definition COMMIT_CITATION_RE :: rx where
  "COMMIT_CITATION_RE =
     seqs [WordB, Look (Cat (star_rx (Cls is_hex_char)) (Cls is_hex_letter)),
           Rep 7 (Some 40) (Cls is_hex_char), WordB]"

definition commit_citations :: "string \<Rightarrow> string list" where
  "commit_citations text = findall COMMIT_CITATION_RE text"

text \<open>\<open>None\<close> is the early \<open>return note\<close> when git cannot be started.\<close>

fun pr_warnings :: "externals \<Rightarrow> string \<times> string \<Rightarrow> string list \<Rightarrow> string list option" where
  "pr_warnings x repo [] = Some []"
| "pr_warnings x repo (n # ns) =
     (case git x repo [''log'', ''--oneline'', ''--grep=#'' @ n, ''origin/main'', ''-1''] of
        None \<Rightarrow> None
      | Some (rc, out) \<Rightarrow>
          map_option (\<lambda>ws. if rc \<noteq> 0 \<or> strip out = [] then (''PR #'' @ n) # ws else ws)
            (pr_warnings x repo ns))"

fun commit_warnings :: "externals \<Rightarrow> string \<times> string \<Rightarrow> string list \<Rightarrow> string list option" where
  "commit_warnings x repo [] = Some []"
| "commit_warnings x repo (s # ss) =
     (case git x repo [''cat-file'', ''-e'', s] of
        None \<Rightarrow> None
      | Some (rc, out) \<Rightarrow>
          if rc \<noteq> 0 then map_option (\<lambda>ws. (''commit '' @ s) # ws) (commit_warnings x repo ss)
          else (case git x repo [''merge-base'', ''--is-ancestor'', s, ''origin/main''] of
                  None \<Rightarrow> None
                | Some (rc, out) \<Rightarrow>
                    map_option (\<lambda>ws. if rc \<noteq> 0 then (''commit '' @ s) # ws else ws)
                      (commit_warnings x repo ss)))"

definition verify_citations ::
    "externals \<Rightarrow> string \<times> string \<Rightarrow> workspace_dir \<Rightarrow> string \<Rightarrow> string" where
  "verify_citations x repo d note =
     (if \<not> has_repo d \<or> \<not> has_text note then note
      else
        (let sha = refresh_origin_target x repo ''main''
         in case pr_warnings x repo (pr_citations note) of
              None \<Rightarrow> note
            | Some ws1 \<Rightarrow>
                (case commit_warnings x repo (commit_citations note) of
                   None \<Rightarrow> note
                 | Some ws2 \<Rightarrow>
                     (let warnings = ws1 @ ws2;
                          head = (if sha \<noteq> []
                            then [''origin/main verified @ '' @ take 12 sha @ '' before citation check.'']
                            else []);
                          lines = head @ map (\<lambda>w. warning_sign @ '' '' @ w @
                             '' not found on origin/main at time of closure '' @ em_dash @
                             '' verify manually.'') (sort_key str_key (dedup_first warnings))
                      in if warnings = [] then note
                         else rstrip note @ nl @ nl @ join nl lines))))"

section \<open>Laws\<close>

lemma rstrip_prefix: "\<exists>t. s = rstrip s @ t"
proof -
  have "rev s = takeWhile is_space (rev s) @ dropWhile is_space (rev s)" by simp
  then have "s = rev (dropWhile is_space (rev s)) @ rev (takeWhile is_space (rev s))"
    by (metis rev_append rev_rev_ident)
  then show ?thesis by (auto simp: rstrip_def rstrip_by_def)
qed

text \<open>The citation check only appends: the operator's words stay in front.\<close>

lemma verify_citations_keeps: "\<exists>t. verify_citations x repo d note = rstrip note @ t"
  using rstrip_prefix [of "note"]
  by (auto simp: verify_citations_def Let_def split: option.split)

text \<open>Without a clone there is nothing to verify and the completion is allowed.\<close>

lemma verify_merge_no_clone [simp]: "\<not> has_repo d \<Longrightarrow> verify_merge_before_done x st repo d i bn = Inr ()"
  by (simp add: verify_merge_before_done_def)

text \<open>
  A refusal means every piece of evidence is missing: both refs resolve, the tip is no ancestor of
  the target, no commit on the target names the ticket, there are changed files, and none of them
  names the ticket on the target.
\<close>

lemma content_evidence_iff:
  "content_evidence x repo target i paths \<longleftrightarrow>
     (\<exists>p \<in> set paths. \<exists>out. git x repo [''show'', target @ '':'' @ p] = Some (0, out) \<and> contains i out)"
  by (induction paths) (auto split: option.split)

lemma verify_merge_refuses:
  assumes "verify_merge_before_done x st repo d i bn = Inl e"
  shows "\<exists>tip ref. e = TransitionError i (NotMerged (branch_of st i bn) ref)
    \<and> has_repo d
    \<and> (\<exists>out. git x repo [''rev-parse'', ''--verify'', branch_of st i bn] = Some (0, out) \<and> tip = strip out)
    \<and> (\<exists>rc out. git x repo [''merge-base'', ''--is-ancestor'', tip, target_of st] = Some (rc, out) \<and> rc \<noteq> 0)
    \<and> (\<exists>rc out. git x repo [''log'', target_of st, ''--oneline'', ''--fixed-strings'', ''--grep='' @ i]
           = Some (rc, out) \<and> (rc \<noteq> 0 \<or> strip out = []))
    \<and> (\<exists>out. git x repo [''diff'', ''--name-only'', target_of st @ ''..'' @ tip] = Some (0, out)
         \<and> changed_files out \<noteq> []
         \<and> (\<forall>p \<in> set (changed_files out). \<forall>shown.
               git x repo [''show'', target_of st @ '':'' @ p] = Some (0, shown) \<longrightarrow> \<not> contains i shown))"
  using assms
  by (auto simp: verify_merge_before_done_def Let_def content_evidence_iff
      split: if_splits option.splits prod.splits)

end
