(* ===== verification/Closing.thy ===== *)
theory Closing
  imports Cascade Merge_Check
begin

text \<open>
  The operator's moves past the state machine, of \<open>core/service/_transition_mixin.py\<close>:
  sending a ticket back with \<open>request_changes\<close> or \<open>request_implementation_changes\<close>, and
  ending it with \<open>close_tracker\<close> or \<open>mark_done\<close>. Each checks its own set of states
  instead of \<open>can_transition\<close>.
\<close>

section \<open>Sending back\<close>

text \<open>\<open>Comment(...)\<close> when there is a text for it.\<close>

definition optional_comment ::
    "string \<Rightarrow> string \<Rightarrow> string \<Rightarrow> instant \<Rightarrow> board_db \<Rightarrow> Comment option \<times> board_db" where
  "optional_comment i body author now d =
     (if has_text body
      then (let c = new_comment d i body author None now in (Some c, insert_comment c d))
      else (None, d))"

text \<open>The row in its new state, and the event, committed.\<close>

definition move_row ::
    "service \<Rightarrow> string \<Rightarrow> string \<Rightarrow> board_db \<Rightarrow> Ticket \<Rightarrow> State \<Rightarrow> string \<Rightarrow> world \<Rightarrow> Ticket \<times> world" where
  "move_row svc i b d t dst note w =
     (let t1 = t\<lparr>tstate := dst, updated_at := clock w\<rparr>
      in (t1, put_board b (add_event (ext svc) i dst (Some note) (clock w) (put_ticket t1 d)) w))"

definition request_changes_session ::
    "service \<Rightarrow> string \<Rightarrow> string \<Rightarrow> string \<Rightarrow> string \<Rightarrow> board_db \<Rightarrow> Ticket \<Rightarrow> world \<Rightarrow>
     (Comment option \<times> Ticket) result \<times> world" where
  "request_changes_session svc i body author b d t w =
     (if tstate t \<noteq> HUMAN_ISSUE_APPROVAL
         then (Inl (TransitionError i (NotIssueApproval (tstate t))), w)
       else
         (let (c, d1) = optional_comment i body author (clock w) d;
              (t1, w1) = move_row svc i b d1 t DRAFT (''changes requested: '' @ body) w
          in (Inr (c, t1), on_transition svc t1 (state_value (tstate t)) w1)))"

definition request_changes ::
    "service \<Rightarrow> string \<Rightarrow> string \<Rightarrow> string \<Rightarrow> world \<Rightarrow> (Comment option \<times> Ticket) result \<times> world" where
  "request_changes svc i body author w =
     with_ticket svc i (\<lambda>b d t. request_changes_session svc i body author b d t w) w"

definition request_implementation_session ::
    "service \<Rightarrow> string \<Rightarrow> string \<Rightarrow> string \<Rightarrow> string \<Rightarrow> board_db \<Rightarrow> Ticket \<Rightarrow> world \<Rightarrow>
     (Comment \<times> Ticket) result \<times> world" where
  "request_implementation_session svc i body author b d t w =
     (if tstate t \<noteq> HUMAN_MR_APPROVAL
        then (Inl (TransitionError i (NotMrApproval (tstate t))), w)
      else
          (let c = new_comment d i body author None (clock w);
               (t1, w1) = move_row svc i b (insert_comment c d) t READY
                            (''implementation changes requested: '' @ body) w
           in case in_artifacts svc t1 (\<lambda>a.
                     case clear_stale_implement_guard True a of
                       Inl e \<Rightarrow> Inl e
                     | Inr a1 \<Rightarrow> Inr (reset_implement_spawn_counter a1)) w1 of
                (Inl e, w2) \<Rightarrow> (Inl e, w2)
              | (Inr _, w2) \<Rightarrow>
                  (Inr (c, t1), on_transition svc t1 (state_value (tstate t)) w2)))"

definition request_implementation_changes ::
    "service \<Rightarrow> string \<Rightarrow> string \<Rightarrow> string \<Rightarrow> world \<Rightarrow> (Comment \<times> Ticket) result \<times> world" where
  "request_implementation_changes svc i body author w =
     (if \<not> has_text body then (Inl (TransitionError i EmptyBody), w)
      else with_ticket svc i (\<lambda>b d t. request_implementation_session svc i body author b d t w) w)"

section \<open>Ending a ticket\<close>

definition NON_CLOSEABLE :: "State list" where
  "NON_CLOSEABLE = [DONE, CLOSED, ANSWERED, EPIC_CLOSED]"

definition NON_MARK_DONEABLE :: "State list" where
  "NON_MARK_DONEABLE = [DONE, CLOSED, ANSWERED, EPIC_CLOSED, EPIC_OPEN]"

text \<open>The session when an unresolved ticket is looked for on the bound board.\<close>

definition with_ticket_bound ::
    "service \<Rightarrow> string \<Rightarrow> (string \<Rightarrow> board_db \<Rightarrow> Ticket \<Rightarrow> 'a result \<times> world) \<Rightarrow> world \<Rightarrow>
     'a result \<times> world" where
  "with_ticket_bound svc i k w =
     (let b = (case board_for svc i w of Inl e \<Rightarrow> svc_board svc | Inr b \<Rightarrow> b)
      in case open_board b w of
           Inl e \<Rightarrow> (Inl e, w)
         | Inr d \<Rightarrow>
             (case find_ticket d i of None \<Rightarrow> (Inl (KeyError i), w) | Some t \<Rightarrow> k b d t))"

definition close_tracker_session ::
    "service \<Rightarrow> string \<Rightarrow> string \<Rightarrow> string \<Rightarrow> board_db \<Rightarrow> Ticket \<Rightarrow> world \<Rightarrow> Ticket result \<times> world" where
  "close_tracker_session svc i note b d t w =
     (if tstate t \<in> set NON_CLOSEABLE
         then (Inl (TransitionError i (AlreadyTerminal (tstate t))), w)
       else
         (let (t1, w1) = move_row svc i b d
                (t\<lparr>blocked_from := None, block_reason := None, paused_from := None\<rparr>) CLOSED note w;
              w2 = on_transition svc t1 (state_value (tstate t)) w1
          in case maybe_purge_archived svc w2 of
               (Inl e, w3) \<Rightarrow> (Inl e, w3)
             | (Inr _, w3) \<Rightarrow>
                 (Inr (case get_ticket svc i w3 of Some t' \<Rightarrow> t' | None \<Rightarrow> t1), w3)))"

definition close_tracker :: "service \<Rightarrow> string \<Rightarrow> string \<Rightarrow> world \<Rightarrow> Ticket result \<times> world" where
  "close_tracker svc i note w =
     with_ticket_bound svc i (\<lambda>b d t. close_tracker_session svc i note b d t w) w"

definition is_force_close :: "Ticket \<Rightarrow> bool" where
  "is_force_close t \<longleftrightarrow> tstate t \<in> {BLOCKED, REBASING} \<or> source t = source_value S_CI"

definition force_close_note :: "Ticket \<Rightarrow> string \<Rightarrow> string" where
  "force_close_note t note =
     (if is_force_close t
      then ''[force-closed from '' @ state_value (tstate t) @ ''] '' @
           (if has_text note then note else ''operator mark-done'')
      else note)"

definition moot_prefix :: "nat \<Rightarrow> string" where
  "moot_prefix n =
     ''[force-closed with '' @ show_nat n @ '' open [ASK_USER] thread(s) '' @ em_dash @
     '' automatically closed]''"

text \<open>Open questions are closed and the note says so.\<close>

definition close_moot_questions ::
    "string \<Rightarrow> instant \<Rightarrow> string \<Rightarrow> board_db \<Rightarrow> string \<times> board_db" where
  "close_moot_questions i now note d =
     (let open_ask = open_ask_user_threads d i
      in if open_ask = [] then (note, d)
         else ((if has_text note then moot_prefix (length open_ask) @ '' '' @ note
                else moot_prefix (length open_ask)),
               close_threads now open_ask d))"

definition mark_done_session ::
    "service \<Rightarrow> string \<Rightarrow> string \<Rightarrow> string \<Rightarrow> string \<Rightarrow> board_db \<Rightarrow> Ticket \<Rightarrow> world \<Rightarrow>
     (Comment option \<times> Ticket) result \<times> world" where
  "mark_done_session svc i note author b d t w =
     (if tstate t \<in> set NON_MARK_DONEABLE
         then (Inl (TransitionError i (NotMarkDoneable (tstate t))), w)
       else
         (case open_workspace svc t w of
            (Inl e, w1) \<Rightarrow> (Inl e, w1)
          | (Inr k, w1) \<Rightarrow>
         (case (if is_force_close t then Inr ()
                else verify_merge_before_done (ext svc) (settings_of svc) k (ws_dir w1 k) i (branch t)) of
            Inl e \<Rightarrow> (Inl e, w1)
          | Inr _ \<Rightarrow>
              (let (note1, d1) = close_moot_questions i (clock w) (force_close_note t note) d;
                   note2 = verify_citations (ext svc) k (ws_dir w1 k) note1;
                   (c, d2) = optional_comment i note2 author (clock w) d1;
                   event_note = (if note2 \<noteq> [] then ''mark done: '' @ note2 else ''mark done'');
                   (t1, w2) = move_row svc i b d2 t DONE event_note w1;
                   w3 = on_transition svc t1 (state_value (tstate t)) w2;
                   targets = parse_depends_on_str (unblocks t1)
               in (Inr (c, t1), fire_unblocks (Suc (blocked_count w3)) svc i targets w3)))))"

definition mark_done ::
    "service \<Rightarrow> string \<Rightarrow> string \<Rightarrow> string \<Rightarrow> world \<Rightarrow> (Comment option \<times> Ticket) result \<times> world" where
  "mark_done svc i note author w =
     with_ticket_bound svc i (\<lambda>b d t. mark_done_session svc i note author b d t w) w"

section \<open>Frame and invariants\<close>

lemma move_row_fields [simp]:
  "tid (fst (move_row svc i b d t dst note w)) = tid t"
  "tstate (fst (move_row svc i b d t dst note w)) = dst"
  "board_id (fst (move_row svc i b d t dst note w)) = board_id t"
  by (simp_all add: move_row_def Let_def)

lemma optional_comment_fields [simp]:
  "find_ticket (snd (optional_comment i body author now d)) = find_ticket d"
  "events (snd (optional_comment i body author now d)) = events d"
  "tickets (snd (optional_comment i body author now d)) = tickets d"
  by (simp_all add: optional_comment_def Let_def)

lemma close_moot_questions_fields [simp]:
  "find_ticket (snd (close_moot_questions i now note d)) = find_ticket d"
  "events (snd (close_moot_questions i now note d)) = events d"
  "tickets (snd (close_moot_questions i now note d)) = tickets d"
  by (simp_all add: close_moot_questions_def Let_def)

context board_invariant
begin

lemma move_row_keeps:
  assumes x: "ext svc = x" and w: "all_boards B w" and Bd: "B b d" and found: "find_ticket d i = Some t0"
    and t: "tid t = i" "board_id t = board_id t0"
  shows "all_boards B (snd (move_row svc i b d t dst note w))"
proof -
  have "B b (add_event x i dst (Some note) (clock w) (put_ticket (t\<lparr>tstate := dst, updated_at := clock w\<rparr>) d))"
    using t by (intro record_event [OF Bd found]) simp_all
  then show ?thesis using x w by (simp add: move_row_def Let_def all_boards_put)
qed

lemma optional_comment_keeps:
  "\<lbrakk>B b d; find_ticket d i = Some t\<rbrakk> \<Longrightarrow> B b (snd (optional_comment i body author now d))"
  using add_comment_row by (simp add: optional_comment_def Let_def)

lemma close_moot_keeps: "B b d \<Longrightarrow> B b (snd (close_moot_questions i now note d))"
  using close_rows by (simp add: close_moot_questions_def Let_def close_threads_def)

lemma with_ticket_bound_keeps:
  assumes "all_boards B w"
    and "\<And>b t. \<lbrakk>b \<noteq> []; find_ticket (board w b) i = Some t; B b (board w b)\<rbrakk>
          \<Longrightarrow> all_boards B (snd (k b (board w b) t))"
  shows "all_boards B (snd (with_ticket_bound svc i k w))"
  using assms at_board [OF assms(1)]
  by (auto simp: with_ticket_bound_def Let_def open_board_def split: sum.split option.split)

lemma request_changes_keeps:
  assumes x: "ext svc = x" and w: "all_boards B w"
  shows "all_boards B (snd (request_changes svc i body author w))"
  unfolding request_changes_def
proof (rule with_ticket_keeps [OF w])
  fix b t assume f: "find_ticket (board w b) i = Some t" and Bd: "B b (board w b)"
  have "all_boards B (snd (move_row svc i b (snd (optional_comment i body author (clock w) (board w b)))
      t DRAFT n w))" for n
    using find_ticket_SomeD [OF f] f
    by (intro move_row_keeps [OF x w optional_comment_keeps [OF Bd f]]) simp_all
  then show "all_boards B (snd (request_changes_session svc i body author b (board w b) t w))"
    using w by (simp add: request_changes_session_def Let_def case_prod_beta)
qed

lemma request_implementation_changes_keeps:
  assumes x: "ext svc = x" and w: "all_boards B w"
  shows "all_boards B (snd (request_implementation_changes svc i body author w))"
proof -
  have "all_boards B (snd (request_implementation_session svc i body author b (board w b) t w))"
    if found: "find_ticket (board w b) i = Some t" and Bd: "B b (board w b)" for b t
  proof -
    have "all_boards B (snd (move_row svc i b
        (insert_comment (new_comment (board w b) i body author None (clock w)) (board w b)) t READY n w))" for n
      using find_ticket_SomeD [OF found] found
      by (intro move_row_keeps [OF x w add_comment_row [OF Bd found]]) simp_all
    then show ?thesis
      using w by (simp add: request_implementation_session_def Let_def case_prod_beta split: sum.split)
  qed
  then have "all_boards B (snd (with_ticket svc i
      (\<lambda>b d t. request_implementation_session svc i body author b d t w) w))"
    by (intro with_ticket_keeps [OF w])
  then show ?thesis using w by (simp add: request_implementation_changes_def)
qed

lemma close_tracker_keeps:
  assumes x: "ext svc = x" and w: "all_boards B w"
  shows "all_boards B (snd (close_tracker svc i note w))"
  unfolding close_tracker_def
proof (rule with_ticket_bound_keeps [OF w])
  fix b t assume f: "find_ticket (board w b) i = Some t" and Bd: "B b (board w b)"
  have "all_boards B (snd (move_row svc i b (board w b)
      (t\<lparr>blocked_from := None, block_reason := None, paused_from := None\<rparr>) CLOSED n w))" for n
    using find_ticket_SomeD [OF f] by (intro move_row_keeps [OF x w Bd f]) simp_all
  then show "all_boards B (snd (close_tracker_session svc i note b (board w b) t w))"
    using w by (simp add: close_tracker_session_def Let_def case_prod_beta purge_keeps split: sum.split)
qed

lemma mark_done_keeps:
  assumes x: "ext svc = x" and w: "all_boards B w"
  shows "all_boards B (snd (mark_done svc i note author w))"
  unfolding mark_done_def
proof (rule with_ticket_bound_keeps [OF w])
  fix b t assume f: "find_ticket (board w b) i = Some t" and Bd: "B b (board w b)"
  let ?w1 = "snd (open_workspace svc t w)"
  let ?q = "close_moot_questions i (clock w) (force_close_note t note) (board w b)"
  have w1: "all_boards B ?w1" using w by (simp add: open_workspace_def)
  have q: "B b (snd ?q)" "find_ticket (snd ?q) i = Some t"
    using close_moot_keeps [OF Bd] f by simp_all
  have "all_boards B (snd (move_row svc i b
      (snd (optional_comment i n author (clock w) (snd ?q))) t DONE m ?w1))" for n m
    using find_ticket_SomeD [OF f] q
    by (intro move_row_keeps [OF x w1 optional_comment_keeps [OF q], where ?t0.0 = t]) simp_all
  then have "all_boards B (fire_unblocks p svc i ts (on_transition svc u s (snd (move_row svc i b
      (snd (optional_comment i n author (clock w) (snd ?q))) t DONE m ?w1))))" for n m p ts u s
    by (intro transition_n_keeps(2) [OF x]) simp
  then show "all_boards B (snd (mark_done_session svc i note author b (board w b) t w))"
    using w w1 by (simp add: mark_done_session_def Let_def case_prod_beta split: sum.split)
qed

end

end
