(* ===== verification/Maintenance.thy ===== *)
theory Maintenance
  imports Closing
begin

text \<open>
  The database maintenance of \<open>core/service/_maintenance_mixin.py\<close>: the per-ticket caps on
  events and comments, the close of stale drafts, the repair of orphaned rows, and the pass that
  runs them all. The archive purge is in \<open>Purge\<close>. The pass works on the board the service is
  bound to.
\<close>

section \<open>The event cap\<close>

text \<open>
  The oldest events go; the first that stays loses its \<open>prev_hash\<close>, but keeps the hash that
  was computed with it.
\<close>

definition unlink_first :: "nat \<Rightarrow> TicketEvent list \<Rightarrow> TicketEvent list" where
  "unlink_first k es = map (\<lambda>e. if ev_id e = k then e\<lparr>ev_prev := None\<rparr> else e) es"

definition prune_events :: "nat \<Rightarrow> string \<Rightarrow> board_db \<Rightarrow> board_db" where
  "prune_events excess i d =
     (let all_events = events_of d i;
          gone = map ev_id (take excess all_events);
          kept = filter (\<lambda>e. ev_id e \<notin> set gone) (events d)
      in d\<lparr>events := (case drop excess all_events of
                        [] \<Rightarrow> kept
                      | e # _ \<Rightarrow> unlink_first (ev_id e) kept)\<rparr>)"

definition maybe_purge_ticket_events :: "service \<Rightarrow> string \<Rightarrow> world \<Rightarrow> nat result \<times> world" where
  "maybe_purge_ticket_events svc i w =
     (let cap = max_events_per_ticket (settings_of svc)
      in if cap \<le> 0 then (Inr 0, w)
         else (case open_board (svc_board svc) w of
                 Inl e \<Rightarrow> (Inl e, w)
               | Inr d \<Rightarrow>
                   (let total = length (events_of d i); excess = nat (int total - cap)
                    in if int total \<le> cap then (Inr 0, w)
                       else (Inr excess, put_board (svc_board svc) (prune_events excess i d) w))))"

section \<open>The comment cap\<close>

definition open_roots :: "Comment list \<Rightarrow> nat list" where
  "open_roots cs = map c_id (filter (\<lambda>c. c_parent c = None \<and> c_closed c = None) cs)"

text \<open>The walk from a reply to its ancestors, until an open root or a repetition.\<close>

function under_open :: "Comment list \<Rightarrow> nat list \<Rightarrow> nat option \<Rightarrow> bool" where
  "under_open cs seen None = False"
| "under_open cs seen (Some p) =
     (if p \<in> set seen then False
      else if p \<in> set (open_roots cs) then True
      else (case find (\<lambda>c. c_id c = p) cs of
              None \<Rightarrow> False
            | Some parent \<Rightarrow> under_open cs (p # seen) (c_parent parent)))"
  by pat_completeness auto

termination under_open
proof (relation "measure (\<lambda>(cs, seen, p). card (c_id ` set cs - set seen))")
  fix cs :: "Comment list" and seen :: "nat list" and p :: nat and parent :: Comment
  assume new: "p \<notin> set seen" and found: "find (\<lambda>c. c_id c = p) cs = Some parent"
  have "p \<in> c_id ` set cs" using found by (force simp: find_Some_iff)
  with new have "card (c_id ` set cs - set (p # seen)) < card (c_id ` set cs - set seen)"
    by (intro psubset_card_mono) auto
  then show "((cs, p # seen, c_parent parent), cs, seen, Some p)
      \<in> measure (\<lambda>(cs, seen, p). card (c_id ` set cs - set seen))"
    by simp
qed simp

definition protected :: "Comment list \<Rightarrow> Comment \<Rightarrow> bool" where
  "protected cs c \<longleftrightarrow> c_id c \<in> set (open_roots cs) \<or> under_open cs [c_id c] (c_parent c)"

definition doomed_comments :: "nat \<Rightarrow> Comment list \<Rightarrow> nat list" where
  "doomed_comments excess cs = map c_id (take excess (filter (\<lambda>c. \<not> protected cs c) cs))"

definition unparent :: "string \<Rightarrow> nat list \<Rightarrow> Comment \<Rightarrow> Comment" where
  "unparent i gone c =
     (if c_ticket c = i \<and> c_parent c \<in> Some ` set gone then c\<lparr>c_parent := None\<rparr> else c)"

definition prune_comments :: "nat \<Rightarrow> string \<Rightarrow> board_db \<Rightarrow> board_db" where
  "prune_comments excess i d =
     (let gone = doomed_comments excess (comments_of d i)
      in map_comments (unparent i gone)
           (filter_comments (\<lambda>c. c_id c \<notin> set gone) d))"

definition maybe_purge_ticket_comments :: "service \<Rightarrow> string \<Rightarrow> world \<Rightarrow> nat result \<times> world" where
  "maybe_purge_ticket_comments svc i w =
     (let cap = max_comments_per_ticket (settings_of svc)
      in if cap \<le> 0 then (Inr 0, w)
         else (case open_board (svc_board svc) w of
                 Inl e \<Rightarrow> (Inl e, w)
               | Inr d \<Rightarrow>
                   (let total = length (comments_of d i); excess = nat (int total - cap)
                    in if int total \<le> cap then (Inr 0, w)
                       else (Inr (length (doomed_comments excess (comments_of d i))),
                             put_board (svc_board svc) (prune_comments excess i d) w))))"

section \<open>Stale drafts\<close>

definition day_us :: int where
  "day_us = 86400000000"

definition stale_drafts :: "int \<Rightarrow> instant \<Rightarrow> board_db \<Rightarrow> Ticket list" where
  "stale_drafts ttl now d =
     sort_key updated_at
       (filter (\<lambda>t. tstate t = DRAFT \<and> updated_at t < now - ttl * day_us \<and> kind t \<noteq> EPIC) (tickets d))"

definition stale_note :: "int \<Rightarrow> string" where
  "stale_note ttl =
     ''Auto-closed by board-hygiene pass: draft untouched for '' @ show_int ttl @
     '' day(s) (TTL policy). Reopen or refile if still relevant.''"

text \<open>The loop: children of epics are left alone, a close that fails is logged.\<close>

fun close_stale :: "service \<Rightarrow> string \<Rightarrow> Ticket list \<Rightarrow> world \<Rightarrow> nat \<times> world" where
  "close_stale svc note [] w = (0, w)"
| "close_stale svc note (t # ts) w =
     (if parent_id t \<noteq> None then close_stale svc note ts w
      else (case close_tracker svc (tid t) note w of
              (Inl e, w1) \<Rightarrow> close_stale svc note ts w1
            | (Inr _, w1) \<Rightarrow> (let (n, w2) = close_stale svc note ts w1 in (Suc n, w2))))"

definition maybe_auto_close_stale_drafts :: "service \<Rightarrow> world \<Rightarrow> nat result \<times> world" where
  "maybe_auto_close_stale_drafts svc w =
     (let ttl = board_hygiene_draft_ttl_days (settings_of svc)
      in if ttl \<le> 0 then (Inr 0, w)
         else (case open_board (svc_board svc) w of
                 Inl e \<Rightarrow> (Inl e, w)
               | Inr d \<Rightarrow>
                   (let (n, w1) = close_stale svc (stale_note ttl) (stale_drafts ttl (clock w) d) w
                    in (Inr n, w1))))"

section \<open>Orphaned rows\<close>

definition orphan_ids :: "board_db \<Rightarrow> string list" where
  "orphan_ids d =
     sort_key str_key (filter (\<lambda>i. i \<notin> set (map tid (tickets d)))
       (remdups (map ev_ticket (events d) @ map c_ticket (comments d))))"

definition reconcile_orphan_cards :: "service \<Rightarrow> world \<Rightarrow> nat result \<times> world" where
  "reconcile_orphan_cards svc w =
     (case open_board (svc_board svc) w of
        Inl e \<Rightarrow> (Inl e, w)
      | Inr d \<Rightarrow>
          (if orphan_ids d = [] then (Inr 0, w)
           else (Inr (length (orphan_ids d)),
                 put_board (svc_board svc) (fold bulk_delete_ticket_rows (orphan_ids d) d) w)))"

section \<open>The pass\<close>

record maintenance_result =
  drafts_auto_closed :: nat
  orphans_reconciled :: nat
  archived_purged :: int
  events_pruned :: nat
  comments_pruned :: nat
  tickets_pruned :: nat

text \<open>The caps on one active ticket after the other.\<close>

fun cap_tickets ::
    "service \<Rightarrow> string list \<Rightarrow> maintenance_result \<Rightarrow> world \<Rightarrow> maintenance_result result \<times> world" where
  "cap_tickets svc [] r w = (Inr r, w)"
| "cap_tickets svc (i # is) r w =
     (case maybe_purge_ticket_events svc i w of
        (Inl e, w1) \<Rightarrow> (Inl e, w1)
      | (Inr pruned, w1) \<Rightarrow>
          (case maybe_purge_ticket_comments svc i w1 of
             (Inl e, w2) \<Rightarrow> (Inl e, w2)
           | (Inr pruned_c, w2) \<Rightarrow>
               cap_tickets svc is
                 (r\<lparr>events_pruned := events_pruned r + pruned,
                    tickets_pruned := tickets_pruned r + (if pruned > 0 then 1 else 0),
                    comments_pruned := comments_pruned r + pruned_c\<rparr>) w2))"

definition db_maintenance_pass :: "service \<Rightarrow> world \<Rightarrow> maintenance_result result \<times> world" where
  "db_maintenance_pass svc w =
     (case maybe_auto_close_stale_drafts svc w of
        (Inl e, w1) \<Rightarrow> (Inl e, w1)
      | (Inr drafts, w1) \<Rightarrow>
     (case reconcile_orphan_cards svc w1 of
        (Inl e, w2) \<Rightarrow> (Inl e, w2)
      | (Inr orphans, w2) \<Rightarrow>
     (case maybe_purge_archived svc w2 of
        (Inl e, w3) \<Rightarrow> (Inl e, w3)
      | (Inr _, w3) \<Rightarrow>
          (let before = length (archived_tickets (board w2 (svc_board svc)));
               after = length (archived_tickets (board w3 (svc_board svc)));
               active = map tid (filter (\<lambda>t. \<not> archivable t) (tickets (board w3 (svc_board svc))))
           in cap_tickets svc active
                \<lparr>drafts_auto_closed = drafts, orphans_reconciled = orphans,
                  archived_purged = int before - int after, events_pruned = 0, comments_pruned = 0,
                  tickets_pruned = 0\<rparr> w3))))"

section \<open>What the event cap leaves\<close>

lemma unlink_first_fields [simp]:
  "map ev_id (unlink_first k es) = map ev_id es" "map ev_ticket (unlink_first k es) = map ev_ticket es"
  "map ev_state (unlink_first k es) = map ev_state es" "length (unlink_first k es) = length es"
  by (auto simp: unlink_first_def)

lemma unlink_first_other: "k \<notin> ev_id ` set es \<Longrightarrow> unlink_first k es = es"
  by (auto simp: unlink_first_def intro!: map_idI)

lemma filter_unlink_first: "filter (\<lambda>e. ev_ticket e = j) (unlink_first k es)
    = unlink_first k (filter (\<lambda>e. ev_ticket e = j) es)"
  by (induction es) (auto simp: unlink_first_def)

lemma filter_not_taken:
  "distinct (map f xs) \<Longrightarrow> filter (\<lambda>x. f x \<notin> f ` set (take k xs)) xs = drop k xs"
proof (induction xs arbitrary: k)
  case (Cons x xs)
  have "filter (\<lambda>y. f y \<noteq> f x \<and> f y \<notin> f ` set (take m xs)) xs
      = filter (\<lambda>y. f y \<notin> f ` set (take m xs)) xs" for m
    using Cons.prems by (intro filter_cong refl) (simp, metis image_eqI)
  with Cons show ?case by (cases k) auto
qed simp

lemma prune_events_fields [simp]:
  "tickets (prune_events k i d) = tickets d" "comments (prune_events k i d) = comments d"
  "find_ticket (prune_events k i d) = find_ticket d" "ids (prune_events k i d) = ids d"
  by (simp_all add: prune_events_def Let_def find_ticket_def ids_def fun_eq_iff)

lemma distinct_ev_ids: "rows_ok d \<Longrightarrow> distinct (map ev_id (events d))"
  by (auto simp: rows_ok_def strict_sorted_iff)

lemma events_of_pruned:
  assumes d: "rows_ok d" and k: "drop k (events_of d i) = e # es"
  shows "events_of (prune_events k i d) j =
    (if j = i then e\<lparr>ev_prev := None\<rparr> # es else events_of d j)"
proof -
  let ?gone = "ev_id ` set (take k (events_of d i))"
  have dist: "distinct (map ev_id (events d))" by (rule distinct_ev_ids [OF d])
  then have inj: "inj_on ev_id (set (events d))" by (simp add: distinct_map)
  have dist_of: "distinct (map ev_id (events_of d i'))" for i'
    using dist unfolding events_of_def by (simp add: distinct_map_filter)
  have sub: "set (take k (events_of d i)) \<subseteq> set (events_of d i)" by (rule set_take_subset)
  have mem: "e \<in> set (events_of d i)" using k by (metis in_set_dropD list.set_intros(1))
  have mine: "ev_ticket a = i" "a \<in> set (events d)" if "a \<in> set (events_of d i)" for a
    using that by (simp_all add: events_of_def)
  have kept: "filter (\<lambda>a. ev_ticket a = j) (filter (\<lambda>a. ev_id a \<notin> ?gone) (events d)) =
      (if j = i then e # es else events_of d j)"
  proof (cases "j = i")
    case True
    then have "filter (\<lambda>a. ev_ticket a = j) (filter (\<lambda>a. ev_id a \<notin> ?gone) (events d))
        = filter (\<lambda>a. ev_id a \<notin> ?gone) (events_of d i)"
      by (simp add: events_of_def conj_commute)
    with True show ?thesis using filter_not_taken [OF dist_of [of i]] k by simp
  next
    case False
    have "ev_id a \<notin> ?gone" if "a \<in> set (events d)" "ev_ticket a = j" for a
      using that False mine sub inj by (auto dest: inj_onD)
    with False show ?thesis by (auto simp: events_of_def intro: filter_cong)
  qed
  have other: "unlink_first (ev_id e) (events_of d j) = events_of d j" if "j \<noteq> i"
    using that mine [OF mem] inj
    by (intro unlink_first_other) (auto simp: events_of_def dest: inj_onD)
  have "ev_id e \<notin> ev_id ` set es"
    using dist_of [of i] k append_take_drop_id [of k "events_of d i"]
    by (metis distinct.simps(2) distinct_append list.set_map list.simps(9) map_append)
  then have here: "unlink_first (ev_id e) (e # es) = e\<lparr>ev_prev := None\<rparr> # es"
    using unlink_first_other by (simp add: unlink_first_def)
  show ?thesis
    using kept other here k
    by (simp add: prune_events_def Let_def events_of_def filter_unlink_first)
qed

lemma map_fst_update_keys: "map f (filter p (map g xs)) = map (f \<circ> g) (filter (p \<circ> g) xs)"
  by (simp add: filter_map)

lemma rows_ok_prune_events:
  assumes "rows_ok d"
  shows "rows_ok (prune_events k i d)"
proof -
  have "map ev_id (events (prune_events k i d)) =
      map ev_id (filter (\<lambda>e. ev_id e \<notin> set (map ev_id (take k (events_of d i)))) (events d))"
    by (simp add: prune_events_def Let_def split: list.split)
  with assms show ?thesis by (simp add: rows_ok_def sorted_wrt_map_filter)
qed

lemma tickets_of_prune_events:
  "ev_ticket ` set (events (prune_events k i d)) \<subseteq> ev_ticket ` set (events d)"
proof -
  have "map ev_ticket (events (prune_events k i d)) =
      map ev_ticket (filter (\<lambda>e. ev_id e \<notin> set (map ev_id (take k (events_of d i)))) (events d))"
    by (simp add: prune_events_def Let_def split: list.split)
  then have "ev_ticket ` set (events (prune_events k i d)) =
      ev_ticket ` set (filter (\<lambda>e. ev_id e \<notin> set (map ev_id (take k (events_of d i)))) (events d))"
    by (metis list.set_map)
  then show ?thesis by auto
qed

lemma chain_from_drop: "chain_from p xs \<Longrightarrow> drop k xs = e # es \<Longrightarrow> chain_from (hash_of e) es"
proof (induction xs arbitrary: p k)
  case (Cons x xs)
  then show ?case by (cases k) auto
qed simp

lemma wf_prune_events:
  assumes wf: "wf_board d" and k: "k < length (events_of d i)"
  shows "wf_board (prune_events k i d)"
proof -
  let ?d = "prune_events k i d"
  obtain e es where es: "drop k (events_of d i) = e # es"
    using k by (metis drop_eq_Nil list.exhaust not_le)
  have rows: "rows_ok d" and links: "links_ok d" and ag: "agrees d" and no: "no_orphans d"
    using wf by (simp_all add: wf_board_def)
  have of: "events_of ?d j = (if j = i then e\<lparr>ev_prev := None\<rparr> # es else events_of d j)" for j
    by (rule events_of_pruned [OF rows es])
  have "links_ok ?d"
    using links_okD [OF links] chain_from_drop [OF links_okD [OF links] es]
    by (intro links_okI) (simp add: of hash_of_def split: if_splits)
  moreover have "agrees ?d"
  proof (rule agreesI)
    fix t assume "t \<in> set (tickets ?d)"
    then have t: "events_of d (tid t) \<noteq> []" "ev_state (last (events_of d (tid t))) = tstate t"
      using agreesD [OF ag] by auto
    have "last (events_of d i) = last (e # es)" using es k by (metis last_drop)
    with t show "events_of ?d (tid t) \<noteq> [] \<and> ev_state (last (events_of ?d (tid t))) = tstate t"
      by (auto simp: of split: if_splits)
  qed
  moreover have "no_orphans ?d"
    using no tickets_of_prune_events [of k i d] by (auto simp: no_orphans_def)
  ultimately show ?thesis using rows_ok_prune_events [OF rows] by (simp add: wf_board_def)
qed

section \<open>Invariants\<close>

text \<open>Every change but the event cap keeps any board invariant; the cap needs a law of its own.\<close>

locale capped_invariant = board_invariant +
  assumes prune: "\<lbrakk>B b d; k < length (events_of d i)\<rbrakk> \<Longrightarrow> B b (prune_events k i d)"

lemma unparent_fields [simp]:
  "c_id (unparent i gone c) = c_id c" "c_ticket (unparent i gone c) = c_ticket c"
  by (simp_all add: unparent_def)

context board_invariant
begin

lemma comment_cap_keeps:
  assumes w: "all_boards B w"
  shows "all_boards B (snd (maybe_purge_ticket_comments svc i w))"
proof -
  have "B b (prune_comments k i (board w b))" if "b \<noteq> []" for k b
    unfolding prune_comments_def Let_def
    by (intro edit_comments drop_comments at_board [OF w that]) simp_all
  then show ?thesis
    using w by (auto simp: maybe_purge_ticket_comments_def open_board_def Let_def
        intro: all_boards_put)
qed

lemma close_stale_keeps:
  "\<lbrakk>ext svc = x; all_boards B w\<rbrakk> \<Longrightarrow> all_boards B (snd (close_stale svc note ts w))"
proof (induction svc "note" ts w rule: close_stale.induct)
  case (2 svc nt t ts w)
  have "all_boards B (snd (close_tracker svc (tid t) nt w))"
    by (rule close_tracker_keeps [OF 2(4,5)])
  with 2 show ?case by (auto simp: Let_def split: prod.splits sum.splits)
qed simp

lemma stale_drafts_keeps:
  "\<lbrakk>ext svc = x; all_boards B w\<rbrakk> \<Longrightarrow> all_boards B (snd (maybe_auto_close_stale_drafts svc w))"
  by (auto simp: maybe_auto_close_stale_drafts_def Let_def case_prod_beta close_stale_keeps
      split: sum.split)

lemma fold_drop_dangling:
  "\<lbrakk>B b d; \<forall>i \<in> set is. i \<notin> ids d\<rbrakk> \<Longrightarrow> B b (fold bulk_delete_ticket_rows is d)"
  using drop_dangling by (induction "is" arbitrary: d) simp_all

lemma reconcile_keeps:
  assumes w: "all_boards B w"
  shows "all_boards B (snd (reconcile_orphan_cards svc w))"
  using w at_board [OF w]
  by (auto simp: reconcile_orphan_cards_def open_board_def orphan_ids_def ids_def
      intro!: all_boards_put fold_drop_dangling)

end

context capped_invariant
begin

lemma event_cap_keeps:
  assumes w: "all_boards B w"
  shows "all_boards B (snd (maybe_purge_ticket_events svc i w))"
  using w at_board [OF w]
  by (auto simp: maybe_purge_ticket_events_def open_board_def Let_def intro!: all_boards_put prune)

lemma cap_tickets_keeps: "all_boards B w \<Longrightarrow> all_boards B (snd (cap_tickets svc is r w))"
proof (induction svc "is" r w rule: cap_tickets.induct)
  case (2 svc i "is" r w)
  have "all_boards B (snd (maybe_purge_ticket_events svc i w))"
    by (rule event_cap_keeps [OF 2(2)])
  moreover from this have "all_boards B
      (snd (maybe_purge_ticket_comments svc i (snd (maybe_purge_ticket_events svc i w))))"
    by (rule comment_cap_keeps)
  ultimately show ?case using 2 by (auto split: prod.splits sum.splits)
qed simp

lemma db_maintenance_pass_keeps:
  assumes x: "ext svc = x" and w: "all_boards B w"
  shows "all_boards B (snd (db_maintenance_pass svc w))"
  using w
  by (simp add: db_maintenance_pass_def Let_def case_prod_beta cap_tickets_keeps purge_keeps
      reconcile_keeps stale_drafts_keeps [OF x] split: sum.split)

end

interpretation wf_capped: capped_invariant "\<lambda>b. wf_board" x for x
  by unfold_locales (rule wf_prune_events)

interpretation homed_capped: capped_invariant
    "\<lambda>b d. b \<noteq> [] \<and> (\<forall>t \<in> set (tickets d). board_id t = b)" x for x
  by unfold_locales simp

end
