(* ===== verification/Comments.thy ===== *)
theory Comments
  imports Cascade
begin

text \<open>
  Comments and question threads, \<open>core/service/_comments.py\<close>: adding a comment, closing and
  reopening a thread, answering a pending question, and the automatic resume of a paused ticket
  once all its \<open>[ASK_USER]\<close> threads are closed; and the two thread helpers of
  \<open>_create_mixin.py\<close>.
\<close>

section \<open>The automatic resume\<close>

definition ASK_USER_AUTO_RESUME_NOTE :: string where
  "ASK_USER_AUTO_RESUME_NOTE = ''all ask_user threads closed '' @ em_dash @ '' resuming''"

text \<open>The state a legacy ticket was in before its pause, from its history, latest first.\<close>

definition state_before_pause :: "board_db \<Rightarrow> string \<Rightarrow> State option" where
  "state_before_pause d i =
     (case sort_key (\<lambda>e. - ev_at e) (filter (\<lambda>e. ev_state e \<noteq> AWAITING_USER_REPLY) (events_of d i)) of
        [] \<Rightarrow> None
      | e # _ \<Rightarrow> Some (ev_state e))"

definition recover_paused_from :: "board_db \<Rightarrow> string \<Rightarrow> Ticket \<Rightarrow> Ticket option" where
  "recover_paused_from d i t =
     (if truthy (paused_from t) then Some t
      else map_option (\<lambda>s. t\<lparr>paused_from := Some (state_value s)\<rparr>) (state_before_pause d i))"

definition resumed_row :: "State \<Rightarrow> instant \<Rightarrow> Ticket \<Rightarrow> Ticket" where
  "resumed_row dst now t =
     t\<lparr>blocked_from := None, block_reason := None, paused_from := None, tstate := dst, updated_at := now\<rparr>"

definition auto_resume ::
    "service \<Rightarrow> string \<Rightarrow> string \<Rightarrow> board_db \<Rightarrow> Ticket \<Rightarrow> State \<Rightarrow> world \<Rightarrow> unit result \<times> world" where
  "auto_resume svc i b d t dst w =
     (let t1 = resumed_row dst (clock w) t;
          w1 = put_board b (add_event (ext svc) i dst (Some ASK_USER_AUTO_RESUME_NOTE) (clock w)
                 (put_ticket t1 d)) w
      in case in_artifacts svc t1 (clear_stale_implement_guard True) w1 of
           (Inl e, w2) \<Rightarrow> (Inl e, w2)
         | (Inr _, w2) \<Rightarrow> (Inr (), on_transition svc t1 (state_value (tstate t)) w2))"

definition maybe_resume_awaiting_user_reply ::
    "service \<Rightarrow> string \<Rightarrow> string \<Rightarrow> world \<Rightarrow> unit result \<times> world" where
  "maybe_resume_awaiting_user_reply svc i b w =
     (case open_board b w of
        Inl e \<Rightarrow> (Inl e, w)
      | Inr d \<Rightarrow>
     (case find_ticket d i of
        None \<Rightarrow> (Inr (), w)
      | Some t \<Rightarrow>
          if tstate t \<noteq> AWAITING_USER_REPLY then (Inr (), w)
          else
     (case recover_paused_from d i t of
        None \<Rightarrow> (Inr (), w)
      | Some t1 \<Rightarrow>
          if ask_threads d i = [] then (Inr (), w)
          else if \<exists>c \<in> set (ask_threads d i). c_closed c = None then (Inr (), w)
          else
     (case state_of (or_empty (paused_from t1)) of
        None \<Rightarrow> (Inl (ValueError (BadState (or_empty (paused_from t1)))), w)
      | Some dst \<Rightarrow> auto_resume svc i b d t1 dst w))))"

section \<open>Comments\<close>

definition is_open_question :: "Comment \<Rightarrow> bool" where
  "is_open_question c \<longleftrightarrow>
     c_parent c = None \<and> startswith ASK_USER_MARKER (c_body c) \<and> c_closed c = None"

text \<open>
  The board with the reply's parent closed when the reply answers it, and whether it did.
\<close>

definition check_parent ::
    "string \<Rightarrow> Ticket \<Rightarrow> nat option \<Rightarrow> instant \<Rightarrow> board_db \<Rightarrow> (bool \<times> board_db) result" where
  "check_parent i t parent now d =
     (case parent of
        None \<Rightarrow> Inr (False, d)
      | Some p \<Rightarrow>
          (case find_comment d p of
             None \<Rightarrow> Inl (ValueError (ParentCommentMissing p))
           | Some c \<Rightarrow>
               if c_ticket c \<noteq> i
                 then Inl (ValueError (ForeignParentComment p i
                        (map c_id (filter (\<lambda>c. c_parent c = None) (comments_of d i)))))
               else if tstate t = AWAITING_USER_REPLY \<and> is_open_question c
                 then Inr (True, set_closed {p} (Some now) d)
               else Inr (False, d)))"

definition add_comment_session ::
    "service \<Rightarrow> string \<Rightarrow> string \<Rightarrow> string \<Rightarrow> nat option \<Rightarrow> string \<Rightarrow> board_db \<Rightarrow> Ticket \<Rightarrow> world \<Rightarrow>
     Comment result \<times> world" where
  "add_comment_session svc i body author parent b d t w =
     (case check_parent i t parent (clock w) d of
        Inl e \<Rightarrow> (Inl e, w)
      | Inr (answers, d1) \<Rightarrow>
          (let c = new_comment d1 i body author parent (clock w);
               w1 = put_board b (insert_comment c d1) w
           in if answers
              then (case maybe_resume_awaiting_user_reply svc i b w1 of
                      (Inl e, w2) \<Rightarrow> (Inl e, w2)
                    | (Inr _, w2) \<Rightarrow> (Inr c, w2))
              else (Inr c, w1)))"

definition add_comment ::
    "service \<Rightarrow> string \<Rightarrow> string \<Rightarrow> string \<Rightarrow> nat option \<Rightarrow> world \<Rightarrow> Comment result \<times> world" where
  "add_comment svc i body author parent w =
     with_ticket svc i (\<lambda>b d t. add_comment_session svc i body author parent b d t w) w"

section \<open>Threads\<close>

definition board_for_comment ::
    "service \<Rightarrow> nat \<Rightarrow> string option \<Rightarrow> world \<Rightarrow> string result" where
  "board_for_comment svc c i w =
     (case i of
        Some i \<Rightarrow> board_for svc i w
      | None \<Rightarrow>
          (let candidates = collect_candidate_boards svc w
           in case filter (\<lambda>b. find_comment (board w b) c \<noteq> None) candidates of
                [b] \<Rightarrow> Inr b
              | [] \<Rightarrow> (if svc_board svc \<noteq> [] then Inr (svc_board svc)
                       else Inl (ValueError (CommentNotOnAnyBoard c candidates)))
              | matches \<Rightarrow> Inl (ValueError (CommentAmbiguous c matches))))"

text \<open>A session on the board of a comment, and the comment in it.\<close>

definition with_comment ::
    "service \<Rightarrow> nat \<Rightarrow> string option \<Rightarrow> (string \<Rightarrow> board_db \<Rightarrow> Comment \<Rightarrow> 'a result \<times> world) \<Rightarrow>
     world \<Rightarrow> 'a result \<times> world" where
  "with_comment svc c i k w =
     (case board_for_comment svc c i w of
        Inl e \<Rightarrow> (Inl e, w)
      | Inr b \<Rightarrow>
          (case open_board b w of
             Inl e \<Rightarrow> (Inl e, w)
           | Inr d \<Rightarrow>
               (case find_comment d c of
                  None \<Rightarrow> (Inl (CommentKeyError c), w)
                | Some row \<Rightarrow> k b d row)))"

definition close_thread_session ::
    "service \<Rightarrow> nat \<Rightarrow> string \<Rightarrow> board_db \<Rightarrow> Comment \<Rightarrow> world \<Rightarrow> Comment result \<times> world" where
  "close_thread_session svc c b d row w =
     (if c_parent row \<noteq> None then (Inl (ValueError OnlyTopLevel), w)
      else if c_closed row \<noteq> None then (Inl (ValueError ThreadAlreadyClosed), w)
      else (case maybe_resume_awaiting_user_reply svc (c_ticket row) b
                   (put_board b (set_closed {c} (Some (clock w)) d) w) of
              (Inl e, w1) \<Rightarrow> (Inl e, w1)
            | (Inr _, w1) \<Rightarrow> (Inr (row\<lparr>c_closed := Some (clock w)\<rparr>), w1)))"

definition close_thread ::
    "service \<Rightarrow> nat \<Rightarrow> string option \<Rightarrow> world \<Rightarrow> Comment result \<times> world" where
  "close_thread svc c i w = with_comment svc c i (\<lambda>b d row. close_thread_session svc c b d row w) w"

definition reopen_thread ::
    "service \<Rightarrow> nat \<Rightarrow> string option \<Rightarrow> world \<Rightarrow> Comment result \<times> world" where
  "reopen_thread svc c i w =
     with_comment svc c i (\<lambda>b d row.
       if c_parent row \<noteq> None then (Inl (ValueError OnlyTopLevel), w)
       else if c_closed row = None then (Inl (ValueError ThreadNotClosed), w)
       else (Inr (row\<lparr>c_closed := None\<rparr>), put_board b (set_closed {c} None d) w)) w"

definition close_open_ask_user_threads :: "service \<Rightarrow> string \<Rightarrow> world \<Rightarrow> nat result \<times> world" where
  "close_open_ask_user_threads svc i w =
     (case open_board_for svc i w of
        Inl e \<Rightarrow> (Inl e, w)
      | Inr (b, d) \<Rightarrow>
          (let threads = open_ask_user_threads d i
           in (Inr (length threads), put_board b (close_threads (clock w) threads d) w)))"

section \<open>Answering\<close>

definition answered_note :: string where
  "answered_note = ''operator answered '' @ em_dash @ '' resuming from ask_user timeout block''"

definition answered_comment :: "string \<Rightarrow> string" where
  "answered_comment target =
     ''Operator answered the [ASK_USER] question '' @ em_dash @
     '' resuming from BLOCKED back to '' @ target @ ''.''"

text \<open>The tail: to implement when the answer asks for a change, else the automatic resume.\<close>

definition finish_answer ::
    "service \<Rightarrow> string \<Rightarrow> string \<Rightarrow> bool \<Rightarrow> string \<Rightarrow> Comment \<Rightarrow> world \<Rightarrow> Comment result \<times> world" where
  "finish_answer svc i body requires_change b reply w =
     (if requires_change then
        (case transition svc i READY (Some body) None w of
           (Inl e, w1) \<Rightarrow> (Inl e, w1)
         | (Inr _, w1) \<Rightarrow> (Inr reply, w1))
      else
        (case maybe_resume_awaiting_user_reply svc i b w of
           (Inl e, w1) \<Rightarrow> (Inl e, w1)
         | (Inr _, w1) \<Rightarrow> (Inr reply, w1)))"

definition unpark_for_answer ::
    "service \<Rightarrow> string \<Rightarrow> bool \<Rightarrow> world \<Rightarrow> unit result \<times> world" where
  "unpark_for_answer svc i requires_change w =
     (case transition svc i AWAITING_USER_REPLY (Some answered_note) None w of
        (Inl e, w1) \<Rightarrow> (Inl e, w1)
      | (Inr updated, w1) \<Rightarrow>
          (let target = (if requires_change then state_value READY
                         else if truthy (paused_from updated) then the (paused_from updated)
                         else ''originating state'')
           in case add_comment svc i (answered_comment target) ''system'' None w1 of
                (Inl e, w2) \<Rightarrow> (Inl e, w2)
              | (Inr _, w2) \<Rightarrow> (Inr (), w2)))"

definition answerable :: "Ticket \<Rightarrow> bool" where
  "answerable t \<longleftrightarrow>
     tstate t = AWAITING_USER_REPLY \<or>
     (tstate t = BLOCKED \<and> blocked_from t = Some (state_value AWAITING_USER_REPLY))"

definition answer_session ::
    "service \<Rightarrow> string \<Rightarrow> string \<Rightarrow> string \<Rightarrow> bool \<Rightarrow> string \<Rightarrow> board_db \<Rightarrow> Ticket \<Rightarrow> world \<Rightarrow>
     Comment result \<times> world" where
  "answer_session svc i body author requires_change b d t w =
     (if \<not> answerable t then (Inl (ValueError (NotAwaitingReply (tstate t))), w)
      else (case latest_question d i of
              None \<Rightarrow> (Inl (ValueError NoOpenQuestion), w)
            | Some q \<Rightarrow>
                (let reply = new_comment d i body author (Some (c_id q)) (clock w);
                     w1 = put_board b
                            (set_closed {c_id q} (Some (clock w)) (insert_comment reply d)) w
                 in if tstate t = BLOCKED
                    then (case unpark_for_answer svc i requires_change w1 of
                            (Inl e, w2) \<Rightarrow> (Inl e, w2)
                          | (Inr _, w2) \<Rightarrow> finish_answer svc i body requires_change b reply w2)
                    else finish_answer svc i body requires_change b reply w1)))"

definition answer_pending_question ::
    "service \<Rightarrow> string \<Rightarrow> string \<Rightarrow> string \<Rightarrow> bool \<Rightarrow> world \<Rightarrow> Comment result \<times> world" where
  "answer_pending_question svc i body author requires_change w =
     with_ticket svc i (\<lambda>b d t. answer_session svc i body author requires_change b d t w) w"

section \<open>Invariants\<close>

lemma set_closed_fields [simp]:
  "tickets (set_closed cs n d) = tickets d" "events (set_closed cs n d) = events d"
  "events_of (set_closed cs n d) = events_of d" "ids (set_closed cs n d) = ids d"
  "find_ticket (set_closed cs n d) = find_ticket d"
  by (simp_all add: set_closed_def)

lemma recover_fields:
  "recover_paused_from d i t = Some t1 \<Longrightarrow>
     tid t1 = tid t \<and> tstate t1 = tstate t \<and> board_id t1 = board_id t \<and> truthy (paused_from t1)"
  by (auto simp: recover_paused_from_def split: if_splits)

context board_invariant
begin

lemma auto_resume_keeps:
  assumes x: "ext svc = x" and w: "all_boards B w" and Bd: "B b d" and found: "find_ticket d i = Some t0"
    and t: "tid t = i" "board_id t = board_id t0"
  shows "all_boards B (snd (auto_resume svc i b d t dst w))"
proof -
  have "B b (add_event x i dst n (clock w) (put_ticket (resumed_row dst (clock w) t) d))" for n
    using t by (intro record_event [OF Bd found]) (simp_all add: resumed_row_def)
  then have "all_boards B (put_board b (add_event x i dst n (clock w)
      (put_ticket (resumed_row dst (clock w) t) d)) w)" for n
    using w by (intro all_boards_put)
  then show ?thesis
    using x by (simp add: auto_resume_def Let_def case_prod_beta split: sum.split)
qed

lemma maybe_resume_keeps:
  assumes x: "ext svc = x" and w: "all_boards B w"
  shows "all_boards B (snd (maybe_resume_awaiting_user_reply svc i b w))"
proof -
  have "all_boards B (snd (auto_resume svc i b (board w b) t1 dst w))"
    if "b \<noteq> []" "find_ticket (board w b) i = Some t" "recover_paused_from (board w b) i t = Some t1" for t t1 dst
    using recover_fields [OF that(3)] find_ticket_SomeD [OF that(2)] that
    by (intro auto_resume_keeps [OF x w at_board [OF w] that(2)]) simp_all
  then show ?thesis
    using w by (auto simp: maybe_resume_awaiting_user_reply_def open_board_def split: option.split)
qed

lemma add_comment_keeps:
  assumes x: "ext svc = x" and w: "all_boards B w"
  shows "all_boards B (snd (add_comment svc i body author parent w))"
  unfolding add_comment_def
proof (rule with_ticket_keeps [OF w])
  fix b t assume f: "find_ticket (board w b) i = Some t" and Bd: "B b (board w b)"
  have put: "all_boards B (put_board b (insert_comment (new_comment d1 i body author parent (clock w)) d1) w)"
    if "check_parent i t parent (clock w) (board w b) = Inr (ans, d1)" for ans d1
  proof (rule all_boards_put [OF w])
    have "B b d1" "find_ticket d1 i = Some t"
      using that f Bd close_rows by (auto simp: check_parent_def split: option.splits if_splits)
    then show "B b (insert_comment (new_comment d1 i body author parent (clock w)) d1)"
      by (rule add_comment_row)
  qed
  show "all_boards B (snd (add_comment_session svc i body author parent b (board w b) t w))"
    using w put maybe_resume_keeps [OF x]
    by (auto simp: add_comment_session_def Let_def case_prod_beta split: sum.split)
qed

lemma with_comment_keeps:
  assumes "all_boards B w"
    and "\<And>b row. \<lbrakk>b \<noteq> []; find_comment (board w b) c = Some row; B b (board w b)\<rbrakk>
          \<Longrightarrow> all_boards B (snd (k b (board w b) row))"
  shows "all_boards B (snd (with_comment svc c i k w))"
  using assms at_board [OF assms(1)]
  by (auto simp: with_comment_def open_board_def split: sum.split option.split)

lemma close_thread_keeps:
  assumes x: "ext svc = x" and w: "all_boards B w"
  shows "all_boards B (snd (close_thread svc c i w))"
  unfolding close_thread_def
proof (rule with_comment_keeps [OF w])
  fix b row assume Bd: "B b (board w b)"
  have "all_boards B (snd (maybe_resume_awaiting_user_reply svc j b
      (put_board b (set_closed {c} (Some (clock w)) (board w b)) w)))" for j
    using w Bd by (intro maybe_resume_keeps [OF x] all_boards_put close_rows)
  then show "all_boards B (snd (close_thread_session svc c b (board w b) row w))"
    using w by (simp add: close_thread_session_def case_prod_beta split: sum.split)
qed

lemma reopen_thread_keeps: "all_boards B w \<Longrightarrow> all_boards B (snd (reopen_thread svc c i w))"
  unfolding reopen_thread_def
  by (rule with_comment_keeps) (simp_all add: all_boards_put close_rows)

lemma close_open_ask_keeps: "all_boards B w \<Longrightarrow> all_boards B (snd (close_open_ask_user_threads svc i w))"
  by (auto simp: close_open_ask_user_threads_def open_board_for_def open_board_def Let_def
      close_threads_def intro!: all_boards_put close_rows at_board split: sum.split)

lemma finish_answer_keeps:
  "\<lbrakk>ext svc = x; all_boards B w\<rbrakk> \<Longrightarrow> all_boards B (snd (finish_answer svc i body rc b reply w))"
  using transition_keeps maybe_resume_keeps
  by (simp add: finish_answer_def case_prod_beta split: sum.split)

lemma unpark_keeps:
  assumes "ext svc = x" "all_boards B w"
  shows "all_boards B (snd (unpark_for_answer svc i rc w))"
  using transition_keeps [OF assms] add_comment_keeps [OF assms(1) transition_keeps [OF assms]]
  by (simp add: unpark_for_answer_def case_prod_beta Let_def split: sum.split)

lemma answer_keeps:
  assumes x: "ext svc = x" and w: "all_boards B w"
  shows "all_boards B (snd (answer_pending_question svc i body author rc w))"
  unfolding answer_pending_question_def
proof (rule with_ticket_keeps [OF w])
  fix b t assume f: "find_ticket (board w b) i = Some t" and Bd: "B b (board w b)"
  have put: "all_boards B (put_board b (set_closed cs n
      (insert_comment (new_comment (board w b) i body author p (clock w)) (board w b))) w)" for cs n p
    using w by (intro all_boards_put close_rows add_comment_row [OF Bd f])
  show "all_boards B (snd (answer_session svc i body author rc b (board w b) t w))"
    using w put finish_answer_keeps [OF x] unpark_keeps [OF x put]
    by (simp add: answer_session_def Let_def case_prod_beta split: option.split sum.split)
qed

end

end
