(* ===== verification/Redraft.thy ===== *)
theory Redraft
  imports Cascade
begin

text \<open>
  \<open>redraft\<close> of \<open>core/service/_delete_mixin.py\<close>: a ticket starts over. Its description,
  its comments and the reason are folded into one description, its thread and its history are
  deleted, its clone and its artifacts go, and the \<open>draft\<close> event it gets is the first of a
  new hash chain. \<open>delete\<close> itself is in \<open>Purge\<close>.
\<close>

definition NON_REDRAFTABLE :: "State list" where
  "NON_REDRAFTABLE = [DRAFT, CLOSED, ANSWERED, EPIC_CLOSED, EPIC_OPEN]"

definition folded_comment :: "Comment \<Rightarrow> string" where
  "folded_comment c =
     ''**'' @ c_author c @ ''** '' @ em_dash @ '' '' @ isoformat (c_created c) @ '':'' @ nl @ c_body c"

definition folded_parts :: "string \<Rightarrow> Comment list \<Rightarrow> string list" where
  "folded_parts body cs = (if has_text body then [body] else []) @ map folded_comment cs"

definition redraft_body :: "string \<Rightarrow> string \<Rightarrow> Comment list \<Rightarrow> string" where
  "redraft_body original body cs =
     (let folded = folded_parts body cs
      in if folded \<noteq> []
         then original @ nl @ nl @ ''---'' @ nl @ ''## Folded-in on redraft'' @ nl @ join (nl @ nl) folded
         else original)"

text \<open>The workspace after it: the new description, no clone, no artifacts.\<close>

definition redraft_workspace ::
    "externals \<Rightarrow> string \<Rightarrow> Comment list \<Rightarrow> workspace_dir \<Rightarrow> workspace_dir \<times> string" where
  "redraft_workspace x body cs dir =
     (let (dir1, hash) = write_description x (redraft_body (read_description dir) body cs) dir
      in ((prune_clone dir1)\<lparr>artifacts := Map.empty\<rparr>, hash))"

text \<open>The first repo of the registry on the ticket's board.\<close>

definition repo_on_board :: "string \<Rightarrow> (string \<times> string) list \<Rightarrow> string option" where
  "repo_on_board b repos = map_option fst (find (\<lambda>rc. snd rc = b) repos)"

definition redraft_row :: "externals \<Rightarrow> string option \<Rightarrow> string \<Rightarrow> instant \<Rightarrow> Ticket \<Rightarrow> Ticket" where
  "redraft_row x rc hash now t =
     t\<lparr>content_hash := hash, branch := None, pre_redraft_cost_usd := session_cost x (tid t) rc,
       cost_usd := 0, tstate := DRAFT, updated_at := now\<rparr>"

definition redraft_note :: "string \<Rightarrow> string" where
  "redraft_note body = (if body \<noteq> [] then ''redrafted: '' @ body else ''redrafted'')"

definition redraft_session ::
    "service \<Rightarrow> string \<Rightarrow> string \<Rightarrow> string \<Rightarrow> board_db \<Rightarrow> Ticket \<Rightarrow> world \<Rightarrow> Ticket result \<times> world" where
  "redraft_session svc i body b d t w =
     (if tstate t \<in> set NON_REDRAFTABLE
        then (Inl (TransitionError i (NotRedraftable (tstate t))), w)
      else
        (case open_workspace svc t w of
           (Inl e, w1) \<Rightarrow> (Inl e, w1)
         | (Inr k, w1) \<Rightarrow>
             (let (dir, hash) = redraft_workspace (ext svc) body (sort_key c_created (comments_of d i))
                                  (ws_dir w1 k);
                  w2 = put_ws k dir w1
              in case repos_config (settings_of svc) of
                   None \<Rightarrow> (Inl (RuntimeError ''repos config''), w2)
                 | Some repos \<Rightarrow>
                     (let t1 = redraft_row (ext svc) (repo_on_board (board_id t) repos) hash (clock w) t;
                          d1 = add_event (ext svc) i DRAFT (Some (redraft_note body)) (clock w)
                                 (put_ticket t1 (bulk_delete_ticket_rows i d))
                      in (Inr t1, on_transition svc t1 (state_value (tstate t)) (put_board b d1 w2))))))"

definition redraft ::
    "service \<Rightarrow> string \<Rightarrow> string \<Rightarrow> world \<Rightarrow> Ticket result \<times> world" where
  "redraft svc i body w = with_ticket svc i (\<lambda>b d t. redraft_session svc i body b d t w) w"

section \<open>Invariants\<close>

lemma redraft_row_fields [simp]:
  "tid (redraft_row x rc h now t) = tid t" "tstate (redraft_row x rc h now t) = DRAFT"
  "board_id (redraft_row x rc h now t) = board_id t"
  by (simp_all add: redraft_row_def)

context board_invariant
begin

lemma redraft_session_keeps:
  assumes x: "ext svc = x" and w: "all_boards B w" and Bd: "B b d" and found: "find_ticket d i = Some t"
  shows "all_boards B (snd (redraft_session svc i body b d t w))"
proof -
  have row: "B b (add_event x i DRAFT nt (clock w)
      (put_ticket (redraft_row x rc h (clock w) t) (bulk_delete_ticket_rows i d)))" for rc h nt
    using find_ticket_SomeD [OF found] by (intro restart [OF Bd found]) simp_all
  have same: "all_boards B w'" if "boards w' = boards w" for w'
    using w all_boards_same [OF that] by simp
  have put: "all_boards B (put_board b (add_event x i DRAFT nt (clock w)
      (put_ticket (redraft_row x rc h (clock w) t) (bulk_delete_ticket_rows i d))) w')"
    if "boards w' = boards w" for rc h nt w'
    using same [OF that] row by (rule all_boards_put)
  show ?thesis
    using x by (auto simp: redraft_session_def Let_def case_prod_beta same put
        split: sum.split option.split)
qed

lemma redraft_keeps:
  assumes "ext svc = x" "all_boards B w"
  shows "all_boards B (snd (redraft svc i body w))"
  unfolding redraft_def
  by (rule with_ticket_keeps [OF assms(2)], rule redraft_session_keeps [OF assms])

end

end
