(* ===== verification/Resume.thy ===== *)
theory Resume
  imports Cascade
begin

text \<open>
  Resuming a blocked ticket, \<open>resume_blocked\<close> of \<open>core/service/_transition_mixin.py\<close>,
  with the epic context and the spec fingerprint it looks at (\<open>get_epic_context\<close> of
  \<open>_queries.py\<close>, \<open>section\<close> of \<open>agents/prompt_blocks.py\<close>,
  \<open>_compute_spec_fingerprint\<close> of \<open>_metadata.py\<close>), and \<open>set_retry_state\<close>.
  A resume returns the ticket to the state it was blocked from and gives back exactly the budgets
  that are used up.
\<close>

section \<open>The spec fingerprint\<close>

definition prompt_section :: "string \<Rightarrow> string \<Rightarrow> string" where
  "prompt_section name content =
     ''````'' @ name @ nl @ content @ nl @ ''````'' @ nl @ ''<!-- /'' @ name @ '' -->''"

definition get_epic_context :: "service \<Rightarrow> Ticket \<Rightarrow> world \<Rightarrow> string result \<times> world" where
  "get_epic_context svc t w =
     (case parent_id t of
        None \<Rightarrow> (Inr [], w)
      | Some p \<Rightarrow>
          (case get_ticket svc p w of
             None \<Rightarrow> (Inr [], w)
           | Some parent \<Rightarrow>
               if kind parent \<noteq> EPIC then (Inr [], w)
               else (case open_workspace svc parent w of
                       (Inl e, w1) \<Rightarrow> (Inl e, w1)
                     | (Inr k, w1) \<Rightarrow>
                         (let desc = read_description (ws_dir w1 k)
                          in (Inr (if desc = [] then [] else prompt_section ''epic-context'' desc), w1)))))"

definition compute_spec_fingerprint :: "service \<Rightarrow> Ticket \<Rightarrow> world \<Rightarrow> string result \<times> world" where
  "compute_spec_fingerprint svc t w =
     (case open_workspace svc t w of
        (Inl e, w1) \<Rightarrow> (Inl e, w1)
      | (Inr k, w1) \<Rightarrow>
          (let effective = read_description (ws_dir w1 k)
           in if truthy (parent_id t) then
                (case get_epic_context svc t w1 of
                   (Inl e, w2) \<Rightarrow> (Inl e, w2)
                 | (Inr ctx, w2) \<Rightarrow>
                     (Inr (take 16 (sha256 (ext svc)
                        (if ctx \<noteq> [] then ctx @ nl @ nl @ effective else effective))), w2))
              else (Inr (take 16 (sha256 (ext svc) effective)), w1)))"

section \<open>Resuming\<close>

definition resume_row :: "State \<Rightarrow> instant \<Rightarrow> Ticket \<Rightarrow> Ticket" where
  "resume_row dst now t =
     t\<lparr>blocked_from := None, block_reason := None, retry_attempt := 0,
       last_transient_error := None, next_retry_at := None, pre_redraft_trace_count := - 1,
       tstate := dst, updated_at := now\<rparr>"

text \<open>
  Whether the spawn counter is reset, and whether it is held back: the budget was used up twice on
  this very spec and the operator says nothing new.
\<close>

definition spawn_decision ::
    "service \<Rightarrow> Ticket \<Rightarrow> State \<Rightarrow> string \<Rightarrow> world \<Rightarrow> (bool \<times> bool) result \<times> world" where
  "spawn_decision svc t dst note w =
     (let limit = implement_max_spawns_per_ticket (settings_of svc)
      in if \<not> (dst = READY \<and> 0 < limit) then (Inr (False, False), w)
         else (case open_workspace svc t w of
                 (Inl e, w1) \<Rightarrow> (Inl e, w1)
               | (Inr k, w1) \<Rightarrow>
                   (let a = artifacts (ws_dir w1 k)
                    in if read_counter (a ''implement_spawn_count'') < limit
                         then (Inr (False, False), w1)
                       else (case read_spawn_exhaustion_marker a of
                               Inl e \<Rightarrow> (Inl e, w1)
                             | Inr marker \<Rightarrow>
                                 (case compute_spec_fingerprint svc t w1 of
                                    (Inl e, w2) \<Rightarrow> (Inl e, w2)
                                  | (Inr fp, w2) \<Rightarrow>
                                      (let hold = (case marker of
                                             None \<Rightarrow> False
                                           | Some (mfp, n) \<Rightarrow> 2 \<le> n \<and> mfp = fp \<and> \<not> has_text note)
                                       in (Inr (\<not> hold, hold), w2)))))))"

definition cycles_at_ceiling :: "settings \<Rightarrow> Ticket \<Rightarrow> State \<Rightarrow> bool" where
  "cycles_at_ceiling st t dst \<longleftrightarrow>
     dst = READY \<and> 0 < max_implement_review_cycles st \<and>
     max_implement_review_cycles st \<le> implement_cycles t"

text \<open>The zero-diff counter, with the pause file it goes with.\<close>

definition reset_zero_diff :: "settings \<Rightarrow> State \<Rightarrow> files \<Rightarrow> bool \<times> files" where
  "reset_zero_diff st dst a =
     (let threshold = implement_zero_diff_abort_threshold st
      in if dst = READY \<and> 0 < threshold \<and> threshold \<le> read_zero_diff_count a
         then (True, unlink ZERO_DIFF_PAUSE_FILENAME (write_zero_diff_count 0 a))
         else (False, a))"

definition resume_note ::
    "State \<Rightarrow> string \<Rightarrow> bool \<Rightarrow> bool \<Rightarrow> bool \<Rightarrow> string list \<Rightarrow> bool \<Rightarrow> string" where
  "resume_note dst note spawn_reset spawn_hold cycles_reset ci_guards zero_diff =
     ''resumed from blocked (was blocked from '' @ state_value dst @ '')''
     @ (if note \<noteq> [] then ''; override: '' @ note else [])
     @ (if spawn_reset then ''; spawn counter reset via resume-blocked'' else [])
     @ (if spawn_hold
        then ''; recurring spawn exhaustion '' @ em_dash @
             '' counter NOT reset (spec unchanged and no resume note); change the spec or resume with a note to grant a fresh budget''
        else [])
     @ (if cycles_reset
        then ''; implement-review cycle counter reset via resume-blocked (was at the ceiling, which blocks in preflight before any work runs)''
        else [])
     @ (if ci_guards \<noteq> []
        then ''; ci_fix guard(s) reset via resume-blocked: '' @ join '', '' ci_guards else [])
     @ (if zero_diff then ''; zero-diff counter reset via resume-blocked'' else [])"

text \<open>After the commit: the conversation and the summary of the failed attempt are dropped.\<close>

definition resume_cleanup :: "State \<Rightarrow> bool \<Rightarrow> bool \<Rightarrow> files \<Rightarrow> files result" where
  "resume_cleanup dst with_note spawn_reset a =
     (case (if dst \<noteq> READY then Inr a
            else (case clear_stale_implement_guard with_note a of
                    Inl e \<Rightarrow> Inl e
                  | Inr a1 \<Rightarrow>
                      (case persist_stall_state_from_implement_md False
                              (clear_conversation_state ''implement'' a1) of
                         Inl e \<Rightarrow> Inl e
                       | Inr a2 \<Rightarrow>
                           Inr (unlink ''reference_files.json'' (unlink ''implement_summary.md'' a2)))))
      of Inl e \<Rightarrow> Inl e
       | Inr a3 \<Rightarrow>
           Inr (if spawn_reset
                then unlink ''implement_spawn_aborts.jsonl''
                       (unlink ''implement_spawn_state.json'' (unlink ''implement_spawn_count'' a3))
                else a3))"

text \<open>
  The session, once the guards have let the ticket through to \<open>dst\<close>: the row and the
  operator's comment, the budget decisions, and then the merge-side budgets, the event and the
  commit in \<open>resume_commit\<close>.
\<close>

definition resume_commit ::
    "service \<Rightarrow> string \<Rightarrow> State \<Rightarrow> string \<Rightarrow> string \<Rightarrow> board_db \<Rightarrow> Ticket \<Rightarrow> bool \<Rightarrow> bool \<Rightarrow>
     string \<times> string \<Rightarrow> world \<Rightarrow> Ticket result \<times> world" where
  "resume_commit svc i dst note b d t1 spawn_reset spawn_hold k w =
     (let st = settings_of svc;
          cycles_reset = cycles_at_ceiling st t1 dst;
          (ci_guards, a1) = reset_tripped_ci_fix_guards st (artifacts (ws_dir w k));
          (zero_diff, a2) = reset_zero_diff st dst a1;
          t2 = (if cycles_reset then t1\<lparr>implement_cycles := 0\<rparr> else t1);
          event_note = resume_note dst note spawn_reset spawn_hold cycles_reset ci_guards zero_diff;
          w1 = put_board b (add_event (ext svc) i dst (Some event_note) (clock w) (put_ticket t2 d))
                 (edit_artifacts k (\<lambda>_. a2) w)
      in case resume_cleanup dst (note \<noteq> []) spawn_reset a2 of
           Inl e \<Rightarrow> (Inl e, w1)
         | Inr a3 \<Rightarrow>
             (Inr t2, on_transition svc t2 (state_value BLOCKED) (edit_artifacts k (\<lambda>_. a3) w1)))"

definition operator_comment :: "string \<Rightarrow> string \<Rightarrow> instant \<Rightarrow> board_db \<Rightarrow> board_db" where
  "operator_comment i note now d =
     (if note \<noteq> [] then insert_comment (new_comment d i note ''operator'' None now) d else d)"

definition resume_session ::
    "service \<Rightarrow> string \<Rightarrow> State \<Rightarrow> string \<Rightarrow> string \<Rightarrow> board_db \<Rightarrow> Ticket \<Rightarrow> world \<Rightarrow>
     Ticket result \<times> world" where
  "resume_session svc i dst note b d t w =
     (let t1 = resume_row dst (clock w) t;
          d1 = operator_comment i note (clock w) d
      in case spawn_decision svc t1 dst note w of
           (Inl e, w1) \<Rightarrow> (Inl e, w1)
         | (Inr (spawn_reset, spawn_hold), w1) \<Rightarrow>
             (case open_workspace svc t1 w1 of
                (Inl e, w2) \<Rightarrow> (Inl e, w2)
              | (Inr k, w2) \<Rightarrow> resume_commit svc i dst note b d1 t1 spawn_reset spawn_hold k w2))"

definition resume_checked ::
    "service \<Rightarrow> string \<Rightarrow> string \<Rightarrow> string \<Rightarrow> board_db \<Rightarrow> Ticket \<Rightarrow> world \<Rightarrow> Ticket result \<times> world" where
  "resume_checked svc i note b d t w =
     (if tstate t \<noteq> BLOCKED then (Inl (TransitionError i (NotBlocked (tstate t))), w)
       else if \<not> truthy (blocked_from t) then (Inl (TransitionError i NoBlockedFrom), w)
       else (case state_of (the (blocked_from t)) of
               None \<Rightarrow> (Inl (ValueError (BadState (the (blocked_from t)))), w)
             | Some dst \<Rightarrow>
                 if \<not> can_transition (tstate t) dst (Some dst) None
                   then (Inl (TransitionError i (NotAllowed (tstate t) dst)), w)
                 else resume_session svc i dst (strip note) b d t w))"

definition resume_blocked :: "service \<Rightarrow> string \<Rightarrow> string \<Rightarrow> world \<Rightarrow> Ticket result \<times> world" where
  "resume_blocked svc i note w =
     with_ticket svc i (\<lambda>b d t. resume_checked svc i note b d t w) w"

definition set_retry_state ::
    "service \<Rightarrow> string \<Rightarrow> int \<Rightarrow> string option \<Rightarrow> instant option \<Rightarrow> world \<Rightarrow> unit result \<times> world" where
  "set_retry_state svc i attempt err next w =
     with_ticket svc i (\<lambda>b d t.
       (Inr (), put_board b (put_ticket
          (t\<lparr>retry_attempt := attempt, last_transient_error := err, next_retry_at := next,
             updated_at := clock w\<rparr>) d) w)) w"

section \<open>Frame\<close>

lemma get_epic_context_fields [simp]:
  "boards (snd (get_epic_context svc t w)) = boards w" "clock (snd (get_epic_context svc t w)) = clock w"
  "notices (snd (get_epic_context svc t w)) = notices w" "board (snd (get_epic_context svc t w)) = board w"
  "ws_dir (snd (get_epic_context svc t w)) = ws_dir w"
  by (simp_all add: get_epic_context_def case_prod_beta Let_def split: option.split sum.split)

lemma compute_spec_fingerprint_fields [simp]:
  "boards (snd (compute_spec_fingerprint svc t w)) = boards w"
  "clock (snd (compute_spec_fingerprint svc t w)) = clock w"
  "notices (snd (compute_spec_fingerprint svc t w)) = notices w"
  "board (snd (compute_spec_fingerprint svc t w)) = board w"
  "ws_dir (snd (compute_spec_fingerprint svc t w)) = ws_dir w"
  by (simp_all add: compute_spec_fingerprint_def case_prod_beta Let_def split: option.split sum.split)

lemma spawn_decision_fields [simp]:
  "boards (snd (spawn_decision svc t dst note w)) = boards w"
  "clock (snd (spawn_decision svc t dst note w)) = clock w"
  "notices (snd (spawn_decision svc t dst note w)) = notices w"
  "board (snd (spawn_decision svc t dst note w)) = board w"
  "ws_dir (snd (spawn_decision svc t dst note w)) = ws_dir w"
  by (simp_all add: spawn_decision_def case_prod_beta Let_def split: option.split sum.split)

lemma resume_row_fields [simp]:
  "tid (resume_row dst now t) = tid t" "tstate (resume_row dst now t) = dst"
  "board_id (resume_row dst now t) = board_id t" "blocked_from (resume_row dst now t) = None"
  "block_reason (resume_row dst now t) = None" "paused_from (resume_row dst now t) = paused_from t"
  "retry_attempt (resume_row dst now t) = 0" "implement_cycles (resume_row dst now t) = implement_cycles t"
  by (simp_all add: resume_row_def)

section \<open>Invariants\<close>

context board_invariant
begin

lemma resume_commit_keeps:
  assumes x: "ext svc = x" and w: "all_boards B w" and Bd: "B b d" and found: "find_ticket d i = Some t0"
    and t: "tid t1 = i" "tstate t1 = dst" "board_id t1 = board_id t0"
  shows "all_boards B (snd (resume_commit svc i dst note b d t1 spawn_reset spawn_hold k w))"
proof -
  have put: "all_boards B (put_board b (add_event x i dst n (clock w) (put_ticket t2 d))
      (edit_artifacts k f w))"
    if "tid t2 = i" "tstate t2 = dst" "board_id t2 = board_id t0" for n t2 f
    using w that by (intro all_boards_put record_event [OF Bd found]) simp_all
  show ?thesis
    using x t
    by (simp add: resume_commit_def Let_def case_prod_beta put split: sum.split)
qed

lemma resume_session_keeps:
  assumes x: "ext svc = x" and w: "all_boards B w" and Bd: "B b d" and found: "find_ticket d i = Some t"
  shows "all_boards B (snd (resume_session svc i dst note b d t w))"
proof -
  let ?d1 = "operator_comment i note (clock w) d"
  let ?t1 = "resume_row dst (clock w) t"
  let ?w1 = "snd (spawn_decision svc ?t1 dst note w)"
  let ?w2 = "snd (open_workspace svc ?t1 ?w1)"
  have d1: "B b ?d1" "find_ticket ?d1 i = Some t"
    using add_comment_row [OF Bd found] Bd found by (simp_all add: operator_comment_def)
  have w1: "all_boards B ?w1" "all_boards B ?w2"
    using w by (simp_all add: all_boards_same [of ?w1 w] all_boards_same [of ?w2 w])
  have "all_boards B (snd (resume_commit svc i dst note b ?d1 ?t1 sr sh k ?w2))" for sr sh k
    using find_ticket_SomeD [OF found] by (intro resume_commit_keeps [OF x w1(2) d1]) simp_all
  then show ?thesis
    using w1 by (simp add: resume_session_def Let_def case_prod_beta split: sum.split)
qed

lemma resume_blocked_keeps:
  assumes x: "ext svc = x" and w: "all_boards B w"
  shows "all_boards B (snd (resume_blocked svc i note w))"
  unfolding resume_blocked_def
proof (rule with_ticket_keeps [OF w])
  fix b t assume "find_ticket (board w b) i = Some t" "B b (board w b)"
  then show "all_boards B (snd (resume_checked svc i note b (board w b) t w))"
    using resume_session_keeps [OF x w] w by (simp add: resume_checked_def split: option.split)
qed

lemma set_retry_state_keeps:
  assumes w: "all_boards B w"
  shows "all_boards B (snd (set_retry_state svc i attempt err next w))"
  unfolding set_retry_state_def
proof (rule with_ticket_keeps [OF w])
  fix b t assume f: "find_ticket (board w b) i = Some t" and Bd: "B b (board w b)"
  have "B b (put_ticket (t\<lparr>retry_attempt := attempt, last_transient_error := err,
      next_retry_at := next, updated_at := clock w\<rparr>) (board w b))"
    using find_ticket_SomeD [OF f] by (intro update_row [OF Bd f]) simp_all
  then show "all_boards B (snd (Inr (), put_board b (put_ticket (t\<lparr>retry_attempt := attempt,
      last_transient_error := err, next_retry_at := next, updated_at := clock w\<rparr>) (board w b)) w))"
    using w by (simp add: all_boards_put)
qed

end

end
