(* ===== verification/Create.thy ===== *)
theory Create
  imports Cascade Regex
begin

text \<open>
  Ticket creation, step events and history notes, \<open>core/service/_create_mixin.py\<close>, with the
  path tokens of \<open>core/dedup.py\<close> that keep file changes off the forge-less board.
\<close>

section \<open>Path tokens\<close>

definition path_char :: "char \<Rightarrow> bool" where
  "path_char c \<longleftrightarrow> word_char c \<or> c \<in> {CHR ''.'', CHR ''+'', CHR ''-''}"

definition is_letter :: "char \<Rightarrow> bool" where
  "is_letter c \<longleftrightarrow> is_lower c \<or> is_upper c"

definition SOURCE_EXT :: "string list" where
  "SOURCE_EXT =
     [''py'', ''md'', ''yml'', ''yaml'', ''json'', ''toml'', ''js'', ''mjs'', ''cfg'', ''ini'', ''txt'',
      ''sh'', ''html'', ''css'']"

definition PATH_TOKEN_RE :: rx where
  "PATH_TOKEN_RE =
     Alt (seqs [plus_rx (Cls path_char), chr_rx (CHR ''/''), plus_rx (Cls path_char),
                star_rx (Cat (chr_rx (CHR ''/'')) (plus_rx (Cls path_char))), chr_rx (CHR ''.''),
                Cls is_letter, Rep 0 (Some 6) (Cls (\<lambda>c. is_letter c \<or> is_digit c)), WordB])
         (seqs [plus_rx (Cls path_char), chr_rx (CHR ''.''), alts (map lit SOURCE_EXT), WordB])"

definition extract_paths :: "string \<Rightarrow> string list" where
  "extract_paths text = dedup_first (findall PATH_TOKEN_RE text)"

section \<open>Creation\<close>

text \<open>The arguments of \<open>create\<close>, and the four hexadecimal digits of \<open>token_hex(2)\<close>.\<close>

record create_request =
  r_title :: string
  r_description :: string
  r_source :: string
  r_origin_session :: "string option"
  r_depends_on :: "string option"
  r_unblocks :: "string option"
  r_kind :: TicketKind
  r_parent :: "string option"
  r_board :: "string option"
  r_priority :: bool
  r_initial :: "State option"
  r_token :: string

definition new_ticket_id :: "create_request \<Rightarrow> instant \<Rightarrow> string" where
  "new_ticket_id r now = id_stamp now @ ''-'' @ slug (r_title r) @ ''-'' @ r_token r"

definition initial_state :: "create_request \<Rightarrow> State" where
  "initial_state r =
     (case r_initial r of
        Some s \<Rightarrow> s
      | None \<Rightarrow> (case r_kind r of EPIC \<Rightarrow> EPIC_OPEN | INQUIRY \<Rightarrow> ASKED | TASK \<Rightarrow> DRAFT))"

definition effective_board :: "service \<Rightarrow> create_request \<Rightarrow> string" where
  "effective_board svc r = (case r_board r of Some b \<Rightarrow> b | None \<Rightarrow> svc_board svc)"

text \<open>The refusals, in the order the code raises them.\<close>

definition create_refusal :: "service \<Rightarrow> create_request \<Rightarrow> string \<Rightarrow> world \<Rightarrow> error option" where
  "create_refusal svc r i w =
     (let b = effective_board svc r
      in if r_kind r \<in> {INQUIRY, EPIC} \<and> truthy (r_depends_on r)
           then Some (ValueError (NoDependsOnFor (r_kind r)))
         else if truthy (r_depends_on r) \<and> i \<in> set (parse_depends_on_str (r_depends_on r))
           then Some (ValueError (SelfDependency i))
         else if b = ''meta'' \<and> r_source r \<notin> {source_value S_META, source_value S_USER}
                 \<and> extract_paths (r_description r) \<noteq> []
           then Some (ValueError (FilesOnMetaBoard (r_title r) (r_source r)
                        (take 5 (extract_paths (r_description r)))))
         else if b = [] \<and> (case repos_config (settings_of svc) of None \<Rightarrow> False | Some repos \<Rightarrow> repos \<noteq> [])
                 \<and> default_repo_id (settings_of svc) = []
           then Some (ValueError (BoardlessCreate (r_title r) (r_source r)))
         else if r_parent r \<noteq> None \<and> get_ticket svc (the (r_parent r)) w = None
           then Some (ValueError (ParentMissing (the (r_parent r))))
         else None)"

text \<open>
  The walk up the parent chain on the new ticket's board, for a priority to inherit. It stops at a
  missing or repeated ticket, so each step visits a new row of the board.
\<close>

function priority_above :: "board_db \<Rightarrow> string list \<Rightarrow> string option \<Rightarrow> bool" where
  "priority_above d seen cur =
     (if \<not> truthy cur \<or> the cur \<in> set seen then False
      else (case find_ticket d (the cur) of
              None \<Rightarrow> False
            | Some p \<Rightarrow> priority p \<or> priority_above d (the cur # seen) (parent_id p)))"
  by pat_completeness auto

termination priority_above
proof (relation "measure (\<lambda>(d, seen, cur). unvisited d seen)")
  fix d :: board_db and seen :: "string list" and cur :: "string option" and p :: Ticket
  assume new: "\<not> (\<not> truthy cur \<or> the cur \<in> set seen)" and found: "find_ticket d (the cur) = Some p"
  have "the cur \<in> set (map tid (tickets d))"
    using find_ticket_SomeD [OF found] by force
  with new have "unvisited d (the cur # seen) < unvisited d seen"
    unfolding unvisited_def by (intro psubset_card_mono) auto
  then show "((d, the cur # seen, parent_id p), d, seen, cur) \<in> measure (\<lambda>(d, seen, cur). unvisited d seen)"
    by simp
qed simp

declare priority_above.simps [simp del]

definition inherited_priority :: "board_db \<Rightarrow> create_request \<Rightarrow> bool" where
  "inherited_priority d r = (r_parent r \<noteq> None \<and> priority_above d [] (r_parent r))"

definition workspace_path_of :: "settings \<Rightarrow> string \<times> string \<Rightarrow> string" where
  "workspace_path_of st k = data_dir st @ ''/'' @ fst k @ ''/workspaces/'' @ snd k"

text \<open>The row, with the column defaults of \<open>models.py\<close>.\<close>

definition new_row ::
    "service \<Rightarrow> create_request \<Rightarrow> string \<times> string \<Rightarrow> string \<Rightarrow> bool \<Rightarrow> instant \<Rightarrow> Ticket" where
  "new_row svc r k hash inherited now =
     \<lparr>tid = snd k, title = r_title r, tstate = initial_state r, kind = r_kind r,
      workspace_path = workspace_path_of (settings_of svc) k, content_hash = hash, branch = None,
      parent_id = r_parent r, source = r_source r, blocked_from = None, block_reason = None,
      paused_from = None, origin_session = r_origin_session r, cost_usd = 0,
      pre_redraft_cost_usd = 0, pre_redraft_trace_count = 0, review_rounds = 0,
      implement_cycles = 0, refine_passes = 0, refine_output_hash = [], retry_attempt = 0,
      last_transient_error = None, next_retry_at = None, depends_on = r_depends_on r,
      unblocks = r_unblocks r, labels = None, tool_calls_override = None,
      board_id = effective_board svc r, priority = r_priority r \<or> inherited, created_at = now,
      updated_at = now\<rparr>"

definition create_ticket :: "service \<Rightarrow> create_request \<Rightarrow> world \<Rightarrow> Ticket result \<times> world" where
  "create_ticket svc r w =
     (let i = new_ticket_id r (clock w); b = effective_board svc r
      in case create_refusal svc r i w of
           Some e \<Rightarrow> (Inl e, w)
         | None \<Rightarrow>
             (case make_workspace b i w of
                (Inl e, w1) \<Rightarrow> (Inl e, w1)
              | (Inr k, w1) \<Rightarrow>
                  (let (dir, hash) = write_description (ext svc) (r_description r) (ws_dir w1 k);
                       w2 = put_ws k dir w1;
                       d = board w2 b;
                       t = new_row svc r k hash (inherited_priority d r) (clock w)
                   in if find_ticket d i \<noteq> None then (Inl (IntegrityError i), w2)
                      else (Inr t, put_board b
                              (add_event (ext svc) i (tstate t) (Some ''created'') (clock w)
                                (insert_ticket t d)) w2))))"

section \<open>Events without a transition\<close>

definition add_step_event :: "service \<Rightarrow> string \<Rightarrow> string \<Rightarrow> world \<Rightarrow> unit result \<times> world" where
  "add_step_event svc i note w =
     with_ticket svc i (\<lambda>b d t.
       (Inr (), put_board b
          (put_ticket (t\<lparr>updated_at := clock w\<rparr>)
            (add_event (ext svc) i (tstate t) (Some note) (clock w) d)) w)) w"

definition add_history_note :: "service \<Rightarrow> string \<Rightarrow> string \<Rightarrow> world \<Rightarrow> TicketEvent result \<times> world" where
  "add_history_note svc i note w =
     with_ticket svc i (\<lambda>b d t.
       (Inr (make_event (ext svc) d i (tstate t) (Some note) (clock w)),
        put_board b (add_event (ext svc) i (tstate t) (Some note) (clock w) d) w)) w"

section \<open>Invariants\<close>

lemma new_row_fields [simp]:
  "tid (new_row svc r k h p now) = snd k" "tstate (new_row svc r k h p now) = initial_state r"
  "board_id (new_row svc r k h p now) = effective_board svc r"
  "parent_id (new_row svc r k h p now) = r_parent r"
  "priority (new_row svc r k h p now) = (r_priority r \<or> p)"
  by (simp_all add: new_row_def)

context board_invariant
begin

lemma create_keeps:
  assumes x: "ext svc = x" and w: "all_boards B w"
  shows "all_boards B (snd (create_ticket svc r w))"
proof -
  let ?b = "effective_board svc r" and ?i = "new_ticket_id r (clock w)"
  have "all_boards B (put_board ?b (add_event x ?i (initial_state r) n (clock w)
      (insert_ticket (new_row svc r (?b, ?i) h p (clock w)) (board w ?b))) w')"
    if "?b \<noteq> []" "find_ticket (board w ?b) ?i = None" "all_boards B w'" for n h p w'
    using that by (intro all_boards_put new_ticket at_board [OF w]) simp_all
  moreover have "all_boards B (snd (make_workspace ?b ?i w))" using w by simp
  ultimately show ?thesis
    using w x
    by (auto simp: create_ticket_def make_workspace_def Let_def case_prod_beta
        split: option.split)
qed

lemma add_step_event_keeps:
  assumes x: "ext svc = x" and w: "all_boards B w"
  shows "all_boards B (snd (add_step_event svc i note w))"
  unfolding add_step_event_def
proof (rule with_ticket_keeps [OF w])
  fix b t assume f: "find_ticket (board w b) i = Some t" and Bd: "B b (board w b)"
  have "B b (put_ticket (t\<lparr>updated_at := clock w\<rparr>)
      (add_event x i (tstate t) (Some note) (clock w) (board w b)))"
    using f find_ticket_SomeD [OF f] by (intro update_row [OF step_event [OF Bd f], where ?t0.0 = t]) simp_all
  then show "all_boards B (snd (Inr (), put_board b (put_ticket (t\<lparr>updated_at := clock w\<rparr>)
      (add_event (ext svc) i (tstate t) (Some note) (clock w) (board w b))) w))"
    using x w by (simp add: all_boards_put)
qed

lemma add_history_note_keeps:
  assumes x: "ext svc = x" and w: "all_boards B w"
  shows "all_boards B (snd (add_history_note svc i note w))"
  unfolding add_history_note_def
  by (rule with_ticket_keeps [OF w]) (use x w step_event in \<open>simp add: all_boards_put\<close>)

end

end
