(* ===== verification/Metadata.thy ===== *)
theory Metadata
  imports Resume Create
begin

text \<open>
  The metadata setters, \<open>core/service/_metadata.py\<close>: single columns, the priority flag that
  spreads to all descendants, the dependency edges with their cycle check, and the amendment of a
  ticket's description.
\<close>

section \<open>Single columns\<close>

text \<open>Every setter opens the ticket's row, changes columns and stamps \<open>updated_at\<close>.\<close>

definition set_columns :: "service \<Rightarrow> string \<Rightarrow> (Ticket \<Rightarrow> Ticket) \<Rightarrow> world \<Rightarrow> Ticket result \<times> world" where
  "set_columns svc i f w =
     with_ticket svc i (\<lambda>b d t.
       (let t1 = (f t)\<lparr>updated_at := clock w\<rparr> in (Inr t1, put_board b (put_ticket t1 d) w))) w"

text \<open>\<open>json.dumps\<close> of a list of texts, or nothing for an empty one.\<close>

definition json_list :: "string list \<Rightarrow> string option" where
  "json_list xs = (if xs \<noteq> [] then Some (dumps (JArr (map JStr xs))) else None)"

definition set_unblocks :: "service \<Rightarrow> string \<Rightarrow> string list \<Rightarrow> world \<Rightarrow> Ticket result \<times> world" where
  "set_unblocks svc i targets w =
     (let cleaned = filter (\<lambda>t. t \<noteq> [] \<and> t \<noteq> i) (dedup_first targets)
      in set_columns svc i (\<lambda>t. t\<lparr>unblocks := json_list cleaned\<rparr>) w)"

definition set_labels :: "service \<Rightarrow> string \<Rightarrow> string list \<Rightarrow> world \<Rightarrow> Ticket result \<times> world" where
  "set_labels svc i ls w = set_columns svc i (\<lambda>t. t\<lparr>labels := json_list (dedup_first ls)\<rparr>) w"

definition set_coordinator_max_tool_calls_override ::
    "service \<Rightarrow> string \<Rightarrow> int option \<Rightarrow> world \<Rightarrow> Ticket result \<times> world" where
  "set_coordinator_max_tool_calls_override svc i v w =
     (if v \<noteq> None \<and> the v < 1 then (Inl (ValueError OverrideTooSmall), w)
      else set_columns svc i (\<lambda>t. t\<lparr>tool_calls_override := v\<rparr>) w)"

definition set_branch :: "service \<Rightarrow> string \<Rightarrow> string \<Rightarrow> world \<Rightarrow> Ticket result \<times> world" where
  "set_branch svc i br w = set_columns svc i (\<lambda>t. t\<lparr>branch := Some br\<rparr>) w"

definition set_parent :: "service \<Rightarrow> string \<Rightarrow> string \<Rightarrow> world \<Rightarrow> Ticket result \<times> world" where
  "set_parent svc i p w = set_columns svc i (\<lambda>t. t\<lparr>parent_id := Some p\<rparr>) w"

definition set_title :: "service \<Rightarrow> string \<Rightarrow> string \<Rightarrow> world \<Rightarrow> Ticket result \<times> world" where
  "set_title svc i s w = set_columns svc i (\<lambda>t. t\<lparr>title := s\<rparr>) w"

definition set_content_hash :: "service \<Rightarrow> string \<Rightarrow> string \<Rightarrow> world \<Rightarrow> Ticket result \<times> world" where
  "set_content_hash svc i h w = set_columns svc i (\<lambda>t. t\<lparr>content_hash := h\<rparr>) w"

definition promote_to_epic :: "service \<Rightarrow> string \<Rightarrow> world \<Rightarrow> unit result \<times> world" where
  "promote_to_epic svc i w =
     with_ticket svc i (\<lambda>b d t.
       if kind t = EPIC then (Inr (), w)
       else (Inr (), put_board b (put_ticket (t\<lparr>kind := EPIC, updated_at := clock w\<rparr>) d) w)) w"

definition set_review_rounds :: "service \<Rightarrow> string \<Rightarrow> int \<Rightarrow> world \<Rightarrow> Ticket result \<times> world" where
  "set_review_rounds svc i v w = set_columns svc i (\<lambda>t. t\<lparr>review_rounds := v\<rparr>) w"

definition set_implement_cycles :: "service \<Rightarrow> string \<Rightarrow> int \<Rightarrow> world \<Rightarrow> Ticket result \<times> world" where
  "set_implement_cycles svc i v w = set_columns svc i (\<lambda>t. t\<lparr>implement_cycles := v\<rparr>) w"

definition set_refine_passes :: "service \<Rightarrow> string \<Rightarrow> int \<Rightarrow> world \<Rightarrow> Ticket result \<times> world" where
  "set_refine_passes svc i v w = set_columns svc i (\<lambda>t. t\<lparr>refine_passes := v\<rparr>) w"

definition set_refine_output_hash :: "service \<Rightarrow> string \<Rightarrow> string \<Rightarrow> world \<Rightarrow> Ticket result \<times> world" where
  "set_refine_output_hash svc i h w = set_columns svc i (\<lambda>t. t\<lparr>refine_output_hash := h\<rparr>) w"

definition set_pre_redraft_trace_count :: "service \<Rightarrow> string \<Rightarrow> int \<Rightarrow> world \<Rightarrow> Ticket result \<times> world" where
  "set_pre_redraft_trace_count svc i v w = set_columns svc i (\<lambda>t. t\<lparr>pre_redraft_trace_count := v\<rparr>) w"

definition set_depends_on :: "service \<Rightarrow> string \<Rightarrow> string list \<Rightarrow> world \<Rightarrow> Ticket result \<times> world" where
  "set_depends_on svc i deps w =
     (if i \<in> set deps then (Inl (ValueError (SelfDependency i)), w)
      else set_columns svc i (\<lambda>t. t\<lparr>depends_on := json_list deps\<rparr>) w)"

section \<open>Priority\<close>

text \<open>The row of one ticket, and whether it changed.\<close>

definition flag_row ::
    "service \<Rightarrow> bool \<Rightarrow> string \<Rightarrow> board_db \<Rightarrow> Ticket \<Rightarrow> world \<Rightarrow> world" where
  "flag_row svc v b d t w =
     (if priority t = v then w
      else (let t1 = t\<lparr>priority := v, updated_at := clock w\<rparr>
            in on_transition svc t1 (state_value (tstate t)) (put_board b (put_ticket t1 d) w)))"

fun flag_all ::
    "service \<Rightarrow> bool \<Rightarrow> Ticket list \<Rightarrow> string list \<Rightarrow> world \<Rightarrow> string list result \<times> world" where
  "flag_all svc v [] changed w = (Inr changed, w)"
| "flag_all svc v (c # cs) changed w =
     (case open_board_for svc (tid c) w of
        Inl e \<Rightarrow> (Inl e, w)
      | Inr (b, d) \<Rightarrow>
          (case find_ticket d (tid c) of
             None \<Rightarrow> flag_all svc v cs changed w
           | Some t \<Rightarrow>
               if priority t = v then flag_all svc v cs changed w
               else flag_all svc v cs (changed @ [tid t]) (flag_row svc v b d t w)))"

definition set_priority :: "service \<Rightarrow> string \<Rightarrow> bool \<Rightarrow> world \<Rightarrow> string list result \<times> world" where
  "set_priority svc i v w =
     with_ticket svc i (\<lambda>b d t.
       (let changed = (if priority t \<noteq> v then [tid t] else []);
            w1 = flag_row svc v b d t w
        in case all_descendants svc i w1 of
             Inl e \<Rightarrow> (Inl e, w1)
           | Inr ds \<Rightarrow> flag_all svc v ds changed w1)) w"

section \<open>Dependencies\<close>

text \<open>
  The walk of \<open>_detect_dependency_cycle\<close>: through the edges out of a node, with the path that
  led to it and the nodes seen so far. The fuel bounds the depth of the recursion.
\<close>

fun walk_edges ::
    "nat \<Rightarrow> ('n \<Rightarrow> 'n list) \<Rightarrow> 'n \<Rightarrow> 'n list \<Rightarrow> 'n list \<Rightarrow> 'n list \<Rightarrow> 'n list option \<times> 'n list" where
  "walk_edges fuel E start [] path seen = (None, seen)"
| "walk_edges 0 E start (n # ns) path seen = (None, seen)"
| "walk_edges (Suc k) E start (n # ns) path seen =
     (if n = start then (Some (path @ [n]), seen)
      else if n \<in> set seen then walk_edges (Suc k) E start ns path seen
      else (case walk_edges k E start (E n) (path @ [n]) (n # seen) of
              (Some p, s) \<Rightarrow> (Some p, s)
            | (None, s) \<Rightarrow> walk_edges (Suc k) E start ns path s))"

definition dependency_edges ::
    "service \<Rightarrow> string \<Rightarrow> string list \<Rightarrow> world \<Rightarrow> string \<Rightarrow> string list" where
  "dependency_edges svc i proposed w n =
     (if n = i then proposed
      else (case get_ticket svc n w of None \<Rightarrow> [] | Some dep \<Rightarrow> parse_depends_on dep))"

text \<open>All ticket ids of the world: more fuel than any path without repetition needs.\<close>

definition world_ids :: "world \<Rightarrow> string list" where
  "world_ids w = concat (map (\<lambda>p. map tid (tickets (snd p))) (boards w))"

definition detect_dependency_cycle ::
    "service \<Rightarrow> string \<Rightarrow> string list \<Rightarrow> world \<Rightarrow> string list option" where
  "detect_dependency_cycle svc i proposed w =
     fst (walk_edges (Suc (length (world_ids w))) (dependency_edges svc i proposed w) i proposed [i] [])"

text \<open>Python's \<open>repr\<close> of a text and of a list of texts.\<close>

definition repr_char :: "char \<Rightarrow> char \<Rightarrow> string" where
  "repr_char q c =
     (if c = q \<or> c = bslash_c then [bslash_c, c]
      else if c = CHR 0x0A then [bslash_c, CHR ''n'']
      else if c = CHR 0x0D then [bslash_c, CHR ''r'']
      else if c = CHR 0x09 then [bslash_c, CHR ''t'']
      else if code c < 32 \<or> code c = 127
        then [bslash_c, CHR ''x'', hex_digit (code c div 16), hex_digit (code c mod 16)]
      else [c])"

definition py_repr :: "string \<Rightarrow> string" where
  "py_repr s =
     (let q = (if CHR 0x27 \<in> set s \<and> quote_c \<notin> set s then quote_c else CHR 0x27)
      in [q] @ concat (map (repr_char q) s) @ [q])"

definition py_repr_list :: "string list \<Rightarrow> string" where
  "py_repr_list xs = ''['' @ join '', '' (map py_repr xs) @ '']''"

definition dependency_note :: "string list \<Rightarrow> string \<Rightarrow> string" where
  "dependency_note deps reason =
     ''dependencies set to '' @ py_repr_list deps @
     (if reason \<noteq> [] then '' '' @ em_dash @ '' '' @ reason else [])"

text \<open>After the edit: a blocked ticket with nothing left to wait for is resumed.\<close>

definition unpark_if_met ::
    "service \<Rightarrow> string \<Rightarrow> string \<Rightarrow> Ticket \<Rightarrow> world \<Rightarrow> Ticket result \<times> world" where
  "unpark_if_met svc i reason t w =
     (if tstate t = BLOCKED \<and> truthy (blocked_from t) \<and> unmet_dependencies svc t w = []
      then (case resume_blocked svc i (if reason \<noteq> [] then reason else ''dependencies edited'') w of
              (Inl (TransitionError j f), w1) \<Rightarrow> (Inr t, w1)
            | (Inl e, w1) \<Rightarrow> (Inl e, w1)
            | (Inr t', w1) \<Rightarrow> (Inr t', w1))
      else (Inr t, w))"

definition edit_dependencies ::
    "service \<Rightarrow> string \<Rightarrow> string list \<Rightarrow> string \<Rightarrow> world \<Rightarrow> Ticket result \<times> world" where
  "edit_dependencies svc i deps reason w =
     (let cleaned = filter (\<lambda>t. t \<noteq> []) (dedup_first deps)
      in if i \<in> set cleaned then (Inl (ValueError (SelfDependency i)), w)
         else if get_ticket svc i w = None then (Inl (KeyError i), w)
         else (case detect_dependency_cycle svc i cleaned w of
                 Some cycle \<Rightarrow> (Inl (ValueError (DependencyCycle cycle)), w)
               | None \<Rightarrow>
                   (case set_depends_on svc i cleaned w of
                      (Inl e, w1) \<Rightarrow> (Inl e, w1)
                    | (Inr _, w1) \<Rightarrow>
                        (case add_history_note svc i (dependency_note cleaned reason) w1 of
                           (Inl e, w2) \<Rightarrow> (Inl e, w2)
                         | (Inr _, w2) \<Rightarrow>
                             (case get_ticket svc i w2 of
                                None \<Rightarrow> (Inl (KeyError i), w2)
                              | Some t \<Rightarrow> unpark_if_met svc i reason t w2)))))"

section \<open>The description\<close>

definition TERMINAL_FOR_DESCRIPTION_UPDATE :: "State list" where
  "TERMINAL_FOR_DESCRIPTION_UPDATE = [CLOSED, ANSWERED, EPIC_CLOSED, DONE]"

definition spec_update_note :: "string \<Rightarrow> string \<Rightarrow> string \<Rightarrow> bool \<Rightarrow> string" where
  "spec_update_note author old_fp new_fp reset =
     ''['' @ author @ ''] spec update: fingerprint '' @ old_fp @ '' '' @ right_arrow @ '' '' @ new_fp @
     (if reset then ''; fingerprint-guard reset'' else [])"

definition update_description_session ::
    "service \<Rightarrow> string \<Rightarrow> string \<Rightarrow> bool \<Rightarrow> string \<Rightarrow> string \<Rightarrow> board_db \<Rightarrow> Ticket \<Rightarrow> world \<Rightarrow>
     TicketEvent result \<times> world" where
  "update_description_session svc i text reset author b d t w =
     (if tstate t \<in> set TERMINAL_FOR_DESCRIPTION_UPDATE
        then (Inl (TransitionError i (TerminalDescription (tstate t))), w)
      else
        (case compute_spec_fingerprint svc t w of
           (Inl e, w1) \<Rightarrow> (Inl e, w1)
         | (Inr old_fp, w1) \<Rightarrow>
        (case open_workspace svc t w1 of
           (Inl e, w2) \<Rightarrow> (Inl e, w2)
         | (Inr k, w2) \<Rightarrow>
             (let (dir, hash) = write_description (ext svc) text (ws_dir w2 k);
                  w3 = put_ws k dir w2
              in case compute_spec_fingerprint svc t w3 of
                   (Inl e, w4) \<Rightarrow> (Inl e, w4)
                 | (Inr new_fp, w4) \<Rightarrow>
                     (let w5 = put_board b
                            (put_ticket (t\<lparr>content_hash := hash, updated_at := clock w\<rparr>) d) w4;
                          w6 = (if reset then edit_artifacts k (unlink ''implement.md'') w5 else w5)
                      in add_history_note svc i (spec_update_note author old_fp new_fp reset) w6)))))"

definition update_description ::
    "service \<Rightarrow> string \<Rightarrow> string \<Rightarrow> bool \<Rightarrow> string \<Rightarrow> world \<Rightarrow> TicketEvent result \<times> world" where
  "update_description svc i text reset author w =
     with_ticket svc i (\<lambda>b d t. update_description_session svc i text reset author b d t w) w"

section \<open>Invariants\<close>

context board_invariant
begin

lemma set_columns_keeps:
  assumes w: "all_boards B w"
    and f: "\<And>t. tid (f t) = tid t" "\<And>t. tstate (f t) = tstate t" "\<And>t. board_id (f t) = board_id t"
  shows "all_boards B (snd (set_columns svc i f w))"
  unfolding set_columns_def
proof (rule with_ticket_keeps [OF w])
  fix b t assume found: "find_ticket (board w b) i = Some t" and Bd: "B b (board w b)"
  have "B b (put_ticket ((f t)\<lparr>updated_at := clock w\<rparr>) (board w b))"
    using f find_ticket_SomeD [OF found] by (intro update_row [OF Bd found]) simp_all
  then show "all_boards B (snd (let t1 = (f t)\<lparr>updated_at := clock w\<rparr>
      in (Inr t1, put_board b (put_ticket t1 (board w b)) w)))"
    using w by (simp add: Let_def all_boards_put)
qed

lemma column_setters_keep:
  assumes "all_boards B w"
  shows "all_boards B (snd (set_unblocks svc i js w))" "all_boards B (snd (set_labels svc i ls w))"
    "all_boards B (snd (set_coordinator_max_tool_calls_override svc i v w))"
    "all_boards B (snd (set_branch svc i s w))" "all_boards B (snd (set_parent svc i s w))"
    "all_boards B (snd (set_title svc i s w))" "all_boards B (snd (set_content_hash svc i s w))"
    "all_boards B (snd (set_review_rounds svc i n w))" "all_boards B (snd (set_implement_cycles svc i n w))"
    "all_boards B (snd (set_refine_passes svc i n w))" "all_boards B (snd (set_refine_output_hash svc i s w))"
    "all_boards B (snd (set_pre_redraft_trace_count svc i n w))"
    "all_boards B (snd (set_depends_on svc i js w))"
  using assms
  by (simp_all add: set_unblocks_def set_labels_def set_coordinator_max_tool_calls_override_def
      set_branch_def set_parent_def set_title_def set_content_hash_def set_review_rounds_def
      set_implement_cycles_def set_refine_passes_def set_refine_output_hash_def
      set_pre_redraft_trace_count_def set_depends_on_def Let_def set_columns_keeps)

lemma promote_keeps:
  assumes w: "all_boards B w"
  shows "all_boards B (snd (promote_to_epic svc i w))"
  unfolding promote_to_epic_def
proof (rule with_ticket_keeps [OF w])
  fix b t assume found: "find_ticket (board w b) i = Some t" and Bd: "B b (board w b)"
  have "B b (put_ticket (t\<lparr>kind := EPIC, updated_at := clock w\<rparr>) (board w b))"
    using find_ticket_SomeD [OF found] by (intro update_row [OF Bd found]) simp_all
  then show "all_boards B (snd (if kind t = EPIC then (Inr (), w)
      else (Inr (), put_board b (put_ticket (t\<lparr>kind := EPIC, updated_at := clock w\<rparr>) (board w b)) w)))"
    using w by (simp add: all_boards_put)
qed

lemma flag_row_keeps:
  assumes w: "all_boards B w" and Bd: "B b d" and found: "find_ticket d i = Some t"
  shows "all_boards B (flag_row svc v b d t w)"
proof -
  have "B b (put_ticket (t\<lparr>priority := v, updated_at := clock w\<rparr>) d)"
    using find_ticket_SomeD [OF found] by (intro update_row [OF Bd found]) simp_all
  then show ?thesis using w by (simp add: flag_row_def Let_def all_boards_put)
qed

lemma flag_all_keeps: "all_boards B w \<Longrightarrow> all_boards B (snd (flag_all svc v cs changed w))"
proof (induction svc v cs changed w rule: flag_all.induct)
  case (2 svc v c cs changed w)
  have "all_boards B (flag_row svc v b d t w)"
    if "open_board_for svc (tid c) w = Inr (b, d)" "find_ticket d (tid c) = Some t" for b d t
    using that at_board [OF 2(4)]
    by (intro flag_row_keeps [OF 2(4) _ that(2)])
      (auto simp: open_board_for_def open_board_def split: sum.splits if_splits)
  with 2 show ?case by (auto split: sum.split option.split)
qed simp

lemma set_priority_keeps:
  assumes w: "all_boards B w"
  shows "all_boards B (snd (set_priority svc i v w))"
  unfolding set_priority_def
proof (rule with_ticket_keeps [OF w])
  fix b t assume found: "find_ticket (board w b) i = Some t" and Bd: "B b (board w b)"
  have "all_boards B (flag_row svc v b (board w b) t w)"
    by (rule flag_row_keeps [OF w Bd found])
  then show "all_boards B (snd (let changed = (if priority t \<noteq> v then [tid t] else []);
            w1 = flag_row svc v b (board w b) t w
        in case all_descendants svc i w1 of
             Inl e \<Rightarrow> (Inl e, w1)
           | Inr ds \<Rightarrow> flag_all svc v ds changed w1))"
    by (simp add: Let_def flag_all_keeps split: sum.split)
qed

lemma unpark_if_met_keeps:
  "\<lbrakk>ext svc = x; all_boards B w\<rbrakk> \<Longrightarrow> all_boards B (snd (unpark_if_met svc i reason t w))"
  using resume_blocked_keeps
  by (simp add: unpark_if_met_def case_prod_beta split: sum.split error.split)

lemma edit_dependencies_keeps:
  assumes x: "ext svc = x" and w: "all_boards B w"
  shows "all_boards B (snd (edit_dependencies svc i deps reason w))"
proof -
  have w1: "all_boards B (snd (set_depends_on svc i cs w))" for cs
    by (rule column_setters_keep(13) [OF w])
  then have w2: "all_boards B (snd (add_history_note svc i n (snd (set_depends_on svc i cs w))))" for cs n
    by (intro add_history_note_keeps [OF x])
  show ?thesis
    using w w1 w2 unpark_if_met_keeps [OF x w2]
    by (simp add: edit_dependencies_def Let_def case_prod_beta split: option.split sum.split)
qed

lemma update_description_keeps:
  assumes x: "ext svc = x" and w: "all_boards B w"
  shows "all_boards B (snd (update_description svc i text reset author w))"
  unfolding update_description_def
proof (rule with_ticket_keeps [OF w])
  fix b t assume found: "find_ticket (board w b) i = Some t" and Bd: "B b (board w b)"
  have row: "B b (put_ticket (t\<lparr>content_hash := h, updated_at := clock w\<rparr>) (board w b))" for h
    using find_ticket_SomeD [OF found] by (intro update_row [OF Bd found]) simp_all
  have same: "all_boards B w'" if "boards w' = boards w" for w'
    using w all_boards_same [OF that] by simp
  have note_kept: "all_boards B (snd (add_history_note svc i n w'))" if "all_boards B w'" for n w'
    using that by (rule add_history_note_keeps [OF x])
  have put: "all_boards B (put_board b (put_ticket (t\<lparr>content_hash := h, updated_at := clock w\<rparr>) (board w b)) w')"
    if "boards w' = boards w" for h w'
    using same [OF that] row by (rule all_boards_put)
  show "all_boards B (snd (update_description_session svc i text reset author b (board w b) t w))"
    by (auto simp: update_description_session_def Let_def case_prod_beta same put note_kept
        split: sum.split)
qed

end

end
