(* ===== verification/Migrate.thy ===== *)
theory Migrate
  imports Metadata "HOL-Library.Multiset"
begin

text \<open>
  Moving tickets to another board, \<open>core/service/_migrate_mixin.py\<close>: one ticket with its
  history, thread and workspace, or an epic with its whole subtree. The row is reset and lands in
  \<open>draft\<close>; the history chain is copied as it is and extended by one event; the comments get
  fresh ids and their replies follow them.
\<close>

section \<open>What may move\<close>

definition MIGRATABLE_STATES :: "State list" where
  "MIGRATABLE_STATES = [DRAFT, READY, BLOCKED, ERRORED]"

definition MIGRATABLE_EPIC_STATES :: "State list" where
  "MIGRATABLE_EPIC_STATES = MIGRATABLE_STATES @ [EPIC_OPEN, EPIC_CLOSED]"

text \<open>
  \<open>_collect_subtree\<close>: the growing list is its already scanned part and the queue of the
  others. Nothing stops a ticket from entering the queue again, so the scan may not end: then its
  value is \<open>None\<close>.
\<close>

partial_function (option) scan_subtree :: "board_db \<Rightarrow> Ticket list \<Rightarrow> Ticket list option" where
  "scan_subtree d queue =
     (case queue of
        [] \<Rightarrow> Some []
      | t # ts \<Rightarrow>
          Option.bind (scan_subtree d (ts @ children_of d (tid t))) (\<lambda>rest. Some (t # rest)))"

definition collect_subtree :: "board_db \<Rightarrow> Ticket \<Rightarrow> Ticket list option" where
  "collect_subtree d t = scan_subtree d [t]"

definition blocker_line :: "Ticket \<Rightarrow> string option" where
  "blocker_line t =
     (if kind t = EPIC
      then (if tstate t \<notin> set MIGRATABLE_EPIC_STATES
            then Some (''  '' @ tid t @ '': epic in state '' @ py_repr (state_value (tstate t))) else None)
      else (if tstate t \<notin> set MIGRATABLE_STATES
            then Some (''  '' @ tid t @ '': in state '' @ py_repr (state_value (tstate t))) else None))"

definition known_boards :: "settings \<Rightarrow> string \<rightharpoonup> string" where
  "known_boards st =
     (case repos_config st of
        None \<Rightarrow> [''meta'' \<mapsto> ''meta'']
      | Some repos \<Rightarrow>
          fold (\<lambda>(rid, b) m. m(rid \<mapsto> b, b \<mapsto> b)) repos [''meta'' \<mapsto> ''meta''])"

section \<open>Workspaces\<close>

text \<open>What is bound to the old repository does not move along.\<close>

definition strip_workspace :: "workspace_dir \<Rightarrow> workspace_dir" where
  "strip_workspace d =
     d\<lparr>has_repo := False, has_repos := False,
       artifacts := unlink SPAWN_EXHAUSTION_MARKER
         (unlink ''implement_spawn_count'' (unlink ''baseline_check.json'' (artifacts d)))\<rparr>"

definition move_workspace :: "string \<Rightarrow> string \<Rightarrow> string \<Rightarrow> world \<Rightarrow> world" where
  "move_workspace src dst i w =
     put_ws (dst, i) (strip_workspace (ws_dir w (src, i))) (remove_ws (src, i) w)"

text \<open>The rollback; \<open>moved\<close> is whether there was a directory on the source board.\<close>

definition restore_workspace :: "string \<Rightarrow> string \<Rightarrow> string \<Rightarrow> bool \<Rightarrow> world \<Rightarrow> world" where
  "restore_workspace src dst i moved w =
     (if moved
      then (if workspaces w (dst, i) \<noteq> None
            then put_ws (src, i) (ws_dir w (dst, i)) (remove_ws (dst, i) w) else w)
      else remove_ws (dst, i) w)"

fun move_workspaces :: "string \<Rightarrow> string \<Rightarrow> string list \<Rightarrow> world \<Rightarrow> unit result \<times> world" where
  "move_workspaces src dst [] w = (Inr (), w)"
| "move_workspaces src dst (i # is) w =
     (if workspaces w (dst, i) \<noteq> None then (Inl (ValueError (WorkspaceExists dst i)), w)
      else move_workspaces src dst is (move_workspace src dst i w))"

section \<open>The copy on the target board\<close>

definition migration_note :: "string \<Rightarrow> string \<Rightarrow> State \<Rightarrow> string option \<Rightarrow> string" where
  "migration_note src dst old note =
     ''migrated from board '' @ py_repr src @ '' to '' @ py_repr dst @
     (if old \<noteq> DRAFT then '' (was '' @ state_value old @ '')'' else []) @
     (if truthy note then '': '' @ the note else [])"

definition migrated_row :: "settings \<Rightarrow> string \<Rightarrow> instant \<Rightarrow> Ticket \<Rightarrow> Ticket" where
  "migrated_row st dst now t =
     t\<lparr>tstate := DRAFT, board_id := dst, workspace_path := workspace_path_of st (dst, tid t),
       branch := None, blocked_from := None, paused_from := None, review_rounds := 0,
       implement_cycles := 0, retry_attempt := 0, last_transient_error := None,
       next_retry_at := None, updated_at := now\<rparr>"

text \<open>One ticket alone: \<open>parent_id or None\<close>.\<close>

definition single_row :: "settings \<Rightarrow> string \<Rightarrow> instant \<Rightarrow> Ticket \<Rightarrow> Ticket" where
  "single_row st dst now t =
     (migrated_row st dst now t)\<lparr>parent_id := (if truthy (parent_id t) then parent_id t else None)\<rparr>"

fun copy_events :: "TicketEvent list \<Rightarrow> board_db \<Rightarrow> board_db" where
  "copy_events [] d = d"
| "copy_events (e # es) d =
     copy_events es (insert_event (e\<lparr>ev_id := next_id ev_id (events d)\<rparr>) d)"

text \<open>\<open>id_map\<close> sends the old id of a copied comment to its new one.\<close>

fun copy_comments :: "(nat \<rightharpoonup> nat) \<Rightarrow> Comment list \<Rightarrow> board_db \<Rightarrow> (nat \<rightharpoonup> nat) \<times> board_db" where
  "copy_comments id_map [] d = (id_map, d)"
| "copy_comments id_map (c # cs) d =
     (let k = next_id c_id (comments d);
          c1 = c\<lparr>c_id := k, c_parent := Option.bind (c_parent c) id_map\<rparr>
      in copy_comments (id_map(c_id c \<mapsto> k)) cs (insert_comment c1 d))"

definition adopt ::
    "externals \<Rightarrow> Ticket \<Rightarrow> string \<Rightarrow> instant \<Rightarrow> TicketEvent list \<Rightarrow> Comment list \<Rightarrow> (nat \<rightharpoonup> nat) \<Rightarrow>
     board_db \<Rightarrow> (nat \<rightharpoonup> nat) \<times> board_db" where
  "adopt x t note now es cs id_map d =
     (let (m, d1) = copy_comments id_map cs (copy_events es (insert_ticket t d))
      in (m, add_event x (tid t) DRAFT (Some note) now d1))"

section \<open>One ticket\<close>

definition vanished :: "service \<Rightarrow> string \<Rightarrow> world \<Rightarrow> Ticket result \<times> world" where
  "vanished svc i w =
     (case get_ticket svc i w of
        None \<Rightarrow> (Inl (RuntimeError ''vanished during migration''), w)
      | Some t \<Rightarrow> (Inr t, w))"

definition migrate_one ::
    "service \<Rightarrow> string \<Rightarrow> string \<Rightarrow> board_db \<Rightarrow> Ticket \<Rightarrow> string option \<Rightarrow> world \<Rightarrow> Ticket result \<times> world" where
  "migrate_one svc src dst d t note w =
     (let i = tid t; moved = (workspaces w (src, i) \<noteq> None);
          w1 = move_workspace src dst i w;
          t1 = single_row (settings_of svc) dst (clock w) t
      in if find_ticket (board w1 dst) i \<noteq> None
         then (Inl (IntegrityError i), restore_workspace src dst i moved w1)
         else (let d1 = snd (adopt (ext svc) t1 (migration_note src dst (tstate t) note) (clock w)
                          (events_of d i) (comments_of d i) Map.empty (board w1 dst));
                   w2 = put_board dst d1 w1;
                   w3 = put_board src (remove_ticket i (bulk_delete_ticket_rows i (board w2 src))) w2
               in vanished svc i w3))"

definition migrate_ticket ::
    "service \<Rightarrow> string \<Rightarrow> string \<Rightarrow> board_db \<Rightarrow> Ticket \<Rightarrow> string option \<Rightarrow> world \<Rightarrow> Ticket result \<times> world" where
  "migrate_ticket svc src dst d t note w =
     (if children_of d (tid t) \<noteq> [] then (Inl (ValueError (HasChildren (tid t))), w)
      else if tstate t \<notin> set MIGRATABLE_STATES
        then (Inl (ValueError (NotMigratable (tid t) (tstate t))), w)
      else if dst = [] then (Inl (ValueError BoardRequired), w)
      else if workspaces w (dst, tid t) \<noteq> None
        then (Inl (ValueError (WorkspaceExists dst (tid t))), w)
      else migrate_one svc src dst d t note w)"

section \<open>An epic and its subtree\<close>

fun adopt_all ::
    "service \<Rightarrow> string \<Rightarrow> string \<Rightarrow> string \<Rightarrow> string option \<Rightarrow> board_db \<Rightarrow> instant \<Rightarrow> Ticket list \<Rightarrow>
     (nat \<rightharpoonup> nat) \<Rightarrow> board_db \<Rightarrow> board_db result" where
  "adopt_all svc src dst epic note d now [] m e = Inr e"
| "adopt_all svc src dst epic note d now (t # ts) m e =
     (if find_ticket e (tid t) \<noteq> None then Inl (IntegrityError (tid t))
      else (let t1 = migrated_row (settings_of svc) dst now t;
                (m1, e1) = adopt (ext svc) t1
                  (migration_note src dst (tstate t) (if tid t = epic then note else None)) now
                  (events_of d (tid t)) (comments_of d (tid t)) m e
            in adopt_all svc src dst epic note d now ts m1 e1))"

definition drop_tickets :: "string list \<Rightarrow> board_db \<Rightarrow> board_db" where
  "drop_tickets is d = fold (\<lambda>i e. remove_ticket i (bulk_delete_ticket_rows i e)) is d"

definition migrate_epic_subtree ::
    "service \<Rightarrow> string \<Rightarrow> string \<Rightarrow> board_db \<Rightarrow> Ticket \<Rightarrow> string option \<Rightarrow> world \<Rightarrow>
     (Ticket result \<times> world) option" where
  "migrate_epic_subtree svc src dst d epic note w =
     (case collect_subtree d epic of
        None \<Rightarrow> None
      | Some subtree \<Rightarrow>
          (let blockers = List.map_filter blocker_line subtree; is = map tid subtree
           in if blockers \<noteq> [] then Some (Inl (ValueError (SubtreeNotMigratable blockers)), w)
              else if dst = [] then Some (Inl (ValueError BoardRequired), w)
              else (case move_workspaces src dst is w of
                      (Inl e, w1) \<Rightarrow> Some (Inl e, w1)
                    | (Inr _, w1) \<Rightarrow>
                        (case adopt_all svc src dst (tid epic) note d (clock w) subtree Map.empty
                                (board w1 dst) of
                           Inl e \<Rightarrow>
                             Some (Inl e,
                               fold (\<lambda>i. restore_workspace src dst i (workspaces w (src, i) \<noteq> None)) is w1)
                         | Inr d1 \<Rightarrow>
                             (let w2 = put_board dst d1 w1;
                                  w3 = put_board src (drop_tickets (rev is) (board w2 src)) w2
                              in Some (vanished svc (tid epic) w3))))))"

text \<open>\<open>migrate\<close>; the result is \<open>None\<close> when the scan of an epic's subtree does not end.\<close>

definition migrate ::
    "service \<Rightarrow> string \<Rightarrow> string \<Rightarrow> string option \<Rightarrow> world \<Rightarrow> (Ticket result \<times> world) option" where
  "migrate svc i target note w =
     (if target = [] then Some (Inl (ValueError TargetRequired), w)
      else (case known_boards (settings_of svc) target of
              None \<Rightarrow> Some (Inl (ValueError (UnknownTarget target)), w)
            | Some dst \<Rightarrow>
                (case board_for svc i w of
                   Inl e \<Rightarrow> Some (Inl e, w)
                 | Inr src \<Rightarrow>
                     if dst = src then Some (Inl (ValueError (SameBoard i src)), w)
                     else (case open_board src w of
                             Inl e \<Rightarrow> Some (Inl e, w)
                           | Inr d \<Rightarrow>
                               (case find_ticket d i of
                                  None \<Rightarrow> Some (Inl (KeyError i), w)
                                | Some t \<Rightarrow>
                                    if kind t = EPIC
                                      then migrate_epic_subtree svc src dst d t note w
                                    else Some (migrate_ticket svc src dst d t note w))))))"

section \<open>The scan of a subtree\<close>

lemma scan_subtree_Nil [simp]: "scan_subtree d [] = Some []"
  by (subst scan_subtree.simps) simp

lemma scan_subtree_Cons:
  "scan_subtree d (t # ts) =
     Option.bind (scan_subtree d (ts @ children_of d (tid t))) (\<lambda>rest. Some (t # rest))"
  by (subst scan_subtree.simps) simp

text \<open>It ends when the parent links of the board go down in some rank.\<close>

lemma scan_subtree_ends:
  assumes rank: "\<And>c p. \<lbrakk>c \<in> set (tickets d); p \<in> set (tickets d); parent_id c = Some (tid p)\<rbrakk>
      \<Longrightarrow> rank c < (rank p :: nat)"
  shows "set queue \<subseteq> set (tickets d) \<Longrightarrow> \<exists>ts. scan_subtree d queue = Some ts"
proof (induction "mset (map rank queue)" arbitrary: queue rule: wf_induct_rule [OF wf_mult [OF wf_less_than]])
  case (1 queue)
  show ?case
  proof (cases queue)
    case (Cons t ts)
    let ?next = "ts @ children_of d (tid t)"
    have below: "\<forall>c \<in> set (children_of d (tid t)). rank c < rank t"
      using rank 1(2) Cons by (auto simp: children_of_def)
    have "(mset (map rank ts) + mset (map rank (children_of d (tid t))),
           mset (map rank ts) + {#rank t#}) \<in> mult less_than"
      using below by (intro one_step_implies_mult) auto
    moreover have "set ?next \<subseteq> set (tickets d)" using 1(2) Cons by (auto simp: children_of_def)
    ultimately obtain rest where "scan_subtree d ?next = Some rest"
      using 1(1) [of ?next] Cons by auto
    then show ?thesis using Cons by (simp add: scan_subtree_Cons)
  qed simp
qed

text \<open>It does not end on a queue that holds a ticket which is its own parent.\<close>

lemma scan_subtree_self_parent:
  assumes "t \<in> set (tickets d)" "parent_id t = Some (tid t)" "scan_subtree d queue = Some ts"
  shows "t \<notin> set queue"
  using assms(3)
proof (induction "length ts" arbitrary: queue ts)
  case 0
  then show ?case by (cases queue) (auto simp: scan_subtree_Cons bind_eq_Some_conv)
next
  case (Suc n)
  then show ?case
  proof (cases queue)
    case (Cons u us)
    obtain rest where rest: "scan_subtree d (us @ children_of d (tid u)) = Some rest" "ts = u # rest"
      using Suc.prems Cons by (auto simp: scan_subtree_Cons bind_eq_Some_conv)
    then have "t \<notin> set (us @ children_of d (tid u))"
      using Suc.hyps(1) [of rest "us @ children_of d (tid u)"] Suc.hyps(2) by simp
    then show ?thesis using Cons assms(1,2) by (auto simp: children_of_def)
  qed simp
qed

section \<open>The copy\<close>

lemma foldr_max: "foldr max xs a = max (foldr max xs 0) (a :: nat)"
  by (induction xs) auto

lemma next_id_snoc: "key r = next_id key rs \<Longrightarrow> next_id key (rs @ [r]) = Suc (next_id key rs)"
  using foldr_max [of "map key rs" "key r"] by (simp add: next_id_def)

text \<open>Copied events are the old ones under consecutive fresh ids.\<close>

fun renumber :: "nat \<Rightarrow> TicketEvent list \<Rightarrow> TicketEvent list" where
  "renumber k [] = []"
| "renumber k (e # es) = e\<lparr>ev_id := k\<rparr> # renumber (Suc k) es"

lemma copy_events_renumber:
  "copy_events es d = d\<lparr>events := events d @ renumber (next_id ev_id (events d)) es\<rparr>"
  by (induction es d rule: copy_events.induct) (simp_all add: insert_event_def next_id_snoc)

lemma renumber_ids: "map ev_id (renumber k es) = [k ..< k + length es]"
  by (induction es arbitrary: k) (simp_all add: upt_rec [of k for k])

lemma renumber_tickets: "ev_ticket ` set (renumber k es) = ev_ticket ` set es"
  by (induction es arbitrary: k) simp_all

lemma chain_from_renumber: "chain_from p (renumber k es) = chain_from p es"
  by (induction es arbitrary: p k) (simp_all add: hash_of_def)

lemma renumber_Nil [simp]: "renumber k es = [] \<longleftrightarrow> es = []"
  by (cases es) simp_all

lemma renumber_sealed:
  "(\<forall>e \<in> set (renumber k es). ev_hash e = computed_hash x e) = (\<forall>e \<in> set es. ev_hash e = computed_hash x e)"
  by (induction es arbitrary: k) (simp_all add: computed_hash_def)

lemma filter_renumber:
  "\<forall>e \<in> set es. ev_ticket e = i \<Longrightarrow>
     filter (\<lambda>e. ev_ticket e = j) (renumber k es) = (if j = i then renumber k es else [])"
  by (induction es arbitrary: k) auto

lemma copy_events_fields [simp]:
  "tickets (copy_events es d) = tickets d" "comments (copy_events es d) = comments d"
  "find_ticket (copy_events es d) = find_ticket d" "ids (copy_events es d) = ids d"
  by (simp_all add: copy_events_renumber find_ticket_def ids_def fun_eq_iff)

lemma events_of_copy_events:
  "\<forall>e \<in> set es. ev_ticket e = i \<Longrightarrow> events_of (copy_events es d) j =
     events_of d j @ (if j = i then renumber (next_id ev_id (events d)) es else [])"
  by (simp add: events_of_def copy_events_renumber filter_renumber)

lemma rows_ok_copy_events:
  assumes "rows_ok d"
  shows "rows_ok (copy_events es d)"
  using assms less_next_id [of _ "events d" ev_id]
  by (force simp: rows_ok_def copy_events_renumber sorted_wrt_append renumber_ids)

lemma copy_comments_fields [simp]:
  "tickets (snd (copy_comments m cs d)) = tickets d" "events (snd (copy_comments m cs d)) = events d"
  "find_ticket (snd (copy_comments m cs d)) = find_ticket d" "ids (snd (copy_comments m cs d)) = ids d"
  "events_of (snd (copy_comments m cs d)) = events_of d"
  by (induction m cs d rule: copy_comments.induct) (simp_all add: Let_def)

lemma copy_comments_tickets:
  "c_ticket ` set (comments (snd (copy_comments m cs d))) =
     c_ticket ` set (comments d) \<union> c_ticket ` set cs"
  by (induction cs arbitrary: m d) (simp_all add: Let_def insert_comment_def insert_commute)

lemma rows_ok_copy_comments: "rows_ok d \<Longrightarrow> rows_ok (snd (copy_comments m cs d))"
proof (induction cs arbitrary: m d)
  case (Cons c cs)
  have "rows_ok (insert_comment (c\<lparr>c_id := next_id c_id (comments d), c_parent := p\<rparr>) d)" for p
    using Cons.prems less_next_id [of _ "comments d" c_id] by (auto simp: rows_ok_def sorted_wrt_snoc insert_comment_def)
  with Cons.IH show ?case by (simp add: Let_def)
qed simp

lemma adopt_fields [simp]:
  "tickets (snd (adopt x t nt now es cs m d)) = tickets d @ [t]"
  "find_ticket (snd (adopt x t nt now es cs m d)) = find_ticket (insert_ticket t d)"
  "ids (snd (adopt x t nt now es cs m d)) = insert (tid t) (ids d)"
  by (simp_all add: adopt_def case_prod_beta)

lemma wf_adopt:
  assumes wf: "wf_board d" and fresh: "find_ticket d (tid t) = None" and st: "tstate t = DRAFT"
    and es: "chain_from None es" "\<forall>e \<in> set es. ev_ticket e = tid t"
    and cs: "\<forall>c \<in> set cs. c_ticket c = tid t"
  shows "wf_board (snd (adopt x t nt now es cs m d))"
proof -
  let ?i = "tid t"
  let ?d1 = "copy_events es (insert_ticket t d)"
  let ?d2 = "snd (copy_comments m cs ?d1)"
  have i: "?i \<notin> ids d" using fresh by (simp add: find_ticket_ids)
  have rows: "rows_ok d" and links: "links_ok d" and ag: "agrees d" and no: "no_orphans d"
    using wf by (simp_all add: wf_board_def)
  have of: "events_of ?d1 j = (if j = ?i then renumber (next_id ev_id (events d)) es else events_of d j)" for j
    using no_history [OF no i] by (simp add: events_of_copy_events [OF es(2)])
  have "rows_ok ?d2"
    using rows i by (intro rows_ok_copy_comments rows_ok_copy_events) (auto simp: rows_ok_def ids_def)
  moreover have "links_ok ?d2"
    using es(1) links_okD [OF links] by (intro links_okI) (simp add: of chain_from_renumber)
  moreover have "no_orphans (add_event x ?i DRAFT nt' now ?d2)" for nt'
  proof -
    have "c_ticket ` set (comments ?d2) \<subseteq> insert ?i (ids d)"
      using no cs by (subst copy_comments_tickets) (auto simp: no_orphans_def)
    moreover have "ev_ticket ` set (events ?d2) \<subseteq> insert ?i (ids d)"
      using no es(2) renumber_tickets [of "next_id ev_id (events d)" es]
      by (fastforce simp: copy_events_renumber no_orphans_def)
    ultimately show ?thesis by (auto simp: no_orphans_def)
  qed
  moreover have "agrees (add_event x ?i DRAFT nt' now ?d2)" for nt'
  proof (rule agreesI)
    fix u assume "u \<in> set (tickets (add_event x ?i DRAFT nt' now ?d2))"
    then have "u = t \<or> (u \<in> set (tickets d) \<and> tid u \<noteq> ?i)"
      using i by (auto simp: ids_def) (metis image_eqI)
    then show "events_of (add_event x ?i DRAFT nt' now ?d2) (tid u) \<noteq> []
        \<and> ev_state (last (events_of (add_event x ?i DRAFT nt' now ?d2) (tid u))) = tstate u"
      using st agreesD [OF ag, of u] by (auto simp: of)
  qed
  ultimately show ?thesis
    by (simp add: adopt_def case_prod_beta wf_board_def rows_ok_add_event links_ok_add_event)
qed

lemma sealed_adopt:
  "\<lbrakk>sealed x d; \<forall>e \<in> set es. ev_hash e = computed_hash x e\<rbrakk> \<Longrightarrow> sealed x (snd (adopt x t nt now es cs m d))"
  using renumber_sealed [of "next_id ev_id (events d)" es x]
  by (auto simp: adopt_def case_prod_beta sealed_def copy_events_renumber make_event_sealed)

section \<open>Invariants\<close>

text \<open>A board invariant that survives the arrival of a ticket from another board.\<close>

locale movable_invariant = board_invariant +
  assumes adopt_ticket: "\<lbrakk>B b d; find_ticket d (tid t) = None; tstate t = DRAFT; board_id t = b;
      B b' d'; find_ticket d' (tid t) = Some t0\<rbrakk>
    \<Longrightarrow> B b (snd (adopt x t nt now (events_of d' (tid t)) (comments_of d' (tid t)) m d))"
begin

lemma vanished_world [simp]: "snd (vanished svc i w) = w"
  by (simp add: vanished_def split: option.split)

lemma drop_tickets_keeps: "B b d \<Longrightarrow> B b (drop_tickets is d)"
  unfolding drop_tickets_def
  by (induction "is" arbitrary: d) (simp_all add: drop_ticket)

end

lemma migrated_row_fields [simp]:
  "tid (migrated_row st dst now t) = tid t" "tstate (migrated_row st dst now t) = DRAFT"
  "board_id (migrated_row st dst now t) = dst" "parent_id (migrated_row st dst now t) = parent_id t"
  by (simp_all add: migrated_row_def)

lemma single_row_fields [simp]:
  "tid (single_row st dst now t) = tid t" "tstate (single_row st dst now t) = DRAFT"
  "board_id (single_row st dst now t) = dst"
  by (simp_all add: single_row_def)

lemma move_workspace_fields [simp]:
  "boards (move_workspace src dst i w) = boards w" "clock (move_workspace src dst i w) = clock w"
  "board (move_workspace src dst i w) = board w" "notices (move_workspace src dst i w) = notices w"
  by (simp_all add: move_workspace_def)

lemma restore_workspace_fields [simp]:
  "boards (restore_workspace src dst i moved w) = boards w"
  "board (restore_workspace src dst i moved w) = board w"
  by (simp_all add: restore_workspace_def)

lemma move_workspaces_boards [simp]: "boards (snd (move_workspaces src dst is w)) = boards w"
  by (induction src dst "is" w rule: move_workspaces.induct) simp_all

lemma restore_all_boards [simp]:
  "boards (fold (\<lambda>i. restore_workspace src dst i (f i)) is w) = boards w"
  by (induction "is" arbitrary: w) simp_all

lemma scan_subtree_rows:
  "\<lbrakk>scan_subtree d queue = Some ts; set queue \<subseteq> set (tickets d)\<rbrakk> \<Longrightarrow> set ts \<subseteq> set (tickets d)"
proof (induction ts arbitrary: queue)
  case (Cons u us)
  then obtain rest where "queue = u # rest" "scan_subtree d (rest @ children_of d (tid u)) = Some us"
    by (cases queue) (auto simp: scan_subtree_Cons bind_eq_Some_conv)
  with Cons show ?case by (auto simp: children_of_def)
qed simp

context movable_invariant
begin

lemma migrate_one_keeps:
  assumes x: "ext svc = x" and w: "all_boards B w" and dst: "dst \<noteq> []" and src: "src \<noteq> []"
    and t: "find_ticket (board w src) i = Some t"
  shows "all_boards B (snd (migrate_one svc src dst (board w src) t nt w))"
proof -
  have same: "all_boards B w'" if "boards w' = boards w" for w'
    using w all_boards_same [OF that] by simp
  have i: "tid t = i" using find_ticket_SomeD [OF t] by simp
  have put: "all_boards B (put_board dst (snd (adopt x u n now (events_of (board w src) i)
      (comments_of (board w src) i) m (board w dst))) w')" (is "all_boards B ?w2")
    if "tid u = i" "tstate u = DRAFT" "board_id u = dst" "find_ticket (board w dst) i = None"
      "boards w' = boards w" for u n now m w'
    using that t adopt_ticket [OF at_board [OF w dst], of u src "board w src" t]
      at_board [OF w src]
    by (intro all_boards_put same) simp_all
  have "all_boards B (put_board src (drop_all i (board w' src)) w')" if "all_boards B w'" for w'
    using that at_board [OF that src] by (intro all_boards_put drop_ticket)
  then show ?thesis
    using put x i w by (simp add: migrate_one_def Let_def same del: board_put)
qed

lemma adopt_all_keeps:
  assumes x: "ext svc = x" and src: "B src d" and dst: "dst \<noteq> []"
  shows "\<lbrakk>adopt_all svc src dst epic nt d now ts m e = Inr e1; B dst e;
      \<forall>t \<in> set ts. find_ticket d (tid t) \<noteq> None\<rbrakk> \<Longrightarrow> B dst e1"
proof (induction ts arbitrary: m e)
  case (Cons t ts)
  have "B dst (snd (adopt x (migrated_row (settings_of svc) dst now t) n now
      (events_of d (tid t)) (comments_of d (tid t)) m e))" if "find_ticket e (tid t) = None" for n
    using that Cons.prems adopt_ticket [OF Cons.prems(2), of "migrated_row (settings_of svc) dst now t" src d]
      src by auto
  with Cons x show ?case by (auto simp: Let_def case_prod_beta split: if_splits)
qed simp

lemma migrate_epic_keeps:
  assumes x: "ext svc = x" and w: "all_boards B w" and dst: "dst \<noteq> src" and src: "src \<noteq> []"
    and t: "find_ticket (board w src) i = Some t"
    and m: "migrate_epic_subtree svc src dst (board w src) t nt w = Some (r, w')"
  shows "all_boards B w'"
proof -
  obtain sub where sub: "collect_subtree (board w src) t = Some sub"
    using m by (auto simp: migrate_epic_subtree_def split: option.splits)
  let ?is = "map tid sub"
  let ?w1 = "snd (move_workspaces src dst ?is w)"
  have same: "all_boards B v" if "boards v = boards w" for v
    using w all_boards_same [OF that] by simp
  have "t \<in> set (tickets (board w src))" using find_ticket_SomeD [OF t] by simp
  then have "set sub \<subseteq> set (tickets (board w src))"
    using scan_subtree_rows [OF sub [unfolded collect_subtree_def]] by simp
  then have rows: "\<forall>u \<in> set sub. find_ticket (board w src) (tid u) \<noteq> None"
    by (auto simp: find_ticket_ids ids_def)
  have b1: "board ?w1 = board w" by (simp add: board_def fun_eq_iff)
  have adopted: "all_boards B (put_board src (drop_tickets is (board (put_board dst e ?w1) src)) (put_board dst e ?w1))"
    if "dst \<noteq> []" "adopt_all svc src dst (tid t) nt (board w src) (clock w) sub Map.empty (board w dst) = Inr e"
    for e "is"
    using adopt_all_keeps [OF x at_board [OF w src] that(1) that(2) at_board [OF w that(1)] rows] dst b1
      at_board [OF w src]
    by (intro all_boards_put drop_tickets_keeps same) simp_all
  let ?A = "adopt_all svc src dst (tid t) nt (board w src) (clock w) sub Map.empty (board w dst)"
  show ?thesis
  proof (cases "List.map_filter blocker_line sub \<noteq> [] \<or> dst = []")
    case True
    then have "w' = w" using m sub
      by (auto simp: migrate_epic_subtree_def Let_def split: if_split_asm)
    with w show ?thesis by simp
  next
    case False
    note go = m [unfolded migrate_epic_subtree_def Let_def sub option.case]
    show ?thesis
    proof (cases "fst (move_workspaces src dst ?is w)")
      case (Inl e)
      then have "w' = ?w1" using go False by (cases "move_workspaces src dst ?is w") auto
      then show ?thesis by (simp add: same)
    next
      case moved: (Inr u)
      show ?thesis
      proof (cases ?A)
        case (Inl e)
        then have "boards w' = boards ?w1"
          using go False moved b1 by (cases "move_workspaces src dst ?is w") auto
        then show ?thesis by (simp add: same)
      next
        case (Inr e)
        let ?w2 = "put_board dst e ?w1"
        have "vanished svc (tid t) (put_board src (drop_tickets (rev ?is) (board ?w2 src)) ?w2) = (r, w')"
          using go False moved b1 Inr by (cases "move_workspaces src dst ?is w") simp
        then have "w' = put_board src (drop_tickets (rev ?is) (board ?w2 src)) ?w2"
          by (metis snd_conv vanished_world)
        then show ?thesis using adopted [OF _ Inr] False by simp
      qed
    qed
  qed
qed

lemma migrate_keeps:
  assumes x: "ext svc = x" and w: "all_boards B w" and m: "migrate svc i target nt w = Some (r, w')"
  shows "all_boards B w'"
proof -
  have one: "all_boards B (snd (migrate_ticket svc src dst (board w src) t nt w))"
    if "src \<noteq> []" "find_ticket (board w src) i = Some t" for src dst t
    using migrate_one_keeps [OF x w _ that, of dst] w by (simp add: migrate_ticket_def)
  have "w' = w \<or> (\<exists>src dst t. src \<noteq> [] \<and> dst \<noteq> src \<and> find_ticket (board w src) i = Some t \<and>
      (migrate_epic_subtree svc src dst (board w src) t nt w = Some (r, w')
       \<or> migrate_ticket svc src dst (board w src) t nt w = (r, w')))"
    using m by (auto simp: migrate_def open_board_def split: if_splits option.splits sum.splits)
  then show ?thesis
    using w migrate_epic_keeps [OF x w] one by (metis snd_conv)
qed

end

interpretation wf_movable: movable_invariant "\<lambda>b. wf_board" x for x
proof
  show "wf_board (snd (adopt x t nt now (events_of d' (tid t)) (comments_of d' (tid t)) m d))"
    if "wf_board d" "find_ticket d (tid t) = None" "tstate t = DRAFT" "wf_board d'" for d t nt now d' m
    using that links_okD [of d' "tid t"]
    by (intro wf_adopt) (auto simp: wf_board_def events_of_def comments_of_def)
qed

interpretation intact_movable: movable_invariant "\<lambda>b. intact x" x for x
proof
  show "intact x (snd (adopt x t nt now (events_of d' (tid t)) (comments_of d' (tid t)) m d))"
    if "intact x d" "find_ticket d (tid t) = None" "tstate t = DRAFT" "intact x d'"
      "find_ticket d' (tid t) = Some t0" "board_id t = b" for d t nt now d' m t0 b
    using that wf_movable.adopt_ticket [of d t b d' t0]
    by (simp add: intact_def) (rule sealed_adopt, auto simp: sealed_def events_of_def)
qed

interpretation homed_movable: movable_invariant
    "\<lambda>b d. b \<noteq> [] \<and> (\<forall>t \<in> set (tickets d). board_id t = b)" x for x
  by unfold_locales auto

end
