(* ===== verification/Sample.thy ===== *)
theory Sample
  imports Board
begin

text \<open>
  A small concrete world, on which the theorems are applied: a board \<open>alpha\<close> with a
  ticket \<open>t1\<close> about to be merged, a blocked ticket \<open>t2\<close> that \<open>t1\<close> unblocks, a paused ticket
  \<open>t3\<close> with an open question and an epic \<open>e1\<close> with a child, and an empty board
  \<open>beta\<close>. The digests are constant.
\<close>

definition sample_externals :: externals where
  "sample_externals =
     \<lparr>blake2b = (\<lambda>_. ''h''), sha256 = (\<lambda>_. ''s''), git = (\<lambda>_ _. None),
      refresh_origin_target = (\<lambda>_ b. ''origin/'' @ b), session_cost = (\<lambda>_ _. 0)\<rparr>"

definition sample_settings :: settings where
  "sample_settings =
     \<lparr>data_dir = ''/data'', default_repo_id = [], repos_config = Some [(''ra'', ''alpha''), (''rb'', ''beta'')],
      max_archived_tickets = 10, max_events_per_ticket = 2, max_comments_per_ticket = 1,
      board_hygiene_draft_ttl_days = 7, implement_max_spawns_per_ticket = 3,
      max_implement_review_cycles = 2, ci_fix_max_identical_failures = 3, auto_fix_max_cycles = 2,
      implement_zero_diff_abort_threshold = 2, branch_prefix = ''mill/'', forge_target_branch = ''main''\<rparr>"

definition sample_service :: service where
  "sample_service =
     \<lparr>settings_of = sample_settings, ext = sample_externals, svc_board = ''alpha'', has_callback = True\<rparr>"

definition sample_ticket :: "string \<Rightarrow> State \<Rightarrow> Ticket" where
  "sample_ticket i st =
     \<lparr>tid = i, title = ''T'', tstate = st, kind = TASK, workspace_path = [], content_hash = [],
      branch = None, parent_id = None, source = ''user'', blocked_from = None, block_reason = None,
      paused_from = None, origin_session = None, cost_usd = 0, pre_redraft_cost_usd = 0,
      pre_redraft_trace_count = 0, review_rounds = 0, implement_cycles = 0, refine_passes = 0,
      refine_output_hash = [], retry_attempt = 0, last_transient_error = None, next_retry_at = None,
      depends_on = None, unblocks = None, labels = None, tool_calls_override = None,
      board_id = ''alpha'', priority = False, created_at = 0, updated_at = 0\<rparr>"

definition sample_comment :: "nat \<Rightarrow> string \<Rightarrow> string \<Rightarrow> Comment" where
  "sample_comment k i body =
     \<lparr>c_id = k, c_ticket = i, c_body = body, c_author = ''agent'', c_parent = None, c_closed = None,
      c_created = int k\<rparr>"

definition sample_tickets :: "Ticket list" where
  "sample_tickets =
     [(sample_ticket ''t1'' WAITING_AUTO_MERGE)\<lparr>unblocks := Some ''[\"t2\"]''\<rparr>,
      (sample_ticket ''t2'' BLOCKED)\<lparr>blocked_from := Some ''fixing_ci''\<rparr>,
      (sample_ticket ''t3'' AWAITING_USER_REPLY)\<lparr>paused_from := Some ''ready''\<rparr>,
      (sample_ticket ''e1'' EPIC_OPEN)\<lparr>kind := EPIC\<rparr>,
      (sample_ticket ''c1'' DRAFT)\<lparr>parent_id := Some ''e1''\<rparr>]"

definition sample_board :: board_db where
  "sample_board =
     fold (\<lambda>t. add_event sample_externals (tid t) (tstate t) (Some ''created'') 0) sample_tickets
       \<lparr>tickets = sample_tickets, events = [],
        comments = [sample_comment 1 ''t3'' (ASK_USER_MARKER @ '' which one?'')]\<rparr>"

definition sample_world :: world where
  "sample_world =
     \<lparr>boards = [(''alpha'', sample_board), (''beta'', empty_board)], workspaces = Map.empty,
      clock = 1000000, notices = []\<rparr>"

end
