(* ===== verification/Service.thy ===== *)
theory Service
  imports Maintenance Comments Redraft Migrate Sample
begin

text \<open>
  The service as a transition system: a step is one call of an operation, by a service bound to any
  board with any settings, or the passing of time. The invariants hold in every world reachable
  from one where they hold; in particular from one without boards.
\<close>

section \<open>Steps\<close>

text \<open>
  The externals, which fix the digests, are the same for all calls. \<open>service_step\<close> is every
  operation that leaves history rows as they are; \<open>mill_step\<close> adds the event cap, alone and
  in the maintenance pass.
\<close>

inductive service_step :: "externals \<Rightarrow> world \<Rightarrow> world \<Rightarrow> bool" for x where
  tick: "clock w \<le> now \<Longrightarrow> service_step x w (w\<lparr>clock := now\<rparr>)"
| files: "service_step x w (w\<lparr>workspaces := ws\<rparr>)"
| create: "ext svc = x \<Longrightarrow> service_step x w (snd (create_ticket svc r w))"
| transition: "ext svc = x \<Longrightarrow> service_step x w (snd (transition svc i dst nt reason w))"
| resume: "ext svc = x \<Longrightarrow> service_step x w (snd (resume_blocked svc i s w))"
| retry: "ext svc = x \<Longrightarrow> service_step x w (snd (set_retry_state svc i k err next w))"
| changes: "ext svc = x \<Longrightarrow> service_step x w (snd (request_changes svc i body author w))"
| impl_changes: "ext svc = x \<Longrightarrow>
    service_step x w (snd (request_implementation_changes svc i body author w))"
| close: "ext svc = x \<Longrightarrow> service_step x w (snd (close_tracker svc i s w))"
| mark: "ext svc = x \<Longrightarrow> service_step x w (snd (mark_done svc i s author w))"
| comment: "ext svc = x \<Longrightarrow> service_step x w (snd (add_comment svc i body author parent w))"
| close_thr: "ext svc = x \<Longrightarrow> service_step x w (snd (close_thread svc c oi w))"
| reopen: "ext svc = x \<Longrightarrow> service_step x w (snd (reopen_thread svc c oi w))"
| close_ask: "ext svc = x \<Longrightarrow> service_step x w (snd (close_open_ask_user_threads svc i w))"
| answer: "ext svc = x \<Longrightarrow>
    service_step x w (snd (answer_pending_question svc i body author change w))"
| step_event: "ext svc = x \<Longrightarrow> service_step x w (snd (add_step_event svc i s w))"
| history_note: "ext svc = x \<Longrightarrow> service_step x w (snd (add_history_note svc i s w))"
| columns: "\<lbrakk>ext svc = x; \<And>t. tid (f t) = tid t; \<And>t. tstate (f t) = tstate t;
    \<And>t. board_id (f t) = board_id t\<rbrakk> \<Longrightarrow> service_step x w (snd (set_columns svc i f w))"
| epic: "ext svc = x \<Longrightarrow> service_step x w (snd (promote_to_epic svc i w))"
| flag: "ext svc = x \<Longrightarrow> service_step x w (snd (set_priority svc i v w))"
| dependencies: "ext svc = x \<Longrightarrow> service_step x w (snd (edit_dependencies svc i deps s w))"
| describe: "ext svc = x \<Longrightarrow> service_step x w (snd (update_description svc i s reset author w))"
| delete: "ext svc = x \<Longrightarrow> service_step x w (snd (delete_ticket svc i w))"
| redraft: "ext svc = x \<Longrightarrow> service_step x w (snd (redraft svc i body w))"
| migrate: "\<lbrakk>ext svc = x; migrate svc i target nt w = Some (r, w')\<rbrakk> \<Longrightarrow> service_step x w w'"
| archive: "ext svc = x \<Longrightarrow> service_step x w (snd (maybe_purge_archived svc w))"
| comment_cap: "ext svc = x \<Longrightarrow> service_step x w (snd (maybe_purge_ticket_comments svc i w))"
| hygiene: "ext svc = x \<Longrightarrow> service_step x w (snd (maybe_auto_close_stale_drafts svc w))"
| reconcile: "ext svc = x \<Longrightarrow> service_step x w (snd (reconcile_orphan_cards svc w))"

inductive mill_step :: "externals \<Rightarrow> world \<Rightarrow> world \<Rightarrow> bool" for x where
  service: "service_step x w w' \<Longrightarrow> mill_step x w w'"
| event_cap: "ext svc = x \<Longrightarrow> mill_step x w (snd (maybe_purge_ticket_events svc i w))"
| maintenance: "ext svc = x \<Longrightarrow> mill_step x w (snd (db_maintenance_pass svc w))"

abbreviation reaches :: "externals \<Rightarrow> world \<Rightarrow> world \<Rightarrow> bool" where
  "reaches x \<equiv> (service_step x)\<^sup>*\<^sup>*"

abbreviation mill_reaches :: "externals \<Rightarrow> world \<Rightarrow> world \<Rightarrow> bool" where
  "mill_reaches x \<equiv> (mill_step x)\<^sup>*\<^sup>*"

section \<open>Invariants of the steps\<close>

context movable_invariant
begin

lemma service_step_keeps: "\<lbrakk>service_step x w w'; all_boards B w\<rbrakk> \<Longrightarrow> all_boards B w'"
proof (induction rule: service_step.induct)
  case (tick w now)
  then show ?case by (simp add: all_boards_def)
next
  case (files w ws)
  then show ?case by (simp add: all_boards_def)
next
  case (columns svc f w i)
  then show ?case by (intro set_columns_keeps)
next
  case (migrate svc i target nt w r w')
  then show ?case using migrate_keeps [OF migrate(1) migrate(3) migrate(2)] by simp
qed (simp_all add: create_keeps transition_keeps resume_blocked_keeps set_retry_state_keeps
    request_changes_keeps request_implementation_changes_keeps close_tracker_keeps mark_done_keeps
    add_comment_keeps close_thread_keeps reopen_thread_keeps close_open_ask_keeps answer_keeps
    add_step_event_keeps add_history_note_keeps promote_keeps set_priority_keeps
    edit_dependencies_keeps update_description_keeps delete_keeps redraft_keeps purge_keeps
    comment_cap_keeps stale_drafts_keeps reconcile_keeps)

lemma reaches_keeps: "\<lbrakk>reaches x w w'; all_boards B w\<rbrakk> \<Longrightarrow> all_boards B w'"
  by (induction rule: rtranclp_induct) (auto intro: service_step_keeps)

end

text \<open>An invariant of all steps, the event cap included.\<close>

locale mill_invariant = movable_invariant + capped_invariant
begin

lemma mill_step_keeps: "\<lbrakk>mill_step x w w'; all_boards B w\<rbrakk> \<Longrightarrow> all_boards B w'"
  by (induction rule: mill_step.induct)
    (auto intro: service_step_keeps event_cap_keeps db_maintenance_pass_keeps)

lemma mill_reaches_keeps: "\<lbrakk>mill_reaches x w w'; all_boards B w\<rbrakk> \<Longrightarrow> all_boards B w'"
  by (induction rule: rtranclp_induct) (auto intro: mill_step_keeps)

end

interpretation wf_mill: mill_invariant "\<lambda>b. wf_board" x for x
  by unfold_locales

interpretation homed_mill: mill_invariant
    "\<lambda>b d. b \<noteq> [] \<and> (\<forall>t \<in> set (tickets d). board_id t = b)" x for x
  by unfold_locales

definition start_world :: "instant \<Rightarrow> world" where
  "start_world now = \<lparr>boards = [], workspaces = Map.empty, clock = now, notices = []\<rparr>"

lemma start_world_ok: "wf_world (start_world now)" "homed (start_world now)"
    "intact_world x (start_world now)"
  by (simp_all add: start_world_def wf_world_def homed_def intact_world_def all_boards_def)

lemma intact_no_breaks:
  assumes "intact_world x w"
  shows "breaks (run_verify_pass x st None w) = []"
proof -
  have "verify_chain x None (events_of (board w b) i) = []" for b i
  proof -
    have "intact x (board w b)" using intact_world_board [OF assms] by simp
    then have "links_ok (board w b)" "sealed x (board w b)"
      by (simp_all add: intact_def wf_board_def)
    then show ?thesis
      by (intro verify_chain_clean links_okD) (auto simp: sealed_def events_of_def)
  qed
  then show ?thesis by (simp add: run_verify_pass_breaks)
qed

lemma sample_homed: "homed sample_world"
  by (simp add: homed_def all_boards_def sample_world_def sample_board_def sample_tickets_def
      sample_ticket_def empty_board_def)

lemma sample_intact: "intact_world sample_externals sample_world"
  by code_simp

lemma sample_wf: "wf_world sample_world"
  using sample_intact by (auto simp: intact_world_def wf_world_def all_boards_def intact_def)

text \<open>Two steps from the empty data directory: a ticket, and its move to \<open>ready\<close>.\<close>

definition sample_request :: create_request where
  "sample_request =
     \<lparr>r_title = ''Fix it'', r_description = ''text'', r_source = ''user'', r_origin_session = None,
      r_depends_on = None, r_unblocks = None, r_kind = TASK, r_parent = None, r_board = None,
      r_priority = False, r_initial = None, r_token = ''abcd''\<rparr>"

definition sample_created :: world where
  "sample_created = snd (create_ticket sample_service sample_request (start_world 0))"

definition sample_moved :: world where
  "sample_moved = snd (transition sample_service ''19700101T000000Z-fix-it-abcd'' READY None None sample_created)"

lemma sample_ext [simp]: "ext sample_service = sample_externals"
  by (simp add: sample_service_def)

lemma sample_reaches: "reaches sample_externals (start_world 0) sample_moved"
proof -
  have "service_step sample_externals (start_world 0) sample_created"
    unfolding sample_created_def by (rule service_step.create) simp
  moreover have "service_step sample_externals sample_created sample_moved"
    unfolding sample_moved_def by (rule service_step.transition) simp
  ultimately show ?thesis by (meson rtranclp.simps)
qed

lemma reaches_mill: "reaches x w w' \<Longrightarrow> mill_reaches x w w'"
  by (induction rule: rtranclp_induct) (auto intro: mill_step.service rtranclp.rtrancl_into_rtrancl)

lemma sample_found: "map_option tstate (get_ticket sample_service ''19700101T000000Z-fix-it-abcd'' sample_moved) = Some READY"
  by code_simp

section \<open>Properties of every reachable world\<close>

text \<open>
  C3: In every world that calls of the service and maintenance passes, in any order, lead to from
  the empty data directory, each board is well-formed: ids are unique and grow, every history is a
  linked hash chain, its last event names the state the ticket is in, and no event or comment is
  without its ticket.
\<close>

theorem reachable_wf:
  assumes "mill_reaches x (start_world now) w"
  shows "wf_world w"
  using wf_mill.mill_reaches_keeps [OF assms] start_world_ok(1) [of now] by (simp add: wf_world_def)

lemma reachable_wf_witness:
  "wf_world (snd (maybe_purge_ticket_events sample_service ''19700101T000000Z-fix-it-abcd'' sample_moved))"
  by (rule reachable_wf [of sample_externals 0],
      rule rtranclp.rtrancl_into_rtrancl [OF reaches_mill [OF sample_reaches]])
    (rule mill_step.event_cap, simp)

text \<open>
  C4: In every reachable world each ticket carries the name of the board it is on, so the board
  that \<open>get\<close> reports for a ticket is the board whose session finds it.
\<close>

theorem reachable_homed:
  assumes "mill_reaches x (start_world now) w" "get_ticket svc i w = Some t"
  shows "open_board_for svc i w = Inr (board_id t, board w (board_id t))
     \<and> find_ticket (board w (board_id t)) i = Some t"
proof -
  have "homed w"
    using homed_mill.mill_reaches_keeps [OF assms(1)] start_world_ok(2) [of now] by (simp add: homed_def)
  then show ?thesis using get_ticket_opens get_ticket_homed assms(2) by blast
qed

lemma reachable_homed_witness:
  "\<exists>t. open_board_for sample_service ''19700101T000000Z-fix-it-abcd'' sample_moved
     = Inr (board_id t, board sample_moved (board_id t))
   \<and> find_ticket (board sample_moved (board_id t)) ''19700101T000000Z-fix-it-abcd'' = Some t"
proof -
  obtain t where "get_ticket sample_service ''19700101T000000Z-fix-it-abcd'' sample_moved = Some t"
    using sample_found by auto
  then show ?thesis
    by (intro exI [of _ t]) (rule reachable_homed [OF reaches_mill [OF sample_reaches]])
qed

text \<open>
  C5: As long as the event cap has not cut a history, the integrity pass finds no broken link and no
  wrong hash in any reachable world.
\<close>

theorem reachable_verifies:
  assumes "reaches x (start_world now) w"
  shows "breaks (run_verify_pass x st None w) = []"
  using intact_movable.reaches_keeps [OF assms] start_world_ok(3) [of x now]
  by (intro intact_no_breaks) (simp add: intact_world_def)

lemma reachable_verifies_witness:
  "breaks (run_verify_pass sample_externals sample_settings None sample_moved) = []"
  by (rule reachable_verifies [OF sample_reaches])

end
