(* ===== verification/Effects.thy ===== *)
theory Effects
  imports Service
begin

text \<open>
  The full effect of one operation on the world, for the runs that succeed: a transition that is no
  completion, the resume of a blocked ticket, the answer to a question, the resume of a ticket that
  another one unblocks. The lemmas find a ticket again after a write to its board.
\<close>

section \<open>Finding a ticket again after a write\<close>

lemma known_boards_same:
  "map fst (boards w') = map fst (boards w) \<Longrightarrow>
     collect_candidate_boards svc w' = collect_candidate_boards svc w"
proof -
  assume same: "map fst (boards w') = map fst (boards w)"
  have alt: "fold (\<lambda>db. add_candidate (fst db)) (boards v) c = fold add_candidate (map fst (boards v)) c" for v c
    by (simp add: fold_map comp_def)
  have "fold (\<lambda>db. add_candidate (fst db)) (boards w') c = fold (\<lambda>db. add_candidate (fst db)) (boards w) c" for c
    by (simp only: alt same)
  moreover have "map_of (boards w') b = None \<longleftrightarrow> map_of (boards w) b = None" for b
    using same by (metis list.set_map map_of_eq_None_iff)
  ultimately show ?thesis by (simp only: collect_candidate_boards_def Let_def)
qed

lemma first_hit_None_iff: "first_hit w bs i = None \<longleftrightarrow> (\<forall>b \<in> set bs. find_ticket (board w b) i = None)"
  by (induction w bs i rule: first_hit.induct) (auto split: option.split)

text \<open>A write to the board of a ticket that keeps the ticket's row, changed or not, does not move it.\<close>

lemma get_ticket_moved:
  assumes h: "homed w" "homed w'" and g: "get_ticket svc i w = Some t"
    and t': "find_ticket (board w' (board_id t)) i = Some t'"
    and same: "map fst (boards w') = map fst (boards w)"
      "\<And>c. c \<noteq> board_id t \<Longrightarrow> find_ticket (board w' c) i = find_ticket (board w c) i"
  shows "get_ticket svc i w' = Some t'"
proof -
  let ?cs = "collect_candidate_boards svc w"
  have b': "board_id t' = board_id t" using homed_row [OF h(2) t'] by simp
  have found: "find_ticket (board w (board_id t)) i = Some t" "board_id t \<noteq> []"
    using get_ticket_homed [OF h(1) g] by auto
  have row: "resolve_board_id svc u = u" if "find_ticket (board w' c) i = Some u" for c u
    using homed_row [OF h(2) that] by (auto simp: resolve_board_id_def)
  have row0: "resolve_board_id svc u = u" if "find_ticket (board w c) i = Some u" for c u
    using homed_row [OF h(1) that] by (auto simp: resolve_board_id_def)
  have hit: "first_hit w' bs i = Some t'" if "first_hit w bs i = Some t" for bs
    using that
  proof (induction bs)
    case (Cons b bs)
    show ?case
    proof (cases "b = board_id t")
      case True
      then show ?thesis using t' by simp
    next
      case False
      have "find_ticket (board w b) i \<noteq> Some t"
        using False homed_row [OF h(1)] by blast
      with Cons False same(2) [OF False] show ?thesis by (auto split: option.splits)
    qed
  qed simp
  have any: "fst (get_anywhere svc i w') = Some t'" if here: "fst (get_anywhere svc i w) = Some t"
  proof -
    obtain u where u: "first_hit w ?cs i = Some u" "resolve_board_id svc u = t"
      using here by (auto simp: get_anywhere_def Let_def)
    obtain c where "find_ticket (board w c) i = Some u" using first_hit_SomeD [OF u(1)] by blast
    then have "u = t" using row0 u by metis
    then show ?thesis
      using hit u row [OF t'] known_boards_same [OF same(1)] by (simp add: get_anywhere_def Let_def)
  qed
  show ?thesis
  proof (cases "svc_board svc = []")
    case True
    with g any show ?thesis by (simp add: get_ticket_def)
  next
    case False
    show ?thesis
    proof (cases "svc_board svc = board_id t")
      case True
      with False t' row [OF t'] show ?thesis by (simp add: get_ticket_def)
    next
      case other: False
      have "find_ticket (board w (svc_board svc)) i = None"
      proof (rule ccontr)
        assume "find_ticket (board w (svc_board svc)) i \<noteq> None"
        then obtain u where u: "find_ticket (board w (svc_board svc)) i = Some u" by auto
        then have "t = u" using g False row0 [OF u] by (simp add: get_ticket_def)
        then show False using homed_row [OF h(1) u] other by simp
      qed
      then show ?thesis using g any False same(2) [OF other] by (simp add: get_ticket_def)
    qed
  qed
qed

lemma keys_put_board:
  "map_of (boards w) b \<noteq> None \<Longrightarrow> map fst (boards (put_board b d w)) = map fst (boards w)"
  by (simp add: put_board_def update_keys map_of_eq_None_iff)

lemma found_known: "find_ticket (board w b) i = Some t \<Longrightarrow> map_of (boards w) b \<noteq> None"
  by (auto simp: board_def empty_board_def find_ticket_def lookup_by_def split: option.splits)

lemma get_ticket_put:
  assumes "homed w" "homed w'" "get_ticket svc i w = Some t"
    and "boards w' = boards (put_board (board_id t) d w)" "find_ticket d i = Some t'"
  shows "get_ticket svc i w' = Some t'"
proof -
  have "find_ticket (board w (board_id t)) i = Some t" using get_ticket_homed assms by blast
  then have known: "map_of (boards w) (board_id t) \<noteq> None" by (rule found_known)
  have b: "board w' c = board (put_board (board_id t) d w) c" for c
    using assms(4) by (simp add: board_def)
  show ?thesis
    by (rule get_ticket_moved [OF assms(1-3)]) (use assms known b keys_put_board in auto)
qed

section \<open>The effect of a transition\<close>

definition moved_row :: "State \<Rightarrow> string option \<Rightarrow> string option \<Rightarrow> instant \<Rightarrow> Ticket \<Rightarrow> Ticket" where
  "moved_row dst nt reason now t =
     (paused_columns dst (fst (blocked_columns dst nt reason t)))\<lparr>tstate := dst, updated_at := now\<rparr>"

lemma moved_row_fields [simp]:
  "tid (moved_row dst nt reason now t) = tid t" "tstate (moved_row dst nt reason now t) = dst"
  "board_id (moved_row dst nt reason now t) = board_id t"
  by (simp_all add: moved_row_def)

text \<open>
  A transition past its guards whose workspace files can be changed, to a state that neither purges
  the archive nor unblocks anything.
\<close>

definition plain :: "State \<Rightarrow> bool" where
  "plain s \<longleftrightarrow> s \<notin> set ARCHIVABLE_STATES \<and> s \<notin> set UNBLOCK_TRIGGER_STATES"

lemma plain_transition:
  assumes wf: "wf_world w" "homed w" and g: "get_ticket svc i w = Some t"
    and guards: "transition_guards i t dst (clock w) (board w (board_id t)) = Inr d1"
    and files: "fst (transition_files svc t dst nt w) = Inr ()" and dst: "plain dst"
  shows "transition svc i dst nt reason w =
    (Inr (moved_row dst nt reason (clock w) t),
     on_transition svc (moved_row dst nt reason (clock w) t) (state_value (tstate t))
       (put_board (board_id t)
         (add_event (ext svc) i dst (snd (blocked_columns dst nt reason t)) (clock w)
           (put_ticket (moved_row dst nt reason (clock w) t)
             (close_answered i t dst (clock w) d1)))
         (snd (transition_files svc t dst nt w))))"
    (is "_ = (Inr ?t1, ?w1)")
proof -
  have i: "tid t = i" and found: "find_ticket (board w (board_id t)) i = Some t"
    using found_at [OF wf(2) g] find_ticket_SomeD by auto
  have *: "dst \<notin> set ARCHIVABLE_STATES" "dst \<notin> set UNBLOCK_TRIGGER_STATES" "dst \<notin> set TERMINAL_EPIC_STATES"
    using dst by (auto simp: plain_def ARCHIVABLE_STATES_def TERMINAL_EPIC_STATES_def)
  obtain w0 where w0: "transition_files svc t dst nt w = (Inr (), w0)" "w0 = snd (transition_files svc t dst nt w)"
    using files by (cases "transition_files svc t dst nt w") auto
  have step: "transition_step svc i dst nt reason w = (Inr (?t1, Some []), ?w1)"
  proof -
    have "transition_session svc i dst nt reason (board_id t) (board w (board_id t)) t w =
        transition_commit svc i (board_id t) (close_answered i t dst (clock w) d1)
          (paused_columns dst (fst (blocked_columns dst nt reason t))) dst
          (snd (blocked_columns dst nt reason t)) w0"
      using *(3) guards w0(1) by (simp add: transition_session_def Let_def case_prod_beta)
    moreover have "clock w0 = clock w" using w0(2) by simp
    ultimately show ?thesis
      using *(1,2) w0(2) by (simp add: step_at [OF wf(2) g] transition_commit_def Let_def moved_row_def)
  qed
  have h1: "homed ?w1"
    using step_wf_homed [OF wf, of svc i dst nt reason] step by simp
  have "find_ticket (close_answered i t dst (clock w) d1) i = Some t"
    using transition_guards_fields [OF guards] found by simp
  then have "get_ticket svc i ?w1 = Some ?t1"
    by (intro get_ticket_put [OF wf(2) h1 g, of "add_event (ext svc) i dst (snd (blocked_columns dst nt reason t)) (clock w)
           (put_ticket ?t1 (close_answered i t dst (clock w) d1))"])
      (simp_all add: i put_board_def)
  then show ?thesis
    using step by (simp add: transition_def Let_def)
qed

lemma transition_found:
  assumes wf: "wf_world w" "homed w" and g: "get_ticket svc i w = Some t"
    and guards: "transition_guards i t dst (clock w) (board w (board_id t)) = Inr d1"
    and files: "fst (transition_files svc t dst nt w) = Inr ()" and dst: "plain dst"
    and run: "transition svc i dst nt reason w = (Inr t', w')"
  shows "get_ticket svc i w' = Some t'"
proof -
  let ?t1 = "moved_row dst nt reason (clock w) t"
  let ?d3 = "add_event (ext svc) i dst (snd (blocked_columns dst nt reason t)) (clock w)
      (put_ticket ?t1 (close_answered i t dst (clock w) d1))"
  have eq: "t' = ?t1" "w' = on_transition svc ?t1 (state_value (tstate t))
      (put_board (board_id t) ?d3 (snd (transition_files svc t dst nt w)))"
    using plain_transition [OF wf g guards files dst, of reason] run by simp_all
  have found: "find_ticket (board w (board_id t)) i = Some t" by (rule found_at [OF wf(2) g])
  have "homed w'"
    using homed.transition_keeps [OF refl, of w svc i dst nt reason] wf(2) run by (simp add: homed_def)
  then show ?thesis
    using found find_ticket_SomeD [OF found] transition_guards_fields(3) [OF guards]
    by (intro get_ticket_put [OF wf(2) _ g, of _ ?d3]) (simp_all add: eq put_board_def)
qed

lemma plain_commit_frame:
  assumes "c \<noteq> b \<or> j \<noteq> tid t1" "tid t1 = i"
  shows "find_ticket (board (put_board b (add_event x i dst nt now (put_ticket t1 d)) w) c) j =
      (if c = b then find_ticket d j else find_ticket (board w c) j)"
    "events_of (board (put_board b (add_event x i dst nt now (put_ticket t1 d)) w) c) j =
      (if c = b then events_of d j else events_of (board w c) j)"
  using assms by (auto simp: events_of_def)

section \<open>Blocked and resumed\<close>

lemma open_workspace_safe:
  "\<lbrakk>board_id t \<noteq> []; safe_id (tid t)\<rbrakk> \<Longrightarrow>
     open_workspace svc t w = (Inr (board_id t, tid t), put_ws (board_id t, tid t) (ws_dir w (board_id t, tid t)) w)"
  by (simp add: open_workspace_def make_workspace_def)

lemma resume_at:
  assumes h: "homed w" and g: "get_ticket svc i w = Some t"
    and t: "tstate t = BLOCKED" "blocked_from t = Some (state_value s)" and s: "s \<noteq> READY" and i: "safe_id i"
  shows "\<exists>w2. resume_blocked svc i s_note w = (Inr (resume_row s (clock w) t), w2)
    \<and> get_ticket svc i w2 = Some (resume_row s (clock w) t)"
proof -
  let ?b = "board_id t" and ?t1 = "resume_row s (clock w) t"
  let ?d1 = "operator_comment i (strip s_note) (clock w) (board w ?b)"
  have found: "find_ticket (board w ?b) i = Some t" "?b \<noteq> []" using get_ticket_homed [OF h g] by auto
  then have ti: "tid t = i" using find_ticket_SomeD by blast
  have spawn: "spawn_decision svc ?t1 s (strip s_note) w = (Inr (False, False), w)"
    using s by (simp add: spawn_decision_def Let_def)
  let ?k = "(?b, i)"
  let ?w = "put_ws ?k (ws_dir w ?k) w"
  obtain guards a1 where g1: "reset_tripped_ci_fix_guards (settings_of svc) (artifacts (ws_dir ?w ?k)) = (guards, a1)"
    by fastforce
  have "cycles_at_ceiling (settings_of svc) ?t1 s = False" "reset_zero_diff (settings_of svc) s a1 = (False, a1)"
    "resume_cleanup s v False a1 = Inr a1" for v
    using s by (simp_all add: cycles_at_ceiling_def reset_zero_diff_def resume_cleanup_def Let_def)
  then have commit: "\<exists>nt w2. resume_commit svc i s (strip s_note) ?b ?d1 ?t1 False False ?k ?w = (Inr ?t1, w2)
      \<and> boards w2 = boards (put_board ?b (add_event (ext svc) i s (Some nt) (clock w) (put_ticket ?t1 ?d1)) w)"
    unfolding resume_commit_def Let_def g1 by (simp add: put_board_def) blast
  have "resume_session svc i s (strip s_note) ?b (board w ?b) t w =
      resume_commit svc i s (strip s_note) ?b ?d1 ?t1 False False ?k ?w"
    using found(2) i ti by (simp add: resume_session_def Let_def spawn open_workspace_safe)
  with commit have step: "\<exists>nt w2. resume_session svc i s (strip s_note) ?b (board w ?b) t w = (Inr ?t1, w2)
      \<and> boards w2 = boards (put_board ?b (add_event (ext svc) i s (Some nt) (clock w) (put_ticket ?t1 ?d1)) w)"
    by simp
  then obtain nt w2 where w2: "resume_session svc i s (strip s_note) ?b (board w ?b) t w = (Inr ?t1, w2)"
      "boards w2 = boards (put_board ?b (add_event (ext svc) i s (Some nt) (clock w) (put_ticket ?t1 ?d1)) w)"
    by blast
  have run: "resume_blocked svc i s_note w = (Inr ?t1, w2)"
    using t w2(1) by (simp add: resume_blocked_def with_ticket_homed [OF h g] resume_checked_def can_transition_def)
  have "homed w2"
    using homed.resume_blocked_keeps [OF refl, of w svc i s_note] h run by (simp add: homed_def)
  moreover have "find_ticket ?d1 i = Some t" using found by (simp add: operator_comment_def)
  ultimately have "get_ticket svc i w2 = Some ?t1"
    using ti by (intro get_ticket_put [OF h _ g w2(2)]) simp_all
  with run show ?thesis by blast
qed

section \<open>Asked and answered\<close>

lemma comments_of_closed [simp]:
  "comments_of (set_closed cs n d) i =
     map (\<lambda>c. if c_id c \<in> cs then c\<lparr>c_closed := n\<rparr> else c) (comments_of d i)"
  by (auto simp: comments_of_def set_closed_def map_comments_def filter_map comp_def intro!: map_cong filter_cong)

lemma comments_of_insert [simp]:
  "comments_of (insert_comment c d) i = comments_of d i @ (if c_ticket c = i then [c] else [])"
  by (simp add: comments_of_def insert_comment_def)

lemma filter_map_same: "(\<And>x. P (f x) = P x) \<Longrightarrow> filter P (map f xs) = map f (filter P xs)"
  by (simp add: filter_map comp_def)

text \<open>Closing threads does not change which comments are questions; a reply is none.\<close>

lemma ask_threads_answered:
  assumes "c_parent r \<noteq> None"
  shows "ask_threads (set_closed cs n (insert_comment r d)) i =
     map (\<lambda>c. if c_id c \<in> cs then c\<lparr>c_closed := n\<rparr> else c) (ask_threads d i)"
proof -
  have "ask_threads (insert_comment r d) i = ask_threads d i"
    using assms by (auto simp: ask_threads_def)
  moreover have "ask_threads (set_closed cs n e) i =
      map (\<lambda>c. if c_id c \<in> cs then c\<lparr>c_closed := n\<rparr> else c) (ask_threads e i)" for e
    unfolding ask_threads_def comments_of_closed by (rule filter_map_same) simp
  ultimately show ?thesis by simp
qed

lemma all_answered:
  assumes "open_ask_user_threads d i = [q]" "c_parent r \<noteq> None"
  shows "ask_threads (set_closed {c_id q} (Some now) (insert_comment r d)) i \<noteq> []"
    "\<forall>c \<in> set (ask_threads (set_closed {c_id q} (Some now) (insert_comment r d)) i). c_closed c \<noteq> None"
proof -
  have "set (open_ask_user_threads d i) = {q}" using assms(1) by simp
  then have q: "q \<in> set (ask_threads d i)" "\<And>c. \<lbrakk>c \<in> set (ask_threads d i); c_closed c = None\<rbrakk> \<Longrightarrow> c = q"
    by (auto simp: open_ask_user_threads_def)
  show "ask_threads (set_closed {c_id q} (Some now) (insert_comment r d)) i \<noteq> []"
    using q(1) by (auto simp: ask_threads_answered [OF assms(2)])
  show "\<forall>c \<in> set (ask_threads (set_closed {c_id q} (Some now) (insert_comment r d)) i). c_closed c \<noteq> None"
    using q(2) by (auto simp: ask_threads_answered [OF assms(2)])
qed

lemma in_artifacts_safe:
  assumes "board_id t \<noteq> []" "safe_id (tid t)" "f (artifacts (ws_dir w (board_id t, tid t))) = Inr a"
  shows "\<exists>w'. in_artifacts svc t f w = (Inr (), w') \<and> boards w' = boards w"
  using assms by (simp add: in_artifacts_def open_workspace_safe)

lemma ws_dir_put_board [simp]: "ws_dir (put_board b d w) = ws_dir w"
  by (simp add: ws_dir_def fun_eq_iff)

lemma answer_at:
  fixes body author :: string
  assumes h: "homed w" and g: "get_ticket svc i w = Some t"
    and t: "tstate t = AWAITING_USER_REPLY" "paused_from t = Some (state_value s)"
    and q: "open_ask_user_threads (board w (board_id t)) i = [q]" and i: "safe_id i"
    and clear: "clear_stale_implement_guard True (artifacts (ws_dir w (board_id t, i))) = Inr a"
  defines "b \<equiv> board_id t"
  defines "reply \<equiv> new_comment (board w b) i body author (Some (c_id q)) (clock w)"
  defines "t1 \<equiv> resumed_row s (clock w) t"
  shows "\<exists>w'. answer_pending_question svc i body author False w = (Inr reply, w')
     \<and> boards w' = boards (put_board b (add_event (ext svc) i s (Some ASK_USER_AUTO_RESUME_NOTE) (clock w)
          (put_ticket t1 (set_closed {c_id q} (Some (clock w)) (insert_comment reply (board w b))))) w)
     \<and> get_ticket svc i w' = Some t1"
proof -
  let ?d1 = "set_closed {c_id q} (Some (clock w)) (insert_comment reply (board w b))"
  let ?w1 = "put_board b ?d1 w"
  let ?d2 = "add_event (ext svc) i s (Some ASK_USER_AUTO_RESUME_NOTE) (clock w) (put_ticket t1 ?d1)"
  have found: "find_ticket (board w b) i = Some t" "b \<noteq> []" using get_ticket_homed [OF h g] by (auto simp: b_def)
  then have ti: "tid t = i" using find_ticket_SomeD by blast
  have reply: "c_parent reply \<noteq> None" "c_ticket reply = i" by (simp_all add: reply_def new_comment_def)
  have found1: "find_ticket ?d1 i = Some t" using found by simp
  have late: "latest_question (board w b) i = Some q"
    using q by (simp add: latest_question_def b_def)
  have answered: "ask_threads ?d1 i \<noteq> []" "\<not> (\<exists>c \<in> set (ask_threads ?d1 i). c_closed c = None)"
    using all_answered [OF q [folded b_def] reply(1)] by auto
  obtain w2 where w2: "in_artifacts svc t1 (clear_stale_implement_guard True) (put_board b ?d2 ?w1) = (Inr (), w2)"
      "boards w2 = boards (put_board b ?d2 ?w1)"
    using in_artifacts_safe [of t1 "clear_stale_implement_guard True" "put_board b ?d2 ?w1" a svc]
      found(2) ti i clear by (auto simp: t1_def resumed_row_def b_def)
  have twice: "put_board b ?d2 ?w1 = put_board b ?d2 w"
    by (simp add: put_board_def)
  have recovered: "recover_paused_from ?d1 i t = Some t" using t(2) by (simp add: recover_paused_from_def)
  have "auto_resume svc i b ?d1 t s ?w1 = (Inr (), on_transition svc t1 (state_value AWAITING_USER_REPLY) w2)"
    using w2(1) t(1) by (simp add: auto_resume_def Let_def t1_def)
  then have "maybe_resume_awaiting_user_reply svc i b ?w1
      = (Inr (), on_transition svc t1 (state_value AWAITING_USER_REPLY) w2)"
    using found(2) found1 t answered recovered
    by (auto simp: maybe_resume_awaiting_user_reply_def open_board_def)
  then have run: "answer_pending_question svc i body author False w
      = (Inr reply, on_transition svc t1 (state_value AWAITING_USER_REPLY) w2)"
    using t(1) late unfolding answer_pending_question_def with_ticket_homed [OF h g]
    by (simp add: answer_session_def answerable_def finish_answer_def Let_def b_def reply_def)
  let ?w' = "on_transition svc t1 (state_value AWAITING_USER_REPLY) w2"
  have bs: "boards ?w' = boards (put_board b ?d2 w)" using w2(2) twice by simp
  have "homed ?w'"
    using homed.answer_keeps [OF refl, of w svc i body author False] h run by (simp add: homed_def)
  moreover have "find_ticket ?d2 i = Some t1" using found1 ti by (simp add: t1_def resumed_row_def)
  ultimately have "get_ticket svc i ?w' = Some t1"
    using bs unfolding b_def by (intro get_ticket_put [OF h _ g])
  with run bs show ?thesis by blast
qed

section \<open>Completion\<close>

text \<open>A blocked ticket with a recorded origin is sent back there, and no other ticket moves.\<close>

lemma unblock_at:
  assumes wf: "wf_world w" "homed w" and g: "get_ticket svc j w = Some t"
    and t: "tstate t = BLOCKED" "blocked_from t = Some (state_value s)" "stored_state (paused_from t) = Inr pf"
    and s: "plain s" "s \<noteq> READY" "s \<noteq> ERRORED" "s \<noteq> BLOCKED"
  shows "\<exists>t'. get_ticket svc j (fire_unblocks (Suc n) svc solver [j] w) = Some t' \<and> tstate t' = s
    \<and> blocked_from t' = None \<and> block_reason t' = None
    \<and> (\<forall>i u. i \<noteq> j \<and> get_ticket svc i w = Some u \<longrightarrow>
         get_ticket svc i (fire_unblocks (Suc n) svc solver [j] w) = Some u)"
proof -
  have dst: "unblock_dst t = Inr s"
    using t by (simp add: unblock_dst_def can_transition_def)
  let ?nt = "Some (unblock_note solver)"
  have guards: "transition_guards j t s (clock w) (board w (board_id t)) = Inr (board w (board_id t))"
    using t s by (auto simp: transition_guards_def stored_state_def can_transition_def TERMINAL_STATES_def
        plain_def ARCHIVABLE_STATES_def UNBLOCK_TRIGGER_STATES_def)
  have files: "transition_files svc t s ?nt w = (Inr (), w)"
    using t s by (simp add: transition_files_def)
  have i: "tid t = j" using found_at [OF wf(2) g] find_ticket_SomeD by blast
  have tr: "transition svc j s ?nt None w =
    (Inr (moved_row s ?nt None (clock w) t),
     on_transition svc (moved_row s ?nt None (clock w) t) (state_value BLOCKED)
       (put_board (board_id t)
         (add_event (ext svc) j s (snd (blocked_columns s ?nt None t)) (clock w)
           (put_ticket (moved_row s ?nt None (clock w) t)
             (close_answered j t s (clock w) (board w (board_id t))))) w))" (is "_ = (Inr ?t1, ?w1)")
    using plain_transition [OF wf g guards _ s(1), of ?nt None] files t(1) by simp
  have step: "transition_n (Suc n) svc j s ?nt None w = (Inr ?t1, ?w1)"
  proof -
    have ts: "ts = []" if "fst (transition_step svc j s ?nt None w) = Inr (u, Some ts)" for u ts
      using that s(1) session_targets [OF found_at [OF wf(2) g], of svc s ?nt None "board_id t" w u ts]
      by (auto simp: step_at [OF wf(2) g] plain_def)
    have "transition_n (Suc n) svc j s ?nt None w = transition svc j s ?nt None w"
      using ts by (cases "transition_step svc j s ?nt None w")
        (auto simp: transition_def Let_def split: sum.split option.split prod.split)
    with tr show ?thesis by simp
  qed
  have h1: "homed ?w1" using transition_n_wf_homed [OF wf, of "Suc n" svc j s ?nt None] step by simp
  have "get_ticket svc j ?w1 = Some ?t1"
    using found_at [OF wf(2) g] i
    by (intro get_ticket_put [OF wf(2) h1 g, of "add_event (ext svc) j s (snd (blocked_columns s ?nt None t))
          (clock w) (put_ticket ?t1 (close_answered j t s (clock w) (board w (board_id t))))"])
      (simp_all add: put_board_def)
  moreover have "fire_unblocks (Suc n) svc solver [j] w = ?w1"
    using g t(1) dst step by (simp add: fire_Cons unblock_one_def del: transition_n.simps)
  moreover have "get_ticket svc i' ?w1 = Some u" if j: "i' \<noteq> j" "get_ticket svc i' w = Some u" for i' u
  proof -
    have at: "find_ticket (board w (board_id u)) i' = Some u" by (rule found_at [OF wf(2) j(2)])
    have same: "find_ticket (board ?w1 c) i' = find_ticket (board w c) i'" for c
      using j(1) i by simp
    have keys: "map fst (boards ?w1) = map fst (boards w)"
      using keys_put_board [OF found_known [OF found_at [OF wf(2) g]]] by simp
    show ?thesis by (rule get_ticket_moved [OF wf(2) h1 j(2)]) (use at same keys in auto)
  qed
  moreover have "blocked_from ?t1 = None" "block_reason ?t1 = None"
    using s(4) t(1) by (auto simp: moved_row_def blocked_columns_def paused_columns_def)
  ultimately show ?thesis by simp
qed

text \<open>The solver's own step stores the solver in its new state and leaves another ticket where it is.\<close>

lemma done_step:
  assumes wf: "wf_world w" "homed w" and g: "get_ticket svc i w = Some u"
    and guards: "transition_guards i u DONE (clock w) (board w (board_id u)) = Inr d1"
  shows "\<exists>u' w1. transition_step svc i DONE nt reason w = (Inr (u', Some (parse_depends_on_str (unblocks u))), w1)
     \<and> get_ticket svc i w1 = Some u' \<and> tstate u' = DONE
     \<and> (\<forall>j t. j \<noteq> i \<and> get_ticket svc j w = Some t \<longrightarrow> get_ticket svc j w1 = Some t)"
proof -
  let ?b = "board_id u" and ?t1 = "moved_row DONE nt reason (clock w) u"
  let ?d2 = "add_event (ext svc) i DONE (snd (blocked_columns DONE nt reason u)) (clock w)
      (put_ticket ?t1 (close_answered i u DONE (clock w) d1))"
  let ?w1 = "on_transition svc ?t1 (state_value (tstate u)) (put_board ?b ?d2 w)"
  have found: "find_ticket (board w ?b) i = Some u" by (rule found_at [OF wf(2) g])
  then have i: "tid u = i" using find_ticket_SomeD by blast
  have unblocks: "unblocks ?t1 = unblocks u" by (simp add: moved_row_def)
  have step: "transition_step svc i DONE nt reason w = (Inr (?t1, Some (parse_depends_on_str (unblocks u))), ?w1)"
  proof -
    have files: "transition_files svc u DONE nt w = (Inr (), w)"
      by (simp add: transition_files_def IMPLEMENT_PROGRESS_STATES_def)
    have *: "DONE \<notin> set ARCHIVABLE_STATES" "DONE \<in> set UNBLOCK_TRIGGER_STATES" "DONE \<notin> set TERMINAL_EPIC_STATES"
      by (simp_all add: ARCHIVABLE_STATES_def UNBLOCK_TRIGGER_STATES_def TERMINAL_EPIC_STATES_def)
    have "transition_session svc i DONE nt reason ?b (board w ?b) u w =
        transition_commit svc i ?b (close_answered i u DONE (clock w) d1)
          (paused_columns DONE (fst (blocked_columns DONE nt reason u))) DONE
          (snd (blocked_columns DONE nt reason u)) w"
      using *(3) guards files by (simp add: transition_session_def Let_def case_prod_beta)
    then show ?thesis
      using *(1,2) unblocks
      by (simp add: step_at [OF wf(2) g] transition_commit_def Let_def moved_row_def del: blocked_columns_fields(4))
  qed
  have h1: "homed ?w1" using step_wf_homed [OF wf, of svc i DONE nt reason] step by simp
  have "get_ticket svc i ?w1 = Some ?t1"
    using found i transition_guards_fields(3) [OF guards]
    by (intro get_ticket_put [OF wf(2) h1 g, of ?d2]) (simp_all add: put_board_def)
  moreover have "tstate ?t1 = DONE" by (simp add: moved_row_def)
  moreover have "get_ticket svc j ?w1 = Some t" if j: "j \<noteq> i" "get_ticket svc j w = Some t" for j t
  proof -
    have at: "find_ticket (board w (board_id t)) j = Some t" by (rule found_at [OF wf(2) j(2)])
    have same: "find_ticket (board ?w1 c) j = find_ticket (board w c) j" for c
      using j(1) i transition_guards_fields(3) [OF guards] by simp
    have keys: "map fst (boards ?w1) = map fst (boards w)"
      using keys_put_board [OF found_known [OF found]] by simp
    show ?thesis by (rule get_ticket_moved [OF wf(2) h1 j(2)]) (use at same keys in auto)
  qed
  ultimately show ?thesis using step by blast
qed

end
