(* ===== verification/Seed.thy ===== *)
theory Seed
  imports Effects
begin

text \<open>
  Boards for the concrete worlds of the examples: a board on which the given tickets were inserted
  one after the other, each with its first event, and a world with that one board; and that a list of
  ids written to a column is read back.
\<close>

definition seed :: "externals \<Rightarrow> Ticket list \<Rightarrow> board_db" where
  "seed x ts =
     fold (\<lambda>t d. add_event x (tid t) (tstate t) (Some ''created'') 0 (insert_ticket t d)) ts empty_board"

definition seed_world :: "string \<Rightarrow> board_db \<Rightarrow> world" where
  "seed_world b d = sample_world\<lparr>boards := [(b, d)]\<rparr>"

lemma seed_snoc [simp]:
  "seed x (ts @ [t]) = add_event x (tid t) (tstate t) (Some ''created'') 0 (insert_ticket t (seed x ts))"
  by (simp add: seed_def)

lemma seed_rows [simp]: "tickets (seed x ts) = ts" "comments (seed x ts) = []"
  by (induction ts rule: rev_induct)
    (simp_all add: insert_ticket_def seed_def [of x "[]"] empty_board_def)

lemma intact_seed: "distinct (map tid ts) \<Longrightarrow> intact x (seed x ts)"
proof (induction ts rule: rev_induct)
  case (snoc t ts)
  then have "wf_board (seed x ts)" "sealed x (seed x ts)" "find_ticket (seed x ts) (tid t) = None"
    by (simp_all add: intact_def find_ticket_ids ids_def)
  then show ?case
    by (simp add: intact_def wf_new_ticket sealed_add_event sealed_insert_ticket)
qed (simp add: intact_def seed_def)

lemma seed_world_board [simp]: "board (seed_world b d) c = (if c = b then d else empty_board)"
  by (simp add: board_def seed_world_def)

lemma intact_seed_world: "intact x d \<Longrightarrow> intact_world x (seed_world b d)"
  by (simp add: intact_world_def all_boards_def seed_world_def)

lemma wf_seed_world: "wf_board d \<Longrightarrow> wf_world (seed_world b d)"
  by (simp add: wf_world_def all_boards_def seed_world_def)

lemma wf_seed: "distinct (map tid ts) \<Longrightarrow> wf_board (seed x ts)"
  using intact_seed by (auto simp: intact_def)

lemma homed_seed_world: "\<lbrakk>b \<noteq> []; \<forall>t \<in> set ts. board_id t = b\<rbrakk> \<Longrightarrow> homed (seed_world b (seed x ts))"
  by (simp add: homed_def all_boards_def seed_world_def)

lemma find_seed: "find_ticket (seed x ts) i = find (\<lambda>t. tid t = i) ts"
  by (simp add: find_ticket_def lookup_by_def)

section \<open>The sample world\<close>

lemma tickets_fold_events: "tickets (fold (\<lambda>t. add_event x (f t) (g t) n now) ts d) = tickets d"
  by (induction ts arbitrary: d) simp_all

section \<open>Lists in a column\<close>

text \<open>What \<open>json_list\<close> stores, \<open>_parse_depends_on\<close> reads back.\<close>

lemma json_strings_map [simp]: "json_strings (map JStr xs) = Some xs"
  by (induction xs) simp_all

lemma parse_json_list [simp]: "parse_depends_on_str (json_list xs) = xs"
proof (cases "xs = []")
  case False
  have "no_float (JArr (map JStr xs))" by simp
  then have "dumps (JArr (map JStr xs)) \<noteq> []" unfolding dumps_def by (rule dumps_not_Nil)
  then show ?thesis using False by (simp add: json_list_def parse_depends_on_str_def)
qed (simp add: json_list_def parse_depends_on_str_def)

end
