(* ===== verification/Lifecycle.thy ===== *)
theory Lifecycle
  imports Seed
begin

text \<open>
  What a ticket goes through: the exact effect of a transition, being blocked and resumed, asking and
  being answered, and the resume of the tickets a finished one unblocks.
\<close>

section \<open>Properties\<close>

lemma sample_find:
  "find_ticket (board sample_world ''alpha'') i = find (\<lambda>t. tid t = i) sample_tickets"
  by (simp add: board_def sample_world_def sample_board_def tickets_fold_events find_ticket_def lookup_by_def)

lemma sample_get:
  "get_ticket sample_service ''t1'' sample_world = Some (sample_tickets ! 0)"
  "get_ticket sample_service ''t2'' sample_world = Some (sample_tickets ! 1)"
  "get_ticket sample_service ''t3'' sample_world = Some (sample_tickets ! 2)"
  "get_ticket sample_service ''c1'' sample_world = Some (sample_tickets ! 4)"
  by (simp_all add: get_ticket_def sample_service_def sample_find resolve_board_id_def sample_tickets_def
      sample_ticket_def)

lemma sample_rows:
  "tstate (sample_tickets ! 0) = WAITING_AUTO_MERGE" "board_id (sample_tickets ! 0) = ''alpha''"
  "blocked_from (sample_tickets ! 0) = None" "paused_from (sample_tickets ! 0) = None"
  "tstate (sample_tickets ! 1) = BLOCKED" "blocked_from (sample_tickets ! 1) = Some (state_value FIXING_CI)"
  "paused_from (sample_tickets ! 1) = None"
  "tstate (sample_tickets ! 2) = AWAITING_USER_REPLY" "paused_from (sample_tickets ! 2) = Some (state_value READY)"
  "board_id (sample_tickets ! 2) = ''alpha''"
  "tstate (sample_tickets ! 4) = DRAFT" "blocked_from (sample_tickets ! 4) = None"
  "paused_from (sample_tickets ! 4) = None" "board_id (sample_tickets ! 4) = ''alpha''"
  "parse_depends_on_str (unblocks (sample_tickets ! 0)) = [''t2'']"
  by (simp_all add: sample_tickets_def sample_ticket_def) code_simp

text \<open>
  C35: A transition the state machine does not allow is refused with the error that names the two
  states, and changes nothing: no row, no event, no file, no notification. The one exception is
  closing a closed epic again.
\<close>

theorem transition_refused:
  assumes "homed w" "get_ticket svc i w = Some t"
    and "stored_state (blocked_from t) = Inr bf" "stored_state (paused_from t) = Inr pf"
    and "\<not> can_transition (tstate t) dst bf pf" "\<not> (tstate t = EPIC_CLOSED \<and> dst = EPIC_CLOSED)"
  shows "transition svc i dst nt reason w = (Inl (TransitionError i (NotAllowed (tstate t) dst)), w)"
  using assms
  by (auto simp: transition_def step_at transition_session_def transition_guards_def TERMINAL_EPIC_STATES_def)

lemma transition_refused_witness:
  "transition sample_service ''c1'' DELIVERABLE None None sample_world
     = (Inl (TransitionError ''c1'' (NotAllowed (tstate (sample_tickets ! 4)) DELIVERABLE)), sample_world)"
  by (rule transition_refused [OF sample_homed sample_get(4), of None None])
    (simp_all add: sample_rows stored_state_def can_transition_def)

text \<open>
  C1: A transition that succeeds was allowed by the state machine for the states recorded in the
  ticket, and reached a terminal state only without an open question, unless it closes a ticket that
  was blocked while waiting for the answer.
\<close>

theorem transition_sound:
  assumes "homed w" "get_ticket svc i w = Some t" "transition svc i dst nt reason w = (Inr t', w')"
  shows "(tstate t = EPIC_CLOSED \<and> dst = EPIC_CLOSED \<and> t' = t \<and> w' = w) \<or>
    (\<exists>bf pf. stored_state (blocked_from t) = Inr bf \<and> stored_state (paused_from t) = Inr pf
       \<and> can_transition (tstate t) dst bf pf
       \<and> (dst \<in> {DONE, CLOSED, ERRORED} \<and> open_ask_user_threads (board w (board_id t)) i \<noteq> []
            \<longrightarrow> tstate t = BLOCKED \<and> dst = CLOSED \<and> blocked_from t = Some (state_value AWAITING_USER_REPLY)))"
proof (cases "tstate t = EPIC_CLOSED \<and> dst = EPIC_CLOSED")
  case True
  then show ?thesis
    using assms by (auto simp: transition_def step_at transition_session_def TERMINAL_EPIC_STATES_def)
next
  case False
  have "transition_guards i t dst (clock w) (board w (board_id t)) \<noteq> Inl e" for e
  proof
    assume e: "transition_guards i t dst (clock w) (board w (board_id t)) = Inl e"
    have "\<not> (tstate t = dst \<and> dst \<in> set TERMINAL_EPIC_STATES)"
      using False by (auto simp: TERMINAL_EPIC_STATES_def)
    then have "transition svc i dst nt reason w = (Inl e, w)"
      using assms(1,2) e by (simp add: transition_def step_at transition_session_def)
    with assms(3) show False by simp
  qed
  then obtain d1 where "transition_guards i t dst (clock w) (board w (board_id t)) = Inr d1"
    using sum.exhaust_sel by metis
  then show ?thesis
    by (auto simp: transition_guards_def TERMINAL_STATES_def split: sum.splits if_splits)
qed

lemma transition_sound_witness:
  "can_transition (tstate (sample_tickets ! 4)) READY None None"
proof -
  have "\<not> isl (fst (transition sample_service ''c1'' READY None None sample_world))"
    by code_simp
  then obtain t' w' where "transition sample_service ''c1'' READY None None sample_world = (Inr t', w')"
    by (metis isl_def prod.collapse sum.exhaust)
  from transition_sound [OF sample_homed sample_get(4) this] show ?thesis
    by (auto simp: sample_rows stored_state_def)
qed

text \<open>
  C2: The effect of an allowed transition to a state that neither archives nor unblocks, when the files it
  resets in the workspace can be changed: the ticket is in the new state and get returns it so; its
  history is longer by exactly one event, of that state and time; entering blocked records where from
  and leaving it forgets it; the row and the history of every other ticket, on every board, are
  untouched (questions of the ticket may be closed); and the callback hears of it once, with the old
  state.
\<close>

theorem transition_effect:
  assumes "wf_world w" "homed w" "get_ticket svc i w = Some t" "plain dst"
    and "transition_guards i t dst (clock w) (board w (board_id t)) = Inr d1"
    and "fst (transition_files svc t dst nt w) = Inr ()"
  shows "\<exists>t' w' e. transition svc i dst nt reason w = (Inr t', w')
    \<and> get_ticket svc i w' = Some t' \<and> tstate t' = dst
    \<and> events_of (board w' (board_id t)) i = events_of (board w (board_id t)) i @ [e]
    \<and> ev_state e = dst \<and> ev_at e = clock w
    \<and> blocked_from t' = (if dst = BLOCKED then Some (state_value (tstate t))
                         else if tstate t = BLOCKED then None else blocked_from t)
    \<and> (\<forall>c j. (c, j) \<noteq> (board_id t, i) \<longrightarrow>
          find_ticket (board w' c) j = find_ticket (board w c) j
          \<and> events_of (board w' c) j = events_of (board w c) j)
    \<and> notices w' = notices w @ (if has_callback svc then [(t', state_value (tstate t))] else [])"
proof -
  let ?b = "board_id t" and ?t1 = "moved_row dst nt reason (clock w) t"
  let ?d2 = "close_answered i t dst (clock w) d1"
  let ?d3 = "add_event (ext svc) i dst (snd (blocked_columns dst nt reason t)) (clock w) (put_ticket ?t1 ?d2)"
  let ?w0 = "snd (transition_files svc t dst nt w)"
  let ?w1 = "on_transition svc ?t1 (state_value (tstate t)) (put_board ?b ?d3 ?w0)"
  have tr: "transition svc i dst nt reason w = (Inr ?t1, ?w1)"
    using plain_transition [OF assms(1-3,5,6,4)] by simp
  have found: "find_ticket (board w ?b) i = Some t" by (rule found_at [OF assms(2,3)])
  then have i: "tid t = i" using find_ticket_SomeD by blast
  have d1: "find_ticket d1 = find_ticket (board w ?b)" "events d1 = events (board w ?b)"
    using transition_guards_fields [OF assms(5)] by auto
  have ev: "events_of d1 = events_of (board w ?b)" using d1(2) by (simp add: events_of_def fun_eq_iff)
  have "homed ?w1"
    using homed.transition_keeps [OF refl, of w svc i dst nt reason] assms(2) tr by (simp add: homed_def)
  then have g: "get_ticket svc i ?w1 = Some ?t1"
    using found i d1 by (intro get_ticket_put [OF assms(2) _ assms(3), of _ ?d3]) (simp_all add: put_board_def)
  have frame: "find_ticket (board ?w1 c) j = find_ticket (board w c) j \<and> events_of (board ?w1 c) j = events_of (board w c) j"
    if "(c, j) \<noteq> (?b, i)" for c j
    using that d1 ev i by auto
  have "events_of (board ?w1 ?b) i = events_of (board w ?b) i
      @ [make_event (ext svc) (put_ticket ?t1 ?d2) i dst (snd (blocked_columns dst nt reason t)) (clock w)]"
    using ev by simp
  moreover have "blocked_from ?t1 = (if dst = BLOCKED then Some (state_value (tstate t))
      else if tstate t = BLOCKED then None else blocked_from t)"
    by (simp add: moved_row_def blocked_columns_def)
  moreover have "notices ?w1 = notices w @ (if has_callback svc then [(?t1, state_value (tstate t))] else [])"
    by (simp add: on_transition_def)
  ultimately show ?thesis
    using tr g frame by (intro exI conjI allI impI) (assumption | simp)+
qed

lemma transition_effect_witness:
  "\<exists>t' w'. transition sample_service ''c1'' READY None None sample_world = (Inr t', w')
     \<and> get_ticket sample_service ''c1'' w' = Some t' \<and> tstate t' = READY"
proof -
  have "transition_guards ''c1'' (sample_tickets ! 4) READY (clock sample_world)
      (board sample_world (board_id (sample_tickets ! 4))) = Inr (board sample_world (board_id (sample_tickets ! 4)))"
    by (simp add: transition_guards_def sample_rows stored_state_def can_transition_def TERMINAL_STATES_def)
  moreover have "fst (transition_files sample_service (sample_tickets ! 4) READY None sample_world) = Inr ()"
    by (simp add: transition_files_def sample_rows)
  moreover have "plain READY"
    by (simp add: plain_def ARCHIVABLE_STATES_def UNBLOCK_TRIGGER_STATES_def)
  ultimately show ?thesis
    using transition_effect [OF sample_wf sample_homed sample_get(4), of READY _ None None] by blast
qed

text \<open>
  Blocking a ticket and resuming it brings it back to the state it was blocked in, from every
  state that can be blocked but \<open>ready\<close>, whose resume looks at the files of the failed attempt: the
  row says so, and nothing of the block is left in it. The state machine alone would not allow the
  way back: most states have no edge from \<open>blocked\<close>.
\<close>

theorem block_resume:
  assumes "wf_world w" "homed w" "get_ticket svc i w = Some t" "safe_id i"
    and "edge (tstate t) BLOCKED" "tstate t \<noteq> READY"
    and "stored_state (blocked_from t) = Inr bf" "stored_state (paused_from t) = Inr pf"
  shows "\<exists>t1 w1 t2 w2. transition svc i BLOCKED nt reason w = (Inr t1, w1) \<and> tstate t1 = BLOCKED
     \<and> block_reason t1 = reason
     \<and> resume_blocked svc i nt' w1 = (Inr t2, w2) \<and> get_ticket svc i w2 = Some t2
     \<and> tstate t2 = tstate t \<and> blocked_from t2 = None \<and> block_reason t2 = None"
proof -
  let ?t1 = "moved_row BLOCKED nt reason (clock w) t"
  have guards: "transition_guards i t BLOCKED (clock w) (board w (board_id t)) = Inr (board w (board_id t))"
    using assms(5,7,8)
    by (simp add: transition_guards_def can_transition_def edge_iff TERMINAL_STATES_def)
  have files: "fst (transition_files svc t BLOCKED nt w) = Inr ()"
    by (simp add: transition_files_def IMPLEMENT_PROGRESS_STATES_def)
  have plain: "plain BLOCKED"
    by (simp add: plain_def ARCHIVABLE_STATES_def UNBLOCK_TRIGGER_STATES_def)
  obtain w1 where w1: "transition svc i BLOCKED nt reason w = (Inr ?t1, w1)"
    using plain_transition [OF assms(1-3) guards files plain, of reason] by blast
  have found: "get_ticket svc i w1 = Some ?t1"
    using transition_found [OF assms(1-3) guards files plain w1] .
  have h1: "homed w1"
    using homed.transition_keeps [OF refl, of w svc i BLOCKED nt reason] assms(2) w1 by (simp add: homed_def)
  have t1: "tstate ?t1 = BLOCKED" "blocked_from ?t1 = Some (state_value (tstate t))" "block_reason ?t1 = reason"
    by (simp_all add: moved_row_def blocked_columns_def)
  from resume_at [OF h1 found t1(1,2) assms(6,4), of nt'] obtain w2 where
    "resume_blocked svc i nt' w1 = (Inr (resume_row (tstate t) (clock w1) ?t1), w2)"
    "get_ticket svc i w2 = Some (resume_row (tstate t) (clock w1) ?t1)"
    by blast
  with w1 t1 show ?thesis by (intro exI conjI) (assumption | simp)+
qed

lemma block_resume_witness:
  "\<exists>t1 w1 t2 w2. transition sample_service ''t1'' BLOCKED None (Some ''ci'') sample_world = (Inr t1, w1)
     \<and> resume_blocked sample_service ''t1'' [] w1 = (Inr t2, w2) \<and> tstate t2 = WAITING_AUTO_MERGE"
proof -
  have "edge (tstate (sample_tickets ! 0)) BLOCKED" "tstate (sample_tickets ! 0) \<noteq> READY"
    "stored_state (blocked_from (sample_tickets ! 0)) = Inr None"
    "stored_state (paused_from (sample_tickets ! 0)) = Inr None" "safe_id ''t1''"
    by (simp_all add: sample_rows edge_iff stored_state_def safe_id_def)
  from block_resume [OF sample_wf sample_homed sample_get(1) this(5,1-4), of None "Some ''ci''" "[]"]
  show ?thesis by (auto simp: sample_rows)
qed

text \<open>
  C30: The answer to the one open question of a ticket that is paused and records the state s it was
  paused in, where the id of the ticket can be used as a file name and the counters file of its workspace
  lets the implement guard be reset. The reply is stored under the question, behind the other comments
  of the ticket, of which only the question changes: it is closed now. No question is open any more, the
  ticket is back in s, with the pause forgotten, and its history has one event more, with state s.
\<close>

theorem answer_resumes:
  assumes "homed w" "get_ticket svc i w = Some t" "safe_id i"
    and "tstate t = AWAITING_USER_REPLY" "paused_from t = Some (state_value s)"
    and "open_ask_user_threads (board w (board_id t)) i = [q]"
    and "clear_stale_implement_guard True (artifacts (ws_dir w (board_id t, i))) = Inr a"
  shows "\<exists>r t' w' e. answer_pending_question svc i body author False w = (Inr r, w')
     \<and> c_body r = body \<and> c_author r = author \<and> c_parent r = Some (c_id q)
     \<and> get_ticket svc i w' = Some t' \<and> tstate t' = s \<and> paused_from t' = None
     \<and> comments_of (board w' (board_id t)) i
        = map (\<lambda>c. if c_id c = c_id q then c\<lparr>c_closed := Some (clock w)\<rparr> else c)
            (comments_of (board w (board_id t)) i @ [r])
     \<and> open_ask_user_threads (board w' (board_id t)) i = []
     \<and> events_of (board w' (board_id t)) i = events_of (board w (board_id t)) i @ [e] \<and> ev_state e = s"
proof -
  let ?b = "board_id t"
  let ?r = "new_comment (board w ?b) i body author (Some (c_id q)) (clock w)"
  let ?t1 = "resumed_row s (clock w) t"
  let ?d1 = "set_closed {c_id q} (Some (clock w)) (insert_comment ?r (board w ?b))"
  let ?d2 = "add_event (ext svc) i s (Some ASK_USER_AUTO_RESUME_NOTE) (clock w) (put_ticket ?t1 ?d1)"
  obtain w' where run: "answer_pending_question svc i body author False w = (Inr ?r, w')"
      "boards w' = boards (put_board ?b ?d2 w)" "get_ticket svc i w' = Some ?t1"
    using answer_at [OF assms(1,2,4,5,6,3,7)] by blast
  have r: "c_body ?r = body" "c_author ?r = author" "c_parent ?r = Some (c_id q)"
    by (simp_all add: new_comment_def)
  have "board w' ?b = board (put_board ?b ?d2 w) ?b" by (simp only: board_def run(2))
  then have b: "board w' ?b = ?d2" by simp
  have "open_ask_user_threads ?d1 i = []"
    using all_answered(2) [OF assms(6), of ?r "clock w"] r(3) by (auto simp: open_ask_user_threads_def)
  then have "open_ask_user_threads (board w' ?b) i = []"
    unfolding b by (simp add: open_ask_user_threads_def ask_threads_def comments_of_def)
  moreover have "comments_of (board w' ?b) i
      = map (\<lambda>c. if c_id c = c_id q then c\<lparr>c_closed := Some (clock w)\<rparr> else c) (comments_of (board w ?b) i @ [?r])"
    unfolding b by (simp add: new_comment_def)
  moreover have "events_of (board w' ?b) i = events_of (board w ?b) i
      @ [make_event (ext svc) (put_ticket ?t1 ?d1) i s (Some ASK_USER_AUTO_RESUME_NOTE) (clock w)]"
    unfolding b by (simp add: events_of_def set_closed_def insert_comment_def)
  moreover have "ev_state (make_event (ext svc) (put_ticket ?t1 ?d1) i s (Some ASK_USER_AUTO_RESUME_NOTE) (clock w)) = s"
    by (simp add: make_event_def Let_def)
  ultimately show ?thesis using run r by (intro exI conjI) (assumption | simp add: resumed_row_def)+
qed

lemma answer_resumes_witness:
  "\<exists>r t' w'. answer_pending_question sample_service ''t3'' ''the first'' ''user'' False sample_world = (Inr r, w')
     \<and> get_ticket sample_service ''t3'' w' = Some t' \<and> tstate t' = READY
     \<and> open_ask_user_threads (board w' (board_id (sample_tickets ! 2))) ''t3'' = []"
proof -
  let ?q = "sample_comment 1 ''t3'' (ASK_USER_MARKER @ '' which one?'')"
  have q: "open_ask_user_threads (board sample_world (board_id (sample_tickets ! 2))) ''t3'' = [?q]"
    by code_simp
  have "\<not> isl (clear_stale_implement_guard True (artifacts (ws_dir sample_world (board_id (sample_tickets ! 2), ''t3''))))"
    by code_simp
  then obtain a where a: "clear_stale_implement_guard True
      (artifacts (ws_dir sample_world (board_id (sample_tickets ! 2), ''t3''))) = Inr a"
    by (metis isl_def sum.exhaust)
  have i: "safe_id ''t3''" by (simp add: safe_id_def)
  from answer_resumes [OF sample_homed sample_get(3) i sample_rows(8,9) q a, of "''the first''" "''user''"]
  show ?thesis by blast
qed

text \<open>
  C33: A transition to DONE that the guards admit, of a ticket i whose unblocks column names exactly one
  ticket j. Where j is BLOCKED and its row records that it was blocked in a state s, other than READY,
  ERRORED, BLOCKED and the final and completed states (the archivable ones and those that unblock in
  turn), the same call sends j back to s. In the world that the call leaves, i is stored as DONE, and j
  in s with no recorded origin and no block reason. (The comment on the column says DRAFT.)
\<close>

theorem completion_unblocks:
  assumes "wf_world w" "homed w" "get_ticket svc i w = Some u" "get_ticket svc j w = Some t" "j \<noteq> i"
    and "transition_guards i u DONE (clock w) (board w (board_id u)) = Inr d1"
    and "parse_depends_on_str (unblocks u) = [j]"
    and "tstate t = BLOCKED" "blocked_from t = Some (state_value s)" "stored_state (paused_from t) = Inr pf"
    and "plain s" "s \<notin> {READY, ERRORED, BLOCKED}"
  shows "\<exists>u' w' t'. transition svc i DONE nt reason w = (Inr u', w')
     \<and> get_ticket svc i w' = Some u' \<and> tstate u' = DONE
     \<and> get_ticket svc j w' = Some t' \<and> tstate t' = s \<and> blocked_from t' = None \<and> block_reason t' = None"
proof -
  obtain u' w1 where step: "transition_step svc i DONE nt reason w = (Inr (u', Some [j]), w1)"
      "get_ticket svc j w1 = Some t" "get_ticket svc i w1 = Some u'" "tstate u' = DONE"
    using done_step [OF assms(1-3,6), of nt reason] assms(4,5,7) by metis
  have w1: "wf_world w1" "homed w1"
    using step_wf_homed [OF assms(1,2), of svc i DONE nt reason] step(1) by simp_all
  let ?w' = "fire_unblocks (Suc (blocked_count w)) svc i [j] w1"
  have s: "s \<noteq> READY" "s \<noteq> ERRORED" "s \<noteq> BLOCKED" using assms(12) by simp_all
  obtain t' where t': "get_ticket svc j ?w' = Some t' \<and> tstate t' = s \<and> blocked_from t' = None \<and> block_reason t' = None
      \<and> (\<forall>i u. i \<noteq> j \<and> get_ticket svc i w1 = Some u \<longrightarrow> get_ticket svc i ?w' = Some u)"
    using unblock_at [OF w1 step(2) assms(8-11) s, of "blocked_count w" i] ..
  then have kept: "get_ticket svc i ?w' = Some u'" using assms(5) step(3) by (simp del: fire_unblocks.simps)
  have "transition svc i DONE nt reason w = (Inr u', ?w')"
    using step(1) kept by (simp add: transition_def Let_def del: fire_unblocks.simps)
  then show ?thesis using kept step(4) t' by (intro exI [of _ u'] exI [of _ ?w'] exI [of _ t'] conjI) (simp_all del: fire_unblocks.simps)
qed

lemma completion_unblocks_witness:
  "\<exists>u' w' t'. transition sample_service ''t1'' DONE None None sample_world = (Inr u', w')
     \<and> get_ticket sample_service ''t1'' w' = Some u' \<and> tstate u' = DONE
     \<and> get_ticket sample_service ''t2'' w' = Some t' \<and> tstate t' = FIXING_CI"
proof -
  have "open_ask_user_threads (board sample_world (board_id (sample_tickets ! 0))) ''t1'' = []"
    by code_simp
  then have guards: "transition_guards ''t1'' (sample_tickets ! 0) DONE (clock sample_world)
      (board sample_world (board_id (sample_tickets ! 0))) = Inr (board sample_world (board_id (sample_tickets ! 0)))"
    by (simp add: transition_guards_def sample_rows stored_state_def can_transition_def)
  have "stored_state (paused_from (sample_tickets ! 1)) = Inr None" "plain FIXING_CI"
    unfolding sample_rows by (simp_all add: stored_state_def plain_def ARCHIVABLE_STATES_def UNBLOCK_TRIGGER_STATES_def)
  from completion_unblocks [OF sample_wf sample_homed sample_get(1,2) _ guards sample_rows(15,5,6) this,
      of None None]
  show ?thesis by auto
qed

section \<open>The state machine as a whole\<close>

text \<open>
  No state of the pipeline is a dead end: from every state a final one can be reached along the
  table; a final state can never be left, whatever origin a row has recorded; and a state that a
  stage works on can be escalated to an operator, failed and paused.
\<close>

theorem pipeline_never_stuck:
  "(\<exists>f. is_final f \<and> edge\<^sup>*\<^sup>* s f)
   \<and> (is_final s \<longrightarrow> \<not> can_transition s d bf pf)
   \<and> (STAGE_FOR_STATE s \<noteq> None \<longrightarrow> edge s BLOCKED \<and> edge s ERRORED \<and> edge s AWAITING_USER_REPLY)"
  using reaches_final [of s] can_transition_final [of s] staged_escapes [of s] by auto

lemma pipeline_never_stuck_witness:
  "\<not> can_transition CLOSED READY (Some READY) (Some READY) \<and> edge FIXING_CI BLOCKED"
  using pipeline_never_stuck [of CLOSED READY "Some READY" "Some READY"] pipeline_never_stuck [of FIXING_CI]
  by (simp add: is_final_iff)

text \<open>
  C9: The cascade of unblocks ends: the recursion of transitions never gets deeper than the number
  of blocked tickets plus two, so a larger bound gives the same result and the same world.
\<close>

theorem cascade_bounded:
  assumes "wf_world w" "homed w" "Suc (Suc (blocked_count w)) \<le> n"
  shows "transition_n n svc i dst nt reason w = transition svc i dst nt reason w"
  by (rule transition_fuel [OF assms])

lemma cascade_bounded_witness:
  "transition_n 100 sample_service ''t1'' DONE None None sample_world = transition sample_service ''t1'' DONE None None sample_world"
proof (rule cascade_bounded [OF sample_wf sample_homed])
  show "Suc (Suc (blocked_count sample_world)) \<le> 100"
    by (simp add: blocked_count_def sample_world_def sample_board_def tickets_fold_events empty_board_def)
      (simp add: sample_tickets_def sample_ticket_def)
qed

section \<open>A pause that is remembered too long\<close>

lemma move_on:
  assumes wf: "wf_world w" "homed w" and g: "get_ticket svc i w = Some t"
    and stored: "stored_state (blocked_from t) = Inr bf" "stored_state (paused_from t) = Inr pf"
    and move: "edge (tstate t) dst" "dst \<in> {BLOCKED, DRAFT, AWAITING_USER_REPLY}"
  shows "\<exists>w'. transition svc i dst nt reason w = (Inr (moved_row dst nt reason (clock w) t), w')
    \<and> get_ticket svc i w' = Some (moved_row dst nt reason (clock w) t) \<and> wf_world w' \<and> homed w'"
proof -
  have guards: "transition_guards i t dst (clock w) (board w (board_id t)) = Inr (board w (board_id t))"
    using stored move by (auto simp: transition_guards_def can_transition_def edge_iff TERMINAL_STATES_def)
  have files: "fst (transition_files svc t dst nt w) = Inr ()"
    using move(2) by (auto simp: transition_files_def IMPLEMENT_PROGRESS_STATES_def)
  have plain: "plain dst"
    using move(2) by (auto simp: plain_def ARCHIVABLE_STATES_def UNBLOCK_TRIGGER_STATES_def)
  obtain w' where run: "transition svc i dst nt reason w = (Inr (moved_row dst nt reason (clock w) t), w')"
    using plain_transition [OF wf g guards files plain, of reason] by blast
  have "wf_world w'" "homed w'"
    using wf.transition_keeps [OF refl, of w svc i dst nt reason] homed.transition_keeps [OF refl, of w svc i dst nt reason]
      wf run by (simp_all add: wf_world_def homed_def)
  with run transition_found [OF wf g guards files plain run] show ?thesis by blast
qed

text \<open>
  A paused ticket that is blocked, sent back to a draft and paused again still names the state
  of the first pause as the one to resume: the columns are not cleared on the way, and the second
  pause does not overwrite them.
\<close>

theorem stale_pause:
  assumes "wf_world w" "homed w" "get_ticket svc i w = Some t"
    and "tstate t = AWAITING_USER_REPLY" "paused_from t = Some (state_value p)"
    and "stored_state (blocked_from t) = Inr bf"
  shows "\<exists>t1 w1 t2 w2 t3 w3. transition svc i BLOCKED n1 r1 w = (Inr t1, w1)
    \<and> transition svc i DRAFT n2 r2 w1 = (Inr t2, w2) \<and> tstate t2 = DRAFT
    \<and> transition svc i AWAITING_USER_REPLY n3 r3 w2 = (Inr t3, w3) \<and> get_ticket svc i w3 = Some t3
    \<and> tstate t3 = AWAITING_USER_REPLY \<and> paused_from t3 = Some (state_value p)"
proof -
  let ?t1 = "moved_row BLOCKED n1 r1 (clock w) t"
  have p: "stored_state (Some (state_value p)) = Inr (Some p)" by (simp add: stored_state_def)
  have s1: "tstate ?t1 = BLOCKED" "blocked_from ?t1 = Some (state_value AWAITING_USER_REPLY)"
    "paused_from ?t1 = Some (state_value p)"
    using assms(4,5) by (simp_all add: moved_row_def blocked_columns_def paused_columns_def)
  have e1: "edge (tstate t) BLOCKED" by (simp add: assms(4) edge_iff)
  obtain w1 where w1: "transition svc i BLOCKED n1 r1 w = (Inr ?t1, w1)" "get_ticket svc i w1 = Some ?t1"
    "wf_world w1" "homed w1"
    using move_on [OF assms(1-3,6) _ e1, of "Some p" n1 r1] p assms(5) by auto
  let ?t2 = "moved_row DRAFT n2 r2 (clock w1) ?t1"
  have s2: "tstate ?t2 = DRAFT" "blocked_from ?t2 = None" "paused_from ?t2 = Some (state_value p)"
    using s1 by (simp_all add: moved_row_def [of DRAFT] blocked_columns_def paused_columns_def)
  have b1: "stored_state (blocked_from ?t1) = Inr (Some AWAITING_USER_REPLY)"
    unfolding s1(2) stored_state_def using state_of_value [of AWAITING_USER_REPLY] by (simp del: state_value.simps)
  have e2: "edge (tstate ?t1) DRAFT" by (simp add: s1(1) edge_iff)
  obtain w2 where w2: "transition svc i DRAFT n2 r2 w1 = (Inr ?t2, w2)" "get_ticket svc i w2 = Some ?t2"
    "wf_world w2" "homed w2"
    using move_on [OF w1(3,4,2) b1 _ e2, of "Some p" n2 r2] p s1(3) by auto
  let ?t3 = "moved_row AWAITING_USER_REPLY n3 r3 (clock w2) ?t2"
  have b2: "stored_state (blocked_from ?t2) = Inr None" by (simp add: s2(2) stored_state_def)
  have e3: "edge (tstate ?t2) AWAITING_USER_REPLY" by (simp add: s2(1) edge_iff)
  have s3: "tstate ?t3 = AWAITING_USER_REPLY" "paused_from ?t3 = Some (state_value p)"
    using s2 by (simp_all add: moved_row_def [of AWAITING_USER_REPLY] blocked_columns_def paused_columns_def)
  obtain w3 where w3: "transition svc i AWAITING_USER_REPLY n3 r3 w2 = (Inr ?t3, w3)" "get_ticket svc i w3 = Some ?t3"
    using move_on [OF w2(3,4,2) b2 _ e3, of "Some p" n3 r3] p s2(3) by auto
  show ?thesis
    using w1(1) w2(1) w3 s2(1) s3 by (intro exI conjI)
qed

lemma stale_pause_witness:
  "\<exists>w2 t3 w3. transition sample_service ''t3'' AWAITING_USER_REPLY None None w2 = (Inr t3, w3)
     \<and> tstate t3 = AWAITING_USER_REPLY \<and> paused_from t3 = Some ''ready''"
proof -
  have "stored_state (blocked_from (sample_tickets ! 2)) = Inr None"
    by (simp add: sample_tickets_def sample_ticket_def stored_state_def)
  from stale_pause [OF sample_wf sample_homed sample_get(3) sample_rows(8,9) this, of None None None None None None]
  show ?thesis by auto
qed

end
