(* ===== verification/Trail.thy ===== *)
theory Trail
  imports Effects
begin

text \<open>
  The audit trail: what the integrity pass over the history hash chains finds, and what the event cap
  does to them. \<open>Board\<close> holds the pass, \<open>Maintenance\<close> the cap.
\<close>

section \<open>What the pass reports\<close>

text \<open>The text an event's hash is taken of.\<close>

definition event_text :: "TicketEvent \<Rightarrow> string" where
  "event_text e =
     dumps_compact (event_payload (ev_ticket e) (state_value (ev_state e)) (ev_note e) (isoformat (ev_at e)) (ev_prev e))"

lemma computed_hash_text: "computed_hash x e = blake2b x (event_text e)"
  by (simp add: computed_hash_def event_hash_def event_text_def)

lemma no_float_opt_str [simp]: "no_float (opt_str s)"
  by (cases s) simp_all

lemma opt_str_inj [simp]: "opt_str s = opt_str s' \<longleftrightarrow> s = s'"
  by (cases s; cases s') simp_all

text \<open>The text determines everything the event says.\<close>

lemma event_text_inj:
  assumes "event_text e = event_text e'"
  shows "ev_ticket e = ev_ticket e' \<and> ev_state e = ev_state e' \<and> ev_note e = ev_note e'
    \<and> isoformat (ev_at e) = isoformat (ev_at e') \<and> ev_prev e = ev_prev e'"
proof -
  have "event_payload (ev_ticket e) (state_value (ev_state e)) (ev_note e) (isoformat (ev_at e)) (ev_prev e)
      = event_payload (ev_ticket e') (state_value (ev_state e')) (ev_note e') (isoformat (ev_at e')) (ev_prev e')"
    using assms unfolding event_text_def by (intro dumps_compact_inj) (simp_all add: event_payload_def)
  then show ?thesis by (simp add: event_payload_def)
qed

lemma board_breaks:
  "set (breaks (verify_board x None d \<lparr>total_events = 0, tickets_verified = 0, breaks = []\<rparr>)) =
     (\<Union>i \<in> ev_ticket ` set (events d). set (verify_chain x None (events_of d i)))"
  by (auto simp: verify_board_def Let_def events_of_def)

lemma pass_breaks:
  "set (breaks (run_verify_pass x st None w)) =
     (\<Union>b \<in> set (verify_boards st w). \<Union>i \<in> ev_ticket ` set (events (board w b)).
        set (verify_chain x None (events_of (board w b) i)))"
  by (simp add: run_verify_pass_def breaks_fold board_breaks)

lemma verify_chain_hash:
  "\<lbrakk>e \<in> set es; ev_hash e \<noteq> []; computed_hash x e \<noteq> ev_hash e\<rbrakk> \<Longrightarrow>
     (ev_id e, ev_ticket e, ''hash'') \<in> set (verify_chain x p es)"
  by (induction x p es rule: verify_chain.induct) auto

lemma verify_chain_append:
  "verify_chain x p (es @ fs) = verify_chain x p es
     @ verify_chain x (if es = [] then p else hash_of (last es)) fs"
  by (induction x p es rule: verify_chain.induct) (auto simp: hash_of_def)

lemma verify_boards_put:
  "map_of (boards w) b \<noteq> None \<Longrightarrow> verify_boards st (put_board b d w) = verify_boards st w"
  by (simp add: verify_boards_def keys_put_board)

lemma rows_known: "events (board w b) \<noteq> [] \<Longrightarrow> map_of (boards w) b \<noteq> None"
  by (auto simp: board_def empty_board_def split: option.splits)

definition with_events :: "TicketEvent list \<Rightarrow> board_db \<Rightarrow> board_db" where
  "with_events es d = d\<lparr>events := es\<rparr>"

lemma with_events_fields [simp]:
  "events (with_events es d) = es" "events_of (with_events es d) i = filter (\<lambda>e. ev_ticket e = i) es"
  by (simp_all add: with_events_def events_of_def)

lemma pass_breaksI:
  assumes "b \<in> set (verify_boards st w)" "events (board w b) \<noteq> []" "i \<in> ev_ticket ` set es"
    and "k \<in> set (verify_chain x None (filter (\<lambda>e. ev_ticket e = i) es))"
  shows "k \<in> set (breaks (run_verify_pass x st None (put_board b (with_events es (board w b)) w)))"
proof -
  let ?w = "put_board b (with_events es (board w b)) w"
  have "b \<in> set (verify_boards st ?w)" using assms(1) verify_boards_put [OF rows_known [OF assms(2)]] by simp
  moreover have "i \<in> ev_ticket ` set (events (board ?w b))"
    "k \<in> set (verify_chain x None (events_of (board ?w b) i))"
    using assms(3,4) by simp_all
  ultimately show ?thesis unfolding pass_breaks by blast
qed

text \<open>A world whose two events are sealed with a digest that loses nothing.\<close>

definition plain_digests :: externals where
  "plain_digests = sample_externals\<lparr>blake2b := \<lambda>s. s\<rparr>"

definition audited_world :: world where
  "audited_world =
     sample_world\<lparr>boards := [(''alpha'',
       add_event plain_digests ''t'' DRAFT (Some ''a'') 2 (add_event plain_digests ''t'' DRAFT None 1
         (add_event plain_digests ''t'' DRAFT (Some ''b'') 0
           \<lparr>tickets = [sample_ticket ''t'' DRAFT], events = [], comments = []\<rparr>)))]\<rparr>"

lemma audited_intact: "intact_world plain_digests audited_world"
proof -
  let ?e = "\<lparr>tickets = [sample_ticket ''t'' DRAFT], events = [], comments = []\<rparr>"
  have new: "wf_board (insert_ticket (sample_ticket ''t'' DRAFT) empty_board)
      \<or> True" by simp
  have t: "tid (sample_ticket ''t'' DRAFT) = ''t''" "tstate (sample_ticket ''t'' DRAFT) = DRAFT"
    by (simp_all add: sample_ticket_def)
  have "wf_board (add_event x ''t'' DRAFT n k ?e)" for x n k
    using t by (simp add: wf_board_def rows_ok_def links_ok_def agrees_def no_orphans_def events_of_def
        ids_def prev_hash_for_def)
  moreover have "find_ticket (add_event x ''t'' DRAFT n k ?e) ''t'' = Some (sample_ticket ''t'' DRAFT)" for x n k
    using t by (simp add: find_ticket_def lookup_by_def)
  ultimately have "wf_board (add_event x ''t'' DRAFT n3 k3 (add_event x ''t'' DRAFT n2 k2
      (add_event x ''t'' DRAFT n k ?e)))" for x n k n2 k2 n3 k3
    using wf_add_step_event t(2) by (metis add_event_fields(4))
  moreover have "sealed x (add_event x ''t'' DRAFT n3 k3 (add_event x ''t'' DRAFT n2 k2
      (add_event x ''t'' DRAFT n k ?e)))" for x n k n2 k2 n3 k3
    by (intro sealed_add_event) (simp add: sealed_def)
  ultimately show ?thesis
    by (simp add: intact_world_def all_boards_def audited_world_def intact_def)
qed

lemma audited_boards: "''alpha'' \<in> set (verify_boards sample_settings audited_world)"
  by (simp add: verify_boards_def audited_world_def)

lemma dumps_compact_not_Nil [simp]: "dumps_compact (JObj ps) \<noteq> []"
  by (simp add: dumps_compact_def)

lemma audited_history:
  obtains e1 e2 e3 where "events (board audited_world ''alpha'') = [e1, e2, e3]"
    "ev_ticket e1 = ''t''" "ev_ticket e2 = ''t''" "ev_ticket e3 = ''t''" "ev_note e2 = None"
    "ev_hash e1 = event_text e1" "ev_hash e2 = event_text e2" "ev_prev e1 = None"
    "ev_prev e2 = Some (event_text e1)" "ev_prev e3 = Some (event_text e2)"
proof -
  let ?e = "\<lparr>tickets = [sample_ticket ''t'' DRAFT], events = [], comments = []\<rparr>"
  let ?d1 = "add_event plain_digests ''t'' DRAFT (Some ''b'') 0 ?e"
  let ?d2 = "add_event plain_digests ''t'' DRAFT None 1 ?d1"
  let ?e1 = "make_event plain_digests ?e ''t'' DRAFT (Some ''b'') 0"
  let ?e2 = "make_event plain_digests ?d1 ''t'' DRAFT None 1"
  let ?e3 = "make_event plain_digests ?d2 ''t'' DRAFT (Some ''a'') 2"
  have hash: "ev_hash (make_event plain_digests d i s n k) = event_text (make_event plain_digests d i s n k)" for d i s n k
    by (simp add: make_event_sealed computed_hash_text) (simp add: plain_digests_def)
  have nonempty: "event_text e \<noteq> []" for e
    by (simp add: event_text_def event_payload_def)
  show thesis
  proof (rule that [of ?e1 ?e2 ?e3])
    show "events (board audited_world ''alpha'') = [?e1, ?e2, ?e3]"
      by (simp add: audited_world_def board_def)
    show "ev_prev ?e1 = None" by (simp add: prev_hash_for_def events_of_def)
    show "ev_prev ?e2 = Some (event_text ?e1)"
      using nonempty by (simp add: prev_hash_for_last hash_of_def hash events_of_def)
    show "ev_prev ?e3 = Some (event_text ?e2)"
      using nonempty by (simp add: prev_hash_for_last hash_of_def hash)
  qed (simp_all add: hash)
qed

text \<open>
  C38: The pass finds a change to the history: when one event of an untouched database is replaced by
  one with the same hash column but another state, note or link, the pass reports that event. The
  digest is only assumed not to collide on the two texts at hand.
\<close>

theorem tampering_found:
  assumes "intact_world x w" "b \<in> set (verify_boards st w)" "events (board w b) = es @ e # fs"
    and "ev_ticket e' = ev_ticket e" "ev_hash e' = ev_hash e" "ev_hash e \<noteq> []"
    and "(ev_state e', ev_note e', ev_prev e') \<noteq> (ev_state e, ev_note e, ev_prev e)"
    and "blake2b x (event_text e') = blake2b x (event_text e) \<Longrightarrow> event_text e' = event_text e"
  shows "(ev_id e', ev_ticket e, ''hash'')
    \<in> set (breaks (run_verify_pass x st None (put_board b (with_events (es @ e' # fs) (board w b)) w)))"
proof (rule pass_breaksI [OF assms(2)])
  have "sealed x (board w b)" using intact_world_board [OF assms(1), of b] by (simp add: intact_def)
  then have "computed_hash x e = ev_hash e" using assms(3) by (simp add: sealed_def)
  moreover have "computed_hash x e' \<noteq> computed_hash x e"
    using assms(7,8) event_text_inj [of e' e] by (auto simp: computed_hash_text)
  ultimately show "(ev_id e', ev_ticket e, ''hash'')
      \<in> set (verify_chain x None (filter (\<lambda>f. ev_ticket f = ev_ticket e) (es @ e' # fs)))"
    using assms(4-6) verify_chain_hash [of e' _ x] by (simp flip: assms(4))
qed (use assms(3,4) in auto)

lemma tampering_found_witness:
  "\<exists>w. \<exists>e :: TicketEvent. (ev_id e, ev_ticket e, ''hash'') \<in> set (breaks (run_verify_pass plain_digests sample_settings None w))"
proof -
  obtain e1 e2 e3 where h: "events (board audited_world ''alpha'') = [e1] @ e2 # [e3]" "ev_note e2 = None"
    "ev_hash e2 = event_text e2"
    by (rule audited_history) auto
  have "ev_hash e2 \<noteq> []" using h(3) by (simp add: event_text_def event_payload_def)
  then have "(ev_id (e2\<lparr>ev_note := Some ''x''\<rparr>), ev_ticket e2, ''hash'') \<in> set (breaks
      (run_verify_pass plain_digests sample_settings None (put_board ''alpha''
        (with_events ([e1] @ e2\<lparr>ev_note := Some ''x''\<rparr> # [e3]) (board audited_world ''alpha'')) audited_world)))"
    using h(2) by (intro tampering_found [OF audited_intact audited_boards h(1)]) (simp_all add: plain_digests_def)
  then show ?thesis by auto
qed

text \<open>
  The pass finds a gap in the history: when an event is taken out of an untouched database, the
  next event of the same ticket is reported, because its link names the hash of the missing one.
\<close>

theorem removal_found:
  assumes "intact_world x w" "b \<in> set (verify_boards st w)"
    and "events (board w b) = es @ e # fs @ f # gs"
    and "ev_ticket f = ev_ticket e" "\<forall>g \<in> set fs. ev_ticket g \<noteq> ev_ticket e"
    and "ev_hash e \<noteq> []" "ev_hash f \<noteq> []" "ev_prev e \<noteq> Some (ev_hash e)"
  shows "(ev_id f, ev_ticket f, ''prev_hash'')
    \<in> set (breaks (run_verify_pass x st None (put_board b (with_events (es @ fs @ f # gs) (board w b)) w)))"
proof (rule pass_breaksI [OF assms(2)])
  let ?i = "ev_ticket f"
  let ?es = "filter (\<lambda>e. ev_ticket e = ?i) es" and ?gs = "filter (\<lambda>e. ev_ticket e = ?i) gs"
  have i: "intact x (board w b)" by (rule intact_world_board [OF assms(1)])
  then have "chain_from None (events_of (board w b) ?i)" by (intro links_okD) (simp add: intact_def wf_board_def)
  then have "chain_from None (?es @ e # f # ?gs)" using assms(3-5) by (simp add: events_of_def)
  moreover have split: "chain_from p (as @ c # d # bs) \<Longrightarrow>
      ev_prev c = (if as = [] then p else hash_of (last as)) \<and> ev_prev d = hash_of c" for p as c d bs
    by (induction as arbitrary: p) auto
  ultimately have e: "ev_prev e = (if ?es = [] then None else hash_of (last ?es))" "ev_prev f = hash_of e"
    by blast+
  have "computed_hash x f = ev_hash f" using i assms(3) by (simp add: intact_def sealed_def)
  then have "(ev_id f, ?i, ''prev_hash'') \<in> set (verify_chain x (ev_prev e) (f # ?gs))"
    using e(2) assms(6-8) by (auto simp: hash_of_def)
  then have "(ev_id f, ?i, ''prev_hash'') \<in> set (verify_chain x None (?es @ f # ?gs))"
    using e(1) unfolding verify_chain_append by simp
  then show "(ev_id f, ?i, ''prev_hash'')
      \<in> set (verify_chain x None (filter (\<lambda>g. ev_ticket g = ?i) (es @ fs @ f # gs)))"
    using assms(4,5) by simp
qed (use assms(3) in auto)

lemma removal_found_witness:
  "\<exists>w. \<exists>f :: TicketEvent. (ev_id f, ev_ticket f, ''prev_hash'') \<in> set (breaks (run_verify_pass plain_digests sample_settings None w))"
proof -
  obtain e1 e2 e3 where h: "events (board audited_world ''alpha'') = [] @ e1 # [] @ e2 # [e3]"
    "ev_ticket e2 = ev_ticket e1" "ev_hash e1 = event_text e1" "ev_hash e2 = event_text e2" "ev_prev e1 = None"
    by (rule audited_history) auto
  have "ev_hash e1 \<noteq> []" "ev_hash e2 \<noteq> []" using h(3,4) by (simp_all add: event_text_def event_payload_def)
  from removal_found [OF audited_intact audited_boards h(1,2) _ this] h(5) show ?thesis
    by auto
qed

text \<open>
  The pass against its specification: on a database where every event has a hash, it reports
  nothing exactly when, on every board it looks at, each event carries the hash of its contents and
  points at the event of the same ticket before it.
\<close>

theorem verify_pass_iff:
  assumes "\<forall>b \<in> set (verify_boards st w). \<forall>e \<in> set (events (board w b)). ev_hash e \<noteq> []"
  shows "breaks (run_verify_pass x st None w) = [] \<longleftrightarrow>
    (\<forall>b \<in> set (verify_boards st w). links_ok (board w b) \<and> sealed x (board w b))"
proof -
  have "(\<forall>i. verify_chain x None (events_of d i) = []) \<longleftrightarrow> links_ok d \<and> sealed x d"
    if ne: "\<forall>e \<in> set (events d). ev_hash e \<noteq> []" for d
  proof
    assume clean: "\<forall>i. verify_chain x None (events_of d i) = []"
    have "chain_from None (events_of d i) \<and> (\<forall>e \<in> set (events_of d i). ev_hash e = computed_hash x e)" for i
      using clean ne by (intro verify_chain_complete) (auto simp: events_of_def)
    then show "links_ok d \<and> sealed x d"
      by (auto simp: sealed_def events_of_def intro: links_okI)
  next
    assume ok: "links_ok d \<and> sealed x d"
    then show "\<forall>i. verify_chain x None (events_of d i) = []"
      using links_okD by (auto intro!: verify_chain_clean simp: sealed_def events_of_def)
  qed
  with assms show ?thesis by (simp add: run_verify_pass_breaks)
qed

lemma verify_pass_iff_witness:
  "breaks (run_verify_pass plain_digests sample_settings None audited_world) = []"
proof -
  have all: "ev_hash e \<noteq> []" if "e \<in> set (events (board audited_world b))" for b e
  proof -
    have "sealed plain_digests (board audited_world b)"
      using intact_world_board [OF audited_intact, of b] by (simp add: intact_def)
    with that have "ev_hash e = event_text e" by (simp add: sealed_def computed_hash_text) (simp add: plain_digests_def)
    then show ?thesis by (simp add: event_text_def event_payload_def)
  qed
  have "links_ok (board audited_world b)" "sealed plain_digests (board audited_world b)" for b
    using intact_world_board [OF audited_intact, of b] by (simp_all add: intact_def wf_board_def)
  then show ?thesis
    using verify_pass_iff [of sample_settings audited_world plain_digests] all by simp
qed

section \<open>The event cap\<close>

text \<open>
  The event cap on a well-formed board, for a positive cap: the newest \<open>cap\<close> events of the
  ticket stay, in order and unchanged but for the link of the oldest of them, the histories of the
  other tickets stay as they are, and the state the history ends in is still the ticket's.
\<close>

theorem event_cap_keeps_newest:
  assumes "wf_world w" "svc_board svc = b" "b \<noteq> []"
    and "0 < max_events_per_ticket (settings_of svc)"
    and "max_events_per_ticket (settings_of svc) < int (length (events_of (board w b) i))"
  shows "\<exists>n w' e es. maybe_purge_ticket_events svc i w = (Inr n, w')
    \<and> int n = int (length (events_of (board w b) i)) - max_events_per_ticket (settings_of svc)
    \<and> drop n (events_of (board w b) i) = e # es
    \<and> events_of (board w' b) i = e\<lparr>ev_prev := None\<rparr> # es
    \<and> (\<forall>j. j \<noteq> i \<longrightarrow> events_of (board w' b) j = events_of (board w b) j)
    \<and> wf_board (board w' b)"
proof -
  let ?all = "events_of (board w b) i" and ?cap = "max_events_per_ticket (settings_of svc)"
  let ?n = "nat (int (length ?all) - ?cap)"
  have n: "?n < length ?all" "int ?n = int (length ?all) - ?cap" using assms(4,5) by linarith+
  then obtain e es where es: "drop ?n ?all = e # es"
    by (metis drop_eq_Nil list.exhaust not_le)
  have wf: "wf_board (board w b)" by (rule wf_world_board [OF assms(1)])
  then have rows: "rows_ok (board w b)" by (simp add: wf_board_def)
  have run: "maybe_purge_ticket_events svc i w = (Inr ?n, put_board b (prune_events ?n i (board w b)) w)"
    using assms(2-5) by (simp add: maybe_purge_ticket_events_def open_board_def Let_def)
  show ?thesis
    using run n(2) es events_of_pruned [OF rows es] wf_prune_events [OF wf n(1)]
    by (intro exI conjI) (assumption | simp)+
qed

lemma event_cap_keeps_newest_witness:
  "\<exists>w' e es. maybe_purge_ticket_events sample_service ''t'' audited_world = (Inr 1, w')
    \<and> events_of (board w' ''alpha'') ''t'' = e # es \<and> ev_prev e = None"
proof -
  have wf: "wf_world audited_world"
    using audited_intact by (auto simp: intact_world_def wf_world_def all_boards_def intact_def)
  have cap: "max_events_per_ticket (settings_of sample_service) = 2"
    by (simp add: sample_service_def sample_settings_def)
  have len: "length (events_of (board audited_world ''alpha'') ''t'') = 3"
    by (rule audited_history) (simp add: events_of_def)
  have "svc_board sample_service = ''alpha''" by (simp add: sample_service_def)
  from event_cap_keeps_newest [OF wf this, of "''t''"] show ?thesis
    unfolding cap len by fastforce
qed

text \<open>
  The event cap and the integrity pass do not fit together: the cap clears the link of the
  oldest event it keeps, which the stored hash was taken of, so the next pass reports that event as
  altered, unless the digest collides.
\<close>

theorem event_cap_reported:
  assumes "intact x d" "drop k (events_of d i) = e # es" "ev_prev e \<noteq> None" "ev_hash e \<noteq> []"
    and "blake2b x (event_text (e\<lparr>ev_prev := None\<rparr>)) = blake2b x (event_text e)
           \<Longrightarrow> event_text (e\<lparr>ev_prev := None\<rparr>) = event_text e"
  shows "(ev_id e, ev_ticket e, ''hash'') \<in> set (verify_chain x None (events_of (prune_events k i d) i))"
proof -
  have rows: "rows_ok d" and seal: "sealed x d" using assms(1) by (simp_all add: intact_def wf_board_def)
  let ?e = "e\<lparr>ev_prev := None\<rparr>"
  have "e \<in> set (events d)"
    using assms(2) in_set_dropD [of e k "events_of d i"] by (simp add: events_of_def)
  then have "ev_hash ?e = computed_hash x e" using seal by (simp add: sealed_def)
  moreover have "computed_hash x ?e \<noteq> computed_hash x e"
    using assms(3,5) event_text_inj [of ?e e] by (auto simp: computed_hash_text)
  ultimately show ?thesis
    using verify_chain_hash [of ?e "?e # es" x] assms(4) events_of_pruned [OF rows assms(2)] by simp
qed

lemma event_cap_reported_witness:
  "\<exists>k. \<exists>e :: TicketEvent. (ev_id e, ev_ticket e, ''hash'')
     \<in> set (verify_chain plain_digests None (events_of (prune_events k ''t'' (board audited_world ''alpha'')) ''t''))"
proof -
  obtain e1 e2 e3 where h: "events_of (board audited_world ''alpha'') ''t'' = [e1, e2, e3]"
    "ev_hash e2 = event_text e2" "ev_prev e2 = Some (event_text e1)"
    by (rule audited_history) (simp add: events_of_def)
  have "intact plain_digests (board audited_world ''alpha'')" by (rule intact_world_board [OF audited_intact])
  moreover have "drop 1 (events_of (board audited_world ''alpha'') ''t'') = e2 # [e3]" using h(1) by simp
  moreover have "ev_hash e2 \<noteq> []" using h(2) by (simp add: event_text_def event_payload_def)
  ultimately have "(ev_id e2, ev_ticket e2, ''hash'') \<in> set (verify_chain plain_digests None
      (events_of (prune_events 1 ''t'' (board audited_world ''alpha'')) ''t''))"
    using h(3) by (intro event_cap_reported) (simp_all add: plain_digests_def)
  then show ?thesis by blast
qed

end
