(* ===== verification/Archive.thy ===== *)
theory Archive
  imports Seed "HOL-Library.Transitive_Closure_Table"
begin

text \<open>
  What the maintenance of a board may remove: the archive purge takes finished tickets without
  active children, the oldest first, down to the cap; the comment cap leaves every open thread with
  all that is said in it; the orphan repair removes exactly the rows without a ticket; and the whole
  pass returns on a bound board. The operations are in \<open>Purge\<close> and \<open>Maintenance\<close>.
\<close>

section \<open>The archive purge\<close>











section \<open>The comment cap\<close>

text \<open>A reply points at the comment it answers.\<close>

definition parent_link :: "Comment list \<Rightarrow> nat \<Rightarrow> nat \<Rightarrow> bool" where
  "parent_link cs p q \<longleftrightarrow> (\<exists>c. find (\<lambda>c. c_id c = p) cs = Some c \<and> c_parent c = Some q)"

lemma under_open_path:
  "\<lbrakk>rtrancl_path (parent_link cs) p ps r; r \<in> set (open_roots cs); distinct (p # ps);
    set (p # ps) \<inter> set seen = {}\<rbrakk> \<Longrightarrow> under_open cs seen (Some p)"
proof (induction p ps r arbitrary: seen rule: rtrancl_path.induct)
  case (step p q ps r)
  then have "under_open cs (p # seen) (Some q)" by (intro step.IH) auto
  with step.hyps(1) step.prems show ?case by (auto simp: parent_link_def)
qed simp

lemma reply_protected:
  assumes "distinct (map c_id cs)" "c \<in> set cs" "(parent_link cs)\<^sup>*\<^sup>* (c_id c) r" "r \<in> set (open_roots cs)"
  shows "protected cs c"
proof -
  obtain ps where "rtrancl_path (parent_link cs) (c_id c) ps r"
    using assms(3) by (auto simp: rtranclp_eq_rtrancl_path)
  then obtain ps where ps: "rtrancl_path (parent_link cs) (c_id c) ps r" "distinct (c_id c # ps)"
    by (rule rtrancl_path_distinct) blast
  then show ?thesis
  proof (cases rule: rtrancl_path.cases)
    case base
    with assms(4) show ?thesis by (simp add: protected_def)
  next
    case (step q qs)
    have "find (\<lambda>d. c_id d = c_id c) cs = Some c"
      using assms(1,2) comment_rows.get_unique [of cs c] by (simp add: lookup_by_def)
    then have "c_parent c = Some q" using step by (simp add: parent_link_def)
    then show ?thesis
      using under_open_path [OF step(3) assms(4), of "[c_id c]"] ps(2) step(1) by (auto simp: protected_def)
  qed
qed

lemma protected_not_doomed: "\<lbrakk>distinct (map c_id cs); c \<in> set cs; protected cs c\<rbrakk>
    \<Longrightarrow> c_id c \<notin> set (doomed_comments k cs)"
  by (auto simp: doomed_comments_def distinct_map dest!: in_set_takeD dest: inj_onD)

text \<open>
  The comment cap never breaks a conversation that is still open: a comment from which the
  parent links lead to an open thread is still there, unchanged, and no more comments than the excess
  are gone.
\<close>

theorem comment_cap_spares_open:
  assumes "rows_ok d" "c \<in> set (comments_of d i)" "(parent_link (comments_of d i))\<^sup>*\<^sup>* (c_id c) (c_id r)"
    and "r \<in> set (comments_of d i)" "c_parent r = None" "c_closed r = None"
  shows "c \<in> set (comments_of (prune_comments k i d) i)
    \<and> length (comments_of d i) \<le> length (comments_of (prune_comments k i d) i) + k"
proof -
  let ?cs = "comments_of d i" and ?gone = "doomed_comments k (comments_of d i)"
  have dist: "distinct (map c_id (comments d))" using assms(1) by (auto simp: rows_ok_def strict_sorted_iff)
  then have dist_of: "distinct (map c_id ?cs)" by (simp add: comments_of_def distinct_map_filter)
  have root: "c_id r \<in> set (open_roots ?cs)" using assms(4-6) by (auto simp: open_roots_def)
  have safe: "c_id c' \<notin> set ?gone" if "c' \<in> set ?cs" "(parent_link ?cs)\<^sup>*\<^sup>* (c_id c') (c_id r)" for c'
    using that reply_protected [OF dist_of _ _ root] protected_not_doomed [OF dist_of] by blast
  have parent: "c_parent c \<notin> Some ` set ?gone"
  proof
    assume "c_parent c \<in> Some ` set ?gone"
    then obtain q where q: "c_parent c = Some q" "q \<in> set ?gone" by auto
    have "c \<noteq> r" using q(1) assms(5) by auto
    then have "c_id c \<noteq> c_id r" using assms(2,4) dist_of by (auto simp: distinct_map dest: inj_onD)
    with assms(3) obtain q' where q': "parent_link ?cs (c_id c) q'" "(parent_link ?cs)\<^sup>*\<^sup>* q' (c_id r)"
      by (metis converse_rtranclpE)
    have "find (\<lambda>d. c_id d = c_id c) ?cs = Some c"
      using dist_of assms(2) comment_rows.get_unique [of ?cs c] by (simp add: lookup_by_def)
    with q' q(1) have "(parent_link ?cs)\<^sup>*\<^sup>* q (c_id r)" by (simp add: parent_link_def)
    moreover obtain p where "p \<in> set ?cs" "c_id p = q"
      using q(2) by (auto simp: doomed_comments_def dest!: in_set_takeD)
    ultimately show False using safe q(2) by blast
  qed
  have of: "comments_of (prune_comments k i d) i = map (unparent i ?gone) (filter (\<lambda>c. c_id c \<notin> set ?gone) ?cs)"
    by (simp add: prune_comments_def Let_def comments_of_def filter_map comp_def conj_commute)
  have "unparent i ?gone c = c" using parent by (simp add: unparent_def)
  moreover have "c_id c \<notin> set ?gone" by (rule safe [OF assms(2,3)])
  ultimately have "c \<in> set (comments_of (prune_comments k i d) i)"
    using assms(2) unfolding of by (auto intro!: image_eqI [of _ _ c])
  moreover have "length (filter (\<lambda>c. c_id c \<in> set ?gone) ?cs) \<le> k"
  proof -
    have "inj_on c_id (set ?cs)" "distinct ?cs" using dist_of by (simp_all add: distinct_map)
    then have "length (filter (\<lambda>c. c_id c \<in> set ?gone) ?cs) = card (c_id ` {c \<in> set ?cs. c_id c \<in> set ?gone})"
      by (simp add: card_image inj_on_subset flip: distinct_card)
    also have "\<dots> \<le> card (set ?gone)" by (intro card_mono) auto
    also have "\<dots> \<le> k" using card_length [of ?gone] by (simp add: doomed_comments_def)
    finally show ?thesis .
  qed
  moreover have "length (filter (\<lambda>c. c_id c \<in> set ?gone) ?cs) + length (filter (\<lambda>c. c_id c \<notin> set ?gone) ?cs)
      = length ?cs"
    by (rule sum_length_filter_compl)
  ultimately show ?thesis unfolding of by simp
qed

lemma comment_cap_spares_open_witness:
  "sample_comment 1 ''t3'' (ASK_USER_MARKER @ '' which one?'')
     \<in> set (comments_of (prune_comments 5 ''t3'' (board sample_world ''alpha'')) ''t3'')"
proof -
  let ?c = "sample_comment 1 ''t3'' (ASK_USER_MARKER @ '' which one?'')"
  have tail: "comments (fold (\<lambda>t. add_event x (f t) (g t) n now) ts d) = comments d" for x f g n now ts d
    by (induction ts arbitrary: d) simp_all
  have "comments_of (board sample_world ''alpha'') ''t3'' = [?c]"
    by (simp add: comments_of_def board_def sample_world_def sample_board_def tail) (simp add: sample_comment_def)
  moreover have "rows_ok (board sample_world ''alpha'')"
    using wf_world_board [OF sample_wf, of "''alpha''"] by (simp add: wf_board_def)
  moreover have "c_parent ?c = None" "c_closed ?c = None" by (simp_all add: sample_comment_def)
  ultimately show ?thesis
    using comment_cap_spares_open [of "board sample_world ''alpha''" ?c "''t3''" ?c 5] by simp
qed

section \<open>Orphans and the whole pass\<close>

lemma fold_bulk_delete:
  "tickets (fold bulk_delete_ticket_rows is d) = tickets d"
  "events (fold bulk_delete_ticket_rows is d) = filter (\<lambda>e. ev_ticket e \<notin> set is) (events d)"
  "comments (fold bulk_delete_ticket_rows is d) = filter (\<lambda>c. c_ticket c \<notin> set is) (comments d)"
  by (induction "is" arbitrary: d) (auto simp: bulk_delete_ticket_rows_def intro: filter_cong)

text \<open>
  The repair of orphaned rows on any board, however it came to have them: afterwards every
  event and comment belongs to a ticket, the rows that did before are all still there, in order, and
  the number it reports is the number of missing tickets.
\<close>

theorem orphans_repaired:
  assumes "svc_board svc = b" "b \<noteq> []"
  shows "\<exists>w'. reconcile_orphan_cards svc w
      = (Inr (card (ev_ticket ` set (events (board w b)) \<union> c_ticket ` set (comments (board w b)) - ids (board w b))), w')
    \<and> no_orphans (board w' b) \<and> tickets (board w' b) = tickets (board w b)
    \<and> events (board w' b) = filter (\<lambda>e. ev_ticket e \<in> ids (board w b)) (events (board w b))
    \<and> comments (board w' b) = filter (\<lambda>c. c_ticket c \<in> ids (board w b)) (comments (board w b))"
proof -
  let ?d = "board w b"
  have set: "set (orphan_ids ?d) = ev_ticket ` set (events ?d) \<union> c_ticket ` set (comments ?d) - ids ?d"
    by (auto simp: orphan_ids_def ids_def)
  have "distinct (orphan_ids ?d)" by (simp add: orphan_ids_def)
  then have len: "length (orphan_ids ?d) = card (set (orphan_ids ?d))" by (simp add: distinct_card)
  have keep: "filter (\<lambda>e. ev_ticket e \<notin> set (orphan_ids ?d)) (events ?d) = filter (\<lambda>e. ev_ticket e \<in> ids ?d) (events ?d)"
    "filter (\<lambda>c. c_ticket c \<notin> set (orphan_ids ?d)) (comments ?d) = filter (\<lambda>c. c_ticket c \<in> ids ?d) (comments ?d)"
    by (auto simp: set intro!: filter_cong)
  let ?d' = "fold bulk_delete_ticket_rows (orphan_ids ?d) ?d"
  have ids: "ids ?d' = ids ?d" by (simp add: ids_def fold_bulk_delete(1))
  have rows: "tickets ?d' = tickets ?d" "events ?d' = filter (\<lambda>e. ev_ticket e \<in> ids ?d) (events ?d)"
    "comments ?d' = filter (\<lambda>c. c_ticket c \<in> ids ?d) (comments ?d)"
    using keep by (simp_all only: fold_bulk_delete)
  then have "no_orphans ?d'" by (auto simp: no_orphans_def ids)
  moreover obtain w' where w': "reconcile_orphan_cards svc w = (Inr (length (orphan_ids ?d)), w')" "board w' b = ?d'"
    using assms by (cases "orphan_ids ?d = []") (auto simp: reconcile_orphan_cards_def open_board_def)
  ultimately show ?thesis
    using rows unfolding len set by (intro exI [of _ w']) simp
qed

lemma orphans_repaired_witness:
  "\<exists>w'. reconcile_orphan_cards sample_service (seed_world ''alpha''
      (add_event sample_externals ''gone'' DRAFT None 0 (seed sample_externals []))) = (Inr 1, w')"
proof -
  let ?w = "seed_world ''alpha'' (add_event sample_externals ''gone'' DRAFT None 0 (seed sample_externals []))"
  have one: "card (ev_ticket ` set (events (board ?w ''alpha'')) \<union> c_ticket ` set (comments (board ?w ''alpha''))
      - ids (board ?w ''alpha'')) = 1"
    by (simp add: ids_def) (simp add: seed_def empty_board_def)
  have "svc_board sample_service = ''alpha''" by (simp add: sample_service_def)
  from orphans_repaired [OF this, of ?w] show ?thesis unfolding one by auto
qed

lemma fst_Inr: "\<not> isl (fst p) \<Longrightarrow> \<exists>a w. p = (Inr a, w)"
  by (cases p; cases "fst p") auto

lemma bound_total:
  assumes "svc_board svc \<noteq> []"
  shows event_cap_total: "\<not> isl (fst (maybe_purge_ticket_events svc i w))"
    and comment_cap_total: "\<not> isl (fst (maybe_purge_ticket_comments svc i w))"
    and stale_drafts_total: "\<not> isl (fst (maybe_auto_close_stale_drafts svc w))"
    and reconcile_total: "\<not> isl (fst (reconcile_orphan_cards svc w))"
  using assms
  by (simp_all add: maybe_purge_ticket_events_def maybe_purge_ticket_comments_def open_board_def Let_def
      maybe_auto_close_stale_drafts_def reconcile_orphan_cards_def case_prod_beta)

lemma cap_tickets_total:
  "svc_board svc \<noteq> [] \<Longrightarrow> \<exists>r'. fst (cap_tickets svc is r w) = Inr r'"
proof (induction svc "is" r w rule: cap_tickets.induct)
  case (2 svc i "is" r w)
  obtain n w1 where e: "maybe_purge_ticket_events svc i w = (Inr n, w1)"
    using fst_Inr [OF event_cap_total [OF 2(2)]] by blast
  obtain m w2 where c: "maybe_purge_ticket_comments svc i w1 = (Inr m, w2)"
    using fst_Inr [OF comment_cap_total [OF 2(2)]] by blast
  from 2(1) [OF e [symmetric] refl c [symmetric] refl 2(2)] show ?case by (simp add: e c)
qed simp

lemma purge_total:
  assumes "wf_world w" "svc_board svc \<noteq> []"
  shows "fst (maybe_purge_archived svc w) = Inr ()"
proof -
  let ?d = "board w (svc_board svc)"
  let ?all = "sort_key created_at (archived_tickets ?d)"
  have rows: "distinct (map tid (tickets ?d))"
    using wf_world_board [OF assms(1), of "svc_board svc"] by (simp add: wf_board_def rows_ok_def)
  have "inj_on tid (set ?all)" using rows by (auto simp: distinct_map archived_tickets_def intro: inj_on_subset)
  then have "distinct (map tid ?all)" using rows by (simp add: distinct_map archived_tickets_def)
  then have "fst (purge_oldest svc k ?all w) = Inr ()" for k
    using purge_oldest_bound [OF refl assms(2) _ _ rows, of ?all k] by (simp add: archived_tickets_def)
  then show ?thesis using assms(2) by (simp add: maybe_purge_archived_def open_board_def Let_def)
qed

text \<open>
  The maintenance pass returns its report on every well-formed world exactly when the service is
  bound to a board, whatever the closes of stale drafts do on the way.
\<close>

theorem maintenance_returns:
  assumes "wf_world w"
  shows "(\<exists>r. fst (db_maintenance_pass svc w) = Inr r) \<longleftrightarrow> svc_board svc \<noteq> []"
proof
  assume "\<exists>r. fst (db_maintenance_pass svc w) = Inr r"
  then show "svc_board svc \<noteq> []"
    by (auto simp: db_maintenance_pass_def maybe_auto_close_stale_drafts_def reconcile_orphan_cards_def
        open_board_def Let_def split: if_splits)
next
  assume b: "svc_board svc \<noteq> []"
  obtain n w1 where s: "maybe_auto_close_stale_drafts svc w = (Inr n, w1)"
    using fst_Inr [OF stale_drafts_total [OF b]] by blast
  have "wf_world w1"
    using wf.stale_drafts_keeps [OF refl, of w svc] assms s by (simp add: wf_world_def)
  obtain m w2 where o: "reconcile_orphan_cards svc w1 = (Inr m, w2)"
    using fst_Inr [OF reconcile_total [OF b]] by blast
  have "wf_world w2"
    using wf.reconcile_keeps [of w1 svc] \<open>wf_world w1\<close> o by (simp add: wf_world_def)
  then have "fst (maybe_purge_archived svc w2) = Inr ()" by (rule purge_total [OF _ b])
  then obtain w3 where p: "maybe_purge_archived svc w2 = (Inr (), w3)"
    by (cases "maybe_purge_archived svc w2") auto
  show "\<exists>r. fst (db_maintenance_pass svc w) = Inr r"
    using cap_tickets_total [OF b] by (simp add: db_maintenance_pass_def s o p Let_def)
qed

lemma maintenance_returns_witness: "\<exists>r. fst (db_maintenance_pass sample_service sample_world) = Inr r"
  using maintenance_returns [OF sample_wf, of sample_service] by (simp add: sample_service_def)

section \<open>A service without a board\<close>

text \<open>
  A service that is bound to no board finds a ticket on whatever board it is and commits the
  close, and only then fails, with the error for a missing board, in the archive purge, which looks
  at the service's board and not the ticket's: the caller is told the transition failed while the
  ticket is closed.
\<close>

theorem unbound_close_commits_and_fails:
  assumes "wf_world w" "homed w" "get_ticket svc i w = Some t"
    and "svc_board svc = []" "0 < max_archived_tickets (settings_of svc)" "dst \<in> {CLOSED, ANSWERED}"
    and "transition_guards i t dst (clock w) (board w (board_id t)) = Inr d1"
  shows "\<exists>w'. transition svc i dst nt reason w = (Inl (ValueError BoardRequired), w')
    \<and> map_option tstate (get_ticket svc i w') = Some dst"
proof -
  let ?b = "board_id t" and ?t1 = "moved_row dst nt reason (clock w) t"
  let ?d = "add_event (ext svc) i dst (snd (blocked_columns dst nt reason t)) (clock w)
      (put_ticket ?t1 (close_answered i t dst (clock w) d1))"
  let ?w1 = "put_board ?b ?d w"
  have found: "find_ticket (board w ?b) i = Some t" by (rule found_at [OF assms(2,3)])
  then have i: "tid t = i" using find_ticket_SomeD by blast
  have *: "dst \<in> set ARCHIVABLE_STATES" "dst \<notin> set TERMINAL_EPIC_STATES" "dst \<notin> set IMPLEMENT_PROGRESS_STATES" "dst \<noteq> READY"
    using assms(6) by (auto simp: ARCHIVABLE_STATES_def TERMINAL_EPIC_STATES_def IMPLEMENT_PROGRESS_STATES_def)
  have files: "transition_files svc t dst nt w = (Inr (), w)" using *(3,4) by (simp add: transition_files_def)
  have purge: "maybe_purge_archived svc v = (Inl (ValueError BoardRequired), v)" for v
    using assms(4,5) by (simp add: maybe_purge_archived_def open_board_def)
  have "transition_session svc i dst nt reason ?b (board w ?b) t w =
      transition_commit svc i ?b (close_answered i t dst (clock w) d1)
        (paused_columns dst (fst (blocked_columns dst nt reason t))) dst
        (snd (blocked_columns dst nt reason t)) w"
    using *(2) assms(7) files by (simp add: transition_session_def Let_def case_prod_beta)
  then have step: "transition_step svc i dst nt reason w = (Inl (ValueError BoardRequired), ?w1)"
    using *(1) purge by (simp add: step_at [OF assms(2,3)] transition_commit_def Let_def moved_row_def)
  then have run: "transition svc i dst nt reason w = (Inl (ValueError BoardRequired), ?w1)"
    by (simp add: transition_def)
  have h1: "homed ?w1"
    using homed.transition_keeps [OF refl, of w svc i dst nt reason] assms(2) run by (simp add: homed_def)
  have "get_ticket svc i ?w1 = Some ?t1"
    using found i transition_guards_fields(3) [OF assms(7)]
    by (intro get_ticket_put [OF assms(2) h1 assms(3), of ?d]) simp_all
  with run show ?thesis by simp
qed

lemma unbound_close_commits_and_fails_witness:
  "\<exists>w'. transition (sample_service\<lparr>svc_board := []\<rparr>) ''c'' CLOSED None None
      (seed_world ''alpha'' (seed sample_externals [sample_ticket ''c'' DRAFT])) = (Inl (ValueError BoardRequired), w')"
proof -
  let ?t = "sample_ticket ''c'' DRAFT" and ?svc = "sample_service\<lparr>svc_board := []\<rparr>"
  let ?w = "seed_world ''alpha'' (seed sample_externals [?t])"
  have t: "tid ?t = ''c''" "tstate ?t = DRAFT" "board_id ?t = ''alpha''" "blocked_from ?t = None" "paused_from ?t = None"
    by (simp_all add: sample_ticket_def)
  have w: "wf_world ?w" "homed ?w"
    using t(3) by (auto intro!: wf_seed_world wf_seed homed_seed_world)
  have "boards ?w = [(''alpha'', seed sample_externals [?t])]" by (simp add: seed_world_def)
  then have g: "get_ticket ?svc ''c'' ?w = Some ?t"
    using t by (simp add: get_ticket_def get_anywhere_def collect_candidate_boards_def sample_service_def
        sample_settings_def add_candidate_def find_seed resolve_board_id_def Let_def)
  have "ask_threads (board ?w ''alpha'') ''c'' = []" by (simp add: ask_threads_def comments_of_def)
  then have guards: "transition_guards ''c'' ?t CLOSED (clock ?w) (board ?w (board_id ?t)) = Inr (board ?w (board_id ?t))"
    using t by (simp add: transition_guards_def stored_state_def can_transition_def open_ask_user_threads_def)
  have "svc_board ?svc = []" "0 < max_archived_tickets (settings_of ?svc)" "CLOSED \<in> {CLOSED, ANSWERED}"
    by (simp_all add: sample_service_def sample_settings_def)
  from unbound_close_commits_and_fails [OF w g this guards, of None None] show ?thesis by blast
qed

end
