(* ===== verification/Dependencies.thy ===== *)
theory Dependencies
  imports Seed
begin

text \<open>
  The dependency graph: the walk of \<open>_detect_dependency_cycle\<close> (in \<open>Metadata\<close>) as a
  depth-first search over any finite graph, with the proof that it returns a real cycle when it
  returns one and that there is none through the start when it returns nothing; and its use by
  \<open>edit_dependencies\<close>, which keeps the graph of all tickets free of cycles.
\<close>

section \<open>Paths\<close>

text \<open>A way through the graph that starts among the given nodes.\<close>

fun way :: "('n \<Rightarrow> 'n list) \<Rightarrow> 'n list \<Rightarrow> 'n list \<Rightarrow> bool" where
  "way E ns [] \<longleftrightarrow> True"
| "way E ns (q # qs) \<longleftrightarrow> q \<in> set ns \<and> way E (E q) qs"

definition link :: "('n \<Rightarrow> 'n list) \<Rightarrow> 'n \<Rightarrow> 'n \<Rightarrow> bool" where
  "link E a b \<longleftrightarrow> b \<in> set (E a)"

lemma way_reaches: "way E (E a) (qs @ [b]) \<Longrightarrow> (link E)\<^sup>+\<^sup>+ a b"
proof (induction qs arbitrary: a)
  case (Cons q qs)
  then have "link E a q" by (simp add: link_def)
  moreover have "(link E)\<^sup>+\<^sup>+ q b" using Cons.prems by (intro Cons.IH) simp
  ultimately show ?case by (rule tranclp_into_tranclp2)
qed (auto simp: link_def)

text \<open>
  What the search relies on: the nodes with edges of their own, but for the start, are in a finite
  set. Its size bounds the depth of the recursion.
\<close>

locale dfs_graph =
  fixes E :: "'n \<Rightarrow> 'n list" and start :: 'n and V :: "'n set"
  assumes finite_V: "finite V" and inner: "E n \<noteq> [] \<Longrightarrow> n = start \<or> n \<in> V"
begin

text \<open>A cycle that is reported is one.\<close>

lemma walk_sound:
  "walk_edges k E start ns path seen = (Some p, s) \<Longrightarrow> \<exists>qs. p = path @ qs @ [start] \<and> way E ns (qs @ [start])"
proof (induction k E start ns path seen arbitrary: p s rule: walk_edges.induct)
  case (3 k E start n ns path seen)
  show ?case
  proof (cases "n = start")
    case True
    with 3(4) show ?thesis by (intro exI [of _ "[]"]) auto
  next
    case new: False
    show ?thesis
    proof (cases "n \<in> set seen")
      case True
      with 3(1) [OF new True] 3(4) new obtain qs where
        "p = path @ qs @ [start]" "way E ns (qs @ [start])" by auto
      then show ?thesis by (intro exI [of _ qs]) (cases qs; simp)
    next
      case False
      obtain r s' where rec: "walk_edges k E start (E n) (path @ [n]) (n # seen) = (r, s')" by fastforce
      show ?thesis
      proof (cases r)
        case None
        with 3(3) [OF new False rec [symmetric]] 3(4) new False rec obtain qs where
          "p = path @ qs @ [start]" "way E ns (qs @ [start])" by auto
        then show ?thesis by (intro exI [of _ qs]) (cases qs; simp)
      next
        case (Some q)
        with 3(2) [OF new False, of q s'] 3(4) new False rec obtain qs where
          "p = (path @ [n]) @ qs @ [start]" "way E (E n) (qs @ [start])" by auto
        then show ?thesis by (intro exI [of _ "n # qs"]) simp
      qed
    qed
  qed
qed auto

text \<open>What the search has seen when it reports nothing: closed under edges, and off the start.\<close>

definition explored :: "'n set \<Rightarrow> 'n set \<Rightarrow> bool" where
  "explored S S' \<longleftrightarrow> S \<subseteq> S' \<and> (\<forall>n \<in> S' - S. set (E n) \<subseteq> S' \<and> start \<notin> set (E n))"

lemma explored_trans: "\<lbrakk>explored S S'; explored S' S''\<rbrakk> \<Longrightarrow> explored S S''"
  unfolding explored_def by blast

lemma fewer: "S \<subseteq> S' \<Longrightarrow> card (V - S') \<le> card (V - S)"
  using finite_V by (intro card_mono) auto

lemma walk_complete:
  "\<lbrakk>walk_edges k E start ns path seen = (None, s); ns = [] \<or> card (V - set seen) < k\<rbrakk>
   \<Longrightarrow> explored (set seen) (set s) \<and> set ns \<subseteq> set s \<and> start \<notin> set ns"
proof (induction k E' \<equiv> E st \<equiv> start ns path seen arbitrary: s rule: walk_edges.induct)
  case (1 fuel path seen)
  then show ?case by (simp add: explored_def)
next
  case (3 j n ns path seen)
  have new: "n \<noteq> start" using 3(4) by auto
  show ?case
  proof (cases "n \<in> set seen")
    case True
    with 3(4,5) new have "explored (set seen) (set s) \<and> set ns \<subseteq> set s \<and> start \<notin> set ns"
      by (intro 3(1)) auto
    with True new show ?thesis by (auto simp: explored_def)
  next
    case False
    obtain s' where rec: "walk_edges j E start (E n) (path @ [n]) (n # seen) = (None, s')"
        "walk_edges (Suc j) E start ns path s' = (None, s)"
      using 3(4) new False by (auto split: prod.splits option.splits)
    have "E n = [] \<or> card (V - set (n # seen)) < j"
    proof (cases "E n = []")
      case False
      then have "n \<in> V" using inner new by blast
      then have "V - set (n # seen) \<subset> V - set seen" using \<open>n \<notin> set seen\<close> by auto
      then have "card (V - set (n # seen)) < card (V - set seen)" using finite_V by (intro psubset_card_mono) auto
      with 3(5) show ?thesis by simp
    qed simp
    then have deep: "explored (set (n # seen)) (set s') \<and> set (E n) \<subseteq> set s' \<and> start \<notin> set (E n)"
      using rec(1) new False by (intro 3(2)) auto
    then have here: "explored (set seen) (set s')" by (auto simp: explored_def)
    then have "card (V - set s') < Suc j" using fewer [of "set seen" "set s'"] 3(5) by (auto simp: explored_def)
    then have rest: "explored (set s') (set s)" "set ns \<subseteq> set s" "start \<notin> set ns"
      using 3(3) [of None s' s] rec new False by auto
    have "explored (set seen) (set s)" by (rule explored_trans [OF here rest(1)])
    moreover have "n \<in> set s'" "set s' \<subseteq> set s" using deep rest(1) unfolding explored_def by simp_all
    ultimately show ?thesis using rest(2,3) new by (simp add: subset_iff)
  qed
qed simp

text \<open>With more fuel than inner nodes, the answer is right both ways.\<close>

lemma walk_correct:
  assumes "card V < k"
  shows "fst (walk_edges k E start (E start) path []) = None \<longleftrightarrow> \<not> (link E)\<^sup>+\<^sup>+ start start"
proof
  assume "fst (walk_edges k E start (E start) path []) = None"
  then obtain s where "walk_edges k E start (E start) path [] = (None, s)"
    by (cases "walk_edges k E start (E start) path []") auto
  then have s: "explored {} (set s)" "set (E start) \<subseteq> set s" "start \<notin> set (E start)"
    using walk_complete [of k "E start" path "[]" s] assms by auto
  show "\<not> (link E)\<^sup>+\<^sup>+ start start"
  proof
    assume "(link E)\<^sup>+\<^sup>+ start start"
    moreover have "b \<in> set s \<and> b \<noteq> start" if "(link E)\<^sup>+\<^sup>+ start b" for b
      using that
    proof induction
      case (base b)
      then show ?case using s(2,3) by (auto simp: link_def)
    next
      case (step b c)
      then show ?case using s(1) by (auto simp: link_def explored_def)
    qed
    ultimately show False by blast
  qed
next
  assume none: "\<not> (link E)\<^sup>+\<^sup>+ start start"
  show "fst (walk_edges k E start (E start) path []) = None"
  proof (cases "fst (walk_edges k E start (E start) path [])")
    case (Some p)
    then obtain s where "walk_edges k E start (E start) path [] = (Some p, s)"
      by (cases "walk_edges k E start (E start) path []") auto
    from walk_sound [OF this] none show ?thesis using way_reaches by metis
  qed
qed

end

section \<open>The dependency graph of the tickets\<close>

lemma get_ticket_world_ids: "get_ticket svc n w = Some t \<Longrightarrow> n \<in> set (world_ids w)"
proof -
  have row: "n \<in> set (world_ids w)" if found: "find_ticket (board w b) n = Some u" for b u
  proof -
    obtain d where map: "map_of (boards w) b = Some d" using found_known [OF found] by blast
    then have d: "(b, d) \<in> set (boards w)" "board w b = d" by (simp_all add: map_of_SomeD board_def)
    moreover have "u \<in> set (tickets d)" "tid u = n" using find_ticket_SomeD [OF found] d by auto
    ultimately show ?thesis by (force simp: world_ids_def)
  qed
  assume "get_ticket svc n w = Some t"
  then consider u where "find_ticket (board w (svc_board svc)) n = Some u"
    | u where "first_hit w (collect_candidate_boards svc w) n = Some u"
    by (auto simp: get_ticket_def get_anywhere_def Let_def split: if_splits option.splits)
  then show ?thesis
  proof cases
    case (2 u)
    then obtain b where "find_ticket (board w b) n = Some u" using first_hit_SomeD by metis
    then show ?thesis by (rule row)
  qed (rule row)
qed

lemma dependency_graph: "dfs_graph (dependency_edges svc i proposed w) i (set (world_ids w))"
  by unfold_locales
    (auto simp: dependency_edges_def dest: get_ticket_world_ids split: if_splits option.splits)

interpretation deps: dfs_graph "dependency_edges svc i proposed w" i "set (world_ids w)" for svc i proposed w
  by (rule dependency_graph)

text \<open>The edges as they are stored: a ticket waits for the tickets of its \<open>depends_on\<close> column.\<close>

definition stored_edges :: "service \<Rightarrow> world \<Rightarrow> string \<Rightarrow> string list" where
  "stored_edges svc w n = (case get_ticket svc n w of None \<Rightarrow> [] | Some t \<Rightarrow> parse_depends_on t)"

lemma dependency_edges_upd: "dependency_edges svc i proposed w = (stored_edges svc w)(i := proposed)"
  by (auto simp: dependency_edges_def stored_edges_def fun_eq_iff)

definition acyclic_graph :: "('n \<Rightarrow> 'n list) \<Rightarrow> bool" where
  "acyclic_graph E \<longleftrightarrow> (\<forall>n. \<not> (link E)\<^sup>+\<^sup>+ n n)"

text \<open>A graph that changes in one node only has no cycle if that node is on none.\<close>

lemma acyclic_update:
  assumes old: "acyclic_graph E" and new: "\<not> (link (E(i := xs)))\<^sup>+\<^sup>+ i i"
  shows "acyclic_graph (E(i := xs))"
  unfolding acyclic_graph_def
proof
  fix n
  let ?F = "E(i := xs)"
  have avoid: "(link E)\<^sup>+\<^sup>+ a b \<or> ((link ?F)\<^sup>*\<^sup>* a i \<and> (link ?F)\<^sup>+\<^sup>+ i b)" if "(link ?F)\<^sup>+\<^sup>+ a b" for a b
    using that
  proof induction
    case (base b)
    then show ?case by (cases "a = i") (auto simp: link_def)
  next
    case (step b c)
    show ?case
    proof (cases "(link ?F)\<^sup>*\<^sup>* a i \<and> (link ?F)\<^sup>+\<^sup>+ i b")
      case True
      with step(2) show ?thesis by (metis tranclp.trancl_into_trancl)
    next
      case False
      with step have ab: "(link E)\<^sup>+\<^sup>+ a b" by blast
      show ?thesis
      proof (cases "b = i")
        case True
        with step(1,2) show ?thesis by (metis tranclp.r_into_trancl tranclp_into_rtranclp)
      next
        case False
        then have "link E b c" using step(2) by (simp add: link_def)
        with ab show ?thesis by (metis tranclp.trancl_into_trancl)
      qed
    qed
  qed
  show "\<not> (link ?F)\<^sup>+\<^sup>+ n n"
  proof
    assume "(link ?F)\<^sup>+\<^sup>+ n n"
    then have "(link ?F)\<^sup>*\<^sup>* n i \<and> (link ?F)\<^sup>+\<^sup>+ i n"
      using avoid old by (metis acyclic_graph_def)
    then have "(link ?F)\<^sup>+\<^sup>+ i i" by (metis tranclp_rtranclp_tranclp)
    with new show False by blast
  qed
qed

lemma dependency_check_sound:
  "detect_dependency_cycle svc i proposed w = None
     \<longleftrightarrow> \<not> (link ((stored_edges svc w)(i := proposed)))\<^sup>+\<^sup>+ i i"
proof -
  have start: "dependency_edges svc i proposed w i = proposed" by (simp add: dependency_edges_def)
  have "card (set (world_ids w)) < Suc (length (world_ids w))" using card_length [of "world_ids w"] by simp
  from deps.walk_correct [OF this, of svc i proposed "[i]"] show ?thesis
    unfolding detect_dependency_cycle_def start by (simp only: dependency_edges_upd)
qed

text \<open>
  C29: The dependency check reports nothing exactly when the new edges close no cycle through the
  ticket, in the graph of all tickets of all boards; and what it reports is a cycle, written from the
  ticket back to itself.
\<close>

theorem dependency_cycle_iff:
  "(detect_dependency_cycle svc i proposed w = None
      \<longleftrightarrow> \<not> (link ((stored_edges svc w)(i := proposed)))\<^sup>+\<^sup>+ i i)
   \<and> (case detect_dependency_cycle svc i proposed w of
        None \<Rightarrow> True
      | Some p \<Rightarrow> \<exists>qs. p = i # qs @ [i] \<and> way ((stored_edges svc w)(i := proposed)) proposed (qs @ [i]))"
proof
  let ?E = "dependency_edges svc i proposed w"
  let ?k = "Suc (length (world_ids w))"
  show "detect_dependency_cycle svc i proposed w = None
      \<longleftrightarrow> \<not> (link ((stored_edges svc w)(i := proposed)))\<^sup>+\<^sup>+ i i"
    by (rule dependency_check_sound)
  show "case detect_dependency_cycle svc i proposed w of
        None \<Rightarrow> True
      | Some p \<Rightarrow> \<exists>qs. p = i # qs @ [i] \<and> way ((stored_edges svc w)(i := proposed)) proposed (qs @ [i])"
  proof (cases "detect_dependency_cycle svc i proposed w")
    case (Some p)
    then obtain s where "walk_edges ?k ?E i proposed [i] [] = (Some p, s)"
      by (cases "walk_edges ?k ?E i proposed [i] []") (auto simp: detect_dependency_cycle_def)
    from deps.walk_sound [OF this] Some show ?thesis by (auto simp: dependency_edges_upd)
  qed simp
qed

section \<open>Editing the dependencies\<close>

lemma get_ticket_cong:
  assumes same: "map fst (boards w') = map fst (boards w)"
    and find: "\<And>c. find_ticket (board w' c) j = find_ticket (board w c) j"
  shows "get_ticket svc j w' = get_ticket svc j w"
proof -
  have "first_hit w' bs j = first_hit w bs j" for bs
    by (induction bs) (simp_all add: find split: option.split)
  then show ?thesis
    by (simp add: get_ticket_def get_anywhere_def Let_def find known_boards_same [OF same] split: option.split)
qed

text \<open>A write to the row of \<open>i\<close>: the edges out of the others are as before.\<close>

lemma stored_edges_write:
  assumes "homed w" "homed w'" "get_ticket svc i w = Some t"
    and bs: "boards w' = boards (put_board (board_id t) d w)" and row: "find_ticket d i = Some t'"
    and others: "\<And>j. j \<noteq> i \<Longrightarrow> find_ticket d j = find_ticket (board w (board_id t)) j"
  shows "stored_edges svc w' = (stored_edges svc w)(i := parse_depends_on t')"
proof
  fix j
  have b: "board w' c = board (put_board (board_id t) d w) c" for c using bs by (simp add: board_def)
  have known: "map_of (boards w) (board_id t) \<noteq> None"
    using get_ticket_homed [OF assms(1,3)] found_known by blast
  show "stored_edges svc w' j = ((stored_edges svc w)(i := parse_depends_on t')) j"
  proof (cases "j = i")
    case True
    then show ?thesis using get_ticket_put [OF assms(1-3) bs row] by (simp add: stored_edges_def)
  next
    case False
    have "get_ticket svc j w' = get_ticket svc j w"
      using bs keys_put_board [OF known] others [OF False] by (intro get_ticket_cong) (simp_all add: b)
    with False show ?thesis by (simp add: stored_edges_def)
  qed
qed

lemma operator_comment_fields [simp]:
  "find_ticket (operator_comment i n now d) = find_ticket d"
  by (simp add: operator_comment_def)

text \<open>A resume leaves the dependency edges alone, whether it succeeds or not.\<close>

lemma resume_boards:
  assumes h: "homed w" and g: "get_ticket svc i w = Some t"
  shows "boards (snd (resume_blocked svc i nt w)) = boards w \<or>
    (\<exists>d t'. boards (snd (resume_blocked svc i nt w)) = boards (put_board (board_id t) d w)
       \<and> find_ticket d i = Some t' \<and> depends_on t' = depends_on t
       \<and> (\<forall>j. j \<noteq> i \<longrightarrow> find_ticket d j = find_ticket (board w (board_id t)) j))"
proof -
  let ?b = "board_id t"
  have found: "find_ticket (board w ?b) i = Some t" using get_ticket_homed [OF h g] by blast
  then have i: "tid t = i" using find_ticket_SomeD by blast
  have commit: "\<exists>d t'. boards (snd (resume_commit svc i s n ?b (operator_comment i n (clock w) (board w ?b))
        (resume_row s (clock w) t) r hold k v)) = boards (put_board ?b d w)
      \<and> find_ticket d i = Some t' \<and> depends_on t' = depends_on t
      \<and> (\<forall>j. j \<noteq> i \<longrightarrow> find_ticket d j = find_ticket (board w ?b) j)"
    if v: "boards v = boards w" for s n r hold k v
  proof -
    let ?t = "resume_row s (clock w) t" and ?d = "operator_comment i n (clock w) (board w ?b)"
    let ?t2 = "if cycles_at_ceiling (settings_of svc) ?t s then ?t\<lparr>implement_cycles := 0\<rparr> else ?t"
    have t2: "tid ?t2 = i" "depends_on ?t2 = depends_on t" using i by (simp_all add: resume_row_def)
    have "\<exists>nt now. boards (snd (resume_commit svc i s n ?b ?d ?t r hold k v))
        = boards (put_board ?b (add_event (ext svc) i s nt now (put_ticket ?t2 ?d)) w)"
      using v by (simp add: resume_commit_def Let_def case_prod_beta put_board_def split: sum.split) blast
    then obtain nt now where "boards (snd (resume_commit svc i s n ?b ?d ?t r hold k v))
        = boards (put_board ?b (add_event (ext svc) i s nt now (put_ticket ?t2 ?d)) w)" by blast
    then show ?thesis
      using t2 found by (intro exI [of _ "add_event (ext svc) i s nt now (put_ticket ?t2 ?d)"] exI [of _ ?t2]) simp
  qed
  have session: "boards (snd (resume_session svc i s n ?b (board w ?b) t w)) = boards w \<or>
      (\<exists>d t'. boards (snd (resume_session svc i s n ?b (board w ?b) t w)) = boards (put_board ?b d w)
         \<and> find_ticket d i = Some t' \<and> depends_on t' = depends_on t
         \<and> (\<forall>j. j \<noteq> i \<longrightarrow> find_ticket d j = find_ticket (board w ?b) j))" for s n
  proof -
    let ?r = "resume_row s (clock w) t"
    obtain r1 w1 where 1: "spawn_decision svc ?r s n w = (r1, w1)" by fastforce
    have w1: "boards w1 = boards w" using spawn_decision_fields(1) [of svc ?r s n w] by (simp add: 1)
    obtain r2 w2 where 2: "open_workspace svc ?r w1 = (r2, w2)" by fastforce
    have w2: "boards w2 = boards w" using open_workspace_fields(1) [of svc ?r w1] w1 by (simp add: 2)
    show ?thesis
    proof (cases r1)
      case (Inl e)
      then show ?thesis using w1 by (simp add: resume_session_def Let_def 1)
    next
      case (Inr sh)
      show ?thesis
      proof (cases r2)
        case (Inl e)
        with Inr show ?thesis using w2 by (simp add: resume_session_def Let_def 1 2 case_prod_beta)
      next
        case k: (Inr k)
        have "resume_session svc i s n ?b (board w ?b) t w = resume_commit svc i s n ?b
            (operator_comment i n (clock w) (board w ?b)) ?r (fst sh) (snd sh) k w2"
          using Inr k by (simp add: resume_session_def Let_def 1 2 case_prod_beta)
        then show ?thesis using commit [OF w2, of s n "fst sh" "snd sh" k] by simp
      qed
    qed
  qed
  have run: "resume_blocked svc i nt w = resume_checked svc i nt ?b (board w ?b) t w"
    by (simp add: resume_blocked_def with_ticket_homed [OF h g])
  show ?thesis
  proof (cases "\<exists>s. resume_checked svc i nt ?b (board w ?b) t w = resume_session svc i s (strip nt) ?b (board w ?b) t w")
    case True
    then obtain s where "resume_checked svc i nt ?b (board w ?b) t w = resume_session svc i s (strip nt) ?b (board w ?b) t w"
      by blast
    then show ?thesis using session [of s "strip nt"] run by simp
  next
    case False
    then have "snd (resume_checked svc i nt ?b (board w ?b) t w) = w"
      by (auto simp: resume_checked_def split: if_splits option.splits)
    then show ?thesis by (simp add: run)
  qed
qed

lemma resume_edges:
  assumes h: "homed w" and g: "get_ticket svc i w = Some t"
  shows "stored_edges svc (snd (resume_blocked svc i nt w)) = stored_edges svc w"
proof -
  let ?w' = "snd (resume_blocked svc i nt w)"
  have h': "homed ?w'"
    using homed.resume_blocked_keeps [OF refl, of w svc i nt] h by (simp add: homed_def)
  from resume_boards [OF h g, of nt] show ?thesis
  proof
    assume "boards ?w' = boards w"
    then have "get_ticket svc j ?w' = get_ticket svc j w" for j
      by (intro get_ticket_cong) (simp_all add: board_def)
    then show ?thesis by (simp add: stored_edges_def fun_eq_iff)
  next
    assume "\<exists>d t'. boards ?w' = boards (put_board (board_id t) d w)
       \<and> find_ticket d i = Some t' \<and> depends_on t' = depends_on t
       \<and> (\<forall>j. j \<noteq> i \<longrightarrow> find_ticket d j = find_ticket (board w (board_id t)) j)"
    then obtain d t' where d: "boards ?w' = boards (put_board (board_id t) d w)" "find_ticket d i = Some t'"
      "depends_on t' = depends_on t" "\<And>j. j \<noteq> i \<Longrightarrow> find_ticket d j = find_ticket (board w (board_id t)) j"
      by blast
    have "stored_edges svc ?w' = (stored_edges svc w)(i := parse_depends_on t')"
      by (rule stored_edges_write [OF h h' g d(1,2,4)])
    moreover have "stored_edges svc w i = parse_depends_on t'"
      using g d(3) by (simp add: stored_edges_def parse_depends_on_def)
    ultimately show ?thesis by (metis fun_upd_triv)
  qed
qed

text \<open>The two writes before the resume: the column and the note.\<close>

lemma set_columns_edges:
  assumes h: "homed w" and g: "get_ticket svc i w = Some t"
    and f: "\<And>u. tid (f u) = tid u" "\<And>u. board_id (f u) = board_id u" "\<And>u. tstate (f u) = tstate u"
  shows "\<exists>t' w'. set_columns svc i f w = (Inr t', w') \<and> homed w'
    \<and> get_ticket svc i w' = Some t' \<and> parse_depends_on t' = parse_depends_on (f t)
    \<and> stored_edges svc w' = (stored_edges svc w)(i := parse_depends_on (f t))"
proof -
  let ?t = "(f t)\<lparr>updated_at := clock w\<rparr>" and ?b = "board_id t"
  let ?d = "put_ticket ?t (board w ?b)" and ?w = "put_board ?b (put_ticket ?t (board w ?b)) w"
  have found: "find_ticket (board w ?b) i = Some t" using get_ticket_homed [OF h g] by blast
  then have i: "tid t = i" using find_ticket_SomeD by blast
  have run: "set_columns svc i f w = (Inr ?t, ?w)"
    by (simp add: set_columns_def with_ticket_homed [OF h g] Let_def)
  have h': "homed ?w"
    using homed.set_columns_keeps [OF _ f(1,3,2), of w svc i] h run by (simp add: homed_def)
  have row: "find_ticket ?d i = Some ?t" using found i f(1) by simp
  have "stored_edges svc ?w = (stored_edges svc w)(i := parse_depends_on ?t)"
    using i f(1) by (intro stored_edges_write [OF h h' g refl row]) simp
  moreover have "parse_depends_on ?t = parse_depends_on (f t)" by (simp add: parse_depends_on_def)
  moreover have "get_ticket svc i ?w = Some ?t" by (rule get_ticket_put [OF h h' g refl row])
  ultimately show ?thesis using run h' by (intro exI conjI) (assumption | simp)+
qed

lemma history_note_edges:
  assumes h: "homed w" and g: "get_ticket svc i w = Some t"
  shows "\<exists>e w'. add_history_note svc i nt w = (Inr e, w') \<and> homed w' \<and> get_ticket svc i w' = Some t
    \<and> stored_edges svc w' = stored_edges svc w"
proof -
  let ?b = "board_id t" and ?d = "add_event (ext svc) i (tstate t) (Some nt) (clock w) (board w (board_id t))"
  let ?w = "put_board ?b ?d w"
  have found: "find_ticket (board w ?b) i = Some t" using get_ticket_homed [OF h g] by blast
  have run: "\<exists>e. add_history_note svc i nt w = (Inr e, ?w)"
    by (simp add: add_history_note_def with_ticket_homed [OF h g])
  then have h': "homed ?w"
    using homed.add_history_note_keeps [OF refl, of w svc i nt] h by (auto simp: homed_def)
  have row: "find_ticket ?d i = Some t" using found by simp
  have "stored_edges svc ?w = (stored_edges svc w)(i := parse_depends_on t)"
    by (intro stored_edges_write [OF h h' g refl row]) simp
  moreover have "stored_edges svc w i = parse_depends_on t" using g by (simp add: stored_edges_def)
  ultimately have "stored_edges svc ?w = stored_edges svc w" by (metis fun_upd_triv)
  moreover have "get_ticket svc i ?w = Some t" by (rule get_ticket_put [OF h h' g refl row])
  ultimately show ?thesis using run h' by blast
qed

lemma unpark_edges:
  assumes h: "homed w" and g: "get_ticket svc i w = Some t"
  shows "stored_edges svc (snd (unpark_if_met svc i reason t w)) = stored_edges svc w"
  using resume_edges [OF h g, of "if reason \<noteq> [] then reason else ''dependencies edited''"]
  by (auto simp: unpark_if_met_def split: prod.splits sum.splits error.splits)

text \<open>
  C28: Editing dependencies keeps the graph of all tickets without cycles: whatever the new list, an
  edit that is accepted stores exactly the listed ids, once each and without empty ones, leaves the
  edges of every other ticket alone, and no ticket waits for itself through others.
\<close>

theorem edit_keeps_acyclic:
  assumes "homed w" "acyclic_graph (stored_edges svc w)"
    and "edit_dependencies svc i wanted reason w = (Inr t', w')"
  shows "stored_edges svc w' = (stored_edges svc w)(i := filter (\<lambda>t. t \<noteq> []) (dedup_first wanted))
    \<and> acyclic_graph (stored_edges svc w')"
proof -
  let ?new = "filter (\<lambda>t. t \<noteq> []) (dedup_first wanted)"
  have "i \<notin> set ?new" using assms(3) by (auto simp: edit_dependencies_def Let_def split: if_splits)
  moreover obtain t where g: "get_ticket svc i w = Some t"
    using assms(3) by (auto simp: edit_dependencies_def Let_def split: if_splits)
  moreover have none: "detect_dependency_cycle svc i ?new w = None"
    using assms(3) by (auto simp: edit_dependencies_def Let_def split: if_splits option.splits)
  ultimately have run: "edit_dependencies svc i wanted reason w =
      (case set_columns svc i (\<lambda>t. t\<lparr>depends_on := json_list ?new\<rparr>) w of
         (Inl e, w1) \<Rightarrow> (Inl e, w1)
       | (Inr _, w1) \<Rightarrow>
           (case add_history_note svc i (dependency_note ?new reason) w1 of
              (Inl e, w2) \<Rightarrow> (Inl e, w2)
            | (Inr _, w2) \<Rightarrow>
                (case get_ticket svc i w2 of
                   None \<Rightarrow> (Inl (KeyError i), w2)
                 | Some t \<Rightarrow> unpark_if_met svc i reason t w2)))"
    by (simp only: edit_dependencies_def set_depends_on_def Let_def if_False option.case option.distinct)
  obtain t1 w1 where 1: "set_columns svc i (\<lambda>t. t\<lparr>depends_on := json_list ?new\<rparr>) w = (Inr t1, w1)"
    "homed w1" "get_ticket svc i w1 = Some t1" "stored_edges svc w1 = (stored_edges svc w)(i := ?new)"
    using set_columns_edges [OF assms(1) g, of "\<lambda>t. t\<lparr>depends_on := json_list ?new\<rparr>"]
    by (auto simp: parse_depends_on_def)
  obtain e w2 where 2: "add_history_note svc i (dependency_note ?new reason) w1 = (Inr e, w2)"
    "homed w2" "get_ticket svc i w2 = Some t1" "stored_edges svc w2 = stored_edges svc w1"
    using history_note_edges [OF 1(2,3), of "dependency_note ?new reason"] by blast
  have "w' = snd (unpark_if_met svc i reason t1 w2)" using assms(3) run 1(1) 2(1,3) by simp
  then have edges: "stored_edges svc w' = (stored_edges svc w)(i := ?new)"
    using unpark_edges [OF 2(2,3)] 1(4) 2(4) by simp
  have "\<not> (link ((stored_edges svc w)(i := ?new)))\<^sup>+\<^sup>+ i i"
    using none dependency_check_sound by blast
  with edges acyclic_update [OF assms(2)] show ?thesis by simp
qed

lemma sample_edges: "stored_edges sample_service sample_world = (\<lambda>n. [])"
proof
  fix n
  have "depends_on t = None" if "get_ticket sample_service n sample_world = Some t" for t
  proof -
    have "find_ticket (board sample_world (board_id t)) n = Some t"
      using get_ticket_homed [OF sample_homed that] by blast
    then have "t \<in> set (tickets (board sample_world (board_id t)))" using find_ticket_SomeD by blast
    then have "t \<in> set sample_tickets"
      by (auto simp: sample_world_def board_def sample_board_def tickets_fold_events empty_board_def split: if_splits)
    then show ?thesis by (auto simp: sample_tickets_def sample_ticket_def)
  qed
  then show "stored_edges sample_service sample_world n = []"
    by (auto simp: stored_edges_def parse_depends_on_def parse_depends_on_str_def split: option.split)
qed

lemma edit_keeps_acyclic_witness:
  "\<exists>w'. snd (edit_dependencies sample_service ''c1'' [''t1'', ''t1''] [] sample_world) = w'
     \<and> stored_edges sample_service w' ''c1'' = [''t1''] \<and> acyclic_graph (stored_edges sample_service w')"
proof -
  have "\<not> isl (fst (edit_dependencies sample_service ''c1'' [''t1'', ''t1''] [] sample_world))" by code_simp
  then obtain t' w' where run: "edit_dependencies sample_service ''c1'' [''t1'', ''t1''] [] sample_world = (Inr t', w')"
    by (metis isl_def prod.collapse sum.exhaust)
  have "\<not> (link (\<lambda>n. []))\<^sup>+\<^sup>+ a (b :: string)" for a b
    by (rule notI, induction rule: tranclp.induct) (simp_all add: link_def)
  then have "acyclic_graph (stored_edges sample_service sample_world)"
    by (simp add: acyclic_graph_def sample_edges)
  from edit_keeps_acyclic [OF sample_homed this run]
  have edges: "stored_edges sample_service w' = (stored_edges sample_service sample_world)
      (''c1'' := filter (\<lambda>t. t \<noteq> []) (dedup_first [''t1'', ''t1'']))"
    and "acyclic_graph (stored_edges sample_service w')" by blast+
  moreover have "stored_edges sample_service w' ''c1'' = [''t1'']" unfolding edges by simp
  ultimately have "stored_edges sample_service w' ''c1'' = [''t1''] \<and> acyclic_graph (stored_edges sample_service w')"
    by blast
  with run show ?thesis by (intro exI [of _ w']) (simp only: snd_conv)
qed

end
