(* ===== verification/Moves.thy ===== *)
theory Moves
  imports Seed
begin

text \<open>
  A ticket that leaves its path: migrated to another board, sent back to a fresh draft, or marked
  done by hand. What it takes with it, what it loses, and what is asked of it.
\<close>

section \<open>Migration\<close>

lemma set_add_candidates: "set bs \<subseteq> set (fold (\<lambda>db. add_candidate (fst db)) ds bs)
    \<and> fst ` set ds \<subseteq> set (fold (\<lambda>db. add_candidate (fst db)) ds bs)"
  by (induction ds arbitrary: bs) (force simp: add_candidate_def)+

lemma candidates_boards: "fst ` set (boards w) \<subseteq> set (collect_candidate_boards svc w)"
  using set_add_candidates [of _ "boards w"] by (auto simp: collect_candidate_boards_def Let_def)

text \<open>A row that is on one board only is what \<open>get\<close> finds.\<close>

lemma get_unique_row:
  assumes here: "find_ticket (board w b) i = Some t" and b: "board_id t \<noteq> []"
    and only: "\<And>c. c \<noteq> b \<Longrightarrow> find_ticket (board w c) i = None"
  shows "get_ticket svc i w = Some t"
proof -
  have "b \<in> fst ` set (boards w)"
    using found_known [OF here] by (metis domIff dom_map_of_conv_image_fst)
  then have b_in: "b \<in> set (collect_candidate_boards svc w)" using candidates_boards by blast
  have hit: "b \<in> set bs \<Longrightarrow> first_hit w bs i = Some t" for bs
  proof (induction bs)
    case (Cons c bs)
    then show ?case using here only by (cases "c = b") (auto split: option.split)
  qed simp
  have "fst (get_anywhere svc i w) = Some t"
    using hit [OF b_in] b by (simp add: get_anywhere_def Let_def resolve_board_id_def)
  then show ?thesis
    using here only b by (cases "svc_board svc = b") (simp_all add: get_ticket_def resolve_board_id_def)
qed

lemma content_renumber: "map (\<lambda>e. e\<lparr>ev_id := 0\<rparr>) (renumber k es) = map (\<lambda>e. e\<lparr>ev_id := 0\<rparr>) es"
  by (induction es arbitrary: k) simp_all

lemma copied_bodies:
  "\<lbrakk>\<forall>c \<in> set cs. c_ticket c = i\<rbrakk> \<Longrightarrow>
     map c_body (comments_of (snd (copy_comments m cs d)) i) = map c_body (comments_of d i) @ map c_body cs"
  by (induction cs arbitrary: m d) (simp_all add: Let_def)

text \<open>
  C31: Moving a single ticket to another board: the call returns the ticket, now a draft of the
  target board; it is gone from the old one; its whole history went along, event by event, with one
  more event at the end; its comments went along in order; and no other ticket of any board changed.
\<close>

theorem migrate_effect:
  assumes "wf_world w" "homed w" "find_ticket (board w src) i = Some t"
    and "get_ticket svc i w = Some t" "kind t \<noteq> EPIC"
    and "children_of (board w src) i = []" "tstate t \<in> set MIGRATABLE_STATES"
    and "target \<noteq> []" "known_boards (settings_of svc) target = Some dst" "dst \<noteq> []" "dst \<noteq> src"
    and "workspaces w (dst, i) = None" "\<And>c. c \<noteq> src \<Longrightarrow> find_ticket (board w c) i = None"
  shows "\<exists>t' w' e. migrate svc i target nt w = Some (Inr t', w')
    \<and> get_ticket svc i w' = Some t' \<and> tstate t' = DRAFT \<and> board_id t' = dst
    \<and> title t' = title t \<and> depends_on t' = depends_on t
    \<and> find_ticket (board w' dst) i = Some t' \<and> find_ticket (board w' src) i = None
    \<and> map (\<lambda>e. e\<lparr>ev_id := 0\<rparr>) (events_of (board w' dst) i)
        = map (\<lambda>e. e\<lparr>ev_id := 0\<rparr>) (events_of (board w src) i) @ [e\<lparr>ev_id := 0\<rparr>]
    \<and> ev_state e = DRAFT
    \<and> map c_body (comments_of (board w' dst) i) = map c_body (comments_of (board w src) i)
    \<and> (\<forall>c j. j \<noteq> i \<longrightarrow> find_ticket (board w' c) j = find_ticket (board w c) j)"
proof -
  let ?st = "settings_of svc" and ?d = "board w src" and ?old = "board w dst"
  let ?t = "single_row ?st dst (clock w) t"
  let ?es = "events_of ?d i" and ?cs = "comments_of ?d i"
  let ?note = "migration_note src dst (tstate t) nt"
  let ?e = "snd (adopt (ext svc) ?t ?note (clock w) ?es ?cs Map.empty ?old)"
  let ?w1 = "move_workspace src dst i w"
  let ?w3 = "put_board src (drop_all i ?d) (put_board dst ?e ?w1)"
  have i: "tid t = i" using find_ticket_SomeD [OF assms(3)] by blast
  have src: "board_id t = src" "src \<noteq> []" using homed_row [OF assms(2,3)] by blast+
  have absent: "find_ticket ?old i = None" by (rule assms(13) [OF assms(11)])
  have "i \<notin> ids ?old" using absent by (simp add: find_ticket_ids)
  moreover have "no_orphans ?old" using wf_world_board [OF assms(1), of dst] by (simp add: wf_board_def)
  ultimately have fresh: "events_of ?old i = []" "comments_of ?old i = []" using no_history by blast+
  have tick: "\<forall>e \<in> set ?es. ev_ticket e = i" "\<forall>c \<in> set ?cs. c_ticket c = i"
    by (simp_all add: events_of_def comments_of_def)
  define d2 where "d2 = snd (copy_comments Map.empty ?cs (copy_events ?es (insert_ticket ?t ?old)))"
  have e: "?e = add_event (ext svc) i DRAFT (Some ?note) (clock w) d2"
    using i by (simp add: d2_def adopt_def case_prod_beta)
  have evs: "events_of ?e i = renumber (next_id ev_id (events ?old)) ?es
      @ [make_event (ext svc) d2 i DRAFT (Some ?note) (clock w)]"
    unfolding e by (simp add: d2_def events_of_copy_events [OF tick(1)] fresh)
  have "comments_of (copy_events ?es (insert_ticket ?t ?old)) i = []"
    using fresh(2) by (simp add: comments_of_def)
  then have cms: "map c_body (comments_of ?e i) = map c_body ?cs"
    unfolding e by (simp add: d2_def copied_bodies [OF tick(2)])
  have rows: "find_ticket ?e j = (if j = i then Some ?t else find_ticket ?old j)" for j
    using absent i by (auto split: option.split)
  have b3: "board ?w3 c = (if c = src then drop_all i ?d else if c = dst then ?e else board w c)" for c
    by simp
  have at_dst: "find_ticket (board ?w3 dst) i = Some ?t" using assms(11) rows by simp
  have found: "get_ticket svc i ?w3 = Some ?t"
  proof (rule get_unique_row [OF at_dst])
    show "find_ticket (board ?w3 c) i = None" if "c \<noteq> dst" for c
      using that assms(13) by simp
  qed (simp add: assms(10))
  have "migrate_one svc src dst ?d t nt w = (Inr ?t, ?w3)"
    using absent i found assms(11) by (simp add: migrate_one_def Let_def vanished_def del: board_put) simp
  then have "migrate svc i target nt w = Some (Inr ?t, ?w3)"
    using assms(3,5-12) i src(2) get_ticket_homed [OF assms(2,4)] src(1)
    by (simp add: migrate_def migrate_ticket_def open_board_def)
  moreover have "\<forall>c j. j \<noteq> i \<longrightarrow> find_ticket (board ?w3 c) j = find_ticket (board w c) j"
    using rows by simp
  ultimately show ?thesis
    using found at_dst evs cms assms(11) content_renumber
    by (intro exI [of _ ?t] exI [of _ ?w3] exI [of _ "make_event (ext svc) d2 i DRAFT (Some ?note) (clock w)"])
      (simp add: single_row_def migrated_row_def)
qed

definition two_boards :: world where
  "two_boards = seed_world ''alpha'' (seed sample_externals [sample_ticket ''t'' READY])"

definition two_board_service :: service where
  "two_board_service =
     sample_service\<lparr>settings_of := sample_settings\<lparr>repos_config := Some [(''r'', ''beta'')]\<rparr>\<rparr>"

lemma two_boards_facts:
  "wf_world two_boards" "homed two_boards"
  "find_ticket (board two_boards c) i = (if c = ''alpha'' \<and> i = ''t'' then Some (sample_ticket ''t'' READY) else None)"
  "get_ticket two_board_service ''t'' two_boards = Some (sample_ticket ''t'' READY)"
proof -
  show "wf_world two_boards" unfolding two_boards_def by (intro wf_seed_world wf_seed) simp
  show "homed two_boards" unfolding two_boards_def by (intro homed_seed_world) (simp_all add: sample_ticket_def)
  have row: "find_ticket (board two_boards c) i
      = (if c = ''alpha'' \<and> i = ''t'' then Some (sample_ticket ''t'' READY) else None)" for c i
    by (auto simp: two_boards_def find_seed) (simp_all add: sample_ticket_def find_ticket_def empty_board_def lookup_by_def)
  then show "find_ticket (board two_boards c) i
      = (if c = ''alpha'' \<and> i = ''t'' then Some (sample_ticket ''t'' READY) else None)" .
  show "get_ticket two_board_service ''t'' two_boards = Some (sample_ticket ''t'' READY)"
    by (rule get_unique_row [of _ "''alpha''"]) (simp_all add: row, simp add: sample_ticket_def)
qed

lemma migrate_effect_witness:
  "\<exists>t' w'. migrate two_board_service ''t'' ''beta'' None two_boards = Some (Inr t', w')
    \<and> board_id t' = ''beta'' \<and> find_ticket (board w' ''alpha'') ''t'' = None"
proof -
  have t: "kind (sample_ticket ''t'' READY) \<noteq> EPIC" "tstate (sample_ticket ''t'' READY) \<in> set MIGRATABLE_STATES"
    by (simp_all add: sample_ticket_def MIGRATABLE_STATES_def)
  have "children_of (board two_boards ''alpha'') ''t'' = []"
    by (simp add: children_of_def two_boards_def sample_ticket_def)
  moreover have "known_boards (settings_of two_board_service) ''beta'' = Some ''beta''"
    by (simp add: known_boards_def two_board_service_def)
  moreover have "workspaces two_boards (''beta'', ''t'') = None"
    by (simp add: two_boards_def seed_world_def sample_world_def)
  moreover have "find_ticket (board two_boards ''alpha'') ''t'' = Some (sample_ticket ''t'' READY)"
    by (simp add: two_boards_facts(3))
  ultimately show ?thesis
    using migrate_effect [OF two_boards_facts(1,2) _ two_boards_facts(4) t(1) _ t(2), of "''alpha''" "''beta''" "''beta''" None]
    by (simp add: two_boards_facts(3)) blast
qed

text \<open>
  Collecting an epic's subtree ends when the parent links go down in some rank, and then lists
  tickets of the board only.
\<close>

theorem subtree_scan_ends:
  assumes "\<And>c p. \<lbrakk>c \<in> set (tickets d); p \<in> set (tickets d); parent_id c = Some (tid p)\<rbrakk>
      \<Longrightarrow> rank c < (rank p :: nat)"
    and "t \<in> set (tickets d)"
  shows "\<exists>ts. collect_subtree d t = Some (t # ts) \<and> set ts \<subseteq> set (tickets d)"
proof -
  obtain us where us: "scan_subtree d [t] = Some us"
    using scan_subtree_ends [of d rank "[t]"] assms by auto
  then obtain ts where "us = t # ts" by (auto simp: scan_subtree_Cons bind_eq_Some_conv)
  with us scan_subtree_rows [OF us] assms(2) show ?thesis by (auto simp: collect_subtree_def)
qed

lemma subtree_scan_ends_witness:
  "\<exists>ts. collect_subtree (board sample_world ''alpha'') (sample_tickets ! 3) = Some (sample_tickets ! 3 # ts)"
proof -
  let ?d = "board sample_world ''alpha''"
  have rows: "tickets ?d = sample_tickets"
    by (simp add: board_def sample_world_def sample_board_def tickets_fold_events)
  have "sample_tickets ! 3 \<in> set (tickets ?d)"
    unfolding rows by (simp add: sample_tickets_def)
  moreover have "(if parent_id c = None then 1 else 0 :: nat) < (if parent_id p = None then 1 else 0)"
    if "c \<in> set (tickets ?d)" "p \<in> set (tickets ?d)" "parent_id c = Some (tid p)" for c p
    using that unfolding rows by (auto simp: sample_tickets_def sample_ticket_def)
  ultimately show ?thesis
    using subtree_scan_ends [of ?d "\<lambda>t. if parent_id t = None then 1 else 0" "sample_tickets ! 3"] by blast
qed

text \<open>
  It does not end on a ticket that is its own parent: a migration of such an epic never returns.
  Nothing on the way, such as \<open>set_parent\<close>, stops a ticket from becoming its own parent.
\<close>

theorem subtree_scan_diverges:
  assumes "get_ticket svc i w = Some t" "homed w"
  shows "\<exists>w' t'. set_parent svc i i w = (Inr t', w') \<and> parent_id t' = Some i
    \<and> collect_subtree (board w' (board_id t)) t' = None"
proof -
  let ?b = "board_id t" and ?t = "t\<lparr>parent_id := Some i, updated_at := clock w\<rparr>"
  have found: "find_ticket (board w ?b) i = Some t" using get_ticket_homed [OF assms(2,1)] by blast
  then have i: "tid t = i" using find_ticket_SomeD by blast
  let ?d = "put_ticket ?t (board w ?b)"
  have "find_ticket ?d i = Some ?t" using found i by simp
  then have "?t \<in> set (tickets ?d)" using find_ticket_SomeD by blast
  then have "collect_subtree ?d ?t = None"
    using scan_subtree_self_parent [of ?t ?d "[?t]"] i
    by (cases "scan_subtree ?d [?t]") (simp_all add: collect_subtree_def)
  moreover have "set_parent svc i i w = (Inr ?t, put_board ?b ?d w)"
    by (simp add: set_parent_def set_columns_def with_ticket_homed [OF assms(2,1)] Let_def)
  ultimately show ?thesis by simp
qed

lemma subtree_scan_diverges_witness:
  "\<exists>w' t'. set_parent two_board_service ''t'' ''t'' two_boards = (Inr t', w')
     \<and> collect_subtree (board w' (board_id (sample_ticket ''t'' READY))) t' = None"
  using subtree_scan_diverges [OF two_boards_facts(4,2)] by blast

section \<open>Starting over\<close>

text \<open>
  A redraft starts the ticket over: one event is all its history, first of a new chain, there is
  no comment on it any more, its branch is forgotten and its artifacts and clone are gone; the other
  tickets keep their rows, histories and comments. What it does not clear is the memory of a block
  or a pause.
\<close>

theorem redraft_restarts:
  assumes "homed w" "get_ticket svc i w = Some t" "safe_id i"
    and "tstate t \<notin> set NON_REDRAFTABLE" "repos_config (settings_of svc) = Some repos"
  shows "\<exists>t' w' e. redraft svc i body w = (Inr t', w') \<and> get_ticket svc i w' = Some t'
    \<and> tstate t' = DRAFT \<and> branch t' = None
    \<and> events_of (board w' (board_id t)) i = [e] \<and> ev_state e = DRAFT \<and> ev_prev e = None
    \<and> comments_of (board w' (board_id t)) i = []
    \<and> artifacts (ws_dir w' (board_id t, i)) = Map.empty \<and> \<not> has_repo (ws_dir w' (board_id t, i))
    \<and> (\<forall>j. j \<noteq> i \<longrightarrow> find_ticket (board w' (board_id t)) j = find_ticket (board w (board_id t)) j
         \<and> events_of (board w' (board_id t)) j = events_of (board w (board_id t)) j
         \<and> comments_of (board w' (board_id t)) j = comments_of (board w (board_id t)) j)
    \<and> blocked_from t' = blocked_from t \<and> paused_from t' = paused_from t"
proof -
  let ?b = "board_id t"
  let ?d = "board w ?b" and ?k = "(?b, i)"
  have found: "find_ticket ?d i = Some t" "?b \<noteq> []" using get_ticket_homed [OF assms(1,2)] by blast+
  then have i: "tid t = i" using find_ticket_SomeD by blast
  let ?w0 = "put_ws ?k (ws_dir w ?k) w"
  let ?r = "redraft_workspace (ext svc) body (sort_key c_created (comments_of ?d i)) (ws_dir w ?k)"
  let ?w1 = "put_ws ?k (fst ?r) ?w0"
  let ?t = "redraft_row (ext svc) (repo_on_board ?b repos) (snd ?r) (clock w) t"
  let ?e = "put_ticket ?t (bulk_delete_ticket_rows i ?d)"
  let ?d1 = "add_event (ext svc) i DRAFT (Some (redraft_note body)) (clock w) ?e"
  let ?w' = "on_transition svc ?t (state_value (tstate t)) (put_board ?b ?d1 ?w1)"
  have run: "redraft svc i body w = (Inr ?t, ?w')"
    using assms(3-5) found(2) i
    by (simp add: redraft_def with_ticket_homed [OF assms(1,2)] redraft_session_def open_workspace_safe
        Let_def case_prod_beta)
  have h: "homed ?w'"
    using homed.redraft_keeps [OF refl, of w svc i body] assms(1) run by (simp add: homed_def)
  have bulk: "find_ticket (bulk_delete_ticket_rows i ?d) = find_ticket ?d"
    by (simp add: find_ticket_def bulk_delete_ticket_rows_def fun_eq_iff)
  have row: "find_ticket ?d1 i = Some ?t" using found(1) i bulk by simp
  have g: "get_ticket svc i ?w' = Some ?t"
    by (rule get_ticket_put [OF assms(1) h assms(2) _ row]) (simp add: put_board_def)
  have evs: "events_of ?d1 i = [make_event (ext svc) ?e i DRAFT (Some (redraft_note body)) (clock w)]"
    by simp
  have prev: "ev_prev (make_event (ext svc) ?e i DRAFT (Some (redraft_note body)) (clock w)) = None"
    by (simp add: prev_hash_for_last)
  have ws: "ws_dir ?w' ?k = fst ?r" by (simp add: ws_dir_def on_transition_def put_ws_def)
  have "artifacts (fst ?r) = Map.empty \<and> \<not> has_repo (fst ?r)"
    by (simp add: redraft_workspace_def Let_def case_prod_beta prune_clone_def)
  moreover have "find_ticket ?d1 j = find_ticket ?d j \<and> events_of ?d1 j = events_of ?d j
      \<and> comments_of ?d1 j = comments_of ?d j" if "j \<noteq> i" for j
    using that i bulk by simp
  moreover have "comments_of ?d1 i = []" by simp
  ultimately show ?thesis
    using run g evs prev ws
    by (intro exI [of _ ?t] exI [of _ ?w'] exI [of _ "make_event (ext svc) ?e i DRAFT (Some (redraft_note body)) (clock w)"])
      (simp add: redraft_row_def)
qed

lemma redraft_restarts_witness:
  "\<exists>t' w'. redraft two_board_service ''t'' ''again'' two_boards = (Inr t', w') \<and> tstate t' = DRAFT
     \<and> comments_of (board w' (board_id (sample_ticket ''t'' READY))) ''t'' = []"
proof -
  have "tstate (sample_ticket ''t'' READY) \<notin> set NON_REDRAFTABLE" "safe_id ''t''"
    "repos_config (settings_of two_board_service) = Some [(''r'', ''beta'')]"
    by (simp_all add: sample_ticket_def NON_REDRAFTABLE_def safe_id_def two_board_service_def)
  from redraft_restarts [OF two_boards_facts(2,4) this(2,1,3), of "''again''"] show ?thesis by blast
qed

section \<open>Done by hand\<close>

text \<open>
  C36: The evidence a ticket must have to be marked as done. The ticket has a clone and an id that can be
  used as a file name, it is in a state that
  mark_done accepts, and it is not one that may be closed by force; git finds the tips of its branch and
  of the target, the log of the target and a list of changed files, and that list is not empty. When the
  branch is no ancestor of the target, no commit on the target mentions the id, and no changed file that
  can be read on the target contains it, the call fails because the branch is not merged, and no
  board and no notification changes. (Where git gives no answer, knows one of the tips not or fails to
  list the files, and where no file is changed, the check is skipped.)
\<close>

theorem mark_done_refused:
  assumes "homed w" "get_ticket svc i w = Some t" "safe_id i"
    and "tstate t \<notin> set NON_MARK_DONEABLE" "\<not> is_force_close t"
    and "has_repo (ws_dir w (board_id t, i))"
    and "git (ext svc) (board_id t, i) [''rev-parse'', ''--verify'', branch_of (settings_of svc) i (branch t)] = Some (0, tip)"
    and "git (ext svc) (board_id t, i) [''rev-parse'', ''--verify'', target_of (settings_of svc)] = Some (0, sha)"
    and "git (ext svc) (board_id t, i) [''merge-base'', ''--is-ancestor'', strip tip, target_of (settings_of svc)] = Some (rc, out)"
    and "git (ext svc) (board_id t, i) [''log'', target_of (settings_of svc), ''--oneline'', ''--fixed-strings'', ''--grep='' @ i]
           = Some (0, found)"
    and "git (ext svc) (board_id t, i) [''diff'', ''--name-only'', target_of (settings_of svc) @ ''..'' @ strip tip] = Some (0, names)"
    and "rc \<noteq> 0" "strip found = []" "changed_files names \<noteq> []"
    and "\<forall>p \<in> set (changed_files names). \<forall>text.
           git (ext svc) (board_id t, i) [''show'', target_of (settings_of svc) @ '':'' @ p] = Some (0, text) \<longrightarrow> \<not> contains i text"
  shows "\<exists>ref w'. mark_done svc i said author w
      = (Inl (TransitionError i (NotMerged (branch_of (settings_of svc) i (branch t)) ref)), w')
    \<and> boards w' = boards w \<and> notices w' = notices w"
proof -
  let ?k = "(board_id t, i)" and ?st = "settings_of svc"
  let ?w1 = "put_ws ?k (ws_dir w ?k) w"
  have found: "find_ticket (board w (board_id t)) i = Some t" "board_id t \<noteq> []" "board_for svc i w = Inr (board_id t)"
    using get_ticket_homed [OF assms(1,2)] by blast+
  then have i: "tid t = i" using find_ticket_SomeD by blast
  have none: "\<not> content_evidence (ext svc) ?k (target_of ?st) i (changed_files names)"
    using assms(15) by (auto simp: content_evidence_iff)
  obtain ref where refused: "verify_merge_before_done (ext svc) ?st ?k (ws_dir ?w1 ?k) i (branch t)
      = Inl (TransitionError i (NotMerged (branch_of ?st i (branch t)) ref))"
    using assms(6-14) none by (simp add: verify_merge_before_done_def Let_def)
  have "mark_done svc i said author w = mark_done_session svc i said author (board_id t) (board w (board_id t)) t w"
    using found by (simp add: mark_done_def with_ticket_bound_def open_board_def Let_def)
  also have "\<dots> = (Inl (TransitionError i (NotMerged (branch_of ?st i (branch t)) ref)), ?w1)"
    using assms(3-5) found(2) i refused by (simp add: mark_done_session_def open_workspace_safe)
  finally show ?thesis by simp
qed

text \<open>A clone whose branch is at \<open>abc\<close>, one commit ahead of the target in \<open>f.py\<close>.\<close>

definition unmerged_git :: "string \<times> string \<Rightarrow> string list \<Rightarrow> (int \<times> string) option" where
  "unmerged_git k args =
     (case args of
        c # _ \<Rightarrow>
          if c = ''merge-base'' then Some (1, [])
          else if c = ''rev-parse'' then Some (0, ''abc'')
          else if c = ''diff'' then Some (0, ''f.py'')
          else Some (0, [])
      | [] \<Rightarrow> None)"

definition clone_world :: world where
  "clone_world = two_boards\<lparr>workspaces := [(''alpha'', ''t'') \<mapsto> empty_workspace\<lparr>has_repo := True\<rparr>]\<rparr>"

lemma mark_done_refused_witness:
  "\<exists>ref w'. mark_done (sample_service\<lparr>ext := sample_externals\<lparr>git := unmerged_git\<rparr>\<rparr>) ''t'' [] ''me'' clone_world
      = (Inl (TransitionError ''t'' (NotMerged ''mill/t'' ref)), w')"
proof -
  let ?svc = "sample_service\<lparr>ext := sample_externals\<lparr>git := unmerged_git\<rparr>\<rparr>" and ?t = "sample_ticket ''t'' READY"
  have b: "board clone_world = board two_boards" "boards clone_world = boards two_boards"
    by (simp_all add: clone_world_def)
  have h: "homed clone_world" using two_boards_facts(2) by (simp add: homed_def all_boards_def b)
  have t: "tid ?t = ''t''" "tstate ?t = READY" "board_id ?t = ''alpha''" "branch ?t = None" "source ?t = ''user''"
    by (simp_all add: sample_ticket_def)
  have g: "get_ticket ?svc ''t'' clone_world = Some ?t"
    by (rule get_unique_row [of _ "''alpha''"]) (simp_all add: b two_boards_facts(3) t)
  have i: "safe_id ''t''" by (simp add: safe_id_def)
  have s: "tstate ?t \<notin> set NON_MARK_DONEABLE" "\<not> is_force_close ?t"
    by (simp_all add: t NON_MARK_DONEABLE_def is_force_close_def)
  have r: "has_repo (ws_dir clone_world (board_id ?t, ''t''))"
    by (simp add: t ws_dir_def clone_world_def)
  have ext: "ext ?svc = sample_externals\<lparr>git := unmerged_git\<rparr>" by simp
  have names: "changed_files ''f.py'' = [''f.py'']"
    by (simp add: changed_files_def strip_def strip_by_def rstrip_by_def lstrip_by_def is_space_def code_def)
  have "branch_of (settings_of ?svc) ''t'' (branch ?t) = ''mill/t''"
    by (simp add: branch_of_def t sample_service_def sample_settings_def)
  moreover have "\<exists>ref w'. mark_done ?svc ''t'' [] ''me'' clone_world
      = (Inl (TransitionError ''t'' (NotMerged (branch_of (settings_of ?svc) ''t'' (branch ?t)) ref)), w')
    \<and> boards w' = boards clone_world \<and> notices w' = notices clone_world"
    by (rule mark_done_refused [OF h g i s r, where tip = "''abc''" and sha = "''abc''" and rc = 1
          and out = "[]" and found = "[]" and names = "''f.py''"])
      (simp_all add: ext unmerged_git_def names strip_def strip_by_def rstrip_by_def lstrip_by_def)
  ultimately show ?thesis by auto
qed

end
