(* ===== verification/Family.thy ===== *)
theory Family
  imports Moves "HOL-Library.Transitive_Closure_Table"
begin

text \<open>
  Parents and children on one board: the walk up that looks for a priority to inherit, the walk down
  that collects all descendants, and the priority flag that spreads over them. Both walks are
  compared with reachability along the parent links, which may contain cycles.
\<close>

section \<open>Up: inherited priority\<close>

definition parent_of :: "board_db \<Rightarrow> string \<Rightarrow> string \<Rightarrow> bool" where
  "parent_of d i j \<longleftrightarrow> (\<exists>t. find_ticket d i = Some t \<and> parent_id t = Some j \<and> j \<noteq> [])"

lemma priority_above_sound:
  "priority_above d seen cur \<Longrightarrow>
     \<exists>i a t. cur = Some i \<and> (parent_of d)\<^sup>*\<^sup>* i a \<and> find_ticket d a = Some t \<and> priority t"
proof (induction d seen cur rule: priority_above.induct)
  case (1 d seen cur)
  have go: "\<not> (\<not> truthy cur \<or> the cur \<in> set seen)"
    using 1(2) by (subst (asm) priority_above.simps) (auto split: if_splits)
  then obtain i where i: "cur = Some i" by auto
  obtain p where p: "find_ticket d i = Some p" "priority p \<or> priority_above d (i # seen) (parent_id p)"
    using 1(2) go i by (subst (asm) priority_above.simps) (auto split: option.splits)
  show ?case
  proof (cases "priority p")
    case True
    with i p show ?thesis by blast
  next
    case False
    then have up: "priority_above d (i # seen) (parent_id p)" using p(2) by blast
    obtain j a t where j: "parent_id p = Some j" "(parent_of d)\<^sup>*\<^sup>* j a" "find_ticket d a = Some t" "priority t"
      using 1(1) [OF go, of p] p(1) i up by auto
    moreover have "j \<noteq> []" using up j(1) by (auto simp: priority_above.simps)
    ultimately have "parent_of d i j" using p(1) by (simp add: parent_of_def)
    then have "(parent_of d)\<^sup>*\<^sup>* i a" using j(2) by (rule converse_rtranclp_into_rtranclp)
    with i j(3,4) show ?thesis by blast
  qed
qed

lemma priority_above_path:
  "\<lbrakk>rtrancl_path (parent_of d) i ps a; find_ticket d a = Some t; priority t; distinct (i # ps);
    set (i # ps) \<inter> set seen = {}; i \<noteq> []\<rbrakk> \<Longrightarrow> priority_above d seen (Some i)"
proof (induction i ps a arbitrary: seen rule: rtrancl_path.induct)
  case (base a)
  then show ?case by (simp add: priority_above.simps)
next
  case (step i j ps a)
  then obtain p where p: "find_ticket d i = Some p" "parent_id p = Some j" "j \<noteq> []"
    by (auto simp: parent_of_def)
  have "priority_above d (i # seen) (Some j)" using step p(3) by (intro step.IH) auto
  with p step.prems show ?case by (subst priority_above.simps) simp
qed

lemma priority_above_iff:
  assumes "i \<noteq> []"
  shows "priority_above d [] (Some i) \<longleftrightarrow> (\<exists>a t. (parent_of d)\<^sup>*\<^sup>* i a \<and> find_ticket d a = Some t \<and> priority t)"
proof
  assume "\<exists>a t. (parent_of d)\<^sup>*\<^sup>* i a \<and> find_ticket d a = Some t \<and> priority t"
  then obtain a t ps where "rtrancl_path (parent_of d) i ps a" and t: "find_ticket d a = Some t" "priority t"
    by (auto simp: rtranclp_eq_rtrancl_path)
  then obtain ps where "rtrancl_path (parent_of d) i ps a" "distinct (i # ps)"
    using rtrancl_path_distinct by metis
  with t assms show "priority_above d [] (Some i)" by (intro priority_above_path) auto
qed (use priority_above_sound in blast)

section \<open>Down: all descendants\<close>

definition child_of :: "board_db \<Rightarrow> string \<Rightarrow> string \<Rightarrow> bool" where
  "child_of d p c \<longleftrightarrow> (\<exists>t \<in> set (tickets d). parent_id t = Some p \<and> tid t = c)"

lemma union_by_id_ids: "tid ` set (union_by_id seen ts) = tid ` set ts - set seen"
  by (induction seen ts rule: union_by_id.induct) auto

lemma union_by_id_distinct: "distinct (map tid (union_by_id seen ts))"
  by (induction seen ts rule: union_by_id.induct) (auto simp: union_by_id_ids)

lemma new_children_ids: "tid ` set (new_children d visited p) = {c. child_of d p c} - set visited"
  by (auto simp: new_children_def union_by_id_ids children_of_def child_of_def)

lemma new_children_rows: "t \<in> set (new_children d visited p) \<Longrightarrow> t \<in> set (tickets d) \<and> tid t \<notin> set visited"
  using union_by_id_subset union_by_id_fresh by (fastforce simp: new_children_def children_of_def)

lemma descend_rows: "t \<in> set (descend d visited queue) \<Longrightarrow> t \<in> set (tickets d) \<and> tid t \<notin> set visited"
proof (induction d visited queue rule: descend.induct)
  case (2 d visited p queue)
  then show ?case using new_children_rows [of t d visited p] by (auto simp: Let_def)
qed simp

lemma images_disjoint:
  assumes "\<And>u. u \<in> B \<Longrightarrow> f u \<notin> f ` A"
  shows "f ` A \<inter> f ` B = {}"
proof (rule equals0I)
  fix y assume "y \<in> f ` A \<inter> f ` B"
  then have y: "y \<in> f ` A" "y \<in> f ` B" by simp_all
  obtain u where "y = f u" "u \<in> B" using y(2) by (rule imageE)
  then have "u \<in> B" "y = f u" "y \<in> f ` A" using y(1) by simp_all
  with assms [of u] show False by simp
qed

lemma descend_distinct: "distinct (map tid (descend d visited queue))"
proof (induction d visited queue rule: descend.induct)
  case (2 d visited p queue)
  let ?new = "new_children d visited p"
  let ?rest = "descend d (map tid ?new @ visited) (queue @ map tid ?new)"
  have "tid u \<notin> tid ` set ?new" if "u \<in> set ?rest" for u
    using descend_rows [OF that] by simp
  then have "tid ` set ?new \<inter> tid ` set ?rest = {}" by (rule images_disjoint)
  with 2 show ?case by (simp add: Let_def new_children_def union_by_id_distinct)
qed simp

lemma descend_sound:
  "t \<in> set (descend d visited queue) \<Longrightarrow> \<exists>p \<in> set queue. (child_of d)\<^sup>+\<^sup>+ p (tid t)"
proof (induction d visited queue rule: descend.induct)
  case (2 d visited p queue)
  let ?new = "new_children d visited p"
  have kid: "child_of d p (tid c)" if "c \<in> set ?new" for c
    using that new_children_ids [of d visited p] by blast
  consider "t \<in> set ?new" | q where "q \<in> set queue \<or> q \<in> tid ` set ?new" "(child_of d)\<^sup>+\<^sup>+ q (tid t)"
    using 2 by (auto simp: Let_def)
  then show ?case
  proof cases
    case 1
    then show ?thesis using kid by auto
  next
    case (2 q)
    then show ?thesis using kid by (auto intro: tranclp_into_tranclp2)
  qed
qed simp

text \<open>What has been visited or found contains the children of all that was queued or found.\<close>

lemma descend_closed:
  "\<lbrakk>p \<in> set queue \<or> p \<in> tid ` set (descend d visited queue); child_of d p c\<rbrakk>
   \<Longrightarrow> c \<in> set visited \<or> c \<in> tid ` set (descend d visited queue)"
proof (induction d visited queue rule: descend.induct)
  case (2 d visited q queue)
  let ?new = "new_children d visited q"
  let ?rest = "descend d (map tid ?new @ visited) (queue @ map tid ?new)"
  have all: "descend d visited (q # queue) = ?new @ ?rest" by (simp add: Let_def)
  show ?case
  proof (cases "p = q")
    case True
    then have "c \<in> set visited \<or> c \<in> tid ` set ?new" using 2(3) new_children_ids [of d visited q] by blast
    then show ?thesis unfolding all by auto
  next
    case False
    then have "p \<in> set (queue @ map tid ?new) \<or> p \<in> tid ` set ?rest" using 2(2) unfolding all by auto
    then have "c \<in> set (map tid ?new @ visited) \<or> c \<in> tid ` set ?rest" using 2(1) [OF refl _ 2(3)] by blast
    then show ?thesis unfolding all by auto
  qed
qed simp

lemma descend_ids: "tid ` set (descend d [i] [i]) = {c. (child_of d)\<^sup>+\<^sup>+ i c} - {i}"
proof
  show "tid ` set (descend d [i] [i]) \<subseteq> {c. (child_of d)\<^sup>+\<^sup>+ i c} - {i}"
    using descend_sound [of _ d "[i]" "[i]"] descend_rows [of _ d "[i]" "[i]"] by auto
  show "{c. (child_of d)\<^sup>+\<^sup>+ i c} - {i} \<subseteq> tid ` set (descend d [i] [i])"
  proof
    fix c assume c: "c \<in> {c. (child_of d)\<^sup>+\<^sup>+ i c} - {i}"
    then have "(child_of d)\<^sup>+\<^sup>+ i c" by simp
    then have "c = i \<or> c \<in> tid ` set (descend d [i] [i])"
    proof induction
      case (base c)
      then show ?case using descend_closed [of i "[i]" d "[i]" c] by auto
    next
      case (step b c)
      then show ?case using descend_closed [of b "[i]" d "[i]" c] by auto
    qed
    with c show "c \<in> tid ` set (descend d [i] [i])" by simp
  qed
qed

text \<open>
  The descendants of a ticket are exactly the other tickets of its board that the parent links
  lead down to, each once, even when the links run in a circle.
\<close>

theorem descendants_reachable:
  assumes "wf_world w" "homed w" "get_ticket svc i w = Some t"
  shows "\<exists>ts. all_descendants svc i w = Inr ts \<and> distinct (map tid ts)
    \<and> (\<forall>u. u \<in> set ts \<longleftrightarrow> u \<in> set (tickets (board w (board_id t))) \<and> tid u \<noteq> i
          \<and> (child_of (board w (board_id t)))\<^sup>+\<^sup>+ i (tid u))"
proof -
  let ?d = "board w (board_id t)"
  have "distinct (map tid (tickets ?d))" using wf_world_board [OF assms(1)] by (simp add: wf_board_def rows_ok_def)
  then have inj: "inj_on tid (set (tickets ?d))" by (simp add: distinct_map)
  have "all_descendants svc i w = Inr (descend ?d [i] [i])"
    using get_ticket_opens [OF assms(2,3)] by (simp add: all_descendants_def)
  moreover have "u \<in> set (descend ?d [i] [i]) \<longleftrightarrow> u \<in> set (tickets ?d) \<and> tid u \<noteq> i \<and> (child_of ?d)\<^sup>+\<^sup>+ i (tid u)" for u
  proof
    assume "u \<in> set (descend ?d [i] [i])"
    then show "u \<in> set (tickets ?d) \<and> tid u \<noteq> i \<and> (child_of ?d)\<^sup>+\<^sup>+ i (tid u)"
      using descend_rows [of u ?d "[i]" "[i]"] descend_sound [of u ?d "[i]" "[i]"] by simp
  next
    assume u: "u \<in> set (tickets ?d) \<and> tid u \<noteq> i \<and> (child_of ?d)\<^sup>+\<^sup>+ i (tid u)"
    then have "tid u \<in> tid ` set (descend ?d [i] [i])" unfolding descend_ids by simp
    then obtain v where v: "tid u = tid v" "v \<in> set (descend ?d [i] [i])" by (rule imageE)
    then have "v \<in> set (tickets ?d)" using descend_rows by blast
    with u v(1) inj have "u = v" by (blast dest: inj_onD)
    with v(2) show "u \<in> set (descend ?d [i] [i])" by simp
  qed
  ultimately show ?thesis using descend_distinct by blast
qed

lemma descendants_reachable_witness:
  "\<exists>ts. all_descendants two_board_service ''t'' two_boards = Inr ts \<and> distinct (map tid ts)"
  using descendants_reachable [OF two_boards_facts(1,2,4)] by blast

section \<open>Spreading the flag\<close>








end
