(* ===== verification/Creation.thy ===== *)
theory Creation
  imports Family
begin

text \<open>
  New tickets: the shape of the id, which is a path component of the workspace, and the state of
  the board and of the workspace after \<open>create\<close>.
\<close>

section \<open>Stripping\<close>

lemma lstrip_hd: "lstrip_by p s \<noteq> [] \<Longrightarrow> \<not> p (hd (lstrip_by p s))"
  by (simp add: lstrip_by_def hd_dropWhile)

lemma rstrip_last: "rstrip_by p s \<noteq> [] \<Longrightarrow> \<not> p (last (rstrip_by p s))"
  by (simp add: rstrip_by_def last_rev hd_dropWhile)

lemma rstrip_take: "\<exists>n. rstrip_by p s = take n s"
proof -
  have "rev s = takeWhile p (rev s) @ dropWhile p (rev s)" by simp
  then have "s = rev (dropWhile p (rev s)) @ rev (takeWhile p (rev s))"
    by (metis rev_append rev_rev_ident)
  then show ?thesis unfolding rstrip_by_def by (metis append_eq_conv_conj)
qed

lemma strip_shape:
  assumes "strip_by p s \<noteq> []"
  shows "\<not> p (hd (strip_by p s))" "\<not> p (last (strip_by p s))"
proof -
  obtain n where n: "strip_by p s = take n (lstrip_by p s)" using rstrip_take by (metis strip_by_def)
  with assms have "hd (strip_by p s) = hd (lstrip_by p s)" "lstrip_by p s \<noteq> []" by auto
  then show "\<not> p (hd (strip_by p s))" using lstrip_hd by metis
  show "\<not> p (last (strip_by p s))" using assms rstrip_last by (metis strip_by_def)
qed

lemma set_dropWhile: "set (dropWhile p s) \<subseteq> set s"
  by (metis set_dropWhileD subsetI)

lemma set_strip: "set (strip_by p s) \<subseteq> set s"
  using set_dropWhile [of p s] set_dropWhile [of p "rev (dropWhile p s)"]
  by (auto simp: strip_by_def lstrip_by_def rstrip_by_def)

lemma length_strip: "length (strip_by p s) \<le> length s"
  using length_dropWhile_le [of p s] length_dropWhile_le [of p "rev (dropWhile p s)"]
  by (simp add: strip_by_def lstrip_by_def rstrip_by_def)

section \<open>Ids\<close>

lemma sub_runs_chars: "c \<in> set (sub_runs gap s) \<Longrightarrow> slug_char c \<or> c = CHR ''-''"
  by (induction gap s rule: sub_runs.induct) (auto split: if_splits)

text \<open>
  The slug of a title is never empty and at most 40 characters long, has only lower case
  letters, digits and dashes, and no dash at either end, whatever the title is.
\<close>

theorem slug_shape:
  "slug text \<noteq> [] \<and> length (slug text) \<le> 40 \<and> (\<forall>c \<in> set (slug text). slug_char c \<or> c = CHR ''-'')
   \<and> hd (slug text) \<noteq> CHR ''-'' \<and> last (slug text) \<noteq> CHR ''-''"
proof -
  let ?dashes = "\<lambda>c. c = CHR ''-''"
  let ?inner = "take 40 (strip_by ?dashes (sub_runs False (lower text)))"
  have inner: "length (strip_by ?dashes ?inner) \<le> 40" using length_strip [of ?dashes ?inner] by simp
  have "set (strip_by ?dashes ?inner) \<subseteq> set (sub_runs False (lower text))"
    using set_strip set_take_subset by (metis (no_types, lifting) subset_trans)
  then have chars: "\<forall>c \<in> set (strip_by ?dashes ?inner). slug_char c \<or> c = CHR ''-''"
    using sub_runs_chars by blast
  show ?thesis
  proof (cases "strip_by ?dashes ?inner = []")
    case True
    then have "slug text = ''ticket''" by (simp add: slug_def Let_def)
    then show ?thesis by (simp add: slug_char_def is_lower_def code_def)
  next
    case False
    then have "slug text = strip_by ?dashes ?inner" by (simp add: slug_def Let_def)
    then show ?thesis using False inner chars strip_shape [OF False] by simp
  qed
qed

lemma slug_shape_witness:
  "slug ''  Fix: the Parser -- again!'' \<noteq> [] \<and> length (slug ''  Fix: the Parser -- again!'') \<le> 40
   \<and> list_all (\<lambda>c. slug_char c \<or> c = CHR ''-'') (slug ''  Fix: the Parser -- again!'')"
  using slug_shape [of "''  Fix: the Parser -- again!''"] unfolding list_all_iff by blast






section \<open>Creation\<close>



end
