(* ===== verification/Texts.thy ===== *)
theory Texts
  imports Seed
begin

text \<open>
  What is written can be read back: JSON texts, the dependency column, the counters and the
  exhaustion marker among the artifacts, and the two column types that convert values on the way to
  the database; and what a resume does to the guard counters of the merge stage.
\<close>

section \<open>JSON and the columns that hold it\<close>

text \<open>
  \<open>json.loads\<close> reads back what \<open>json.dumps\<close> wrote, with the default and with the
  compact separators, for every value without floats: nested lists and objects, any text, any
  integer.
\<close>

theorem json_roundtrip:
  assumes "no_float j"
  shows "loads (dumps j) = Some j \<and> loads (dumps_compact j) = Some j"
  using assms by simp

lemma json_roundtrip_witness:
  "loads (dumps (JObj [(''k'', JArr [JInt (- 3), JStr ''a\"b'', JNull])])) = Some (JObj [(''k'', JArr [JInt (- 3), JStr ''a\"b'', JNull])])"
  using json_roundtrip [of "JObj [(''k'', JArr [JInt (- 3), JStr ''a\"b'', JNull])]"] by simp

text \<open>
  The lists a ticket's columns are set to come back from them: the dependencies as given, the
  unblock targets without repetitions, empty ids and the ticket itself, the labels without
  repetitions.
\<close>

theorem list_columns_roundtrip:
  assumes "homed w" "get_ticket svc i w = Some t" "i \<notin> set deps"
  shows "(\<exists>t' w'. set_depends_on svc i deps w = (Inr t', w') \<and> parse_depends_on t' = deps)
    \<and> (\<exists>t' w'. set_unblocks svc i targets w = (Inr t', w')
          \<and> parse_depends_on_str (unblocks t') = filter (\<lambda>j. j \<noteq> [] \<and> j \<noteq> i) (dedup_first targets))
    \<and> (\<exists>t' w'. set_labels svc i ls w = (Inr t', w') \<and> parse_labels (labels t') = dedup_first ls)"
proof -
  have labels: "parse_labels = parse_depends_on_str"
    by (simp add: fun_eq_iff parse_labels_def parse_depends_on_str_def)
  show ?thesis
    using assms(3)
    by (simp add: set_depends_on_def set_unblocks_def set_labels_def set_columns_def
        with_ticket_homed [OF assms(1,2)] Let_def parse_depends_on_def labels parse_json_list)
qed

lemma list_columns_roundtrip_witness:
  "\<exists>t' w'. set_depends_on sample_service ''c1'' [''t1'', ''t2''] sample_world = (Inr t', w')
     \<and> parse_depends_on t' = [''t1'', ''t2'']"
proof -
  have "find_ticket (board sample_world ''alpha'') ''c1'' = Some (sample_tickets ! 4)"
    by (simp add: board_def sample_world_def sample_board_def tickets_fold_events find_ticket_def lookup_by_def
        sample_tickets_def sample_ticket_def)
  then have "get_ticket sample_service ''c1'' sample_world = Some (sample_tickets ! 4)"
    by (simp add: get_ticket_def sample_service_def resolve_board_id_def) (simp add: sample_tickets_def sample_ticket_def)
  from list_columns_roundtrip [OF sample_homed this, of "[''t1'', ''t2'']"] show ?thesis by simp
qed

section \<open>Files among the artifacts\<close>

lemma hex_digit_no_cr: "n < 16 \<Longrightarrow> hex_digit n \<noteq> CHR 0x0D"
proof -
  have "code CHR 0x0D = 13" by (simp add: code_def)
  moreover assume "n < 16"
  then have "code (hex_digit n) \<noteq> 13" by (simp add: hex_digit_def)
  ultimately show ?thesis by metis
qed

lemma escape_no_cr: "CHR 0x0D \<notin> set (escape_char c)"
proof -
  have "code c < 256" by (simp add: code_def)
  then have "code c div 16 < 16" "code c mod 16 < 16" by arith+
  note hex_digit_no_cr [OF this(1)] hex_digit_no_cr [OF this(2)]
  then show ?thesis by (auto simp: escape_char_def)
qed

lemma dump_str_no_cr: "CHR 0x0D \<notin> set (dump_str s)"
  using escape_no_cr by (auto simp: dump_str_def)

text \<open>
  A counter that is written is read back, whatever the number, and a missing or garbled file
  counts as zero; the exhaustion marker comes back with its fingerprint and its count.
\<close>

theorem counters_roundtrip:
  assumes "fp \<noteq> []" "strip fp = fp" "1 \<le> k"
  shows "read_counter (write_counter name n a name) = n
    \<and> read_zero_diff_count (write_zero_diff_count n a) = n
    \<and> read_counter None = 0 \<and> read_counter (Some ''garbled'') = 0
    \<and> read_spawn_exhaustion_marker (record_spawn_exhaustion_marker fp k a) = Inr (Some (fp, k))"
proof -
  have shown: "strip (read_text (show_int m)) = show_int m" for m
    by (simp add: read_text_no_cr show_int_no_cr)
  let ?j = "JObj [(''spec_fp'', JStr fp), (''count'', JInt k)]"
  have "dumps ?j = ''{'' @ (dump_str ''spec_fp'' @ '': '' @ dump_str fp) @ '', '' @ (dump_str ''count'' @ '': '' @ show_int k) @ ''}''"
    by (simp add: dumps_def)
  then have "CHR 0x0D \<notin> set (dumps ?j)" using dump_str_no_cr show_int_no_cr by simp
  then have "loads (read_text (dumps ?j)) = Some ?j" by (simp add: read_text_no_cr)
  moreover have "py_int (strip (read_text ''garbled'')) = None"
    by (simp add: read_text_no_cr strip_def strip_by_def rstrip_by_def lstrip_by_def is_space_def code_def py_int_def
        is_digit_def)
  ultimately show ?thesis
    using assms
    by (simp add: read_counter_def write_counter_def read_zero_diff_count_def write_zero_diff_count_def shown
        read_spawn_exhaustion_marker_def record_spawn_exhaustion_marker_def dict_get_def obj_get_def py_str_def
        int_of_json_def Let_def)
qed

lemma counters_roundtrip_witness:
  "read_spawn_exhaustion_marker (record_spawn_exhaustion_marker ''abc'' 2 Map.empty) = Inr (Some (''abc'', 2))"
proof -
  have "strip ''abc'' = ''abc''"
    by (simp add: strip_def strip_by_def rstrip_by_def lstrip_by_def is_space_def code_def)
  then show ?thesis using counters_roundtrip [of "''abc''" 2 "''n''" 0 Map.empty] by simp
qed

lemma reset_labels: "set (fst (reset_tripped cs a)) \<subseteq> fst ` set cs"
  by (induction cs a rule: reset_tripped.induct) (auto simp: case_prod_beta Let_def simp del: unlink_apply)

text \<open>
  The reset of the tripped CI guards: afterwards every guard with a positive ceiling is below
  it, the guards that were below keep their count, the labels name exactly the tripped ones, and no
  other file changes but the failure fingerprint that goes with the first guard.
\<close>

theorem tripped_guards_reset:
  fixes st :: settings
  defines "caps \<equiv> [(''ci_identical_failure_count.txt'', ci_fix_max_identical_failures st),
       (''auto_fix_cycles.txt'', auto_fix_max_cycles st)]"
  shows "\<exists>reset a'. reset_tripped_ci_fix_guards st a = (reset, a')
    \<and> set reset = {f. \<exists>cap. (f, cap) \<in> set caps \<and> 0 < cap \<and> cap \<le> read_counter (a f)}
    \<and> (\<forall>(f, cap) \<in> set caps. 0 < cap \<longrightarrow> read_counter (a' f) < cap)
    \<and> (\<forall>f. f \<notin> set reset \<and> f \<noteq> ''ci_failure_fingerprint.txt'' \<longrightarrow> a' f = a f)"
proof -
  let ?first = "''ci_identical_failure_count.txt''" and ?second = "''auto_fix_cycles.txt''"
  have files: "?first \<noteq> ?second" "?first \<noteq> ''ci_failure_fingerprint.txt''" "?second \<noteq> ''ci_failure_fingerprint.txt''"
    by simp_all
  have dist: "distinct (map fst caps)" by (simp add: caps_def)
  obtain reset a1 where run: "reset_tripped caps a = (reset, a1)" by fastforce
  have each: "a1 f = (if 0 < cap \<and> cap \<le> read_counter (a f) then None else a f)
      \<and> (f \<in> set reset \<longleftrightarrow> 0 < cap \<and> cap \<le> read_counter (a f))" if "(f, cap) \<in> set caps" for f cap
    using reset_tripped_sound [OF that dist, of a] run by simp
  have keep: "a1 f = a f" if "f \<notin> set reset" for f
    using reset_tripped_other [of f caps a] each [of f] that run by (cases "f \<in> fst ` set caps") auto
  let ?a' = "if ?first \<in> set reset then unlink ''ci_failure_fingerprint.txt'' a1 else a1"
  have a': "?a' f = a1 f" if "f \<noteq> ''ci_failure_fingerprint.txt''" for f using that by simp
  have names: "f \<noteq> ''ci_failure_fingerprint.txt''" if "(f, cap) \<in> set caps" for f cap
    using that files by (auto simp: caps_def)
  have "set reset \<subseteq> fst ` set caps"
    using reset_labels [of caps a] run by simp
  then have labels: "set reset = {f. \<exists>cap. (f, cap) \<in> set caps \<and> 0 < cap \<and> cap \<le> read_counter (a f)}"
    using each by force
  have below: "read_counter (?a' f) < cap" if "(f, cap) \<in> set caps" "0 < cap" for f cap
    using each [OF that(1)] a' [OF names [OF that(1)]] that(2) by (simp split: if_splits)
  have "reset_tripped_ci_fix_guards st a = (reset, ?a')"
    using run by (simp add: reset_tripped_ci_fix_guards_def caps_def)
  moreover have "\<forall>(f, cap) \<in> set caps. 0 < cap \<longrightarrow> read_counter (?a' f) < cap"
    using below by blast
  moreover have "\<forall>f. f \<notin> set reset \<and> f \<noteq> ''ci_failure_fingerprint.txt'' \<longrightarrow> ?a' f = a f"
    using keep a' by simp
  ultimately show ?thesis using labels by blast
qed

lemma tripped_guards_reset_witness:
  "\<exists>reset a'. reset_tripped_ci_fix_guards sample_settings [''auto_fix_cycles.txt'' \<mapsto> ''7''] = (reset, a')
     \<and> read_counter (a' ''auto_fix_cycles.txt'') < 2"
proof -
  have "(''auto_fix_cycles.txt'', 2) \<in> set [(''ci_identical_failure_count.txt'', ci_fix_max_identical_failures sample_settings),
       (''auto_fix_cycles.txt'', auto_fix_max_cycles sample_settings)]"
    by (simp add: sample_settings_def)
  with tripped_guards_reset [of sample_settings "[''auto_fix_cycles.txt'' \<mapsto> ''7'']"] show ?thesis by fastforce
qed

section \<open>Column types\<close>

text \<open>
  The column type for kinds: a member, or its name in any case, is stored as the name, and comes
  back as the member; a text that names no kind is refused on the way in.
\<close>

theorem kind_column_roundtrip:
  "kind_bind_param (BindMember k) = Inr (Some (kind_name k))
   \<and> kind_result_value (Some (kind_name k)) = Inr (Some k)
   \<and> (upper s = kind_name k \<longrightarrow> kind_bind_param (BindText s) = Inr (Some (kind_name k)) \<and> kind_result_value (Some s) = Inr (Some k))
   \<and> ((\<forall>k'. upper s \<noteq> kind_name k') \<longrightarrow> kind_bind_param (BindText s) = Inl s)"
proof -
  have 1: "kind_by_name (kind_name k) = Some k" for k by (cases k) (simp_all add: kind_by_name_def)
  have 2: "kind_by_name u = None" if "\<forall>k'. u \<noteq> kind_name k'" for u
  proof (cases "kind_by_name u")
    case (Some k)
    then have "kind_name k = u" unfolding kind_by_name_def by (metis (mono_tags) find_Some_iff)
    with that show ?thesis by blast
  qed simp
  show ?thesis using 1 2 [of "upper s"] by (simp add: kind_bind_param_def kind_result_value_def)
qed

lemma kind_column_roundtrip_witness:
  "kind_bind_param (BindText ''Epic'') = Inr (Some ''EPIC'') \<and> kind_result_value (Some ''Epic'') = Inr (Some EPIC)"
proof -
  have "upper ''Epic'' = kind_name EPIC"
    by code_simp
  then show ?thesis using kind_column_roundtrip [of EPIC "''Epic''"] by simp
qed

text \<open>
  C40: The column type for timestamps: an aware datetime of any offset comes back as the same
  instant, in UTC; a naive one is refused on the way in; and binding what was read writes the same
  column again.
\<close>

theorem timestamp_column_roundtrip:
  "(tz_bind_param (Some d) = Inl () \<longleftrightarrow> tzinfo d = None)
   \<and> (\<forall>s. tz_bind_param (Some d) = Inr s \<longrightarrow>
        (\<exists>d'. tz_result_value s = Some d' \<and> instant_of d' = instant_of d \<and> tzinfo d' = Some 0
            \<and> tz_bind_param (Some d') = Inr s))"
  by (auto simp: tz_bind_param_def tz_result_value_def instant_of_def split: option.splits)

lemma timestamp_column_roundtrip_witness:
  "\<exists>d'. tz_result_value (Some \<lparr>wall = 0, tzinfo = None\<rparr>) = Some d' \<and> instant_of d' = 0"
proof -
  have "tz_bind_param (Some \<lparr>wall = 3600, tzinfo = Some 3600\<rparr>) = Inr (Some \<lparr>wall = 0, tzinfo = None\<rparr>)"
    by (simp add: tz_bind_param_def)
  then show ?thesis
    using timestamp_column_roundtrip [of "\<lparr>wall = 3600, tzinfo = Some 3600\<rparr>"] by (auto simp: instant_of_def)
qed

end
