(* ===== verification/Gate.thy ===== *)
theory Gate
  imports Prelude "HOL-Library.Product_Lexorder"
begin

text \<open>
  The admission gate of the worker, \<open>runtime/worker/_gate.py\<close>: a counter of free slots, some of them
  reserved, and a heap of waiting callers ordered by rank and arrival. An \<open>acquire\<close> that has to
  wait is split at its \<open>await\<close>: what runs up to it, the grant of the slot by a release, the
  resumption, and the two ways a cancellation can reach it. Between two awaits the event loop runs
  nothing else, so these pieces are the steps of a transition system; the slots that are out, and
  the callers, are kept beside the gate.
\<close>

section \<open>The gate\<close>

type_synonym rank = "int \<times> int"

datatype future = Pending | Granted | Cancelled

text \<open>An entry of the heap; \<open>seq\<close> stands for the future, which is looked up in \<open>futures\<close>.\<close>

record waiter =
  w_rank :: rank
  w_seq :: nat
  w_reserved_ok :: bool

record gate =
  slots :: int
  reserved :: int
  waiters :: "waiter list"
  gate_seq :: nat
  futures :: "nat \<rightharpoonup> future"

datatype gate_error = ValueBelowOne | ReservedNegative

definition new_gate :: "int \<Rightarrow> int \<Rightarrow> gate_error + gate" where
  "new_gate n r =
     (if n < 1 then Inl ValueBelowOne
      else if r < 0 then Inl ReservedNegative
      else Inr \<lparr>slots = n, reserved = min r (n - 1), waiters = [], gate_seq = 0, futures = Map.empty\<rparr>)"

definition locked :: "gate \<Rightarrow> bool" where
  "locked g \<longleftrightarrow> slots g \<le> 0"

definition can_admit :: "gate \<Rightarrow> bool \<Rightarrow> bool" where
  "can_admit g reserved_ok = (if slots g \<le> 0 then False else reserved_ok \<or> reserved g < slots g)"

definition admissible_waiter_exists :: "gate \<Rightarrow> bool" where
  "admissible_waiter_exists g \<longleftrightarrow>
     (\<exists>e \<in> set (waiters g). futures g (w_seq e) \<noteq> Some Cancelled \<and> can_admit g (w_reserved_ok e))"

text \<open>\<open>heapq\<close>, on entries compared by rank and arrival: a list in that order, popped at its head.\<close>

definition entry_key :: "waiter \<Rightarrow> rank \<times> nat" where
  "entry_key e = (w_rank e, w_seq e)"

definition heappush :: "waiter \<Rightarrow> waiter list \<Rightarrow> waiter list" where
  "heappush e ws = insort_key entry_key e ws"

text \<open>\<open>acquire\<close> up to its \<open>await\<close>: the slot is taken, or the number of the future waited for.\<close>

definition acquire :: "rank \<Rightarrow> bool \<Rightarrow> gate \<Rightarrow> nat option \<times> gate" where
  "acquire rk reserved_ok g =
     (if can_admit g reserved_ok \<and> \<not> admissible_waiter_exists g
      then (None, g\<lparr>slots := slots g - 1\<rparr>)
      else (let k = Suc (gate_seq g);
                e = \<lparr>w_rank = rk, w_seq = k, w_reserved_ok = reserved_ok\<rparr>
            in (Some k, g\<lparr>gate_seq := k, futures := (futures g)(k \<mapsto> Pending),
                          waiters := heappush e (waiters g)\<rparr>)))"

text \<open>The loop of \<open>_release_slot\<close>; \<open>skipped\<close> is pushed back at its end.\<close>

fun grant :: "gate \<Rightarrow> waiter list \<Rightarrow> waiter list \<Rightarrow> gate" where
  "grant g skipped [] = g\<lparr>waiters := fold heappush skipped []\<rparr>"
| "grant g skipped (e # es) =
     (if \<not> 0 < slots g then g\<lparr>waiters := fold heappush skipped (e # es)\<rparr>
      else if futures g (w_seq e) = Some Cancelled then grant g skipped es
      else if \<not> can_admit g (w_reserved_ok e) then grant g (skipped @ [e]) es
      else g\<lparr>slots := slots g - 1, futures := (futures g)(w_seq e \<mapsto> Granted),
             waiters := fold heappush skipped es\<rparr>)"

definition release_slot :: "gate \<Rightarrow> gate" where
  "release_slot g = grant (g\<lparr>slots := slots g + 1\<rparr>) [] (waiters g)"

text \<open>The \<open>except CancelledError\<close> branch: a slot already granted is handed on.\<close>

definition acquire_cancelled :: "nat \<Rightarrow> gate \<Rightarrow> gate" where
  "acquire_cancelled k g =
     (if futures g k = Some Granted then release_slot g
      else g\<lparr>waiters := filter (\<lambda>e. w_seq e \<noteq> k) (waiters g)\<rparr>)"

section \<open>The heap as an interface\<close>

text \<open>What the gate relies on: a push keeps what is there, and the head is the least.\<close>

locale priority_list =
  fixes key :: "'e \<Rightarrow> 'k::linorder"
    and push :: "'e \<Rightarrow> 'e list \<Rightarrow> 'e list"
    and ordered :: "'e list \<Rightarrow> bool"
  assumes set_push: "set (push e es) = insert e (set es)"
    and ordered_push: "ordered es \<Longrightarrow> ordered (push e es)"
    and ordered_Cons: "ordered (e # es) \<longleftrightarrow> ordered es \<and> (\<forall>x \<in> set es. key e \<le> key x)"
    and ordered_Nil: "ordered []"
    and push_least: "\<forall>x \<in> set es. key e < key x \<Longrightarrow> push e es = e # es"
    and push_over: "key x < key e \<Longrightarrow> push e (x # es) = x # push e es"
begin

lemma set_push_all: "set (fold push xs es) = set xs \<union> set es"
  by (induction xs arbitrary: es) (auto simp: set_push)

lemma push_append: "\<lbrakk>\<forall>x \<in> set xs. key x < key e; \<forall>x \<in> set es. key e < key x\<rbrakk> \<Longrightarrow> push e (xs @ es) = xs @ e # es"
  by (induction xs) (auto simp: push_least push_over)

lemma ordered_sorted: "ordered es \<longleftrightarrow> sorted (map key es)"
  by (induction es) (auto simp: ordered_Nil ordered_Cons)

text \<open>Pushing back what was popped before the rest restores the list.\<close>

lemma push_back:
  "\<lbrakk>ordered (xs @ es); distinct (map key (xs @ es))\<rbrakk> \<Longrightarrow> fold push xs es = xs @ es"
proof (induction xs rule: rev_induct)
  case (snoc x xs)
  have "ordered (xs @ es)" "distinct (map key (xs @ es))"
    using snoc.prems by (simp_all add: ordered_sorted sorted_append)
  moreover have "push x (xs @ es) = xs @ x # es"
    using snoc.prems by (intro push_append) (auto simp: ordered_sorted sorted_append less_le image_iff)
  ultimately show ?case using snoc.IH by simp
qed simp

end

interpretation wait_heap: priority_list entry_key heappush "\<lambda>es. sorted (map entry_key es)"
  by unfold_locales
    (auto simp: heappush_def set_insort_key sorted_insort_key less_imp_le intro: insort_is_Cons)

section \<open>What a release does\<close>

definition ready :: "gate \<Rightarrow> waiter \<Rightarrow> bool" where
  "ready g e \<longleftrightarrow> futures g (w_seq e) \<noteq> Some Cancelled \<and> can_admit g (w_reserved_ok e)"

abbreviation live :: "gate \<Rightarrow> waiter \<Rightarrow> bool" where
  "live g e \<equiv> futures g (w_seq e) \<noteq> Some Cancelled"

abbreviation heap_ok :: "waiter list \<Rightarrow> bool" where
  "heap_ok ws \<equiv> sorted (map entry_key ws) \<and> distinct (map w_seq ws)"

lemma admissible_ready: "admissible_waiter_exists g \<longleftrightarrow> (\<exists>e \<in> set (waiters g). ready g e)"
  by (auto simp: admissible_waiter_exists_def ready_def)

lemma heap_ok_append: "heap_ok (xs @ e # ys) \<Longrightarrow> heap_ok (xs @ ys)"
  by (simp only: map_append list.map sorted_append sorted_simps distinct_append distinct.simps set_append list.set) blast

lemma heap_ok_filter: "heap_ok ws \<Longrightarrow> heap_ok (filter P ws)"
  by (auto simp: sorted_filter distinct_map_filter)

lemma keys_distinct: "distinct (map w_seq ws) \<Longrightarrow> distinct (map entry_key ws)"
proof -
  have "map w_seq ws = map snd (map entry_key ws)" by (simp add: entry_key_def)
  then show "distinct (map w_seq ws) \<Longrightarrow> distinct (map entry_key ws)" using distinct_map by fastforce
qed

lemma push_back_heap: "heap_ok (xs @ es) \<Longrightarrow> fold heappush xs es = xs @ es"
  by (rule wait_heap.push_back) (simp_all only: keys_distinct)

lemma grant_skip [simp]:
  "0 < slots g \<Longrightarrow> futures g (w_seq e) = Some Cancelled \<Longrightarrow> grant g skipped (e # es) = grant g skipped es"
  "0 < slots g \<Longrightarrow> live g e \<Longrightarrow> \<not> ready g e \<Longrightarrow> grant g skipped (e # es) = grant g (skipped @ [e]) es"
  by (simp_all add: ready_def)

lemma grant_none:
  "\<lbrakk>heap_ok (skipped @ es); 0 < slots g; \<forall>x \<in> set es. \<not> ready g x\<rbrakk>
   \<Longrightarrow> grant g skipped es = g\<lparr>waiters := skipped @ filter (live g) es\<rparr>"
proof (induction es arbitrary: skipped)
  case Nil
  then show ?case using push_back_heap [of skipped "[]"] by simp
next
  case (Cons x es)
  have other: "\<forall>x \<in> set es. \<not> ready g x" "\<not> ready g x" using Cons.prems(3) by simp_all
  show ?case
  proof (cases "live g x")
    case True
    have "heap_ok ((skipped @ [x]) @ es)" using Cons.prems(1) by simp
    then show ?thesis
      using Cons.IH [of "skipped @ [x]"] Cons.prems(2) other True by (simp del: grant.simps)
  next
    case False
    then show ?thesis
      using Cons.IH [OF heap_ok_append [OF Cons.prems(1)]] Cons.prems(2) other by (simp del: grant.simps)
  qed
qed

lemma grant_some:
  "\<lbrakk>heap_ok (skipped @ pre @ e # post); 0 < slots g; \<forall>x \<in> set pre. \<not> ready g x; ready g e\<rbrakk>
   \<Longrightarrow> grant g skipped (pre @ e # post) =
     g\<lparr>slots := slots g - 1, futures := (futures g)(w_seq e \<mapsto> Granted),
       waiters := skipped @ filter (live g) pre @ post\<rparr>"
proof (induction pre arbitrary: skipped)
  case Nil
  have "heap_ok (skipped @ post)" using Nil(1) heap_ok_append by simp
  then show ?case using Nil(2,4) push_back_heap [of skipped post] by (simp add: ready_def fun_upd_def)
next
  case (Cons x pre)
  have other: "\<forall>x \<in> set pre. \<not> ready g x" "\<not> ready g x" using Cons.prems(3) by simp_all
  show ?case
  proof (cases "live g x")
    case True
    have "heap_ok ((skipped @ [x]) @ pre @ e # post)" using Cons.prems(1) by simp
    then show ?thesis
      using Cons.IH [of "skipped @ [x]"] Cons.prems(2,4) other True by (simp del: grant.simps)
  next
    case False
    have "heap_ok (skipped @ pre @ e # post)" using heap_ok_append [of skipped x "pre @ e # post"] Cons.prems(1) by simp
    then show ?thesis
      using Cons.IH Cons.prems(2,4) other False by (simp del: grant.simps)
  qed
qed

text \<open>
  A release either leaves the slot free, because no caller that waits may take it, or hands it to the
  caller with the best rank of those that may.
\<close>

lemma release_cases:
  assumes "heap_ok (waiters g)" "0 \<le> slots g"
  defines "g1 \<equiv> g\<lparr>slots := slots g + 1\<rparr>"
  obtains (kept) "\<forall>x \<in> set (waiters g). \<not> ready g1 x"
      "release_slot g = g1\<lparr>waiters := filter (live g) (waiters g)\<rparr>"
  | (handed) pre e post where "waiters g = pre @ e # post" "ready g1 e"
      "\<forall>x \<in> set (waiters g). ready g1 x \<longrightarrow> entry_key e \<le> entry_key x"
      "release_slot g = g\<lparr>futures := (futures g)(w_seq e \<mapsto> Granted), waiters := filter (live g) pre @ post\<rparr>"
proof (cases "\<exists>x \<in> set (waiters g). ready g1 x")
  case False
  have "grant g1 [] (waiters g) = g1\<lparr>waiters := [] @ filter (live g1) (waiters g)\<rparr>"
    using assms False by (intro grant_none) (auto simp: g1_def)
  then show ?thesis using kept False by (simp add: release_slot_def g1_def)
next
  case True
  obtain pre e post where ws: "waiters g = pre @ e # post" "ready g1 e" "\<forall>x \<in> set pre. \<not> ready g1 x"
    using split_list_first_prop [OF True] by blast
  have "grant g1 [] (pre @ e # post) = g1\<lparr>slots := slots g1 - 1, futures := (futures g1)(w_seq e \<mapsto> Granted),
      waiters := [] @ filter (live g1) pre @ post\<rparr>"
    using assms ws by (intro grant_some) (auto simp: g1_def)
  then have "release_slot g = g\<lparr>futures := (futures g)(w_seq e \<mapsto> Granted), waiters := filter (live g) pre @ post\<rparr>"
    by (simp add: release_slot_def g1_def ws(1))
  moreover have "\<forall>x \<in> set (waiters g). ready g1 x \<longrightarrow> entry_key e \<le> entry_key x"
    using assms(1) ws by (auto simp: sorted_append)
  ultimately show ?thesis using handed ws by blast
qed

section \<open>The callers\<close>

text \<open>
  The gate with the calls that wait in it: \<open>held\<close> counts the slots in use by callers with and
  without the privilege, \<open>callers\<close> are the calls suspended at their \<open>await\<close>, \<open>doomed\<close> those of them
  that will be resumed by a cancellation.
\<close>

record gate_pool =
  pool_gate :: gate
  held :: "bool \<Rightarrow> nat"
  callers :: "nat \<rightharpoonup> bool"
  doomed :: "nat set"

text \<open>
  \<open>Task.cancel\<close> cancels the future when it is pending; when the slot was granted already the error
  meets the task at its next resumption.
\<close>

definition cancel_future :: "nat \<Rightarrow> gate \<Rightarrow> gate" where
  "cancel_future k g =
     (if futures g k = Some Pending then g\<lparr>futures := (futures g)(k \<mapsto> Cancelled)\<rparr> else g)"

definition forget :: "nat \<Rightarrow> gate \<Rightarrow> gate" where
  "forget k g = g\<lparr>futures := (futures g)(k := None)\<rparr>"

inductive gate_step :: "gate_pool \<Rightarrow> gate_pool \<Rightarrow> bool" where
  enter: "acquire rk ok (pool_gate s) = (None, g) \<Longrightarrow>
     gate_step s (s\<lparr>pool_gate := g, held := (held s)(ok := Suc (held s ok))\<rparr>)"
| queue_up: "acquire rk ok (pool_gate s) = (Some k, g) \<Longrightarrow>
     gate_step s (s\<lparr>pool_gate := g, callers := (callers s)(k \<mapsto> ok)\<rparr>)"
| wake: "\<lbrakk>callers s k = Some ok; futures (pool_gate s) k = Some Granted; k \<notin> doomed s\<rbrakk> \<Longrightarrow>
     gate_step s (s\<lparr>pool_gate := forget k (pool_gate s), callers := (callers s)(k := None),
                    held := (held s)(ok := Suc (held s ok))\<rparr>)"
| cancel: "callers s k = Some ok \<Longrightarrow>
     gate_step s (s\<lparr>pool_gate := cancel_future k (pool_gate s), doomed := insert k (doomed s)\<rparr>)"
| unwind: "\<lbrakk>callers s k = Some ok; k \<in> doomed s\<rbrakk> \<Longrightarrow>
     gate_step s (s\<lparr>pool_gate := forget k (acquire_cancelled k (pool_gate s)),
                    callers := (callers s)(k := None), doomed := doomed s - {k}\<rparr>)"
| leave: "held s ok = Suc h \<Longrightarrow>
     gate_step s (s\<lparr>pool_gate := release_slot (pool_gate s), held := (held s)(ok := h)\<rparr>)"

definition idle_pool :: "gate \<Rightarrow> gate_pool" where
  "idle_pool g = \<lparr>pool_gate = g, held = (\<lambda>_. 0), callers = Map.empty, doomed = {}\<rparr>"

abbreviation gate_reaches :: "gate_pool \<Rightarrow> gate_pool \<Rightarrow> bool" where
  "gate_reaches \<equiv> gate_step\<^sup>*\<^sup>*"

text \<open>Slots out: in use, or granted to a caller that has not run since.\<close>

definition granted :: "gate_pool \<Rightarrow> bool \<Rightarrow> nat set" where
  "granted s ok = {k. callers s k = Some ok \<and> futures (pool_gate s) k = Some Granted}"

definition out :: "gate_pool \<Rightarrow> bool \<Rightarrow> nat" where
  "out s ok = held s ok + card (granted s ok)"

section \<open>The semaphore behind the gate\<close>

text \<open>
  What the gate promises, without queue, ranks and futures: \<open>a ok\<close> callers with and without the
  privilege are out; one more may go if the caps leave room for it, one may come back, and one that
  comes back may hand its slot to another.
\<close>

definition room :: "int \<Rightarrow> int \<Rightarrow> (bool \<Rightarrow> nat) \<Rightarrow> bool \<Rightarrow> bool" where
  "room n r a ok \<longleftrightarrow> int (a True) + int (a False) < n \<and> (ok \<or> int (a False) < n - r)"

inductive semaphore :: "int \<Rightarrow> int \<Rightarrow> (bool \<Rightarrow> nat) \<Rightarrow> (bool \<Rightarrow> nat) \<Rightarrow> bool" for n r where
  admit: "room n r a ok \<Longrightarrow> semaphore n r a (a(ok := Suc (a ok)))"
| return: "a ok = Suc h \<Longrightarrow> semaphore n r a (a(ok := h))"
| hand_on: "\<lbrakk>a ok = Suc h; b = a(ok := h); room n r b ok'\<rbrakk> \<Longrightarrow> semaphore n r a (b(ok' := Suc (b ok')))"

section \<open>The invariant\<close>

text \<open>The queue: entries, futures and suspended calls belong together, and nobody waits in vain.\<close>

definition queue_ok :: "gate_pool \<Rightarrow> bool" where
  "queue_ok s \<longleftrightarrow> heap_ok (waiters (pool_gate s))
    \<and> (\<forall>e \<in> set (waiters (pool_gate s)). callers s (w_seq e) = Some (w_reserved_ok e)
          \<and> futures (pool_gate s) (w_seq e) \<in> {Some Pending, Some Cancelled})
    \<and> (\<forall>k. futures (pool_gate s) k = Some Pending \<longrightarrow> k \<in> w_seq ` set (waiters (pool_gate s)))
    \<and> (\<forall>k. futures (pool_gate s) k = Some Cancelled \<longrightarrow> k \<in> doomed s)
    \<and> (\<forall>k. futures (pool_gate s) k = None \<longleftrightarrow> callers s k = None)
    \<and> (\<forall>k. callers s k \<noteq> None \<longrightarrow> k \<le> gate_seq (pool_gate s))
    \<and> \<not> admissible_waiter_exists (pool_gate s)"

definition slots_ok :: "int \<Rightarrow> gate_pool \<Rightarrow> bool" where
  "slots_ok n s \<longleftrightarrow> 0 \<le> slots (pool_gate s) \<and> 0 \<le> reserved (pool_gate s) \<and> reserved (pool_gate s) < n
    \<and> slots (pool_gate s) + int (out s True) + int (out s False) = n
    \<and> int (out s False) \<le> n - reserved (pool_gate s)"

lemma can_admit_cong:
  "slots g = slots g' \<Longrightarrow> reserved g = reserved g' \<Longrightarrow> can_admit g = can_admit g'"
  by (simp add: can_admit_def fun_eq_iff)

lemma finite_granted: "queue_ok s \<Longrightarrow> finite (granted s ok)"
  by (rule finite_subset [of _ "{..gate_seq (pool_gate s)}"]) (auto simp: queue_ok_def granted_def)

lemma acquire_enter:
  "acquire rk ok g = (None, g') \<Longrightarrow>
     can_admit g ok \<and> \<not> admissible_waiter_exists g \<and> g' = g\<lparr>slots := slots g - 1\<rparr>"
  by (auto simp: acquire_def Let_def split: if_splits)

lemma acquire_queue:
  "acquire rk ok g = (Some k, g') \<Longrightarrow>
     k = Suc (gate_seq g) \<and> \<not> (can_admit g ok \<and> \<not> admissible_waiter_exists g)
     \<and> g' = g\<lparr>gate_seq := k, futures := (futures g)(k \<mapsto> Pending),
              waiters := heappush \<lparr>w_rank = rk, w_seq = k, w_reserved_ok = ok\<rparr> (waiters g)\<rparr>"
  by (auto simp: acquire_def Let_def split: if_splits)

lemma heap_ok_push:
  "\<lbrakk>heap_ok ws; w_seq e \<notin> w_seq ` set ws\<rbrakk> \<Longrightarrow> heap_ok (heappush e ws)"
  unfolding heappush_def
  by (simp add: sorted_insort_key distinct_map set_insort_key distinct_insort inj_on_def) (metis image_eqI)

text \<open>Entries that are not pending may leave the heap, and futures of entries that leave may be granted.\<close>

lemma queue_filter:
  fixes s v fs Q
  defines "g \<equiv> pool_gate s"
  defines "g' \<equiv> g\<lparr>slots := v, futures := fs, waiters := filter Q (waiters g)\<rparr>"
  assumes "queue_ok s"
    and keep: "\<And>x. \<lbrakk>x \<in> set (waiters g); fs (w_seq x) = Some Pending\<rbrakk> \<Longrightarrow> Q x"
    and same: "\<And>x. \<lbrakk>x \<in> set (waiters g); Q x\<rbrakk> \<Longrightarrow> fs (w_seq x) = futures g (w_seq x)"
    and grants: "\<And>k. fs k = futures g k \<or> futures g k = Some Pending \<and> fs k = Some Granted"
    and quiet: "\<And>x. \<lbrakk>x \<in> set (waiters g); Q x\<rbrakk> \<Longrightarrow> \<not> ready g' x"
  shows "queue_ok (s\<lparr>pool_gate := g'\<rparr>)"
proof -
  have "k \<in> w_seq ` set (filter Q (waiters g))" if "fs k = Some Pending" for k
  proof -
    have "futures g k = Some Pending" using grants [of k] that by auto
    then obtain x where "x \<in> set (waiters g)" "k = w_seq x" using assms(3) by (auto simp: queue_ok_def g_def)
    then show ?thesis using keep that by auto
  qed
  moreover have "fs k = None \<longleftrightarrow> futures g k = None" "fs k = Some Cancelled \<longrightarrow> futures g k = Some Cancelled" for k
    using grants [of k] by auto
  moreover have "\<not> admissible_waiter_exists g'" using quiet by (auto simp: admissible_ready g'_def)
  ultimately show ?thesis
    using assms(3) same by (simp add: queue_ok_def g'_def g_def heap_ok_filter sorted_filter distinct_map_filter)
qed

lemma filter_pre:
  "distinct (map w_seq (pre @ e # post)) \<Longrightarrow>
     filter P pre @ post = filter (\<lambda>x. w_seq x \<noteq> w_seq e \<and> (P x \<or> x \<in> set post)) (pre @ e # post)"
proof -
  assume d: "distinct (map w_seq (pre @ e # post))"
  let ?F = "\<lambda>x. w_seq x \<noteq> w_seq e \<and> (P x \<or> x \<in> set post)"
  have "filter ?F pre = filter P pre" using d by (intro filter_cong) (auto simp: image_iff)
  moreover have "filter ?F post = post" using d by (auto simp: filter_id_conv image_iff)
  ultimately show ?thesis by simp
qed

lemma release_keeps:
  fixes s :: gate_pool and n :: int
  defines "s' \<equiv> s\<lparr>pool_gate := release_slot (pool_gate s)\<rparr>"
  assumes q: "queue_ok s" and nn: "0 \<le> slots (pool_gate s)"
    "0 \<le> reserved (pool_gate s)" "reserved (pool_gate s) < n"
    "slots (pool_gate s) + int (out s True) + int (out s False) = n - 1"
    "int (out s False) \<le> n - reserved (pool_gate s)"
  shows "queue_ok s' \<and> slots_ok n s' \<and> (out s' = out s \<or> (\<exists>ok. out s' = (out s)(ok := Suc (out s ok))))"
proof -
  let ?g = "pool_gate s"
  have heap: "heap_ok (waiters ?g)" using q by (simp add: queue_ok_def)
  show ?thesis
  proof (cases rule: release_cases [OF heap nn(1)])
    case 1
    have rel: "release_slot ?g = ?g\<lparr>slots := slots ?g + 1, futures := futures ?g, waiters := filter (live ?g) (waiters ?g)\<rparr>"
      by (simp add: 1(2))
    have "queue_ok s'"
      unfolding s'_def rel using 1(1)
      by (intro queue_filter [OF q]) (auto simp: ready_def can_admit_def split: if_splits)
    moreover have "granted s' ok = granted s ok" for ok by (simp add: granted_def s'_def 1(2))
    then have "out s' = out s" by (simp add: out_def s'_def fun_eq_iff)
    ultimately show ?thesis using nn by (simp add: slots_ok_def s'_def 1(2))
  next
    case (2 pre e post)
    let ?Q = "\<lambda>x. w_seq x \<noteq> w_seq e \<and> (live ?g x \<or> x \<in> set post)"
    have at_e: "callers s (w_seq e) = Some (w_reserved_ok e)" "futures ?g (w_seq e) = Some Pending"
      using q 2(1,2) by (auto simp: queue_ok_def ready_def)
    have rel: "release_slot ?g = ?g\<lparr>slots := slots ?g, futures := (futures ?g)(w_seq e \<mapsto> Granted),
        waiters := filter ?Q (waiters ?g)\<rparr>"
      using heap 2(1) filter_pre [of pre e post "live ?g"] by (simp add: 2(4))
    have quiet: "\<forall>x \<in> set (waiters ?g). \<not> ready ?g x"
      using q by (auto simp: queue_ok_def admissible_ready)
    have "queue_ok s'"
      unfolding s'_def rel using at_e(2) quiet
      by (intro queue_filter [OF q]) (auto simp: ready_def can_admit_def split: if_splits)
    moreover have "granted s' ok = (if ok = w_reserved_ok e then insert (w_seq e) (granted s ok) else granted s ok)" for ok
      using at_e by (auto simp: granted_def s'_def 2(4))
    then have "out s' = (out s)(w_reserved_ok e := Suc (out s (w_reserved_ok e)))"
      using finite_granted [OF q] at_e by (simp add: out_def s'_def granted_def fun_eq_iff)
    ultimately show ?thesis
      using nn 2(2) by (cases "w_reserved_ok e") (auto simp: slots_ok_def s'_def 2(4) ready_def can_admit_def split: if_splits)
  qed
qed

text \<open>A future that is in no entry of the heap is not looked at by a release.\<close>

lemma forget_release:
  assumes "k \<notin> w_seq ` set (waiters g)"
  shows "release_slot (forget k g) = forget k (release_slot g)"
proof -
  have same: "k \<notin> w_seq ` set es \<Longrightarrow> grant (forget k h) skipped es = forget k (grant h skipped es)" for h skipped es
    by (induction h skipped es rule: grant.induct) (auto simp: forget_def can_admit_def fun_upd_twist)
  have eq: "(forget k g)\<lparr>slots := slots (forget k g) + 1\<rparr> = forget k (g\<lparr>slots := slots g + 1\<rparr>)"
    "waiters (forget k g) = waiters g"
    by (simp_all add: forget_def)
  show ?thesis unfolding release_slot_def eq by (rule same [OF assms])
qed

text \<open>A call that is over: its future and its entry go.\<close>

lemma drop_call:
  fixes s :: gate_pool and k :: nat and D :: "nat set"
  defines "g \<equiv> pool_gate s"
  defines "s' \<equiv> s\<lparr>pool_gate := forget k (g\<lparr>waiters := filter (\<lambda>e. w_seq e \<noteq> k) (waiters g)\<rparr>),
      callers := (callers s)(k := None), doomed := D\<rparr>"
  assumes "queue_ok s" "doomed s - {k} \<subseteq> D"
  shows "queue_ok s'"
proof -
  have "\<not> admissible_waiter_exists (pool_gate s')"
    using assms(3) by (auto simp: queue_ok_def admissible_waiter_exists_def s'_def g_def forget_def can_admit_def split: if_splits)
  moreover have "heap_ok (waiters (pool_gate s'))"
    using assms(3) by (simp add: queue_ok_def s'_def g_def forget_def heap_ok_filter sorted_filter distinct_map_filter)
  ultimately show ?thesis
    using assms(3,4) unfolding queue_ok_def by (auto simp: s'_def g_def forget_def image_iff)
qed

lemma filter_absent: "k \<notin> f ` set xs \<Longrightarrow> filter (\<lambda>e. f e \<noteq> k) xs = xs"
  by (auto simp: filter_id_conv)

lemma granted_not_waiting:
  "\<lbrakk>queue_ok s; futures (pool_gate s) k = Some Granted\<rbrakk> \<Longrightarrow> k \<notin> w_seq ` set (waiters (pool_gate s))"
  by (auto simp: queue_ok_def)

text \<open>One step keeps both.\<close>

lemma enter_keeps:
  assumes "queue_ok s" "slots_ok n s" "acquire rk ok (pool_gate s) = (None, g)"
  defines "s' \<equiv> s\<lparr>pool_gate := g, held := (held s)(ok := Suc (held s ok))\<rparr>"
  shows "queue_ok s' \<and> slots_ok n s' \<and> out s' = (out s)(ok := Suc (out s ok))"
proof -
  have g: "g = (pool_gate s)\<lparr>slots := slots (pool_gate s) - 1\<rparr>" "can_admit (pool_gate s) ok"
    using acquire_enter [OF assms(3)] by simp_all
  have "\<not> admissible_waiter_exists g"
    using assms(1) by (auto simp: queue_ok_def admissible_waiter_exists_def g(1) can_admit_def split: if_splits)
  then have "queue_ok s'" using assms(1) by (simp add: queue_ok_def s'_def g(1))
  moreover have "out s' = (out s)(ok := Suc (out s ok))"
    by (simp add: out_def granted_def s'_def g(1) fun_eq_iff)
  ultimately show ?thesis
    using assms(2) g by (cases ok) (auto simp: slots_ok_def s'_def can_admit_def split: if_splits)
qed

lemma queue_up_keeps:
  assumes "queue_ok s" "slots_ok n s" "acquire rk ok (pool_gate s) = (Some k, g)"
  defines "s' \<equiv> s\<lparr>pool_gate := g, callers := (callers s)(k \<mapsto> ok)\<rparr>"
  shows "queue_ok s' \<and> slots_ok n s' \<and> out s' = out s"
proof -
  let ?e = "\<lparr>w_rank = rk, w_seq = k, w_reserved_ok = ok\<rparr>"
  let ?g = "pool_gate s"
  have g: "k = Suc (gate_seq ?g)" "\<not> (can_admit ?g ok \<and> \<not> admissible_waiter_exists ?g)"
    "g = ?g\<lparr>gate_seq := k, futures := (futures ?g)(k \<mapsto> Pending), waiters := heappush ?e (waiters ?g)\<rparr>"
    using acquire_queue [OF assms(3)] by simp_all
  have fresh: "callers s k = None" "futures ?g k = None"
    using assms(1) g(1) by (auto simp: queue_ok_def)
  then have new: "k \<notin> w_seq ` set (waiters ?g)" using assms(1) by (auto simp: queue_ok_def)
  have ws: "set (waiters g) = insert ?e (set (waiters ?g))" "heap_ok (waiters g)"
    using new assms(1) heap_ok_push [of "waiters ?g" ?e] by (auto simp: g(3) wait_heap.set_push queue_ok_def)
  have "\<not> admissible_waiter_exists g"
    using assms(1) g(2) new unfolding admissible_waiter_exists_def queue_ok_def ws
    by (auto simp: g(3) can_admit_def split: if_splits)
  then have "queue_ok s'"
    using assms(1) ws g(1) new fresh unfolding queue_ok_def s'_def by (auto simp: g(3) image_iff)
  moreover have "out s' b = out s b" for b
  proof -
    have "granted s' b = granted s b" using fresh by (auto simp: granted_def s'_def g(3))
    then show ?thesis by (simp add: out_def s'_def)
  qed
  then have "out s' = out s" by (simp add: fun_eq_iff)
  ultimately show ?thesis using assms(2) by (simp add: slots_ok_def s'_def g(3))
qed

lemma wake_keeps:
  assumes "queue_ok s" "slots_ok n s" "callers s k = Some ok" "futures (pool_gate s) k = Some Granted" "k \<notin> doomed s"
  defines "s' \<equiv> s\<lparr>pool_gate := forget k (pool_gate s), callers := (callers s)(k := None),
      held := (held s)(ok := Suc (held s ok))\<rparr>"
  shows "queue_ok s' \<and> slots_ok n s' \<and> out s' = out s"
proof -
  let ?g = "pool_gate s"
  have same: "filter (\<lambda>e. w_seq e \<noteq> k) (waiters ?g) = waiters ?g"
    using filter_absent granted_not_waiting assms(1,4) by metis
  have "queue_ok (s\<lparr>pool_gate := forget k ?g, callers := (callers s)(k := None), doomed := doomed s\<rparr>)"
    using drop_call [OF assms(1), of k "doomed s"] by (simp add: same)
  then have "queue_ok s'" by (simp add: queue_ok_def s'_def)
  moreover have "out s' b = out s b" for b
  proof -
    have "granted s' b = (if b = ok then granted s b - {k} else granted s b)" "b = ok \<Longrightarrow> k \<in> granted s b"
      using assms(3,4) by (auto simp: granted_def s'_def forget_def)
    then show ?thesis
      using finite_granted [OF assms(1)] card_Suc_Diff1 [of "granted s b" k] by (auto simp: out_def s'_def)
  qed
  then have "out s' = out s" by (simp add: fun_eq_iff)
  ultimately show ?thesis using assms(2) by (simp add: slots_ok_def s'_def forget_def)
qed

lemma cancel_keeps:
  fixes s :: gate_pool and k :: nat
  assumes "queue_ok s" "slots_ok n s"
  defines "s' \<equiv> s\<lparr>pool_gate := cancel_future k (pool_gate s), doomed := insert k (doomed s)\<rparr>"
  shows "queue_ok s' \<and> slots_ok n s' \<and> out s' = out s"
proof -
  have "\<not> admissible_waiter_exists (pool_gate s')"
    using assms(1) by (auto simp: queue_ok_def admissible_waiter_exists_def s'_def cancel_future_def can_admit_def split: if_splits)
  then have "queue_ok s'"
    using assms(1) unfolding queue_ok_def by (auto simp: s'_def cancel_future_def image_iff)
  moreover have "granted s' b = granted s b" for b
    by (auto simp: granted_def s'_def cancel_future_def)
  then have "out s' = out s" by (simp add: out_def s'_def fun_eq_iff)
  ultimately show ?thesis using assms(2) by (simp add: slots_ok_def s'_def cancel_future_def)
qed

lemma unwind_keeps:
  assumes "queue_ok s" "slots_ok n s" "callers s k = Some ok" "k \<in> doomed s"
  defines "s' \<equiv> s\<lparr>pool_gate := forget k (acquire_cancelled k (pool_gate s)), callers := (callers s)(k := None),
      doomed := doomed s - {k}\<rparr>"
  shows "queue_ok s' \<and> slots_ok n s' \<and> (out s' = out s \<or>
    (\<exists>h. out s ok = Suc h \<and> (out s' = (out s)(ok := h) \<or>
      (\<exists>b. out s' = ((out s)(ok := h))(b := Suc (((out s)(ok := h)) b))))))"
proof (cases "futures (pool_gate s) k = Some Granted")
  case True
  let ?g = "pool_gate s"
  let ?s1 = "s\<lparr>pool_gate := forget k ?g, callers := (callers s)(k := None), doomed := doomed s - {k}\<rparr>"
  have free: "k \<notin> w_seq ` set (waiters ?g)" using granted_not_waiting [OF assms(1) True] .
  then have "queue_ok ?s1" using drop_call [OF assms(1), of k "doomed s - {k}"] by (simp add: filter_absent)
  moreover have k: "k \<in> granted s ok" using assms(3) True by (simp add: granted_def)
  then have card: "card (granted s ok) = Suc (card (granted s ok - {k}))"
    using finite_granted [OF assms(1)] card_Suc_Diff1 by metis
  then have "0 < out s ok" by (simp add: out_def)
  then obtain h where h: "out s ok = Suc h" by (auto dest: gr0_implies_Suc)
  moreover have o1: "out ?s1 = (out s)(ok := h)"
  proof
    fix b
    have "granted ?s1 b = (if b = ok then granted s b - {k} else granted s b)"
      using assms(3) by (auto simp: granted_def forget_def)
    then show "out ?s1 b = ((out s)(ok := h)) b" using card h by (simp add: out_def)
  qed
  moreover have s': "s' = ?s1\<lparr>pool_gate := release_slot (pool_gate ?s1)\<rparr>"
    using True free by (simp add: s'_def acquire_cancelled_def forget_release)
  moreover have "slots (pool_gate ?s1) + int (out ?s1 True) + int (out ?s1 False) = n - 1"
    "int (out ?s1 False) \<le> n - reserved (pool_gate ?s1)"
    using assms(2) h unfolding o1 by (cases ok; simp add: slots_ok_def forget_def)+
  ultimately have "queue_ok s' \<and> slots_ok n s' \<and> (out s' = out ?s1 \<or> (\<exists>b. out s' = (out ?s1)(b := Suc (out ?s1 b))))"
    using release_keeps [of ?s1 n] assms(2) by (simp add: slots_ok_def forget_def)
  then show ?thesis using h unfolding o1 by blast
next
  case False
  have "queue_ok s'"
    using drop_call [OF assms(1), of k "doomed s - {k}"] False by (simp add: s'_def acquire_cancelled_def)
  moreover have "granted s' b = granted s b" for b
    using False by (auto simp: granted_def s'_def acquire_cancelled_def forget_def)
  then have "out s' = out s" by (simp add: out_def s'_def fun_eq_iff)
  ultimately show ?thesis
    using assms(2) False by (simp add: slots_ok_def s'_def acquire_cancelled_def forget_def)
qed

lemma leave_keeps:
  assumes "queue_ok s" "slots_ok n s" "held s ok = Suc h"
  defines "s' \<equiv> s\<lparr>pool_gate := release_slot (pool_gate s), held := (held s)(ok := h)\<rparr>"
  shows "queue_ok s' \<and> slots_ok n s' \<and>
    (\<exists>h. out s ok = Suc h \<and> (out s' = (out s)(ok := h) \<or>
      (\<exists>b. out s' = ((out s)(ok := h))(b := Suc (((out s)(ok := h)) b)))))"
proof -
  let ?s1 = "s\<lparr>held := (held s)(ok := h)\<rparr>"
  have "queue_ok ?s1" using assms(1) by (simp add: queue_ok_def)
  moreover have h: "out s ok = Suc (h + card (granted s ok))" using assms(3) by (simp add: out_def)
  moreover have o1: "out ?s1 = (out s)(ok := h + card (granted s ok))"
    using assms(3) by (auto simp: out_def granted_def fun_eq_iff)
  moreover have "s' = ?s1\<lparr>pool_gate := release_slot (pool_gate ?s1)\<rparr>" by (simp add: s'_def)
  moreover have "slots (pool_gate ?s1) + int (out ?s1 True) + int (out ?s1 False) = n - 1"
    "int (out ?s1 False) \<le> n - reserved (pool_gate ?s1)"
    using assms(2) h unfolding o1 by (cases ok; simp add: slots_ok_def)+
  ultimately have "queue_ok s' \<and> slots_ok n s' \<and> (out s' = out ?s1 \<or> (\<exists>b. out s' = (out ?s1)(b := Suc (out ?s1 b))))"
    using release_keeps [of ?s1 n] assms(2) by (simp add: slots_ok_def)
  then show ?thesis using h unfolding o1 by blast
qed

lemma gate_step_keeps:
  assumes "gate_step s s'" "queue_ok s" "slots_ok n s"
  shows "queue_ok s' \<and> slots_ok n s'"
  using assms
proof (cases rule: gate_step.cases)
  case (enter rk ok g)
  then show ?thesis using enter_keeps assms(2,3) by simp
next
  case (queue_up rk ok k g)
  then show ?thesis using queue_up_keeps assms(2,3) by simp
next
  case (wake k ok)
  then show ?thesis using wake_keeps assms(2,3) by simp
next
  case (cancel k ok)
  then show ?thesis using cancel_keeps assms(2,3) by simp
next
  case (unwind k ok)
  then show ?thesis using unwind_keeps assms(2,3) by simp
next
  case (leave ok h)
  then show ?thesis using leave_keeps assms(2,3) by simp
qed

lemma gate_reaches_keeps: "\<lbrakk>gate_reaches s s'; queue_ok s \<and> slots_ok n s\<rbrakk> \<Longrightarrow> queue_ok s' \<and> slots_ok n s'"
  by (induction rule: rtranclp_induct) (auto dest: gate_step_keeps)

lemma new_gate_ok:
  assumes "new_gate n r = Inr g"
  shows "queue_ok (idle_pool g) \<and> slots_ok n (idle_pool g)" "reserved g = min r (n - 1)"
  using assms
  by (auto simp: new_gate_def queue_ok_def slots_ok_def idle_pool_def admissible_waiter_exists_def
      out_def granted_def split: if_splits)

lemma reserved_grant [simp]: "reserved (grant g skipped es) = reserved g"
  by (induction g skipped es rule: grant.induct) simp_all

lemma reserved_fixed: "gate_reaches s s' \<Longrightarrow> reserved (pool_gate s') = reserved (pool_gate s)"
proof (induction rule: rtranclp_induct)
  case (step t u)
  have "reserved (pool_gate u) = reserved (pool_gate t)"
    using step(2)
    by cases (auto dest!: acquire_enter acquire_queue
        simp: forget_def cancel_future_def release_slot_def acquire_cancelled_def)
  then show ?case using step by simp
qed simp

lemma reachable_gate:
  assumes "new_gate n r = Inr g" "gate_reaches (idle_pool g) s"
  shows "queue_ok s" "slots_ok n s" "reserved (pool_gate s) = min r (n - 1)" "0 < n"
  using gate_reaches_keeps [OF assms(2)] new_gate_ok [OF assms(1)] reserved_fixed [OF assms(2)] assms(1)
  by (auto simp: idle_pool_def new_gate_def split: if_splits)

section \<open>Properties\<close>

text \<open>
  The caps of the admission gate: whatever calls, cancellations and releases come, never more
  than \<open>value\<close> callers are inside, never more than \<open>value\<close> minus the reserved number of them without
  the privilege, and every slot is free, in use or on its way to a caller: none is lost or doubled.
\<close>

theorem gate_caps:
  assumes "new_gate n r = Inr g" "gate_reaches (idle_pool g) s"
  shows "int (held s True) + int (held s False) \<le> n \<and> int (held s False) \<le> n - min r (n - 1)
    \<and> slots (pool_gate s) + int (out s True) + int (out s False) = n"
  using reachable_gate [OF assms] by (auto simp: slots_ok_def out_def)

text \<open>
  C26: Nobody waits at the admission gate in vain: while a call is suspended without a slot, every
  slot it could take is with another caller. In particular the queue is empty when nobody is inside.
\<close>

theorem gate_no_lost_wakeup:
  assumes "new_gate n r = Inr g" "gate_reaches (idle_pool g) s"
    and "callers s k = Some ok" "futures (pool_gate s) k = Some Pending"
  shows "slots (pool_gate s) \<le> (if ok then 0 else min r (n - 1)) \<and> 0 < out s True + out s False"
proof -
  note ok = reachable_gate [OF assms(1,2)]
  obtain e where e: "e \<in> set (waiters (pool_gate s))" "k = w_seq e"
    using ok(1) assms(4) by (auto simp: queue_ok_def)
  have "w_reserved_ok e = ok" using ok(1) e assms(3) by (auto simp: queue_ok_def)
  moreover have "\<not> can_admit (pool_gate s) (w_reserved_ok e)"
    using ok(1) e assms(4) by (auto simp: queue_ok_def admissible_waiter_exists_def)
  ultimately show ?thesis
    using ok(2-4) by (auto simp: can_admit_def slots_ok_def split: if_splits)
qed

text \<open>
  A slot that is given back goes to the best caller it may go to: if any suspended call may take
  it, one of those gets it whose rank and arrival no other of them undercuts, and nobody else is
  woken; the number of free slots stays the same.
\<close>

theorem release_grants_best:
  assumes "new_gate n r = Inr g" "gate_reaches (idle_pool g) s"
    and "e \<in> set (waiters (pool_gate s))" "futures (pool_gate s) (w_seq e) = Some Pending"
    and "can_admit ((pool_gate s)\<lparr>slots := slots (pool_gate s) + 1\<rparr>) (w_reserved_ok e)"
  shows "\<exists>b \<in> set (waiters (pool_gate s)).
      entry_key b \<le> entry_key e
    \<and> futures (pool_gate s) (w_seq b) = Some Pending
    \<and> can_admit ((pool_gate s)\<lparr>slots := slots (pool_gate s) + 1\<rparr>) (w_reserved_ok b)
    \<and> futures (release_slot (pool_gate s)) = (futures (pool_gate s))(w_seq b \<mapsto> Granted)
    \<and> slots (release_slot (pool_gate s)) = slots (pool_gate s)"
proof -
  let ?g = "pool_gate s"
  let ?g1 = "?g\<lparr>slots := slots ?g + 1\<rparr>"
  note ok = reachable_gate [OF assms(1,2)]
  have heap: "heap_ok (waiters ?g)" "0 \<le> slots ?g" using ok(1,2) by (simp_all add: queue_ok_def slots_ok_def)
  have ready: "ready ?g1 e" using assms(4,5) by (simp add: ready_def)
  show ?thesis
  proof (cases rule: release_cases [OF heap])
    case 1
    then show ?thesis using ready assms(3) by blast
  next
    case (2 pre b post)
    have "b \<in> set (waiters ?g)" using 2(1) by simp
    moreover from this have "futures ?g (w_seq b) = Some Pending"
      using ok(1) 2(2) by (auto simp: queue_ok_def ready_def)
    ultimately show ?thesis using 2 ready assms(3) by (intro bexI [of _ b]) (auto simp: ready_def)
  qed
qed

lemma room_after:
  "\<lbrakk>slots_ok n s'; reserved (pool_gate s') = r; out s' = a(ok := Suc (a ok))\<rbrakk> \<Longrightarrow> room n r a ok"
  by (cases ok) (auto simp: slots_ok_def room_def)

lemma step_refines:
  assumes "gate_step s s'" "queue_ok s" "slots_ok n s" "reserved (pool_gate s') = r"
  shows "out s' = out s \<or> semaphore n r (out s) (out s')"
proof -
  have ok': "slots_ok n s'" using gate_step_keeps assms(1-3) by blast
  have grow: "semaphore n r (out s) (out s')" if "out s' = (out s)(ok := Suc (out s ok))" for ok
    using semaphore.admit [OF room_after [OF ok' assms(4) that]] that by simp
  have shrink: "semaphore n r (out s) (out s')"
    if ex: "\<exists>h. out s ok = Suc h \<and> (out s' = (out s)(ok := h) \<or>
          (\<exists>b. out s' = ((out s)(ok := h))(b := Suc (((out s)(ok := h)) b))))" for ok
  proof -
    obtain h where h: "out s ok = Suc h" and c: "out s' = (out s)(ok := h) \<or>
        (\<exists>b. out s' = ((out s)(ok := h))(b := Suc (((out s)(ok := h)) b)))"
      using ex by blast
    from c show ?thesis
    proof (elim disjE exE)
      assume "out s' = (out s)(ok := h)"
      then show ?thesis using semaphore.return [of "out s" ok h n r, OF h] by simp
    next
      fix b assume b: "out s' = ((out s)(ok := h))(b := Suc (((out s)(ok := h)) b))"
      show ?thesis
        unfolding b by (rule semaphore.hand_on [OF h refl room_after [OF ok' assms(4) b]])
    qed
  qed
  from assms(1) show ?thesis
  proof (cases rule: gate_step.cases)
    case (enter rk ok g)
    then show ?thesis using enter_keeps [OF assms(2,3) enter(2)] grow by blast
  next
    case (queue_up rk ok k g)
    then show ?thesis using queue_up_keeps [OF assms(2,3) queue_up(2)] by blast
  next
    case (wake k ok)
    then show ?thesis using wake_keeps [OF assms(2,3) wake(2-4)] by blast
  next
    case (cancel k ok)
    then show ?thesis using cancel_keeps [OF assms(2,3), of k] by blast
  next
    case (unwind k ok)
    then show ?thesis using unwind_keeps [OF assms(2,3) unwind(2,3)] shrink by blast
  next
    case (leave ok h)
    then show ?thesis using leave_keeps [OF assms(2,3) leave(2)] shrink by blast
  qed
qed

text \<open>
  C10: The gate refines a plain semaphore with reserved slots: seen through the number of slots that
  are out, each step of the gate, with its heap, futures and cancellations, is invisible or one step
  of the semaphore, which lets a caller in only when its caps leave room, takes a slot back, or
  hands it on.
\<close>

theorem gate_refines_semaphore:
  assumes "new_gate n r = Inr g" "gate_reaches (idle_pool g) s" "gate_step s s'"
  shows "out s' = out s \<or> semaphore n (min r (n - 1)) (out s) (out s')"
proof (rule step_refines [OF assms(3) reachable_gate(1,2) [OF assms(1,2)]])
  have "gate_reaches (idle_pool g) s'" using assms(2,3) by (rule rtranclp.rtrancl_into_rtrancl)
  then show "reserved (pool_gate s') = min r (n - 1)" by (rule reachable_gate(3) [OF assms(1)])
qed

section \<open>A run\<close>

text \<open>Two slots, one of them reserved: an unprivileged call is inside, another one waits.\<close>

definition sample_gate :: gate where
  "sample_gate = \<lparr>slots = 2, reserved = 1, waiters = [], gate_seq = 0, futures = Map.empty\<rparr>"

definition sample_waiter :: waiter where
  "sample_waiter = \<lparr>w_rank = (1, 12), w_seq = 1, w_reserved_ok = False\<rparr>"

definition sample_pool :: gate_pool where
  "sample_pool =
     \<lparr>pool_gate = \<lparr>slots = 1, reserved = 1, waiters = [sample_waiter], gate_seq = 1, futures = [1 \<mapsto> Pending]\<rparr>,
      held = (\<lambda>_. 0)(False := 1), callers = [1 \<mapsto> False], doomed = {}\<rparr>"

lemma sample_gate_new: "new_gate 2 1 = Inr sample_gate"
  by (simp add: new_gate_def sample_gate_def)

lemma sample_pool_reached: "gate_reaches (idle_pool sample_gate) sample_pool"
proof -
  let ?g1 = "sample_gate\<lparr>slots := 1\<rparr>"
  let ?s1 = "(idle_pool sample_gate)\<lparr>pool_gate := ?g1, held := (\<lambda>_. 0)(False := 1)\<rparr>"
  have "gate_step (idle_pool sample_gate) ?s1"
    using gate_step.enter [of "(1, 11)" False "idle_pool sample_gate" ?g1]
    by (simp add: idle_pool_def sample_gate_def acquire_def can_admit_def admissible_waiter_exists_def)
  moreover have "gate_step ?s1 sample_pool"
    using gate_step.queue_up [of "(1, 12)" False ?s1 1 "pool_gate sample_pool"]
    by (simp add: idle_pool_def sample_gate_def sample_pool_def sample_waiter_def acquire_def
        can_admit_def heappush_def Let_def)
  ultimately show ?thesis by (meson converse_rtranclp_into_rtranclp rtranclp.rtrancl_refl)
qed

lemma gate_caps_witness: "int (held sample_pool True) + int (held sample_pool False) \<le> 2"
  using gate_caps [OF sample_gate_new sample_pool_reached] by simp

lemma gate_no_lost_wakeup_witness:
  "slots (pool_gate sample_pool) \<le> 1 \<and> 0 < out sample_pool True + out sample_pool False"
  using gate_no_lost_wakeup [OF sample_gate_new sample_pool_reached, of 1 False]
  by (simp add: sample_pool_def)

lemma release_grants_best_witness:
  "futures (release_slot (pool_gate sample_pool)) = [1 \<mapsto> Granted]"
  using release_grants_best [OF sample_gate_new sample_pool_reached, of sample_waiter]
  by (simp add: sample_pool_def sample_waiter_def can_admit_def)


lemma gate_refines_semaphore_witness:
  "out (sample_pool\<lparr>pool_gate := release_slot (pool_gate sample_pool), held := (held sample_pool)(False := 0)\<rparr>)
     = out sample_pool
   \<or> semaphore 2 1 (out sample_pool)
       (out (sample_pool\<lparr>pool_gate := release_slot (pool_gate sample_pool), held := (held sample_pool)(False := 0)\<rparr>))"
proof -
  have "gate_step sample_pool
      (sample_pool\<lparr>pool_gate := release_slot (pool_gate sample_pool), held := (held sample_pool)(False := 0)\<rparr>)"
    by (rule gate_step.leave) (simp add: sample_pool_def)
  from gate_refines_semaphore [OF sample_gate_new sample_pool_reached this] show ?thesis by simp
qed

end
