(* ===== verification/Errors.thy ===== *)
theory Errors
  imports Regex Models
begin

text \<open>
  The classification of the exceptions a stage raises, \<open>runtime/transient_errors.py\<close>: which are
  transient, which name a global outage of the network, of a disk or of a model, when the quota of
  the model provider is back. An exception object is a number in a store of exceptions, since the
  chain of causes is walked by identity.
\<close>

section \<open>Exceptions\<close>

text \<open>
  What is read of an HTTP response: the throttling headers when they are a text or a number, the
  body when it can be read, and \<open>json()["error"]["message"]\<close> as a text, empty when it is missing,
  when reading it does not raise. The command of a failed process is a list or one text.
\<close>

record http_response =
  status_code :: int
  ratelimit_remaining :: "string option"
  retry_after :: bool
  body_text :: "string option"
  error_message :: "string option"

datatype command = Argv "string list" | CommandLine string

record called_process =
  returncode :: int
  cmd :: command
  stderr :: "string option"

text \<open>\<open>classes\<close> are the qualified names of the exception's type and all its base classes.\<close>

record exn_object =
  classes :: "string list"
  type_name :: string
  message :: string
  errno :: "int option"
  response :: http_response
  process :: called_process
  cause :: "nat option"
  exn_context :: "nat option"

type_synonym exn_store = "nat \<Rightarrow> exn_object"

definition isinstance :: "exn_object \<Rightarrow> string list \<Rightarrow> bool" where
  "isinstance x cs \<longleftrightarrow> list_ex (\<lambda>c. c \<in> set (classes x)) cs"

section \<open>The walk along the chain of causes\<close>

definition MAX_CHAIN_WALK :: nat where
  "MAX_CHAIN_WALK = 10"

text \<open>\<open>__cause__\<close> when it is new, else \<open>__context__\<close> when it is new.\<close>

definition next_in_chain :: "exn_object \<Rightarrow> nat list \<Rightarrow> nat option" where
  "next_in_chain x seen =
     (case cause x of
        Some c \<Rightarrow> if c \<notin> set seen then Some c
                  else (case exn_context x of Some d \<Rightarrow> if d \<notin> set seen then Some d else None | None \<Rightarrow> None)
      | None \<Rightarrow> (case exn_context x of Some d \<Rightarrow> if d \<notin> set seen then Some d else None | None \<Rightarrow> None))"

fun walk_from :: "nat \<Rightarrow> exn_store \<Rightarrow> nat list \<Rightarrow> nat option \<Rightarrow> exn_object list" where
  "walk_from 0 st seen cur = []"
| "walk_from (Suc n) st seen None = []"
| "walk_from (Suc n) st seen (Some e) =
     (if e \<in> set seen then []
      else st e # walk_from n st (e # seen) (next_in_chain (st e) (e # seen)))"

definition walk_chain :: "exn_store \<Rightarrow> nat \<Rightarrow> exn_object list" where
  "walk_chain st e = walk_from MAX_CHAIN_WALK st [] (Some e)"

section \<open>Patterns\<close>

definition dot :: rx where
  "dot = Cls (\<lambda>c. c \<noteq> CHR 0x0A)"

definition digit :: rx where
  "digit = Cls is_digit"

definition spaces :: rx where
  "spaces = star_rx (Cls is_space)"

text \<open>The literal with a character in either case, as in \<open>[Ii]nvalid\<close>.\<close>

definition either_case :: "char \<Rightarrow> string \<Rightarrow> rx" where
  "either_case c s = Cat (one_ci c) (lit s)"

definition GIT_TRANSIENT_RE :: rx where
  "GIT_TRANSIENT_RE = alts [lit ''Internal Server Error'', lit ''500'', lit ''503'',
     seqs [lit ''HTTP/'', star_rx dot, lit '' 5'', digit, digit], lit ''Connection refused'']"

definition GIT_FATAL_TRANSIENT_RE :: rx where
  "GIT_FATAL_TRANSIENT_RE = alts
     [seqs [lit ''remote rejected'', star_rx dot, either_case CHR ''i'' ''nternal '', either_case CHR ''s'' ''erver''],
      lit ''fatal: unable to access'', lit ''fatal: Authentication failed'']"

definition GIT_WORKSPACE_GONE_RE :: rx where
  "GIT_WORKSPACE_GONE_RE = alts
     [lit ''fatal: not a git repository'',
      seqs [lit ''fatal: cannot change to '', star_rx dot, lit ''No such file or directory'']]"

definition DISK_FULL_RE :: rx where
  "DISK_FULL_RE = alts
     [lit_ci ''No space left on device'', lit_ci ''Disk quota exceeded'', lit_ci ''ENOSPC'',
      lit_ci ''not enough space'',
      seqs [lit_ci ''cannot write'', star_rx dot, lit_ci ''database or disk is full''],
      lit_ci ''database or disk is full'']"

definition NETWORK_DOWN_RE :: rx where
  "NETWORK_DOWN_RE = alts
     [lit ''Could not resolve host'', lit ''Temporary failure in name resolution'',
      lit ''Name or service not known'', lit ''getaddrinfo failed'', lit ''Network is unreachable'']"

definition MODEL_UNAVAILABLE_RE :: rx where
  "MODEL_UNAVAILABLE_RE = alts
     [seqs [lit_ci ''model'', WordB, star_rx dot, WordB,
        alts [lit_ci ''unavailable'', lit_ci ''not available'', lit_ci ''currently unavailable'']],
      lit_ci ''no healthy endpoint'', lit_ci ''no available endpoint'', lit_ci ''all endpoints unavailable'',
      seqs [lit_ci ''provider'', WordB, star_rx dot, WordB, lit_ci ''overloaded''],
      seqs [lit_ci ''overloaded'', star_rx dot, lit_ci ''try again''],
      seqs [lit_ci ''the model '', star_rx dot, lit_ci '' is currently at capacity''],
      lit_ci ''is in cooldown and fallback depth'']"

definition TRANSIENT_MESSAGE_RE :: "rx list" where
  "TRANSIENT_MESSAGE_RE =
     [either_case CHR ''i'' ''nvalid response from openrouter'',
      seqs [either_case CHR ''e'' ''xceeded max'', opt_rx (lit ''imum''), lit '' output retries''],
      lit ''database is locked'']"

definition CLAUDE_USAGE_EXHAUSTED_RE :: rx where
  "CLAUDE_USAGE_EXHAUSTED_RE = alts
     [lit_ci ''out of usage credits'', lit_ci ''hit your session limit'', lit_ci ''hit your limit'',
      lit_ci ''usage limit reached'']"

definition CLAUDE_RESET_RE :: rx where
  "CLAUDE_RESET_RE = seqs
     [lit_ci ''reset'', opt_rx (lit_ci ''s''), plus_rx (Cls is_space),
      opt_rx (seqs [lit_ci ''at'', plus_rx (Cls is_space)]),
      Grp 1 (Rep 1 (Some 2) digit), opt_rx (seqs [lit '':'', Grp 2 (Rep 2 (Some 2) digit)]),
      spaces, opt_rx (Grp 3 (alts [lit_ci ''am'', lit_ci ''pm''])), spaces,
      opt_rx (lit ''(''), lit_ci ''UTC'', opt_rx (lit '')'')]"

definition CLAUDE_SDK_TRANSPORT_FAILURE_RE :: rx where
  "CLAUDE_SDK_TRANSPORT_FAILURE_RE = lit_ci ''Claude Agent SDK transport/process failure''"

definition PROVIDER_FAILURE_RE :: rx where
  "PROVIDER_FAILURE_RE = alts
     [lit ''is not a valid model ID'', lit ''not a valid model'',
      seqs [either_case CHR ''m'' ''odel token limit ('', plus_rx digit, lit '') exceeded''],
      lit ''exceeded before any response was generated'', lit ''output retries exhausted'',
      seqs [either_case CHR ''e'' ''xceeded max'', opt_rx (lit ''imum''), lit '' output retries''],
      either_case CHR ''i'' ''nvalid response from openrouter'',
      seqs [lit ''finish_reason='', dot, lit ''error''],
      seqs [lit ''status_code: 4'', digit, digit, lit '', model_name:'']]"

definition GITHUB_RATE_LIMIT_BODY_RE :: rx where
  "GITHUB_RATE_LIMIT_BODY_RE = alts [lit_ci ''rate limit'', lit_ci ''abuse detection'', lit_ci ''secondary rate'']"

definition INSUFFICIENT_CREDIT_RE :: rx where
  "INSUFFICIENT_CREDIT_RE = alts
     [lit_ci ''insufficient_credits'', lit_ci ''requires more credits'', lit_ci ''Insufficient credits'',
      seqs [lit_ci ''insufficient'', star_rx dot, lit_ci ''balance''],
      seqs [lit_ci ''credit'', star_rx dot, lit_ci ''balance'', star_rx dot, lit_ci ''insufficient''],
      lit_ci ''You need to add more credits'']"

section \<open>What one exception says\<close>

definition TRANSIENT_HTTPX_EXCEPTIONS :: "string list" where
  "TRANSIENT_HTTPX_EXCEPTIONS =
     [''httpx.ConnectError'', ''httpx.ReadTimeout'', ''httpx.RemoteProtocolError'',
      ''httpx.TimeoutException'', ''httpx.TransportError'']"

abbreviation http_status_error :: "exn_object \<Rightarrow> bool" where
  "http_status_error x \<equiv> isinstance x [''httpx.HTTPStatusError'']"

definition matches_claude_usage_exhausted :: "exn_object \<Rightarrow> bool" where
  "matches_claude_usage_exhausted x \<longleftrightarrow>
     type_name x = ''ClaudeSDKUsageExhaustedError'' \<or> rx_search CLAUDE_USAGE_EXHAUSTED_RE (message x)"

definition matches_claude_sdk_transport_failure :: "exn_object \<Rightarrow> bool" where
  "matches_claude_sdk_transport_failure x \<longleftrightarrow>
     type_name x = ''ClaudeSDKAPIError'' \<or> rx_search CLAUDE_SDK_TRANSPORT_FAILURE_RE (message x)"

definition matches_provider_failure :: "exn_object \<Rightarrow> bool" where
  "matches_provider_failure x \<longleftrightarrow>
     rx_search PROVIDER_FAILURE_RE (message x) \<or> matches_claude_usage_exhausted x"

definition is_transient_message :: "exn_object \<Rightarrow> bool" where
  "is_transient_message x \<longleftrightarrow> list_ex (\<lambda>r. rx_search r (message x)) TRANSIENT_MESSAGE_RE"

definition is_github_rate_limited :: "http_response \<Rightarrow> bool" where
  "is_github_rate_limited r =
     (if status_code r \<noteq> 403 \<and> status_code r \<noteq> 429 then False
      else if (case ratelimit_remaining r of Some v \<Rightarrow> strip v = ''0'' | None \<Rightarrow> False) then True
      else if retry_after r then True
      else (case body_text r of None \<Rightarrow> False | Some b \<Rightarrow> rx_search GITHUB_RATE_LIMIT_BODY_RE b))"

definition is_transient_httpx :: "exn_object \<Rightarrow> bool" where
  "is_transient_httpx x =
     (if isinstance x TRANSIENT_HTTPX_EXCEPTIONS then True
      else if http_status_error x then
        (if 500 \<le> status_code (response x) \<and> status_code (response x) < 600 then True
         else is_github_rate_limited (response x))
      else False)"

definition is_transient_openai :: "exn_object \<Rightarrow> bool" where
  "is_transient_openai x = isinstance x
     [''openai.APIConnectionError'', ''openai.RateLimitError'', ''openai.APITimeoutError'',
      ''openai.InternalServerError'']"

abbreviation called_process_error :: "exn_object \<Rightarrow> bool" where
  "called_process_error x \<equiv> isinstance x [''subprocess.CalledProcessError'']"

text \<open>\<open>os.path.basename\<close>: what follows the last slash.\<close>

definition basename :: "string \<Rightarrow> string" where
  "basename p = rev (takeWhile (\<lambda>c. c \<noteq> CHR ''/'') (rev p))"

definition argv_of :: "command \<Rightarrow> string list" where
  "argv_of c = (case c of Argv args \<Rightarrow> args | CommandLine s \<Rightarrow> words s)"

definition is_empty_stderr_git_fatal :: "called_process \<Rightarrow> bool" where
  "is_empty_stderr_git_fatal p =
     (if returncode p \<noteq> 128 then False
      else if basename (case argv_of (cmd p) of [] \<Rightarrow> [] | a # _ \<Rightarrow> a) \<noteq> ''git'' then False
      else strip (or_empty (stderr p)) = [])"

definition is_transient_called_process_error :: "exn_object \<Rightarrow> bool" where
  "is_transient_called_process_error x =
     (if \<not> called_process_error x then False
      else if is_empty_stderr_git_fatal (process x) then True
      else (case stderr (process x) of
              None \<Rightarrow> False
            | Some e \<Rightarrow> rx_search GIT_TRANSIENT_RE e \<or> rx_search GIT_FATAL_TRANSIENT_RE e
                        \<or> rx_search GIT_WORKSPACE_GONE_RE e))"

definition stderr_matches :: "rx \<Rightarrow> exn_object \<Rightarrow> bool" where
  "stderr_matches r x \<longleftrightarrow> called_process_error x \<and> truthy (stderr (process x))
     \<and> rx_search r (or_empty (stderr (process x)))"

definition matches_network_down :: "exn_object \<Rightarrow> bool" where
  "matches_network_down x =
     (if isinstance x [''socket.gaierror''] then True
      else if isinstance x [''httpx.ConnectError''] then True
      else if stderr_matches NETWORK_DOWN_RE x then True
      else rx_search NETWORK_DOWN_RE (message x))"

definition matches_model_unavailable :: "exn_object \<Rightarrow> bool" where
  "matches_model_unavailable x =
     (if http_status_error x \<and> status_code (response x) = 503
         \<and> (rx_search MODEL_UNAVAILABLE_RE (or_empty (body_text (response x))) \<and> truthy (body_text (response x))
            \<or> (case error_message (response x) of None \<Rightarrow> False | Some e \<Rightarrow> rx_search MODEL_UNAVAILABLE_RE e))
      then True
      else rx_search MODEL_UNAVAILABLE_RE (message x))"

text \<open>\<open>ENOSPC\<close> and \<open>EDQUOT\<close> are 28 and 122.\<close>

definition matches_disk_full :: "exn_object \<Rightarrow> bool" where
  "matches_disk_full x =
     (if isinstance x [''builtins.OSError''] \<and> (errno x = Some 28 \<or> errno x = Some 122) then True
      else if stderr_matches DISK_FULL_RE x then True
      else rx_search DISK_FULL_RE (message x))"

definition matches_insufficient_credit :: "exn_object \<Rightarrow> bool" where
  "matches_insufficient_credit x =
     (if rx_search INSUFFICIENT_CREDIT_RE (message x) then True
      else if http_status_error x \<and> status_code (response x) = 402
         \<and> (rx_search INSUFFICIENT_CREDIT_RE (or_empty (body_text (response x)))
            \<or> (case error_message (response x) of None \<Rightarrow> False | Some e \<Rightarrow> rx_search INSUFFICIENT_CREDIT_RE e))
      then True
      else isinstance x [''openai.PermissionDeniedError'']
         \<and> (contains ''402'' (message x) \<or> contains ''insufficient'' (lower (message x))))"

definition check_one_transient :: "exn_object \<Rightarrow> bool" where
  "check_one_transient x =
     (if is_transient_httpx x then True
      else if is_transient_openai x then True
      else if is_transient_called_process_error x then True
      else if isinstance x [''builtins.TimeoutError''] then True
      else if isinstance x [''robotsix_mill.sandbox.SandboxError''] then True
      else if matches_disk_full x then True
      else if matches_model_unavailable x then True
      else if matches_claude_usage_exhausted x then True
      else if matches_claude_sdk_transport_failure x then True
      else is_transient_message x)"

section \<open>What the chain says\<close>

datatype stage_error_class = Transient | Fatal

definition classify_stage_error :: "exn_store \<Rightarrow> nat \<Rightarrow> stage_error_class" where
  "classify_stage_error st e = (if list_ex check_one_transient (walk_chain st e) then Transient else Fatal)"

definition is_claude_usage_exhausted :: "exn_store \<Rightarrow> nat \<Rightarrow> bool" where
  "is_claude_usage_exhausted st e = list_ex matches_claude_usage_exhausted (walk_chain st e)"

definition is_provider_failure :: "exn_store \<Rightarrow> nat \<Rightarrow> bool" where
  "is_provider_failure st e = list_ex matches_provider_failure (walk_chain st e)"

definition is_disk_full_error :: "exn_store \<Rightarrow> nat \<Rightarrow> bool" where
  "is_disk_full_error st e = list_ex matches_disk_full (walk_chain st e)"

definition is_network_down_error :: "exn_store \<Rightarrow> nat \<Rightarrow> bool" where
  "is_network_down_error st e = list_ex matches_network_down (walk_chain st e)"

definition is_model_unavailable_error :: "exn_store \<Rightarrow> nat \<Rightarrow> bool" where
  "is_model_unavailable_error st e =
     list_ex (\<lambda>x. matches_model_unavailable x \<or> matches_claude_usage_exhausted x) (walk_chain st e)"

definition is_insufficient_credit :: "exn_store \<Rightarrow> nat \<Rightarrow> bool" where
  "is_insufficient_credit st e = list_ex matches_insufficient_credit (walk_chain st e)"

definition reraise_if_transient :: "exn_store \<Rightarrow> nat \<Rightarrow> nat option" where
  "reraise_if_transient st e = (if classify_stage_error st e = Transient then Some e else None)"

section \<open>When the quota is back\<close>

text \<open>The wall clock of an instant, in microseconds, with hour and minute replaced.\<close>

definition day_us :: int where
  "day_us = 86400000000"

definition at_time :: "instant \<Rightarrow> int \<Rightarrow> int \<Rightarrow> instant" where
  "at_time now hour minute = (now div day_us) * day_us + hour * 3600000000 + minute * 60000000"

definition hour_24 :: "int \<Rightarrow> string \<Rightarrow> int" where
  "hour_24 hour ampm =
     (if ampm = ''pm'' \<and> hour < 12 then hour + 12
      else if ampm = ''am'' \<and> hour = 12 then 0 else hour)"

definition reset_hint :: "exn_object \<Rightarrow> (int \<times> int) option" where
  "reset_hint x =
     (case finditer CLAUDE_RESET_RE (message x) of
        [] \<Rightarrow> None
      | (_, g) # _ \<Rightarrow> Some (hour_24 (int (digits_val (or_empty (g 1)))) (lower (or_empty (g 3))),
                           if truthy (g 2) then int (digits_val (or_empty (g 2))) else 0))"

definition claude_usage_reset_at :: "exn_store \<Rightarrow> nat \<Rightarrow> instant \<Rightarrow> instant option" where
  "claude_usage_reset_at st e now =
     (case List.map_filter reset_hint (walk_chain st e) of
        [] \<Rightarrow> None
      | (hour, minute) # _ \<Rightarrow>
          if \<not> (0 \<le> hour \<and> hour \<le> 23 \<and> 0 \<le> minute \<and> minute \<le> 59) then None
          else (let candidate = at_time now hour minute
                in Some (if candidate \<le> now then candidate + day_us else candidate)))"

section \<open>Probes of the host\<close>

text \<open>\<open>statvfs\<close>: the free bytes of a path, or nothing when it cannot be read.\<close>

definition disk_space_available :: "(string \<Rightarrow> int option) \<Rightarrow> string \<Rightarrow> int \<Rightarrow> bool" where
  "disk_space_available free path min_free_mb =
     (if min_free_mb \<le> 0 then True
      else (case free path of None \<Rightarrow> True | Some bytes \<Rightarrow> min_free_mb * 1024 * 1024 \<le> bytes))"

fun first_full_path :: "(string \<Rightarrow> int option) \<Rightarrow> string list \<Rightarrow> int \<Rightarrow> string option" where
  "first_full_path free [] min_free_mb = None"
| "first_full_path free (p # ps) min_free_mb =
     (if \<not> disk_space_available free p min_free_mb then Some p else first_full_path free ps min_free_mb)"

text \<open>The cached probe: when it was last asked, never to begin with, and the answer.\<close>

type_synonym probe_cache = "rat option \<times> bool"

definition network_available :: "bool \<Rightarrow> rat \<Rightarrow> probe_cache \<Rightarrow> bool \<times> probe_cache" where
  "network_available resolves now cache =
     (case fst cache of
        Some asked \<Rightarrow> if now - asked < 30 then (snd cache, cache) else (resolves, (Some now, resolves))
      | None \<Rightarrow> (resolves, (Some now, resolves)))"

section \<open>Properties\<close>

lemma walk_from_bounds:
  "length (walk_from n st seen cur) \<le> n"
  by (induction n st seen cur rule: walk_from.induct) simp_all

text \<open>Some exception of the chain is transient when it says that a disk is full or a model is out.\<close>

lemma full_or_out_transient:
  "matches_disk_full x \<or> matches_model_unavailable x \<or> matches_claude_usage_exhausted x \<Longrightarrow> check_one_transient x"
  by (auto simp: check_one_transient_def)

text \<open>A resolver error that carries no text.\<close>

definition gai_error :: exn_object where
  "gai_error =
     \<lparr>classes = [''socket.gaierror'', ''builtins.OSError'', ''builtins.Exception''], type_name = ''gaierror'',
      message = [], errno = None,
      response = \<lparr>status_code = 0, ratelimit_remaining = None, retry_after = False, body_text = None, error_message = None\<rparr>,
      process = \<lparr>returncode = 0, cmd = Argv [], stderr = None\<rparr>, cause = None, exn_context = None\<rparr>"

lemma gai_error_fatal: "\<not> check_one_transient gai_error"
  by code_simp

lemma gai_error_network: "matches_network_down gai_error"
  by code_simp

text \<open>
  The parks of the worker for a full disk and for a model that is out lie on the path of the
  transient errors, and every error they are meant for takes that path. The park for a network
  outage lies there too, but a bare resolver error, the plainest sign of an outage, is fatal.
\<close>

theorem parks_on_transient_path:
  "(is_disk_full_error st e \<or> is_model_unavailable_error st e \<longrightarrow> classify_stage_error st e = Transient)
   \<and> (\<exists>st e. is_network_down_error st e \<and> classify_stage_error st e = Fatal)"
proof
  show "is_disk_full_error st e \<or> is_model_unavailable_error st e \<longrightarrow> classify_stage_error st e = Transient"
    using full_or_out_transient
    by (auto simp: is_disk_full_error_def is_model_unavailable_error_def classify_stage_error_def list_ex_iff)
  have "walk_chain (\<lambda>_. gai_error) 0 = [gai_error]"
    by (simp add: walk_chain_def MAX_CHAIN_WALK_def numeral_eq_Suc next_in_chain_def gai_error_def)
  then show "\<exists>st e. is_network_down_error st e \<and> classify_stage_error st e = Fatal"
    using gai_error_fatal gai_error_network
    by (intro exI [of _ "\<lambda>_. gai_error"] exI [of _ 0])
      (simp add: is_network_down_error_def classify_stage_error_def)
qed

lemma at_time_bounds:
  assumes "0 \<le> h" "h \<le> 23" "0 \<le> m" "m \<le> 59"
  shows "at_time now h m \<le> now + day_us" "now < at_time now h m + day_us" "at_time now h m mod 60000000 = 0"
proof -
  have r: "0 \<le> now mod day_us" "now mod day_us < day_us" by (simp_all add: day_us_def)
  have split: "now = (now div day_us) * day_us + now mod day_us" by simp
  have lt: "0 \<le> h * 3600000000 + m * 60000000" "h * 3600000000 + m * 60000000 < day_us"
    using assms by (simp_all add: day_us_def)
  show "at_time now h m \<le> now + day_us" "now < at_time now h m + day_us"
    using r split lt unfolding at_time_def by linarith+
  have "at_time now h m = 60000000 * ((now div day_us) * 1440 + h * 60 + m)"
    by (simp add: at_time_def day_us_def)
  then show "at_time now h m mod 60000000 = 0" by simp
qed

text \<open>
  The instant the quota of the model provider is back, read from its message: strictly in the
  future, at most a day ahead, and on a full minute.
\<close>

theorem usage_reset_within_a_day:
  assumes "claude_usage_reset_at st e now = Some r"
  shows "now < r \<and> r \<le> now + day_us \<and> r mod 60000000 = 0"
proof -
  obtain h m where ok: "0 \<le> h" "h \<le> 23" "0 \<le> m" "m \<le> 59"
    and r: "r = (if at_time now h m \<le> now then at_time now h m + day_us else at_time now h m)"
    using assms by (auto simp: claude_usage_reset_at_def Let_def split: list.splits if_splits)
  have "day_us = 60000000 * 1440" by (simp add: day_us_def)
  then have "(at_time now h m + day_us) mod 60000000 = 0"
    using at_time_bounds(3) [OF ok, of now] by (metis mod_add_right_eq mod_mult_self1_is_0 add.right_neutral)
  then show ?thesis
    using at_time_bounds [OF ok, of now] r by (auto simp: day_us_def)
qed

text \<open>At 21:00 the provider says it resets at 9:20 am: twelve hours and twenty minutes later.\<close>

definition quota_error :: exn_object where
  "quota_error = gai_error\<lparr>type_name := ''ClaudeSDKUsageExhaustedError'', message := ''resets 9:20am (UTC)''\<rparr>"

lemma quota_error_hint: "reset_hint quota_error = Some (9, 20)"
  by code_simp

lemma usage_reset_within_a_day_witness:
  "claude_usage_reset_at (\<lambda>_. quota_error) 0 75600000000 = Some 120000000000 \<and> (75600000000::int) < 120000000000"
proof -
  have "walk_chain (\<lambda>_. quota_error) 0 = [quota_error]"
    by (simp add: walk_chain_def MAX_CHAIN_WALK_def numeral_eq_Suc next_in_chain_def quota_error_def gai_error_def)
  then have "claude_usage_reset_at (\<lambda>_. quota_error) 0 75600000000 = Some 120000000000"
    by (simp add: claude_usage_reset_at_def map_filter_simps quota_error_hint at_time_def day_us_def)
  then show ?thesis using usage_reset_within_a_day by blast
qed

lemma parks_on_transient_path_witness:
  "classify_stage_error (\<lambda>_. quota_error) 0 = Transient"
proof -
  have "is_model_unavailable_error (\<lambda>_. quota_error) 0"
    by (simp add: is_model_unavailable_error_def walk_chain_def MAX_CHAIN_WALK_def numeral_eq_Suc
        next_in_chain_def quota_error_def gai_error_def matches_claude_usage_exhausted_def)
  then show ?thesis using parks_on_transient_path [of "\<lambda>_. quota_error" 0] by blast
qed

end
