(* ===== verification/Processing.thy ===== *)
theory Processing
  imports Service Errors
begin

text \<open>
  The processing loop of the worker, \<open>runtime/worker/processing.py\<close>: the chain of stages one
  ticket is driven through, with the gates before a stage is dispatched, the deadline it runs under,
  the retries and parks of a stage that fails, and what is done with its outcome. The stages, which
  prompt agents, are parameters: functions from the ticket and the world to an end and a world.
\<close>

section \<open>Stages and the state of the worker\<close>

text \<open>\<open>Outcome\<close> of \<open>stages/base.py\<close>, and the ways a run of a stage can end.\<close>

record outcome =
  out_state :: State
  out_note :: "string option"
  out_block_reason :: "string option"

datatype stage_end =
    Finished outcome
  | DeadlineExceeded rat "rat option" bool
  | NotImplemented
  | Raised nat

text \<open>A preflight that raises is on the left.\<close>

record stage =
  traced :: bool
  preflight :: "Ticket \<Rightarrow> world \<Rightarrow> (unit + outcome option) \<times> world"
  run_stage :: "Ticket \<Rightarrow> world \<Rightarrow> stage_end \<times> world"

record worker_settings =
  ticket_state_cycle_limit :: int
  review_max_rounds :: int
  network_outage_retry_seconds :: int
  disk_full_retry_seconds :: int
  disk_min_free_mb :: int
  disk_check_extra_paths :: "string list"
  model_outage_max_parks :: int
  model_outage_retry_seconds :: int
  claude_usage_exhausted_retry_seconds :: int
  stage_retry_max_attempts :: int
  stage_retry_base_delay :: rat
  stage_retry_max_delay :: rat

text \<open>
  The surroundings: the stages by name, the exceptions they raise with their \<open>repr\<close>, the link to the
  trace of a run (or nothing when tracing is off), the probes of the host, the random fraction of a
  delay and the token of a new ticket id.
\<close>

record worker_env =
  conf :: worker_settings
  stage_of :: "string \<Rightarrow> stage"
  exns :: exn_store
  exn_repr :: "nat \<Rightarrow> string"
  trace_link :: "string \<Rightarrow> world \<Rightarrow> string option"
  host_resolves :: "world \<Rightarrow> bool"
  free_space :: "world \<Rightarrow> string \<Rightarrow> int option"
  jitter :: "world \<Rightarrow> rat"
  fresh_token :: "world \<Rightarrow> string"

text \<open>Besides the world: the probe's cache, when infrastructure tickets were filed, the notifications
  sent, and the epics whose re-evaluation was started.\<close>

record worker_state =
  mill :: world
  probe :: probe_cache
  infra_last :: "string \<rightharpoonup> instant"
  sent :: "(string \<times> State \<times> string option) list"
  reevals :: "string list"

datatype crash = ServiceError error | PreflightRaised

definition call :: "(world \<Rightarrow> 'a result \<times> world) \<Rightarrow> worker_state \<Rightarrow> (crash + 'a) \<times> worker_state" where
  "call f ws =
     (case f (mill ws) of
        (Inl e, w) \<Rightarrow> (Inl (ServiceError e), ws\<lparr>mill := w\<rparr>)
      | (Inr v, w) \<Rightarrow> (Inr v, ws\<lparr>mill := w\<rparr>))"

text \<open>The first \<open>n\<close> characters of a text of UTF-8 bytes.\<close>

definition continuation :: "char \<Rightarrow> bool" where
  "continuation c \<longleftrightarrow> 128 \<le> code c \<and> code c < 192"

fun take_chars :: "nat \<Rightarrow> string \<Rightarrow> string" where
  "take_chars n [] = []"
| "take_chars n (c # cs) =
     (if continuation c then c # take_chars n cs
      else (case n of 0 \<Rightarrow> [] | Suc k \<Rightarrow> c # take_chars k cs))"

section \<open>Breadcrumbs, blocks and infrastructure tickets\<close>

definition trace_note :: "string \<Rightarrow> string \<Rightarrow> string" where
  "trace_note stage_name url =
     [CHR 0xF0, CHR 0x9F, CHR 0x94, CHR 0x8D] @ '' [Trace: '' @ stage_name @ ''](''  @ url @ '')''"

definition post_trace_event :: "service \<Rightarrow> string \<Rightarrow> string option \<Rightarrow> string \<Rightarrow> worker_state \<Rightarrow> worker_state" where
  "post_trace_event svc i link stage_name ws =
     (case link of
        None \<Rightarrow> ws
      | Some url \<Rightarrow> snd (call (add_history_note svc i (trace_note stage_name url)) ws))"

definition send_notification :: "Ticket \<Rightarrow> State \<Rightarrow> string option \<Rightarrow> worker_state \<Rightarrow> worker_state" where
  "send_notification t dst note ws = ws\<lparr>sent := sent ws @ [(tid t, dst, note)]\<rparr>"

definition TRIGGER_STATES :: "State list" where
  "TRIGGER_STATES = [HUMAN_ISSUE_APPROVAL, HUMAN_MR_APPROVAL, BLOCKED, ERRORED]"

definition WORKER_TERMINAL :: "State list" where
  "WORKER_TERMINAL = [CLOSED, ERRORED, BLOCKED]"

definition notify_ticket :: "service \<Rightarrow> string \<Rightarrow> State \<Rightarrow> string option \<Rightarrow> worker_state \<Rightarrow> worker_state" where
  "notify_ticket svc i dst note ws =
     (case get_ticket svc i (mill ws) of None \<Rightarrow> ws | Some t \<Rightarrow> send_notification t dst note ws)"

definition block_ticket_and_notify ::
    "service \<Rightarrow> string \<Rightarrow> string \<Rightarrow> string \<Rightarrow> string option \<Rightarrow> worker_state \<Rightarrow> (crash + unit) \<times> worker_state" where
  "block_ticket_and_notify svc i stage_name note link ws =
     (case call (transition svc i BLOCKED (Some (take_chars 200 note)) None)
             (post_trace_event svc i link stage_name ws) of
        (Inl c, ws1) \<Rightarrow> (Inl c, ws1)
      | (Inr _, ws1) \<Rightarrow> (Inr (), notify_ticket svc i BLOCKED (Some (take_chars 200 note)) ws1))"

definition close_after_retrospect_failure ::
    "service \<Rightarrow> string \<Rightarrow> string \<Rightarrow> string option \<Rightarrow> worker_state \<Rightarrow> (crash + unit) \<times> worker_state" where
  "close_after_retrospect_failure svc i note link ws =
     (case call (transition svc i CLOSED
               (Some (take_chars 200 (''retrospect failed '' @ em_dash @ '' '' @ note))) None)
             (post_trace_event svc i link ''retrospect'' ws) of
        (Inl c, ws1) \<Rightarrow> (Inl c, ws1)
      | (Inr _, ws1) \<Rightarrow> (Inr (), ws1))"

definition INFRA_TICKET_COOLDOWN :: int where
  "INFRA_TICKET_COOLDOWN = 3600 * 1000000"

definition infra_request :: "string \<Rightarrow> string \<Rightarrow> string \<Rightarrow> create_request" where
  "infra_request the_title body tok =
     \<lparr>r_title = the_title,
      r_description = ''**Automatically filed by the mill worker**'' @ nl @ ''(source: infrastructure)'' @ nl @ nl
        @ body @ nl,
      r_source = source_value S_INFRASTRUCTURE, r_origin_session = None, r_depends_on = None,
      r_unblocks = None, r_kind = TASK, r_parent = None, r_board = None, r_priority = True,
      r_initial = None, r_token = tok\<rparr>"

text \<open>Whatever fails inside is logged and dropped.\<close>

definition file_infra_ticket :: "worker_env \<Rightarrow> service \<Rightarrow> string \<Rightarrow> string \<Rightarrow> worker_state \<Rightarrow> worker_state" where
  "file_infra_ticket env svc the_title body ws =
     (let now = clock (mill ws); k = lower the_title
      in if (case infra_last ws k of None \<Rightarrow> False | Some stamp \<Rightarrow> now - stamp < INFRA_TICKET_COOLDOWN) then ws
         else (let ws1 = ws\<lparr>infra_last := (infra_last ws)(k \<mapsto> now)\<rparr>; svc1 = svc\<lparr>has_callback := False\<rparr>
               in case list_tickets svc1 None [] 0 None ''created_at'' None None (mill ws1) of
                    Inl e \<Rightarrow> ws1
                  | Inr ts \<Rightarrow>
                      if list_ex (\<lambda>t. lower (strip (title t)) = k \<and> tstate t \<notin> set WORKER_TERMINAL) ts then ws1
                      else snd (call (create_ticket svc1 (infra_request the_title body (fresh_token env (mill ws1)))) ws1)))"

section \<open>The deadline of a run\<close>

text \<open>\<open>stage_progress.py\<close>: when a run last made progress, in seconds of the monotonic clock.\<close>

type_synonym progress = "string \<times> string \<rightharpoonup> rat"

definition progress_mark :: "rat \<Rightarrow> string \<Rightarrow> string \<Rightarrow> progress \<Rightarrow> progress" where
  "progress_mark now i s p = p((i, s) \<mapsto> now)"

definition last_activity_age :: "rat \<Rightarrow> string \<Rightarrow> string \<Rightarrow> progress \<Rightarrow> rat option" where
  "last_activity_age now i s p = map_option (\<lambda>stamp. now - stamp) (p (i, s))"

definition progress_clear :: "string \<Rightarrow> string \<Rightarrow> progress \<Rightarrow> progress" where
  "progress_clear i s p = p((i, s) := None)"

text \<open>What a poll sees: whether the task is done, the time elapsed, the age of the last activity.\<close>

datatype deadline_end = TaskDone | Killed rat "rat option" bool

fun await_stage_with_deadline ::
    "rat \<Rightarrow> rat \<Rightarrow> rat \<Rightarrow> (bool \<times> rat \<times> rat option) list \<Rightarrow> deadline_end option" where
  "await_stage_with_deadline soft hard idle [] = None"
| "await_stage_with_deadline soft hard idle ((finished, elapsed, age) # polls) =
     (if finished then Some TaskDone
      else if hard \<le> elapsed then Some (Killed elapsed age False)
      else if soft \<le> elapsed \<and> (idle = 0 \<or> (case age of None \<Rightarrow> True | Some a \<Rightarrow> idle \<le> a))
        then Some (Killed elapsed age True)
      else await_stage_with_deadline soft hard idle polls)"

definition poll_interval :: "rat \<Rightarrow> rat" where
  "poll_interval soft = min 15 (max (1 / 2) (soft / 10))"

definition show_trunc :: "rat \<Rightarrow> string" where
  "show_trunc q = show_int (if 0 \<le> q then floor q else ceiling q)"

definition kill_description :: "string \<Rightarrow> rat \<Rightarrow> rat option \<Rightarrow> bool \<Rightarrow> string" where
  "kill_description stage_name elapsed age stalled =
     ''stage '' @ stage_name @ '' timed out after '' @ show_trunc elapsed @ ''s ('' @
     (if stalled
      then ''stall: '' @ (case age of Some a \<Rightarrow> ''no agent activity for '' @ show_trunc a @ ''s''
                                    | None \<Rightarrow> ''no agent activity recorded'')
      else ''hard ceiling'') @ '')''"

section \<open>A stage that fails\<close>

text \<open>\<open>compute_retry_delay\<close>, with the random part as a fraction of half the delay.\<close>

definition compute_retry_delay :: "int \<Rightarrow> rat \<Rightarrow> rat \<Rightarrow> rat \<Rightarrow> rat" where
  "compute_retry_delay attempt base cap fraction =
     (let delay = min cap (base * 2 ^ nat (attempt - 1)) in delay + fraction * (delay / 2))"

definition in_seconds :: "rat \<Rightarrow> instant \<Rightarrow> instant" where
  "in_seconds delay now = now + round (delay * 1000000)"

text \<open>Parking and retrying: the retry columns, then the breadcrumb.\<close>

definition park ::
    "service \<Rightarrow> string \<Rightarrow> string \<Rightarrow> string option \<Rightarrow> int \<Rightarrow> string \<Rightarrow> rat \<Rightarrow> (worker_state \<Rightarrow> worker_state) \<Rightarrow>
     worker_state \<Rightarrow> (crash + unit) \<times> worker_state" where
  "park svc i stage_name link attempt reason delay alert ws =
     (case call (set_retry_state svc i attempt (Some (take_chars 200 reason))
               (Some (in_seconds delay (clock (mill ws))))) ws of
        (Inl c, ws1) \<Rightarrow> (Inl c, ws1)
      | (Inr _, ws1) \<Rightarrow> (Inr (), post_trace_event svc i link stage_name (alert ws1)))"

definition disk_paths :: "worker_env \<Rightarrow> service \<Rightarrow> string list" where
  "disk_paths env svc = data_dir (settings_of svc) # disk_check_extra_paths (conf env)"

definition disk_title :: string where
  "disk_title = ''Infrastructure: disk space low '' @ em_dash @ '' pipeline parked''"

definition disk_tail :: "worker_env \<Rightarrow> string" where
  "disk_tail env = ''threshold: '' @ show_int (disk_min_free_mb (conf env))
     @ '' MB free. The data-dir GC may clear space automatically; if not, operator intervention is required.''"

definition MODEL_OUTAGE_MARKER :: string where
  "MODEL_OUTAGE_MARKER = ''model_outage''"

definition clock_time :: "instant \<Rightarrow> string" where
  "clock_time now =
     (let sod = now div 1000000 mod 86400 in pad 2 (sod div 3600) @ '':'' @ pad 2 (sod div 60 mod 60))"

text \<open>How a model outage is named, and for how many seconds it is parked.\<close>

definition outage_park :: "worker_env \<Rightarrow> exn_store \<Rightarrow> nat \<Rightarrow> instant \<Rightarrow> string \<times> rat" where
  "outage_park env st e now =
     (if is_claude_usage_exhausted st e then
        (case claude_usage_reset_at st e now of
           Some reset \<Rightarrow>
             (''Claude usage exhausted '' @ em_dash @ '' parked until '' @ clock_time reset @ ''Z'',
              of_int (max 60 ((reset - now) div 1000000 + 60)))
         | None \<Rightarrow> (''Claude usage exhausted'', of_int (claude_usage_exhausted_retry_seconds (conf env))))
      else (''model outage'', of_int (model_outage_retry_seconds (conf env))))"

definition outage_exhausted_note :: "exn_object \<Rightarrow> int \<Rightarrow> string" where
  "outage_exhausted_note x parks =
     take_chars 200 (''Infrastructure: LLM model outage ('' @ MODEL_OUTAGE_MARKER @ '') persisted after ''
       @ show_int parks @ '' park(s) '' @ em_dash @ '' may be a permanent condition (bad model id?): ''
       @ type_name x @ '': '' @ message x)"

definition exhausted_note :: "exn_object \<Rightarrow> int \<Rightarrow> string" where
  "exhausted_note x attempts =
     take_chars 200 (''Transient: '' @ type_name x @ '' persisted after '' @ show_int attempts
       @ '' attempts '' @ em_dash @ '' last: '' @ message x)"

definition fatal_note :: "exn_object \<Rightarrow> string" where
  "fatal_note x = take_chars 200 (''Fatal: '' @ type_name x @ '': '' @ message x)"

text \<open>The end of the road: the ticket is blocked, or closed when only the retrospect failed.\<close>

definition give_up ::
    "service \<Rightarrow> string \<Rightarrow> string \<Rightarrow> string \<Rightarrow> string option \<Rightarrow> worker_state \<Rightarrow> (crash + unit) \<times> worker_state" where
  "give_up svc i stage_name note link ws =
     (if stage_name = ''retrospect'' then close_after_retrospect_failure svc i note link ws
      else block_ticket_and_notify svc i stage_name note link ws)"

text \<open>The retry would be refused by the fingerprint the failed run of \<open>implement\<close> left behind.\<close>

definition drop_implement_guard :: "service \<Rightarrow> string \<Rightarrow> string \<Rightarrow> worker_state \<Rightarrow> worker_state" where
  "drop_implement_guard svc i stage_name ws =
     (if stage_name = ''implement'' then
        (case get_ticket svc i (mill ws) of
           None \<Rightarrow> ws
         | Some t \<Rightarrow> snd (call (in_artifacts svc t (\<lambda>a. Inr (unlink ''implement.md'' a))) ws))
      else ws)"

definition retry_or_give_up ::
    "worker_env \<Rightarrow> service \<Rightarrow> string \<Rightarrow> string \<Rightarrow> exn_object \<Rightarrow> string \<Rightarrow> string option \<Rightarrow> Ticket \<Rightarrow>
     worker_state \<Rightarrow> (crash + unit) \<times> worker_state" where
  "retry_or_give_up env svc i stage_name x repr link t ws =
     (let attempt = retry_attempt t + 1; max_attempts = stage_retry_max_attempts (conf env)
      in if attempt \<le> max_attempts
         then park svc i stage_name link attempt repr
                (compute_retry_delay attempt (stage_retry_base_delay (conf env))
                  (stage_retry_max_delay (conf env)) (jitter env (mill ws))) (\<lambda>s. s) ws
         else give_up svc i stage_name (exhausted_note x max_attempts) link ws)"

definition handle_transient ::
    "worker_env \<Rightarrow> service \<Rightarrow> string \<Rightarrow> string \<Rightarrow> exn_store \<Rightarrow> nat \<Rightarrow> string \<Rightarrow> string option \<Rightarrow> Ticket \<Rightarrow>
     worker_state \<Rightarrow> (crash + unit) \<times> worker_state" where
  "handle_transient env svc i stage_name st e repr link t ws =
     (let net = is_network_down_error st e;
          (up, cache) = network_available (host_resolves env (mill ws)) (of_int (clock (mill ws)) / 1000000) (probe ws);
          ws1 = (if net then ws\<lparr>probe := cache\<rparr> else ws)
      in if net \<and> \<not> up then
           park svc i stage_name link (max (retry_attempt t) 1)
             (''network outage (parked, retry budget untouched): '' @ repr)
             (of_int (network_outage_retry_seconds (conf env))) (\<lambda>s. s) ws1
         else if is_disk_full_error st e
             \<and> first_full_path (free_space env (mill ws1)) (disk_paths env svc) (disk_min_free_mb (conf env)) \<noteq> None then
           park svc i stage_name link (max (retry_attempt t) 1)
             (''data volume full (parked, retry budget untouched): '' @ repr)
             (of_int (disk_full_retry_seconds (conf env)))
             (file_infra_ticket env svc disk_title
               (''The worker detected low disk space and parked all ticket processing. Path: ''
                @ data_dir (settings_of svc) @ '', '' @ disk_tail env)) ws1
         else if is_model_unavailable_error st e then
           (let park_count = retry_attempt t + 1
            in if park_count > model_outage_max_parks (conf env)
               then block_ticket_and_notify svc i stage_name (outage_exhausted_note (st e) (park_count - 1)) link ws1
               else (let (outage_kind, delay) = outage_park env st e (clock (mill ws1))
                     in park svc i stage_name link park_count
                          (outage_kind @ '' ('' @ MODEL_OUTAGE_MARKER @ '', park '' @ show_int park_count @ ''/''
                           @ show_int (model_outage_max_parks (conf env)) @ '', retry budget untouched): '' @ repr)
                          delay (\<lambda>s. s) ws1))
         else retry_or_give_up env svc i stage_name (st e) repr link t ws1)"

definition handle_stage_error ::
    "worker_env \<Rightarrow> service \<Rightarrow> string \<Rightarrow> string \<Rightarrow> exn_store \<Rightarrow> nat \<Rightarrow> string \<Rightarrow> string option \<Rightarrow>
     worker_state \<Rightarrow> (crash + unit) \<times> worker_state" where
  "handle_stage_error env svc i stage_name st e repr link ws =
     (if classify_stage_error st e = Transient then
        (let ws1 = drop_implement_guard svc i stage_name ws
         in case get_ticket svc i (mill ws1) of
              None \<Rightarrow> (Inr (), ws1)
            | Some t \<Rightarrow> handle_transient env svc i stage_name st e repr link t ws1)
      else give_up svc i stage_name (fatal_note (st e)) link ws)"

section \<open>The gates before a stage\<close>

datatype admission = Skip | Park string string | Dispatch Ticket string

text \<open>
  What the top of the loop decides: nothing to do, the disk is full, or a stage for the ticket.
\<close>

definition admit ::
    "worker_env \<Rightarrow> service \<Rightarrow> string \<Rightarrow> State set option \<Rightarrow> world \<Rightarrow> admission" where
  "admit env svc i allowed w =
     (case get_ticket svc i w of
        None \<Rightarrow> Skip
      | Some t \<Rightarrow>
          if tstate t \<in> set WORKER_TERMINAL then Skip
          else if (case allowed of None \<Rightarrow> False | Some S \<Rightarrow> tstate t \<notin> S) then Skip
          else if tstate t = AWAITING_USER_REPLY then Skip
          else if (case next_retry_at t of None \<Rightarrow> False | Some due \<Rightarrow> clock w < due) then Skip
          else (case STAGE_FOR_STATE (tstate t) of
                  None \<Rightarrow> Skip
                | Some stage_name \<Rightarrow>
                    if unmet_dependencies svc t w \<noteq> [] then Skip
                    else (case first_full_path (free_space env w) (disk_paths env svc) (disk_min_free_mb (conf env)) of
                            Some path \<Rightarrow> Park stage_name path
                          | None \<Rightarrow> Dispatch t stage_name)))"

definition park_before_dispatch ::
    "worker_env \<Rightarrow> service \<Rightarrow> string \<Rightarrow> string \<Rightarrow> string \<Rightarrow> worker_state \<Rightarrow> (crash + unit) \<times> worker_state" where
  "park_before_dispatch env svc i stage_name path ws =
     park svc i stage_name None
       (max (case get_ticket svc i (mill ws) of None \<Rightarrow> 0 | Some t \<Rightarrow> retry_attempt t) 1)
       (path @ '' below '' @ show_int (disk_min_free_mb (conf env))
        @ '' MB free (parked before dispatch, retry budget untouched)'')
       (of_int (disk_full_retry_seconds (conf env)))
       (file_infra_ticket env svc disk_title
         (''The worker detected low disk space before dispatching a stage and parked all ticket processing. Path: ''
          @ path @ '', '' @ disk_tail env)) ws"

section \<open>What becomes of an outcome\<close>

definition clear_retry :: "service \<Rightarrow> string \<Rightarrow> Ticket \<Rightarrow> worker_state \<Rightarrow> (crash + unit) \<times> worker_state" where
  "clear_retry svc i t ws =
     (if 0 < retry_attempt t then call (set_retry_state svc i 0 None None) ws else (Inr (), ws))"

text \<open>The refusal of a terminal state because of an open question.\<close>

definition is_stale_ask_user_block :: "State \<Rightarrow> crash \<Rightarrow> bool" where
  "is_stale_ask_user_block dst c \<longleftrightarrow> dst \<in> set TERMINAL_STATES
     \<and> (case c of ServiceError (TransitionError _ (OpenQuestions _ _)) \<Rightarrow> True | _ \<Rightarrow> False)"

definition is_transition_error :: "crash \<Rightarrow> bool" where
  "is_transition_error c \<longleftrightarrow> (case c of ServiceError (TransitionError _ _) \<Rightarrow> True | _ \<Rightarrow> False)"

definition close_stale_threads_and_transition ::
    "service \<Rightarrow> string \<Rightarrow> State \<Rightarrow> string option \<Rightarrow> string option \<Rightarrow> worker_state \<Rightarrow> (crash + unit) \<times> worker_state" where
  "close_stale_threads_and_transition svc i dst note reason ws =
     (case call (close_open_ask_user_threads svc i) ws of
        (Inl c, ws1) \<Rightarrow> (Inl c, ws1)
      | (Inr _, ws1) \<Rightarrow>
          (case call (transition svc i dst note reason) ws1 of
             (Inl c, ws2) \<Rightarrow> (Inl c, ws2)
           | (Inr _, ws2) \<Rightarrow> (Inr (), ws2)))"

definition transition_closing_stale_threads ::
    "service \<Rightarrow> string \<Rightarrow> State \<Rightarrow> string option \<Rightarrow> worker_state \<Rightarrow> (crash + unit) \<times> worker_state" where
  "transition_closing_stale_threads svc i dst note ws =
     (case call (transition svc i dst note None) ws of
        (Inr _, ws1) \<Rightarrow> (Inr (), ws1)
      | (Inl c, ws1) \<Rightarrow>
          if is_stale_ask_user_block dst c
          then close_stale_threads_and_transition svc i dst note None ws1 else (Inl c, ws1))"

definition EPIC_CHILD_TERMINAL :: "State list" where
  "EPIC_CHILD_TERMINAL = [DONE, CLOSED, ANSWERED, EPIC_CLOSED]"

definition maybe_reevaluate_epic :: "service \<Rightarrow> string \<Rightarrow> State \<Rightarrow> worker_state \<Rightarrow> worker_state" where
  "maybe_reevaluate_epic svc i dst ws =
     (if dst \<in> set EPIC_CHILD_TERMINAL then
        (case get_ticket svc i (mill ws) of
           None \<Rightarrow> ws
         | Some t \<Rightarrow>
             (case parent_id t of
                None \<Rightarrow> ws
              | Some p \<Rightarrow>
                  (case get_ticket svc p (mill ws) of
                     None \<Rightarrow> ws
                   | Some parent \<Rightarrow> if kind parent = EPIC then ws\<lparr>reevals := reevals ws @ [tid parent]\<rparr> else ws)))
      else ws)"

definition discard_note :: "Ticket \<Rightarrow> Ticket option \<Rightarrow> string \<Rightarrow> outcome \<Rightarrow> string" where
  "discard_note before now stage_name out =
     take_chars 500 (''stage outcome discarded: ticket moved '' @ state_value (tstate before) @ '' -> ''
       @ (case now of Some t \<Rightarrow> state_value (tstate t) | None \<Rightarrow> ''(gone)'') @ '' during '' @ stage_name
       @ '' run; outcome was '' @ state_value (out_state out) @ ''; note: '' @ or_empty (out_note out))"

text \<open>Applying the outcome; \<open>False\<close> when it was discarded because the ticket has moved meanwhile.\<close>

definition apply_outcome ::
    "service \<Rightarrow> string \<Rightarrow> string \<Rightarrow> Ticket \<Rightarrow> outcome \<Rightarrow> worker_state \<Rightarrow> (crash + bool) \<times> worker_state" where
  "apply_outcome svc i stage_name t out ws =
     (if map_option tstate (get_ticket svc i (mill ws)) = Some (out_state out) then (Inr True, ws)
      else (case call (transition svc i (out_state out) (out_note out) (out_block_reason out)) ws of
              (Inr _, ws1) \<Rightarrow> (Inr True, ws1)
            | (Inl c, ws1) \<Rightarrow>
                if \<not> is_transition_error c then (Inl c, ws1)
                else if is_stale_ask_user_block (out_state out) c then
                  (case close_stale_threads_and_transition svc i (out_state out) (out_note out) (out_block_reason out) ws1 of
                     (Inl c2, ws2) \<Rightarrow> (Inl c2, ws2)
                   | (Inr _, ws2) \<Rightarrow> (Inr True, ws2))
                else (Inr False, snd (call (add_history_note svc i
                        (discard_note t (get_ticket svc i (mill ws1)) stage_name out)) ws1))))"

section \<open>One round, and the loop\<close>

datatype round_end = Stop "crash + unit" | Again "string \<Rightarrow> nat"

abbreviation stopped :: "(crash + unit) \<times> worker_state \<Rightarrow> round_end \<times> worker_state" where
  "stopped r \<equiv> (Stop (fst r), snd r)"

definition preflight_outcome ::
    "service \<Rightarrow> string \<Rightarrow> Ticket \<Rightarrow> outcome \<Rightarrow> worker_state \<Rightarrow> (crash + unit) \<times> worker_state" where
  "preflight_outcome svc i t out ws =
     (if out_state out = tstate t then (Inr (), ws)
      else (case clear_retry svc i t ws of
              (Inl c, ws1) \<Rightarrow> (Inl c, ws1)
            | (Inr _, ws1) \<Rightarrow>
                (case call (transition svc i (out_state out) (out_note out) (out_block_reason out)) ws1 of
                   (Inl c, ws2) \<Rightarrow> if is_transition_error c then (Inr (), ws2) else (Inl c, ws2)
                 | (Inr _, ws2) \<Rightarrow> (Inr (), ws2))))"

definition cycle_limit :: "worker_settings \<Rightarrow> int" where
  "cycle_limit c =
     (if ticket_state_cycle_limit c = 0 then 0
      else max (ticket_state_cycle_limit c) (review_max_rounds c + 1))"

definition cycle_note :: "string \<Rightarrow> nat \<Rightarrow> int \<Rightarrow> string" where
  "cycle_note stage_name n limit =
     take_chars 200 (''Cycle ceiling: '' @ CHR 0x27 # stage_name @ CHR 0x27 # '' re-ran '' @ show_int (int n)
       @ '' times this pass (limit '' @ show_int limit @ '') '' @ em_dash @ '' pausing for human review to ''
       @ ''avoid an unbounded implement/review/ci_fix re-run loop.'')"

definition retrospect_kill_note :: "string \<Rightarrow> string" where
  "retrospect_kill_note desc = take_chars 200 (desc @ '' '' @ em_dash @ '' skipped. The PR is merged and the ''
     @ ''ticket is complete; only the follow-up-learning pass was lost.'')"

definition timeout_error :: "string \<Rightarrow> exn_object" where
  "timeout_error text =
     \<lparr>classes = [''builtins.TimeoutError'', ''builtins.OSError'', ''builtins.Exception''],
      type_name = ''TimeoutError'', message = text, errno = None,
      response = \<lparr>status_code = 0, ratelimit_remaining = None, retry_after = False, body_text = None, error_message = None\<rparr>,
      process = \<lparr>returncode = 0, cmd = Argv [], stderr = None\<rparr>, cause = None, exn_context = None\<rparr>"

definition handle_deadline ::
    "worker_env \<Rightarrow> service \<Rightarrow> string \<Rightarrow> string \<Rightarrow> string \<Rightarrow> string option \<Rightarrow> worker_state \<Rightarrow> (crash + unit) \<times> worker_state" where
  "handle_deadline env svc i stage_name desc link ws =
     (if stage_name = ''implement'' \<or> stage_name = ''ci_fix'' then
        handle_stage_error env svc i stage_name (\<lambda>_. timeout_error desc) 0 (''TimeoutError('' @ py_repr desc @ '')'') link
          (snd (call (add_history_note svc i (take_chars 500 desc)) ws))
      else if stage_name = ''retrospect'' then
        transition_closing_stale_threads svc i CLOSED (Some (retrospect_kill_note desc))
          (post_trace_event svc i link stage_name ws)
      else block_ticket_and_notify svc i stage_name (take_chars 200 desc) link ws)"

text \<open>After a run that returned an outcome: the next round, or the end of the chain.\<close>

definition finish_run ::
    "service \<Rightarrow> string \<Rightarrow> string \<Rightarrow> Ticket \<Rightarrow> outcome \<Rightarrow> string option \<Rightarrow> (string \<Rightarrow> nat) \<Rightarrow> worker_state \<Rightarrow>
     round_end \<times> worker_state" where
  "finish_run svc i stage_name t out link counts ws =
     (case clear_retry svc i t ws of
        (Inl c, ws1) \<Rightarrow> (Stop (Inl c), ws1)
      | (Inr _, ws1) \<Rightarrow>
          if out_state out = tstate t then (Stop (Inr ()), post_trace_event svc i link stage_name ws1)
          else (case apply_outcome svc i stage_name t out (post_trace_event svc i link stage_name ws1) of
                  (Inl c, ws2) \<Rightarrow> (Stop (Inl c), ws2)
                | (Inr False, ws2) \<Rightarrow> (Stop (Inr ()), ws2)
                | (Inr True, ws2) \<Rightarrow>
                    (Again counts,
                     maybe_reevaluate_epic svc i (out_state out)
                       (if out_state out \<in> set TRIGGER_STATES
                        then notify_ticket svc i (out_state out) (out_note out) ws2 else ws2))))"

definition run_round ::
    "worker_env \<Rightarrow> service \<Rightarrow> string \<Rightarrow> string \<Rightarrow> Ticket \<Rightarrow> (string \<Rightarrow> nat) \<Rightarrow> worker_state \<Rightarrow> round_end \<times> worker_state" where
  "run_round env svc i stage_name t counts ws =
     (let st = stage_of env stage_name;
          link = (if traced st then trace_link env stage_name (mill ws) else None);
          (result, w) = run_stage st t (mill ws);
          ws1 = ws\<lparr>mill := w\<rparr>
      in case result of
           Finished out \<Rightarrow> finish_run svc i stage_name t out link counts ws1
         | DeadlineExceeded elapsed age stalled \<Rightarrow>
             stopped (handle_deadline env svc i stage_name (kill_description stage_name elapsed age stalled) link ws1)
         | NotImplemented \<Rightarrow> (Stop (Inr ()), post_trace_event svc i link stage_name ws1)
         | Raised e \<Rightarrow> stopped (handle_stage_error env svc i stage_name (exns env) e (exn_repr env e) link ws1))"

definition process_once ::
    "worker_env \<Rightarrow> service \<Rightarrow> string \<Rightarrow> State set option \<Rightarrow> (string \<Rightarrow> nat) \<Rightarrow> worker_state \<Rightarrow> round_end \<times> worker_state" where
  "process_once env svc i allowed counts ws =
     (case admit env svc i allowed (mill ws) of
        Skip \<Rightarrow> (Stop (Inr ()), ws)
      | Park stage_name path \<Rightarrow> stopped (park_before_dispatch env svc i stage_name path ws)
      | Dispatch t stage_name \<Rightarrow>
          (case preflight (stage_of env stage_name) t (mill ws) of
             (Inl _, w) \<Rightarrow> (Stop (Inl PreflightRaised), ws\<lparr>mill := w\<rparr>)
           | (Inr (Some out), w) \<Rightarrow> stopped (preflight_outcome svc i t out (ws\<lparr>mill := w\<rparr>))
           | (Inr None, w) \<Rightarrow>
               (let limit = cycle_limit (conf env); ws1 = ws\<lparr>mill := w\<rparr>
                in if traced (stage_of env stage_name) \<and> 0 < limit then
                     (let n = Suc (counts stage_name); counts1 = counts(stage_name := n)
                      in if limit < int n
                         then stopped (block_ticket_and_notify svc i stage_name (cycle_note stage_name n limit) None ws1)
                         else run_round env svc i stage_name t counts1 ws1)
                   else run_round env svc i stage_name t counts ws1)))"

partial_function (option) process_loop ::
    "worker_env \<Rightarrow> service \<Rightarrow> string \<Rightarrow> State set option \<Rightarrow> (string \<Rightarrow> nat) \<Rightarrow> worker_state \<Rightarrow>
     ((crash + unit) \<times> worker_state) option" where
  "process_loop env svc i allowed counts ws =
     (case process_once env svc i allowed counts ws of
        (Stop r, ws1) \<Rightarrow> Some (r, ws1)
      | (Again counts1, ws1) \<Rightarrow> process_loop env svc i allowed counts1 ws1)"

declare process_loop.simps [code]

definition process_ticket ::
    "worker_env \<Rightarrow> service \<Rightarrow> string \<Rightarrow> State set option \<Rightarrow> worker_state \<Rightarrow> ((crash + unit) \<times> worker_state) option" where
  "process_ticket env svc i allowed ws = process_loop env svc i allowed (\<lambda>_. 0) ws"

end
