(* ===== verification/Dispatch.thy ===== *)
theory Dispatch
  imports Processing Gate "HOL-Library.While_Combinator"
begin

text \<open>
  The consumers of the worker, \<open>runtime/worker/core.py\<close>: the queue of each board, what a consumer
  does between taking a ticket and its next \<open>await\<close>, and how it lets go of the ticket. Between two
  awaits nothing else runs, so each of these pieces is one step; the stages change tickets between
  the steps, so each step comes with a world of its own.
\<close>

section \<open>Ranks\<close>

fun stage_rank_of :: "State \<Rightarrow> int" where
  "stage_rank_of CLASSIFYING = 0"
| "stage_rank_of DONE = 0"
| "stage_rank_of DELIVERABLE = 1"
| "stage_rank_of DOCUMENTING = 2"
| "stage_rank_of CODE_REVIEW = 3"
| "stage_rank_of ADDRESSING_REVIEW = 4"
| "stage_rank_of FIXING_CI = 5"
| "stage_rank_of REBASING = 6"
| "stage_rank_of HUMAN_MR_APPROVAL = 7"
| "stage_rank_of WAITING_AUTO_MERGE = 8"
| "stage_rank_of IMPLEMENT_COMPLETE = 9"
| "stage_rank_of READY = 11"
| "stage_rank_of DRAFT = 12"
| "stage_rank_of ASKED = 13"
| "stage_rank_of _ = 99"

definition stage_rank :: "Ticket option \<Rightarrow> int" where
  "stage_rank t = (case t of None \<Rightarrow> 99 | Some t \<Rightarrow> stage_rank_of (tstate t))"

definition priority_rank :: "Ticket option \<Rightarrow> int" where
  "priority_rank t = (case t of None \<Rightarrow> 1 | Some t \<Rightarrow> if priority t then 0 else 1)"

definition current_rank :: "Ticket option \<Rightarrow> rank option" where
  "current_rank t = map_option (\<lambda>t. (priority_rank (Some t), stage_rank (Some t))) t"

definition IN_FLIGHT_PR_STATES :: "State list" where
  "IN_FLIGHT_PR_STATES =
     [DELIVERABLE, IMPLEMENT_COMPLETE, WAITING_AUTO_MERGE, REBASING, FIXING_CI, ADDRESSING_REVIEW]"

definition CAP_GATED_STATES :: "State list" where
  "CAP_GATED_STATES = [READY, DRAFT]"

definition DRAIN_HEAVY_STAGES :: "string list" where
  "DRAIN_HEAVY_STAGES = [''implement'', ''ci_fix'', ''refine'']"

definition MERGE_LANE_STATES :: "State list" where
  "MERGE_LANE_STATES = [IMPLEMENT_COMPLETE, HUMAN_MR_APPROVAL, WAITING_AUTO_MERGE]"

definition INFLIGHT_PR_STALE_SECONDS :: int where
  "INFLIGHT_PR_STALE_SECONDS = 3 * 60 * 60"

text \<open>\<open>service.list()\<close> with its defaults.\<close>

definition list_all_tickets :: "service \<Rightarrow> world \<Rightarrow> Ticket list result" where
  "list_all_tickets svc w = list_tickets svc None [] 0 None ''created_at'' None None w"

definition count_inflight_prs :: "service \<Rightarrow> world \<Rightarrow> int result" where
  "count_inflight_prs svc w =
     (case list_all_tickets svc w of
        Inl e \<Rightarrow> Inl e
      | Inr ts \<Rightarrow> Inr (int (length (filter
          (\<lambda>t. tstate t \<in> set IN_FLIGHT_PR_STATES
             \<and> clock w - updated_at t \<le> INFLIGHT_PR_STALE_SECONDS * 1000000) ts))))"

section \<open>The queues\<close>

text \<open>
  An entry of a queue, and \<open>PriorityQueue\<close>: its entries in the order in which they are taken, and
  the count of those taken or still in it that were not reported done.
\<close>

record queue_entry =
  q_prio :: int
  q_stage :: int
  q_seq :: nat
  q_ticket :: string

abbreviation q_rank :: "queue_entry \<Rightarrow> rank" where
  "q_rank e \<equiv> (q_prio e, q_stage e)"

definition queue_key :: "queue_entry \<Rightarrow> rank \<times> nat" where
  "queue_key e = (q_rank e, q_seq e)"

definition queue_push :: "queue_entry \<Rightarrow> queue_entry list \<Rightarrow> queue_entry list" where
  "queue_push e q = insort_key queue_key e q"

record board_queue =
  entries :: "queue_entry list"
  unfinished :: nat

definition empty_queue :: board_queue where
  "empty_queue = \<lparr>entries = [], unfinished = 0\<rparr>"

definition put_nowait :: "queue_entry \<Rightarrow> board_queue \<Rightarrow> board_queue" where
  "put_nowait e q = q\<lparr>entries := queue_push e (entries q), unfinished := Suc (unfinished q)\<rparr>"

text \<open>\<open>task_done\<close>: a \<open>ValueError\<close> when there is nothing left to report.\<close>

definition task_done :: "board_queue \<Rightarrow> board_queue option" where
  "task_done q = (if unfinished q = 0 then None else Some (q\<lparr>unfinished := unfinished q - 1\<rparr>))"

section \<open>The worker's state\<close>

record dispatcher =
  queues :: "string \<rightharpoonup> board_queue"
  enqueue_seq :: nat
  pending :: "string set"
  cap_deferred :: "string set"
  drain_until :: "instant option"
  in_flight :: "string set"

definition queue_of :: "string \<Rightarrow> dispatcher \<Rightarrow> board_queue" where
  "queue_of b d = (case queues d b of None \<Rightarrow> empty_queue | Some q \<Rightarrow> q)"

definition set_queue :: "string \<Rightarrow> board_queue \<Rightarrow> dispatcher \<Rightarrow> dispatcher" where
  "set_queue b q d = d\<lparr>queues := (queues d)(b \<mapsto> q)\<rparr>"

definition queue_size :: "string list \<Rightarrow> dispatcher \<Rightarrow> nat" where
  "queue_size bs d = sum_list (map (\<lambda>b. length (entries (queue_of b d))) bs)"

text \<open>The mode in which no heavy stage is started.\<close>

definition set_drain :: "int \<Rightarrow> instant \<Rightarrow> dispatcher \<Rightarrow> dispatcher" where
  "set_drain ttl now d = d\<lparr>drain_until := Some (now div 1000000 * 1000000 + ttl * 1000000)\<rparr>"

definition clear_drain :: "dispatcher \<Rightarrow> dispatcher" where
  "clear_drain d = d\<lparr>drain_until := None\<rparr>"

definition drain_active :: "instant \<Rightarrow> dispatcher \<Rightarrow> bool \<times> dispatcher" where
  "drain_active now d =
     (case drain_until d of
        None \<Rightarrow> (False, d)
      | Some until \<Rightarrow> if until \<le> now then (False, d\<lparr>drain_until := None\<rparr>) else (True, d))"

text \<open>The part of \<open>drain_status\<close> the deployment acts on, for the names of the stages that run.\<close>

definition drained :: "instant \<Rightarrow> string list \<Rightarrow> dispatcher \<Rightarrow> bool \<times> dispatcher" where
  "drained now active_stages d =
     (case drain_active now d of
        (active, d1) \<Rightarrow> (active \<and> \<not> (\<exists>s \<in> set active_stages. s \<in> set DRAIN_HEAVY_STAGES), d1))"

definition enqueue :: "service \<Rightarrow> world \<Rightarrow> string \<Rightarrow> dispatcher \<Rightarrow> dispatcher" where
  "enqueue svc w i d =
     (if i \<in> pending d then d
      else (let k = Suc (enqueue_seq d); t = get_ticket svc i w;
                b = (case t of None \<Rightarrow> [] | Some t \<Rightarrow> board_id t);
                e = \<lparr>q_prio = priority_rank t, q_stage = stage_rank t, q_seq = k, q_ticket = i\<rparr>
            in set_queue b (put_nowait e (queue_of b d)) (d\<lparr>pending := insert i (pending d), enqueue_seq := k\<rparr>)))"

definition requeue_with_current_priority :: "service \<Rightarrow> world \<Rightarrow> string \<Rightarrow> dispatcher \<Rightarrow> dispatcher" where
  "requeue_with_current_priority svc w i d =
     enqueue svc w i (d\<lparr>pending := pending d - {i}, cap_deferred := cap_deferred d - {i}\<rparr>)"

definition try_claim :: "string \<Rightarrow> dispatcher \<Rightarrow> bool \<times> dispatcher" where
  "try_claim i d = (if i \<in> in_flight d then (False, d) else (True, d\<lparr>in_flight := insert i (in_flight d)\<rparr>))"

text \<open>A board that is deregistered: its queue goes.\<close>

definition drop_board :: "string \<Rightarrow> dispatcher \<Rightarrow> dispatcher" where
  "drop_board b d = d\<lparr>queues := (queues d)(b := None)\<rparr>"

section \<open>Taking a ticket\<close>

text \<open>The rank an entry counts with: a deferred ticket keeps that of its entry.\<close>

definition effective_rank :: "(string \<Rightarrow> rank option) \<Rightarrow> string set \<Rightarrow> queue_entry \<Rightarrow> rank" where
  "effective_rank cur deferred e =
     (if q_ticket e \<in> deferred then q_rank e
      else (case cur (q_ticket e) of None \<Rightarrow> q_rank e | Some r \<Rightarrow> r))"

text \<open>The loop that swaps the ticket in hand for a better head of the queue.\<close>

type_synonym swap_state = "queue_entry \<times> queue_entry list \<times> nat \<times> string set"

definition must_swap :: "(string \<Rightarrow> rank option) \<Rightarrow> string set \<Rightarrow> swap_state \<Rightarrow> bool" where
  "must_swap cur deferred s =
     (case s of (e, q, k, P) \<Rightarrow>
        (case q of
           [] \<Rightarrow> False
         | h # _ \<Rightarrow> if q_ticket h \<in> deferred then False else q_rank h < effective_rank cur deferred e))"

definition swap :: "(string \<Rightarrow> rank option) \<Rightarrow> string set \<Rightarrow> swap_state \<Rightarrow> swap_state" where
  "swap cur deferred s =
     (case s of (e, q, k, P) \<Rightarrow>
        (let r = effective_rank cur deferred e;
             back = \<lparr>q_prio = fst r, q_stage = snd r, q_seq = Suc k, q_ticket = q_ticket e\<rparr>
         in case queue_push back q of
              [] \<Rightarrow> s
            | x # q1 \<Rightarrow> (x, q1, Suc k, insert (q_ticket e) P)))"

definition settle :: "(string \<Rightarrow> rank option) \<Rightarrow> string set \<Rightarrow> swap_state \<Rightarrow> swap_state option" where
  "settle cur deferred s = while_option (must_swap cur deferred) (swap cur deferred) s"

text \<open>How a consumer goes on: asleep with a ticket it put back, or working on one; and the end of a
  round at once. \<open>Broken\<close> is the \<open>ValueError\<close> that ends the task.\<close>

datatype consumer = Idle | Napping string | Working string bool | Broken

text \<open>The \<open>finally\<close> of a round; the re-enqueue of a ticket that left the merge lane comes after it.\<close>

definition let_go :: "string \<Rightarrow> string \<Rightarrow> bool \<Rightarrow> dispatcher \<Rightarrow> consumer \<times> dispatcher" where
  "let_go b i claimed d =
     (let d1 = d\<lparr>pending := pending d - {i}, in_flight := (if claimed then in_flight d - {i} else in_flight d)\<rparr>
      in case task_done (queue_of b d1) of
           None \<Rightarrow> (Broken, d1)
         | Some q \<Rightarrow> (Idle, set_queue b q d1))"

definition requeue_if_left_lane :: "service \<Rightarrow> service \<Rightarrow> world \<Rightarrow> string \<Rightarrow> dispatcher \<Rightarrow> dispatcher" where
  "requeue_if_left_lane bsvc svc w i d =
     (case get_ticket bsvc i w of
        None \<Rightarrow> d
      | Some t \<Rightarrow> if tstate t \<notin> set MERGE_LANE_STATES \<and> STAGE_FOR_STATE (tstate t) \<noteq> None
                   then enqueue svc w i d else d)"

text \<open>The service bound to the board of the queue.\<close>

definition board_service :: "service \<Rightarrow> string \<Rightarrow> service" where
  "board_service svc b = (if b = [] then svc else svc\<lparr>svc_board := b, has_callback := False\<rparr>)"

text \<open>
  What \<open>_run\<close> reads besides: whether the global gate is there, and \<open>max_inflight_prs\<close> of the
  repository of a board.
\<close>

record dispatch_conf =
  has_gate :: bool
  max_inflight_prs :: "string \<rightharpoonup> int"

definition repo_cap :: "dispatch_conf \<Rightarrow> Ticket option \<Rightarrow> int option" where
  "repo_cap c t = (case t of None \<Rightarrow> None | Some t \<Rightarrow> if board_id t = [] then None else max_inflight_prs c (board_id t))"

text \<open>After the swaps, up to the next \<open>await\<close>: the drain gate, the cap, the claim.\<close>

definition decide ::
    "dispatch_conf \<Rightarrow> service \<Rightarrow> string \<Rightarrow> world \<Rightarrow> queue_entry \<Rightarrow> dispatcher \<Rightarrow> consumer \<times> dispatcher" where
  "decide c svc b w e d =
     (let i = q_ticket e; before = get_ticket (board_service svc b) i w; (draining, d1) = drain_active (clock w) d;
          put_back = (\<lambda>p d. set_queue b (put_nowait
             \<lparr>q_prio = p, q_stage = q_stage e, q_seq = Suc (enqueue_seq d), q_ticket = i\<rparr> (queue_of b d))
             (d\<lparr>pending := insert i (pending d), enqueue_seq := Suc (enqueue_seq d)\<rparr>));
          heavy = (case before of None \<Rightarrow> False | Some t \<Rightarrow>
             (case STAGE_FOR_STATE (tstate t) of None \<Rightarrow> False | Some s \<Rightarrow> s \<in> set DRAIN_HEAVY_STAGES));
          work = (\<lambda>d. case try_claim i (d\<lparr>cap_deferred := cap_deferred d - {i}\<rparr>) of
             (False, d2) \<Rightarrow> let_go b i False d2
           | (True, d2) \<Rightarrow> (Working i (has_gate c \<and> (case before of None \<Rightarrow> False
                                        | Some t \<Rightarrow> tstate t \<in> set MERGE_LANE_STATES)), d2))
      in if draining \<and> heavy then (Napping i, put_back (q_prio e) d1)
         else (case (before, repo_cap c before) of
                 (Some t, Some m) \<Rightarrow>
                   if tstate t \<in> set CAP_GATED_STATES \<and> 0 < m then
                     (case count_inflight_prs (board_service svc b) w of
                        Inl err \<Rightarrow> let_go b i False d1
                      | Inr n \<Rightarrow>
                          if m \<le> n then (Napping i, put_back (max 1 (q_prio e))
                                            (d1\<lparr>cap_deferred := insert i (cap_deferred d1)\<rparr>))
                          else work d1)
                   else work d1
               | _ \<Rightarrow> work d1))"

text \<open>
  From \<open>queue.get()\<close> on. An entry whose rank has changed since is exchanged for a new one. \<open>None\<close>
  is a loop of swaps that does not end.
\<close>

definition take_ticket ::
    "dispatch_conf \<Rightarrow> service \<Rightarrow> string \<Rightarrow> world \<Rightarrow> dispatcher \<Rightarrow> (consumer \<times> dispatcher) option" where
  "take_ticket c svc b w d =
     (case entries (queue_of b d) of
        [] \<Rightarrow> Some (Idle, d)
      | e # q \<Rightarrow>
          (let d1 = set_queue b ((queue_of b d)\<lparr>entries := q\<rparr>) d;
               cur = (\<lambda>i. current_rank (get_ticket (board_service svc b) i w))
           in if q_ticket e \<notin> cap_deferred d \<and> cur (q_ticket e) \<noteq> None \<and> cur (q_ticket e) \<noteq> Some (q_rank e)
              then Some (let_go b (q_ticket e) False
                     (enqueue svc w (q_ticket e) (d1\<lparr>pending := pending d1 - {q_ticket e}\<rparr>)))
              else (case settle cur (cap_deferred d) (e, q, enqueue_seq d, pending d) of
                      None \<Rightarrow> None
                    | Some (e1, q1, k, P) \<Rightarrow>
                        Some (decide c svc b w e1
                          (set_queue b ((queue_of b d)\<lparr>entries := q1\<rparr>) (d1\<lparr>enqueue_seq := k, pending := P\<rparr>))))))"

section \<open>The consumers together\<close>

text \<open>Each consumer with the board of its queue.\<close>

text \<open>The ticket a consumer holds, and the one it works on.\<close>

fun holds :: "consumer \<Rightarrow> string list" where
  "holds (Napping i) = [i]"
| "holds (Working i l) = [i]"
| "holds _ = []"

fun works :: "consumer \<Rightarrow> string list" where
  "works (Working i l) = [i]"
| "works _ = []"

record pool =
  disp :: dispatcher
  crew :: "(string \<times> consumer) list"

abbreviation man :: "nat \<Rightarrow> string \<Rightarrow> consumer \<times> dispatcher \<Rightarrow> pool \<Rightarrow> pool" where
  "man k b r s \<equiv> s\<lparr>disp := snd r, crew := (crew s)[k := (b, fst r)]\<rparr>"

inductive dispatch_step :: "dispatch_conf \<Rightarrow> service \<Rightarrow> pool \<Rightarrow> pool \<Rightarrow> bool" for c svc where
  enqueued: "dispatch_step c svc s (s\<lparr>disp := enqueue svc w i (disp s)\<rparr>)"
| requeued: "dispatch_step c svc s (s\<lparr>disp := requeue_with_current_priority svc w i (disp s)\<rparr>)"
| drain: "dispatch_step c svc s (s\<lparr>disp := set_drain ttl now (disp s)\<rparr>)"
| undrain: "dispatch_step c svc s (s\<lparr>disp := clear_drain (disp s)\<rparr>)"
| asked: "dispatch_step c svc s (s\<lparr>disp := snd (drained now names (disp s))\<rparr>)"
| hired: "dispatch_step c svc s (s\<lparr>crew := crew s @ [(b, Idle)]\<rparr>)"
| took: "\<lbrakk>k < length (crew s); crew s ! k = (b, Idle); take_ticket c svc b w (disp s) = Some r\<rbrakk>
     \<Longrightarrow> dispatch_step c svc s (man k b r s)"
| woke: "\<lbrakk>k < length (crew s); crew s ! k = (b, Napping i)\<rbrakk>
     \<Longrightarrow> dispatch_step c svc s (man k b (let_go b i False (disp s)) s)"
| finished: "\<lbrakk>k < length (crew s); crew s ! k = (b, Working i lane); let_go b i True (disp s) = (m, d)\<rbrakk>
     \<Longrightarrow> dispatch_step c svc s
           (man k b (m, if lane \<and> returned \<and> m \<noteq> Broken then requeue_if_left_lane (board_service svc b) svc w i d else d) s)"

text \<open>
  A board that is deregistered: its queue goes, and its consumers are cancelled, which runs the
  \<open>finally\<close> of those that hold a ticket (they report it done to the queue that is gone).
\<close>

definition deregister :: "string \<Rightarrow> pool \<Rightarrow> pool" where
  "deregister b s =
     (let theirs = map snd (filter (\<lambda>x. fst x = b) (crew s)); d = drop_board b (disp s)
      in s\<lparr>disp := d\<lparr>pending := pending d - set (concat (map holds theirs)),
                      in_flight := in_flight d - set (concat (map works theirs))\<rparr>,
           crew := filter (\<lambda>x. fst x \<noteq> b) (crew s)\<rparr>)"

text \<open>The boards that \<open>reconcile_consumers\<close> always keeps.\<close>

definition PERMANENT_BOARDS :: "string list" where
  "PERMANENT_BOARDS = [[], ''meta'']"

inductive worker_step :: "dispatch_conf \<Rightarrow> service \<Rightarrow> pool \<Rightarrow> pool \<Rightarrow> bool" for c svc where
  dispatched: "dispatch_step c svc s s' \<Longrightarrow> worker_step c svc s s'"
| deregistered: "b \<notin> set PERMANENT_BOARDS \<Longrightarrow> worker_step c svc s (deregister b s)"

definition start_pool :: pool where
  "start_pool =
     \<lparr>disp = \<lparr>queues = [[] \<mapsto> empty_queue], enqueue_seq = 0, pending = {}, cap_deferred = {}, drain_until = None,
               in_flight = {}\<rparr>,
      crew = []\<rparr>"

abbreviation dispatch_reaches :: "dispatch_conf \<Rightarrow> service \<Rightarrow> pool \<Rightarrow> pool \<Rightarrow> bool" where
  "dispatch_reaches c svc \<equiv> (dispatch_step c svc)\<^sup>*\<^sup>*"

abbreviation worker_reaches :: "dispatch_conf \<Rightarrow> service \<Rightarrow> pool \<Rightarrow> pool \<Rightarrow> bool" where
  "worker_reaches c svc \<equiv> (worker_step c svc)\<^sup>*\<^sup>*"

end
