(* ===== verification/Chain.thy ===== *)
theory Chain
  imports Processing Effects
begin

text \<open>
  What the processing loop guarantees: it acts on tickets only through the service, so every run of
  the loop is a run of the transition system of \<open>Service\<close>; with the
  cycle ceiling on it ends, unless it goes on for ever with stages that do not count; and when a
  deadline kills a run.
\<close>

section \<open>The loop acts through the service\<close>

text \<open>Every function of the loop, from a state that the service reaches to one that it reaches.\<close>

named_theorems acts

declare take_chars.simps [simp del]

lemma step_acts:
  "\<lbrakk>reaches x v w; service_step x w w'\<rbrakk> \<Longrightarrow> reaches x v w'"
  by (rule rtranclp.rtrancl_into_rtrancl)

lemma call_acts:
  "\<lbrakk>call f ws = (r, ws1); service_step x (mill ws) (snd (f (mill ws))); reaches x v (mill ws)\<rbrakk>
     \<Longrightarrow> reaches x v (mill ws1)"
  by (auto simp: call_def split: prod.splits sum.splits intro: step_acts)

lemma snd_call_acts [acts]:
  "\<lbrakk>service_step x (mill ws) (snd (f (mill ws))); reaches x v (mill ws)\<rbrakk>
     \<Longrightarrow> reaches x v (mill (snd (call f ws)))"
  by (rule call_acts [of f ws "fst (call f ws)"]) auto

lemma in_artifacts_step: "service_step x w (snd (in_artifacts svc t f w))"
proof -
  have "snd (in_artifacts svc t f w) = w\<lparr>workspaces := workspaces (snd (in_artifacts svc t f w))\<rparr>"
    by (rule world.equality) simp_all
  then show ?thesis by (metis service_step.files)
qed

lemma post_trace_acts [acts]:
  "\<lbrakk>ext svc = x; reaches x v (mill ws)\<rbrakk> \<Longrightarrow> reaches x v (mill (post_trace_event svc i link s ws))"
  by (auto simp: post_trace_event_def split: option.split intro!: acts service_step.history_note)

lemma notify_mill [simp]: "mill (notify_ticket svc i dst note ws) = mill ws"
  by (simp add: notify_ticket_def send_notification_def split: option.split)

lemma reevaluate_mill [simp]: "mill (maybe_reevaluate_epic svc i dst ws) = mill ws"
  by (simp add: maybe_reevaluate_epic_def split: option.split)

lemma block_acts [acts]:
  "\<lbrakk>ext svc = x; reaches x v (mill ws)\<rbrakk>
     \<Longrightarrow> reaches x v (mill (snd (block_ticket_and_notify svc i s note link ws)))"
  by (auto simp: block_ticket_and_notify_def split: prod.split sum.split
      intro: post_trace_acts service_step.transition elim!: call_acts)

lemma close_acts [acts]:
  "\<lbrakk>ext svc = x; reaches x v (mill ws)\<rbrakk>
     \<Longrightarrow> reaches x v (mill (snd (close_after_retrospect_failure svc i note link ws)))"
  by (auto simp: close_after_retrospect_failure_def split: prod.split sum.split
      intro: post_trace_acts service_step.transition elim!: call_acts)

lemma file_infra_acts [acts]:
  assumes "ext svc = x" "reaches x v (mill ws)"
  shows "reaches x v (mill (file_infra_ticket env svc the_title body ws))"
proof -
  have "reaches x v (mill (snd (call (create_ticket (svc\<lparr>has_callback := b\<rparr>) r) (ws\<lparr>infra_last := l\<rparr>))))" for b r l
    using assms by (intro snd_call_acts service_step.create) simp_all
  with assms(2) show ?thesis
    unfolding file_infra_ticket_def Let_def by (simp split: sum.split del: not_None_eq)
qed

lemma park_acts [acts]:
  assumes "ext svc = x" "reaches x v (mill ws)"
    and alert: "\<And>u. reaches x v (mill u) \<Longrightarrow> reaches x v (mill (alert u))"
  shows "reaches x v (mill (snd (park svc i s link n reason delay alert ws)))"
proof -
  have "reaches x v (mill (post_trace_event svc i link s (alert ws1)))"
    "reaches x v (mill ws1)" if "call (set_retry_state svc i n e due) ws = (r, ws1)" for r e due ws1
    using call_acts [OF that service_step.retry assms(2)] assms(1) by (simp_all add: post_trace_acts alert)
  then show ?thesis by (simp add: park_def split: prod.split sum.split)
qed

lemma give_up_acts [acts]:
  "\<lbrakk>ext svc = x; reaches x v (mill ws)\<rbrakk> \<Longrightarrow> reaches x v (mill (snd (give_up svc i s note link ws)))"
  by (auto simp: give_up_def intro: acts)

lemma drop_guard_acts [acts]:
  "reaches x v (mill ws) \<Longrightarrow> reaches x v (mill (drop_implement_guard svc i s ws))"
  by (auto simp: drop_implement_guard_def split: option.split intro!: acts in_artifacts_step)

lemma retry_or_give_up_acts [acts]:
  "\<lbrakk>ext svc = x; reaches x v (mill ws)\<rbrakk>
     \<Longrightarrow> reaches x v (mill (snd (retry_or_give_up env svc i s o' repr link t ws)))"
  by (auto simp: retry_or_give_up_def Let_def intro: acts)

lemma handle_transient_acts [acts]:
  assumes x: "ext svc = x" and r: "reaches x v (mill ws)"
  shows "reaches x v (mill (snd (handle_transient env svc i s st e repr link t ws)))"
proof -
  have r1: "reaches x v (mill (if b then ws\<lparr>probe := c\<rparr> else ws))" for b c using r by simp
  show ?thesis
    unfolding handle_transient_def Let_def
    by (auto split: prod.split simp del: if_split simp: x intro!: acts r1) (auto split: if_split intro!: acts x r1 r)
qed


lemma handle_stage_error_acts [acts]:
  assumes x: "ext svc = x" and r: "reaches x v (mill ws)"
  shows "reaches x v (mill (snd (handle_stage_error env svc i s st e repr link ws)))"
proof -
  have "reaches x v (mill (drop_implement_guard svc i s ws))" by (rule drop_guard_acts [OF r])
  then show ?thesis
    using x r by (simp add: handle_stage_error_def Let_def handle_transient_acts give_up_acts split: option.split)
qed

lemma clear_retry_acts:
  "\<lbrakk>clear_retry svc i t ws = (r, ws1); ext svc = x; reaches x v (mill ws)\<rbrakk> \<Longrightarrow> reaches x v (mill ws1)"
  by (auto simp: clear_retry_def split: if_splits intro: service_step.retry elim!: call_acts)

lemma close_stale_acts:
  "\<lbrakk>close_stale_threads_and_transition svc i dst note reason ws = (r, ws1); ext svc = x;
    reaches x v (mill ws)\<rbrakk> \<Longrightarrow> reaches x v (mill ws1)"
  by (auto simp: close_stale_threads_and_transition_def split: prod.splits sum.splits
      elim!: call_acts intro!: service_step.transition service_step.close_ask)

lemma closing_stale_acts [acts]:
  assumes x: "ext svc = x" and r: "reaches x v (mill ws)"
  shows "reaches x v (mill (snd (transition_closing_stale_threads svc i dst note ws)))"
proof -
  have "reaches x v (mill ws1)" if "call (transition svc i dst note None) ws = (c, ws1)" for c ws1
    by (rule call_acts [OF that service_step.transition [OF x] r])
  then show ?thesis
    unfolding transition_closing_stale_threads_def
    by (auto split: prod.split sum.split dest: close_stale_acts [OF surjective_pairing x])
qed

lemma apply_outcome_acts:
  assumes run: "apply_outcome svc i s t out ws = (r, ws1)" and x: "ext svc = x"
    and r: "reaches x v (mill ws)"
  shows "reaches x v (mill ws1)"
proof -
  have t: "reaches x v (mill u)" if "call (transition svc i dst n b) ws = (c, u)" for c u dst n b
    by (rule call_acts [OF that service_step.transition [OF x] r])
  have n: "reaches x v (mill (snd (call (add_history_note svc i m) u)))" if "reaches x v (mill u)" for m u
    using that by (intro snd_call_acts service_step.history_note x)
  show ?thesis
    using run r unfolding apply_outcome_def
    by (auto split: if_splits prod.splits sum.splits intro: r n t dest: close_stale_acts [OF _ x])
qed

lemma finish_run_acts:
  assumes run: "finish_run svc i s t out link counts ws = (r, ws1)" and x: "ext svc = x"
    and r: "reaches x v (mill ws)"
  shows "reaches x v (mill ws1)"
proof -
  obtain c ws2 where c: "clear_retry svc i t ws = (c, ws2)" by fastforce
  have r2: "reaches x v (mill (post_trace_event svc i link s ws2))" "reaches x v (mill ws2)"
    using clear_retry_acts [OF c x r] post_trace_acts [OF x] by auto
  have a: "reaches x v (mill u)" if "apply_outcome svc i s t out (post_trace_event svc i link s ws2) = (q, u)" for q u
    by (rule apply_outcome_acts [OF that x r2(1)])
  show ?thesis
    using run r2 a unfolding finish_run_def c by (auto split: sum.splits if_splits prod.splits bool.splits)
qed

text \<open>Stages act on tickets through the service too.\<close>

definition stages_act :: "externals \<Rightarrow> worker_env \<Rightarrow> bool" where
  "stages_act x env \<longleftrightarrow>
     (\<forall>s t w. reaches x w (snd (preflight (stage_of env s) t w)) \<and> reaches x w (snd (run_stage (stage_of env s) t w)))"

lemma run_round_acts:
  assumes run: "run_round env svc i s t counts ws = (r, ws1)" and x: "ext svc = x"
    and st: "stages_act x env" and r: "reaches x v (mill ws)"
  shows "reaches x v (mill ws1)"
proof -
  obtain res w where res: "run_stage (stage_of env s) t (mill ws) = (res, w)" by fastforce
  have "reaches x (mill ws) w" using st res unfolding stages_act_def by (metis snd_conv)
  then have r1: "reaches x v (mill (ws\<lparr>mill := w\<rparr>))" using r by simp
  have dl: "reaches x v (mill (snd (handle_deadline env svc i s d link u)))" if "reaches x v (mill u)" for d link u
  proof -
    have "reaches x v (mill (snd (call (add_history_note svc i m) u)))" for m
      using that by (intro snd_call_acts service_step.history_note x)
    then show ?thesis
      using that x by (simp add: handle_deadline_def acts)
  qed
  show ?thesis
    using run res unfolding run_round_def Let_def
    by (auto split: stage_end.splits dest: finish_run_acts [OF _ x r1] intro: dl r1
        intro!: handle_stage_error_acts [OF x r1] post_trace_acts [OF x r1] simp: dl r1)
qed


lemma preflight_outcome_acts:
  assumes x: "ext svc = x" and r: "reaches x v (mill ws)"
  shows "reaches x v (mill (snd (preflight_outcome svc i t out ws)))"
proof -
  obtain c ws2 where c: "clear_retry svc i t ws = (c, ws2)" by fastforce
  have r2: "reaches x v (mill ws2)" by (rule clear_retry_acts [OF c x r])
  have "reaches x v (mill u)" if "call (transition svc i d n b) ws2 = (q, u)" for q u d n b
    by (rule call_acts [OF that service_step.transition [OF x] r2])
  then show ?thesis
    using r r2 unfolding preflight_outcome_def c by (auto split: sum.split prod.split)
qed

lemma park_before_acts:
  "\<lbrakk>ext svc = x; reaches x v (mill ws)\<rbrakk>
     \<Longrightarrow> reaches x v (mill (snd (park_before_dispatch env svc i s path ws)))"
  unfolding park_before_dispatch_def by (intro park_acts file_infra_acts)

lemma process_once_acts:
  assumes run: "process_once env svc i allowed counts ws = (r, ws1)" and x: "ext svc = x"
    and st: "stages_act x env"
  shows "reaches x (mill ws) (mill ws1)"
proof (cases "admit env svc i allowed (mill ws)")
  case Skip
  then show ?thesis using run by (simp add: process_once_def)
next
  case (Park s path)
  then show ?thesis
    using run park_before_acts [OF x rtranclp.rtrancl_refl, of ws env i s path] by (auto simp: process_once_def)
next
  case (Dispatch t s)
  obtain res w where res: "preflight (stage_of env s) t (mill ws) = (res, w)" by fastforce
  have "reaches x (mill ws) w" using st res unfolding stages_act_def by (metis snd_conv)
  then have r: "reaches x (mill ws) (mill (ws\<lparr>mill := w\<rparr>))" by simp
  have "reaches x (mill ws) (mill u)" if "run_round env svc i s t c (ws\<lparr>mill := w\<rparr>) = (q, u)" for c q u
    by (rule run_round_acts [OF that x st r])
  then show ?thesis
    using run r preflight_outcome_acts [OF x r] block_acts [OF x r]
    unfolding process_once_def Let_def Dispatch admission.case res
    by (auto split: sum.splits option.splits if_splits)
qed

lemma process_loop_acts:
  assumes "process_loop env svc i allowed counts ws = Some (r, ws')" "ext svc = x" "stages_act x env"
  shows "reaches x (mill ws) (mill ws')"
proof -
  have "ext svc = x \<longrightarrow> stages_act x env \<longrightarrow> reaches x (mill ws) (mill (snd (r, ws')))"
  proof (rule process_loop.raw_induct [OF _ assms(1)], intro allI impI)
    fix loop env svc i allowed counts ws y
    assume IH: "\<And>env svc i allowed counts ws y. loop env svc i allowed counts ws = Some y \<Longrightarrow>
        ext svc = x \<longrightarrow> stages_act x env \<longrightarrow> reaches x (mill ws) (mill (snd y))"
      and run: "(case process_once env svc i allowed counts ws of
          (Stop r, ws1) \<Rightarrow> Some (r, ws1) | (Again c, ws1) \<Rightarrow> loop env svc i allowed c ws1) = Some y"
      and x: "ext svc = x" "stages_act x env"
    obtain q ws1 where q: "process_once env svc i allowed counts ws = (q, ws1)" by fastforce
    have r: "reaches x (mill ws) (mill ws1)" by (rule process_once_acts [OF q x])
    show "reaches x (mill ws) (mill (snd y))"
    proof (cases q)
      case (Stop res)
      then show ?thesis using run r q by auto
    next
      case (Again c)
      then have "reaches x (mill ws1) (mill (snd y))" using IH run q x by simp
      with r show ?thesis by (rule rtranclp_trans)
    qed
  qed
  then show ?thesis using assms by simp
qed

section \<open>The loop ends\<close>

definition stage_names :: "string list" where
  "stage_names = [''classify'', ''refine'', ''implement'', ''merge'', ''document'', ''review'', ''deliver'',
     ''ci_fix'', ''retrospect'', ''answer'']"

lemma stage_named: "STAGE_FOR_STATE s = Some n \<Longrightarrow> n \<in> set stage_names"
  by (cases s) (auto simp: stage_names_def)

lemma admit_stage: "admit env svc i allowed w = Dispatch t s \<Longrightarrow> STAGE_FOR_STATE (tstate t) = Some s"
  by (simp add: admit_def split: option.splits if_splits)

lemma run_round_counts: "run_round env svc i s t counts ws = (Again c, ws1) \<Longrightarrow> c = counts"
  by (auto simp: run_round_def finish_run_def Let_def split: stage_end.splits prod.splits sum.splits if_splits bool.splits)

lemma process_once_again:
  assumes "process_once env svc i allowed counts ws = (Again c, ws1)"
  shows "\<exists>t s. admit env svc i allowed (mill ws) = Dispatch t s
    \<and> (if traced (stage_of env s) \<and> 0 < cycle_limit (conf env)
       then c = counts(s := Suc (counts s)) \<and> int (Suc (counts s)) \<le> cycle_limit (conf env) else c = counts)"
proof (cases "admit env svc i allowed (mill ws)")
  case (Dispatch t s)
  show ?thesis
    using assms unfolding process_once_def Let_def Dispatch admission.case
    by (intro exI [of _ t] exI [of _ s])
      (auto split: prod.splits sum.splits option.splits if_splits dest!: run_round_counts)
qed (use assms in \<open>simp_all add: process_once_def\<close>)

definition counts_left :: "worker_env \<Rightarrow> (string \<Rightarrow> nat) \<Rightarrow> nat" where
  "counts_left env counts = sum_list (map (\<lambda>s. nat (cycle_limit (conf env)) - counts s) stage_names)"

lemma distinct_stage_names: "distinct stage_names"
  by (simp add: stage_names_def)

lemma sum_list_less:
  fixes f g :: "'a \<Rightarrow> nat"
  assumes "x \<in> set xs" "f x < g x" "\<And>y. f y \<le> g y"
  shows "sum_list (map f xs) < sum_list (map g xs)"
  using assms by (induction xs) (auto intro: add_less_le_mono add_le_less_mono sum_list_mono)

lemma counts_less:
  assumes "s \<in> set stage_names" "int (Suc (counts s)) \<le> cycle_limit (conf env)"
  shows "counts_left env (counts(s := Suc (counts s))) < counts_left env counts"
  unfolding counts_left_def by (rule sum_list_less [OF assms(1)]) (use assms(2) in auto)

text \<open>The counts and the state after so many turns of the loop, as long as it goes on.\<close>

fun after_turns ::
    "worker_env \<Rightarrow> service \<Rightarrow> string \<Rightarrow> State set option \<Rightarrow> nat \<Rightarrow> (string \<Rightarrow> nat) \<Rightarrow> worker_state
       \<Rightarrow> ((string \<Rightarrow> nat) \<times> worker_state) option" where
  "after_turns env svc i allowed 0 counts ws = Some (counts, ws)"
| "after_turns env svc i allowed (Suc n) counts ws =
     (case process_once env svc i allowed counts ws of
        (Stop r, ws1) \<Rightarrow> None
      | (Again c, ws1) \<Rightarrow> after_turns env svc i allowed n c ws1)"

lemma after_turns_add:
  "after_turns env svc i allowed n counts ws = Some (c, ws1)
     \<Longrightarrow> after_turns env svc i allowed (n + k) counts ws = after_turns env svc i allowed k c ws1"
  by (induction n arbitrary: counts ws) (auto split: prod.splits round_end.splits)

text \<open>A loop without a result goes on after each turn.\<close>

lemma turns_go_on:
  assumes "process_loop env svc i allowed counts ws = None"
  shows "\<exists>c ws1. process_once env svc i allowed counts ws = (Again c, ws1) \<and> process_loop env svc i allowed c ws1 = None"
  using assms by (auto simp: process_loop.simps [of env svc i allowed counts] split: prod.splits round_end.splits)

lemma every_turn:
  "process_loop env svc i allowed counts ws = None
     \<Longrightarrow> \<exists>c ws1. after_turns env svc i allowed n counts ws = Some (c, ws1) \<and> process_loop env svc i allowed c ws1 = None"
proof (induction n arbitrary: counts ws)
  case (Suc n)
  then show ?case using turns_go_on [OF Suc.prems] by fastforce
qed simp

text \<open>A turn whose dispatch does not count for the ceiling.\<close>

definition uncounted_turn :: "worker_env \<Rightarrow> service \<Rightarrow> string \<Rightarrow> State set option \<Rightarrow> worker_state \<Rightarrow> bool" where
  "uncounted_turn env svc i allowed ws \<longleftrightarrow>
     (\<exists>t s. admit env svc i allowed (mill ws) = Dispatch t s \<and> \<not> traced (stage_of env s))"

lemma turn_counts:
  assumes "process_once env svc i allowed counts ws = (Again c, ws1)" "0 < cycle_limit (conf env)"
  shows "c = counts \<and> uncounted_turn env svc i allowed ws \<or> counts_left env c < counts_left env counts"
proof -
  obtain t s where t: "admit env svc i allowed (mill ws) = Dispatch t s"
    and c: "if traced (stage_of env s) \<and> 0 < cycle_limit (conf env)
       then c = counts(s := Suc (counts s)) \<and> int (Suc (counts s)) \<le> cycle_limit (conf env) else c = counts"
    using process_once_again [OF assms(1)] by blast
  show ?thesis
  proof (cases "traced (stage_of env s)")
    case True
    then show ?thesis using c assms(2) counts_less [of s counts env] stage_named [OF admit_stage [OF t]] by simp
  next
    case False
    then show ?thesis using c t by (auto simp: uncounted_turn_def)
  qed
qed

lemma turns_left:
  "\<lbrakk>after_turns env svc i allowed n counts ws = Some (c, ws1); 0 < cycle_limit (conf env)\<rbrakk>
     \<Longrightarrow> counts_left env c \<le> counts_left env counts"
proof (induction n arbitrary: counts ws)
  case (Suc n)
  then obtain c' ws' where q: "process_once env svc i allowed counts ws = (Again c', ws')"
      "after_turns env svc i allowed n c' ws' = Some (c, ws1)"
    by (auto split: prod.splits round_end.splits)
  have "counts_left env c' \<le> counts_left env counts" using turn_counts [OF q(1) Suc.prems(2)] by auto
  then show ?case using Suc.IH [OF q(2) Suc.prems(2)] by simp
qed simp

text \<open>The counted runs are used up at some turn, so a loop without end dispatches only others from there on.\<close>

lemma uncounted_at_last:
  assumes "process_loop env svc i allowed counts ws = None" "0 < cycle_limit (conf env)"
  shows "\<exists>n. \<forall>m \<ge> n. \<exists>c ws1. after_turns env svc i allowed m counts ws = Some (c, ws1) \<and> uncounted_turn env svc i allowed ws1"
  using assms(1)
proof (induction "counts_left env counts" arbitrary: counts ws rule: less_induct)
  case less
  show ?case
  proof (cases "\<forall>m. \<exists>c ws1. after_turns env svc i allowed m counts ws = Some (c, ws1) \<and> uncounted_turn env svc i allowed ws1")
    case False
    then obtain m c ws1 where m: "after_turns env svc i allowed m counts ws = Some (c, ws1)"
        "process_loop env svc i allowed c ws1 = None" "\<not> uncounted_turn env svc i allowed ws1"
      using every_turn [OF less.prems] by blast
    obtain c' ws' where c': "process_once env svc i allowed c ws1 = (Again c', ws')" "process_loop env svc i allowed c' ws' = None"
      using turns_go_on [OF m(2)] by blast
    have "counts_left env c' < counts_left env counts"
      using turn_counts [OF c'(1) assms(2)] m(3) turns_left [OF m(1) assms(2)] by auto
    then obtain n where n: "\<And>k. n \<le> k \<Longrightarrow> \<exists>d w. after_turns env svc i allowed k c' ws' = Some (d, w) \<and> uncounted_turn env svc i allowed w"
      using less.hyps [OF _ c'(2)] by blast
    have later: "after_turns env svc i allowed (m + Suc k) counts ws = after_turns env svc i allowed k c' ws'" for k
      by (simp only: after_turns_add [OF m(1)]) (simp add: c'(1))
    have "\<exists>d w. after_turns env svc i allowed k counts ws = Some (d, w) \<and> uncounted_turn env svc i allowed w"
      if "m + Suc n \<le> k" for k
    proof -
      define j where "j = k - (m + Suc n)"
      have "k = m + Suc (n + j)" using that by (simp add: j_def)
      then show ?thesis using n [of "n + j"] later [of "n + j"] by simp
    qed
    then show ?thesis by blast
  qed blast
qed

lemma loop_ends:
  assumes "\<forall>s \<in> set stage_names. traced (stage_of env s)" "0 < cycle_limit (conf env)"
  shows "\<exists>r. process_loop env svc i allowed counts ws = Some r"
proof (cases "process_loop env svc i allowed counts ws")
  case None
  then obtain ws1 where "uncounted_turn env svc i allowed ws1" using uncounted_at_last [OF _ assms(2)] by blast
  then show ?thesis using assms(1) stage_named [OF admit_stage] by (auto simp: uncounted_turn_def)
qed blast

section \<open>The deadline\<close>

text \<open>Between two looks at the running stage no more than \<open>d\<close> seconds pass.\<close>

fun spaced :: "rat \<Rightarrow> rat \<Rightarrow> (bool \<times> rat \<times> rat option) list \<Rightarrow> bool" where
  "spaced d since [] = True"
| "spaced d since ((f, elapsed, a) # polls) = (elapsed \<le> since + d \<and> spaced d elapsed polls)"

lemma killed_window:
  "\<lbrakk>await_stage_with_deadline soft hard idle polls = Some (Killed e a stalled); soft \<le> hard;
    spaced d since polls; since < hard\<rbrakk>
   \<Longrightarrow> soft \<le> e \<and> e < hard + d \<and> (if stalled then e < hard \<and> (idle = 0 \<or> a = None \<or> idle \<le> the a) else hard \<le> e)"
proof (induction soft hard idle polls arbitrary: since rule: await_stage_with_deadline.induct)
  case (2 soft hard idle finished elapsed age polls)
  then show ?case by (fastforce split: if_splits option.splits)
qed simp

lemma awaited:
  "\<lbrakk>(f, elapsed, a) \<in> set polls; f \<or> hard \<le> elapsed\<rbrakk>
     \<Longrightarrow> \<exists>r. await_stage_with_deadline soft hard idle polls = Some r"
  by (induction soft hard idle polls rule: await_stage_with_deadline.induct) auto

section \<open>A small worker\<close>

definition sample_conf :: worker_settings where
  "sample_conf =
     \<lparr>ticket_state_cycle_limit = 3, review_max_rounds = 3, network_outage_retry_seconds = 120,
      disk_full_retry_seconds = 600, disk_min_free_mb = 0, disk_check_extra_paths = [''/''],
      model_outage_max_parks = 20, model_outage_retry_seconds = 120,
      claude_usage_exhausted_retry_seconds = 1800, stage_retry_max_attempts = 5,
      stage_retry_base_delay = 2, stage_retry_max_delay = 60\<rparr>"

definition still :: "bool \<Rightarrow> (string \<Rightarrow> outcome) \<Rightarrow> string \<Rightarrow> stage" where
  "still tr f s = \<lparr>traced = tr, preflight = (\<lambda>t w. (Inr None, w)), run_stage = (\<lambda>t w. (Finished (f s), w))\<rparr>"

definition to_state :: "State \<Rightarrow> outcome" where
  "to_state s = \<lparr>out_state = s, out_note = None, out_block_reason = None\<rparr>"

definition sample_env :: "(string \<Rightarrow> stage) \<Rightarrow> exn_store \<Rightarrow> worker_env" where
  "sample_env st es =
     \<lparr>conf = sample_conf, stage_of = st, exns = es, exn_repr = (\<lambda>_. ''error''), trace_link = (\<lambda>_ _. None),
      host_resolves = (\<lambda>_. True), free_space = (\<lambda>_ _. None), jitter = (\<lambda>_. 0), fresh_token = (\<lambda>_. ''abcd'')\<rparr>"

definition sample_state :: "world \<Rightarrow> worker_state" where
  "sample_state w = \<lparr>mill = w, probe = (None, False), infra_last = Map.empty, sent = [], reevals = []\<rparr>"

lemma still_stages_act: "stages_act x (sample_env (still b f) es)"
  by (simp add: stages_act_def sample_env_def still_def)

lemma cycle_limit_sample: "cycle_limit (conf (sample_env st es)) = 4"
  by (simp add: sample_env_def cycle_limit_def sample_conf_def)

section \<open>Properties\<close>

text \<open>
  C6: The processing loop refines the ticket service: whatever the stages do, as long as they act on
  tickets through the service, one whole pass over a ticket, with its parks, retries, blocks and
  discarded outcomes, takes the world along steps of the service. So every invariant of those steps
  holds at every point where the worker stops.
\<close>

theorem processing_refines_service:
  assumes "ext svc = x" "stages_act x env" "process_ticket env svc i allowed ws = Some (r, ws')"
  shows "reaches x (mill ws) (mill ws')"
  using process_loop_acts assms unfolding process_ticket_def by blast

text \<open>
  C27: With the cycle ceiling on, a pass over a ticket ends, unless from some turn on every stage it
  dispatches is one that does not count for the ceiling (in the program these are merge, deliver and
  ci_fix). Nothing is asked of the stages. The second case is a real one: such stages can hand the
  ticket to each other for ever.
\<close>

theorem pass_ends:
  assumes "0 < cycle_limit (conf env)"
  shows "(\<exists>r. process_ticket env svc i allowed ws = Some r)
    \<or> (\<exists>n. \<forall>m \<ge> n. \<exists>c ws1 t s. after_turns env svc i allowed m (\<lambda>_. 0) ws = Some (c, ws1)
         \<and> admit env svc i allowed (mill ws1) = Dispatch t s \<and> \<not> traced (stage_of env s))"
proof (cases "process_ticket env svc i allowed ws")
  case None
  then have "process_loop env svc i allowed (\<lambda>_. 0) ws = None" by (simp add: process_ticket_def)
  from uncounted_at_last [OF this assms] show ?thesis by (fastforce simp: uncounted_turn_def)
qed blast

lemma pass_ends_witness:
  "process_ticket (sample_env (still True (\<lambda>_. to_state READY)) (\<lambda>_. gai_error)) sample_service ''t1'' None
     (sample_state sample_world) \<noteq> None"
proof -
  let ?env = "sample_env (still True (\<lambda>_. to_state READY)) (\<lambda>_. gai_error)"
  have "traced (stage_of ?env s)" for s by (simp add: sample_env_def still_def)
  then show ?thesis
    using pass_ends [of ?env sample_service "''t1''" None "sample_state sample_world"]
    by (auto simp: cycle_limit_sample)
qed

lemma processing_refines_service_witness:
  "\<exists>r ws'. process_ticket (sample_env (still True (\<lambda>_. to_state READY)) (\<lambda>_. gai_error)) sample_service ''t1'' None
       (sample_state sample_world) = Some (r, ws')
     \<and> reaches sample_externals sample_world (mill ws')"
proof -
  let ?env = "sample_env (still True (\<lambda>_. to_state READY)) (\<lambda>_. gai_error)"
  have "\<exists>r. process_loop ?env sample_service ''t1'' None (\<lambda>_. 0) (sample_state sample_world) = Some r"
    by (rule loop_ends) (simp_all add: cycle_limit_sample, simp add: sample_env_def still_def)
  then obtain r ws' where "process_ticket ?env sample_service ''t1'' None (sample_state sample_world) = Some (r, ws')"
    by (auto simp: process_ticket_def)
  with processing_refines_service [OF sample_ext still_stages_act this] show ?thesis
    by (auto simp: sample_state_def)
qed

text \<open>
  When a stage is killed. No run is killed before the soft deadline; a run that is killed for
  stalling had made no progress for the whole window; a run that goes on making progress is killed at
  the hard ceiling only, and then no later than one poll after it. A run that is watched up to the
  hard ceiling does end.
\<close>

theorem deadline_window:
  assumes "soft \<le> hard" "0 < hard" "spaced d 0 polls" "(f, elapsed, a') \<in> set polls" "hard \<le> elapsed"
  shows "await_stage_with_deadline soft hard idle polls = Some TaskDone \<or>
    (\<exists>e a stalled. await_stage_with_deadline soft hard idle polls = Some (Killed e a stalled)
       \<and> soft \<le> e \<and> e < hard + d
       \<and> (if stalled then e < hard \<and> (idle = 0 \<or> a = None \<or> idle \<le> the a) else hard \<le> e))"
proof -
  obtain r where r: "await_stage_with_deadline soft hard idle polls = Some r"
    using awaited [OF assms(4)] assms(5) by blast
  show ?thesis
  proof (cases r)
    case (Killed e a stalled)
    then show ?thesis using killed_window [OF r [unfolded Killed] assms(1,3,2)] r by blast
  qed (use r in simp)
qed

lemma deadline_window_witness:
  "await_stage_with_deadline 10 30 5 [(False, 10, Some 1), (False, 20, Some 2), (False, 31, Some 1)]
     = Some (Killed 31 (Some 1) False) \<and> (31::rat) < 30 + 11"
  using deadline_window [of 10 30 11 "[(False, 10, Some 1), (False, 20, Some 2), (False, 31, Some 1)]" False 31
      "Some 1" 5]
  by simp

end
