(* ===== verification/Budget.thy ===== *)
theory Budget
  imports Chain Seed
begin

text \<open>
  What a failing stage does to its ticket: the retries it is given and the block after the last, the
  park of a model outage, which spends the same budget; the outcome that comes too late; and a pass
  that never ends, because the stages it alternates between do not count for the cycle ceiling.
\<close>

section \<open>Rows after a write\<close>

lemma get_ticket_same:
  assumes "boards w' = boards w"
  shows "get_ticket svc i w' = get_ticket svc i w"
proof -
  have b: "board w' = board w" using assms by (simp add: board_def fun_eq_iff)
  have "first_hit w' bs i = first_hit w bs i" for bs
    by (induction bs) (simp_all add: b split: option.split)
  then show ?thesis
    using assms by (simp add: get_ticket_def get_anywhere_def Let_def b collect_candidate_boards_def split: option.split)
qed

lemma homed_same: "boards w' = boards w \<Longrightarrow> homed w' = homed w"
  unfolding homed_def by (rule all_boards_same)

lemma wf_same: "boards w' = boards w \<Longrightarrow> wf_world w' = wf_world w"
  unfolding wf_world_def by (rule all_boards_same)

lemma retry_row:
  assumes h: "homed w" and g: "get_ticket svc i w = Some t"
  shows "\<exists>w'. set_retry_state svc i n e due w = (Inr (), w')
    \<and> get_ticket svc i w' = Some (t\<lparr>retry_attempt := n, last_transient_error := e, next_retry_at := due,
         updated_at := clock w\<rparr>) \<and> clock w' = clock w"
proof -
  let ?t = "t\<lparr>retry_attempt := n, last_transient_error := e, next_retry_at := due, updated_at := clock w\<rparr>"
  let ?w = "put_board (board_id t) (put_ticket ?t (board w (board_id t))) w"
  have run: "set_retry_state svc i n e due w = (Inr (), ?w)"
    by (simp add: set_retry_state_def with_ticket_homed [OF h g])
  have found: "find_ticket (board w (board_id t)) i = Some t" by (rule found_at [OF h g])
  have "homed ?w"
    using homed.set_retry_state_keeps [of w svc i n e due] h run by (simp add: homed_def)
  then have "get_ticket svc i ?w = Some ?t"
    using found find_ticket_SomeD [OF found] by (intro get_ticket_put [OF h _ g refl]) simp_all
  with run show ?thesis by (simp add: put_board_def)
qed

lemma note_row:
  assumes h: "homed w" and g: "get_ticket svc i w = Some t"
  shows "\<exists>e w'. add_history_note svc i m w = (Inr e, w') \<and> get_ticket svc i w' = Some t \<and> clock w' = clock w
    \<and> ev_state e = tstate t \<and> ev_note e = Some m \<and> ev_at e = clock w
    \<and> events_of (board w' (board_id t)) i = events_of (board w (board_id t)) i @ [e]"
proof -
  let ?e = "make_event (ext svc) (board w (board_id t)) i (tstate t) (Some m) (clock w)"
  let ?w = "put_board (board_id t) (add_event (ext svc) i (tstate t) (Some m) (clock w) (board w (board_id t))) w"
  have run: "add_history_note svc i m w = (Inr ?e, ?w)"
    by (simp add: add_history_note_def with_ticket_homed [OF h g])
  have found: "find_ticket (board w (board_id t)) i = Some t" by (rule found_at [OF h g])
  have "homed ?w"
    using homed.add_history_note_keeps [OF refl, of w svc i m] h run by (simp add: homed_def)
  then have "get_ticket svc i ?w = Some t"
    using found by (intro get_ticket_put [OF h _ g refl]) simp_all
  moreover have "clock ?w = clock w" by (simp add: put_board_def)
  moreover have "ev_state ?e = tstate t" "ev_note ?e = Some m" "ev_at ?e = clock w"
    by (simp_all add: make_event_def Let_def)
  ultimately show ?thesis using run by (intro exI [of _ ?e] exI [of _ ?w]) simp
qed

text \<open>A breadcrumb leaves the row, and the invariants, as they are.\<close>

lemma add_note_wf_homed:
  "\<lbrakk>wf_world w; homed w\<rbrakk> \<Longrightarrow> wf_world (snd (add_history_note svc i m w)) \<and> homed (snd (add_history_note svc i m w))"
  unfolding wf_world_def homed_def
  by (intro conjI wf.add_history_note_keeps [OF refl] homed.add_history_note_keeps [OF refl])

lemma snd_call: "mill (snd (call f ws)) = snd (f (mill ws))"
  by (simp add: call_def split: prod.split sum.split)

lemma post_trace_row:
  assumes "wf_world (mill ws)" "homed (mill ws)" "get_ticket svc i (mill ws) = Some t"
  shows "get_ticket svc i (mill (post_trace_event svc i link s ws)) = Some t
    \<and> wf_world (mill (post_trace_event svc i link s ws)) \<and> homed (mill (post_trace_event svc i link s ws))
    \<and> clock (mill (post_trace_event svc i link s ws)) = clock (mill ws)"
proof (cases link)
  case (Some url)
  obtain e w' where "add_history_note svc i (trace_note s url) (mill ws) = (Inr e, w')"
      "get_ticket svc i w' = Some t" "clock w' = clock (mill ws)"
    using note_row [OF assms(2,3)] by blast
  then show ?thesis
    using Some add_note_wf_homed [OF assms(1,2), of svc i "trace_note s url"]
    by (simp add: post_trace_event_def snd_call)
qed (use assms in \<open>simp add: post_trace_event_def\<close>)

text \<open>The columns of a ticket in a stage can be read; then it can be blocked, and is sent back from
  there to the state it was in.\<close>

definition readable :: "Ticket \<Rightarrow> bool" where
  "readable t \<longleftrightarrow> \<not> isl (stored_state (blocked_from t)) \<and> \<not> isl (stored_state (paused_from t))"

lemma block_row:
  assumes w: "wf_world w" "homed w" and g: "get_ticket svc i w = Some t" and t: "readable t"
    and s: "STAGE_FOR_STATE (tstate t) = Some s"
  shows "\<exists>t' w'. transition svc i BLOCKED nt reason w = (Inr t', w') \<and> get_ticket svc i w' = Some t'
    \<and> tstate t' = BLOCKED \<and> blocked_from t' = Some (state_value (tstate t)) \<and> block_reason t' = reason
    \<and> wf_world w' \<and> homed w' \<and> clock w' = clock w"
proof -
  let ?d = "board w (board_id t)"
  have "can_transition (tstate t) BLOCKED bf pf" for bf pf
    using staged_escapes [OF s] by (simp add: can_transition_cases)
  then have guards: "transition_guards i t BLOCKED (clock w) ?d = Inr ?d"
    using t by (auto simp: transition_guards_def readable_def TERMINAL_STATES_def split: sum.split)
  have files: "transition_files svc t BLOCKED nt w = (Inr (), w)"
    by (simp add: transition_files_def IMPLEMENT_PROGRESS_STATES_def)
  have plain: "plain BLOCKED" by (simp add: plain_def ARCHIVABLE_STATES_def UNBLOCK_TRIGGER_STATES_def)
  note run = plain_transition [OF w g guards _ plain, of nt reason] transition_found [OF w g guards _ plain, of nt reason]
  obtain t' w' where tr: "transition svc i BLOCKED nt reason w = (Inr t', w')"
    and t': "t' = moved_row BLOCKED nt reason (clock w) t" and w': "clock w' = clock w"
    using run(1) files by (auto simp: on_transition_def put_board_def split: if_splits)
  have "wf_world w'" "homed w'"
    using wf.transition_keeps [OF refl, of w svc i BLOCKED nt reason] homed.transition_keeps [OF refl, of w svc i BLOCKED nt reason]
      w tr by (simp_all add: wf_world_def homed_def)
  moreover have "get_ticket svc i w' = Some t'" using run(2) tr files by simp
  moreover have "tstate t' = BLOCKED" "blocked_from t' = Some (state_value (tstate t))" "block_reason t' = reason"
    by (simp_all add: t' moved_row_def blocked_columns_def paused_columns_def)
  ultimately show ?thesis using tr w' by blast
qed


lemma set_retry_wf_homed:
  "\<lbrakk>wf_world w; homed w\<rbrakk> \<Longrightarrow> wf_world (snd (set_retry_state svc i n e due w)) \<and> homed (snd (set_retry_state svc i n e due w))"
  unfolding wf_world_def homed_def by (intro conjI wf.set_retry_state_keeps homed.set_retry_state_keeps)

lemma park_row:
  assumes w: "wf_world (mill ws)" "homed (mill ws)" and g: "get_ticket svc i (mill ws) = Some t"
  shows "\<exists>ws'. park svc i s link n reason delay (\<lambda>s. s) ws = (Inr (), ws')
    \<and> wf_world (mill ws') \<and> homed (mill ws') \<and> clock (mill ws') = clock (mill ws)
    \<and> get_ticket svc i (mill ws') = Some (t\<lparr>retry_attempt := n, last_transient_error := Some (take_chars 200 reason),
         next_retry_at := Some (in_seconds delay (clock (mill ws))), updated_at := clock (mill ws)\<rparr>)"
proof -
  let ?e = "Some (take_chars 200 reason)" and ?due = "Some (in_seconds delay (clock (mill ws)))"
  obtain w' where r: "set_retry_state svc i n ?e ?due (mill ws) = (Inr (), w')" "clock w' = clock (mill ws)"
      "get_ticket svc i w' = Some (t\<lparr>retry_attempt := n, last_transient_error := ?e, next_retry_at := ?due,
         updated_at := clock (mill ws)\<rparr>)"
    using retry_row [OF w(2) g] by blast
  have "wf_world w' \<and> homed w'" using set_retry_wf_homed [OF w, of svc i n ?e ?due] r(1) by simp
  then show ?thesis
    using r post_trace_row [of "ws\<lparr>mill := w'\<rparr>" svc i _ link s]
    by (auto simp: park_def call_def)
qed

lemma block_notify_row:
  assumes w: "wf_world (mill ws)" "homed (mill ws)" and g: "get_ticket svc i (mill ws) = Some t"
    and t: "readable t" and s: "STAGE_FOR_STATE (tstate t) = Some s"
  shows "\<exists>ws' t'. block_ticket_and_notify svc i s m link ws = (Inr (), ws')
    \<and> wf_world (mill ws') \<and> homed (mill ws') \<and> get_ticket svc i (mill ws') = Some t'
    \<and> tstate t' = BLOCKED \<and> blocked_from t' = Some (state_value (tstate t))"
proof -
  let ?ws = "post_trace_event svc i link s ws"
  have "wf_world (mill ?ws)" "homed (mill ?ws)" "get_ticket svc i (mill ?ws) = Some t"
    using post_trace_row [OF w g, of link s] by simp_all
  from block_row [OF this t s, of "Some (take_chars 200 m)" None] show ?thesis
    by (auto simp: block_ticket_and_notify_def call_def)
qed

lemma drop_guard_same:
  "boards (mill (drop_implement_guard svc i s ws)) = boards (mill ws)"
  "clock (mill (drop_implement_guard svc i s ws)) = clock (mill ws)"
  by (simp_all add: drop_implement_guard_def snd_call split: option.split)

section \<open>The delay of a retry\<close>

lemma retry_delay_range:
  assumes "0 \<le> base" "base \<le> cap" "0 \<le> f" "f < 1"
  shows "base \<le> compute_retry_delay n base cap f" "compute_retry_delay n base cap f \<le> 3 / 2 * cap"
proof -
  let ?d = "min cap (base * 2 ^ nat (n - 1))"
  have "base * 1 \<le> base * 2 ^ nat (n - 1)" using assms(1) by (intro mult_left_mono) simp_all
  then have d: "base \<le> ?d" "?d \<le> cap" "0 \<le> ?d" using assms by simp_all
  have "base \<le> d + f * (d / 2) \<and> d + f * (d / 2) \<le> 3 / 2 * cap" if "base \<le> d" "d \<le> cap" "0 \<le> d" for d
  proof -
    have "0 \<le> f * (d / 2)" "f * (d / 2) \<le> 1 * (d / 2)"
      using assms(3,4) that(3) by (intro mult_nonneg_nonneg mult_right_mono; simp)+
    with that show ?thesis by linarith
  qed
  from this [OF d] show "base \<le> compute_retry_delay n base cap f" "compute_retry_delay n base cap f \<le> 3 / 2 * cap"
    by (simp_all add: compute_retry_delay_def Let_def)
qed

lemma in_seconds_mono: "d \<le> d' \<Longrightarrow> in_seconds d now \<le> in_seconds d' now"
  by (simp add: in_seconds_def round_mono)

section \<open>A run that fails\<close>

text \<open>A failure that is none of the three infrastructure faults a ticket is parked for.\<close>

definition ordinary :: "exn_store \<Rightarrow> nat \<Rightarrow> bool" where
  "ordinary st e \<longleftrightarrow> \<not> is_network_down_error st e \<and> \<not> is_disk_full_error st e \<and> \<not> is_model_unavailable_error st e"

definition sane_retries :: "worker_env \<Rightarrow> bool" where
  "sane_retries env \<longleftrightarrow> 0 \<le> stage_retry_base_delay (conf env)
     \<and> stage_retry_base_delay (conf env) \<le> stage_retry_max_delay (conf env)
     \<and> (\<forall>w. 0 \<le> jitter env w \<and> jitter env w < 1)"

text \<open>A failure of the model: the ticket is parked, until \<open>model_outage_max_parks\<close>.\<close>

definition outage :: "exn_store \<Rightarrow> nat \<Rightarrow> bool" where
  "outage st e \<longleftrightarrow> \<not> is_network_down_error st e \<and> \<not> is_disk_full_error st e \<and> is_model_unavailable_error st e"

text \<open>The row of a ticket that waits for its next run, one attempt further; and of one to be retried,
  with its delay.\<close>

definition waits :: "Ticket \<Rightarrow> Ticket \<Rightarrow> bool" where
  "waits t t' \<longleftrightarrow> tstate t' = tstate t \<and> retry_attempt t' = retry_attempt t + 1
     \<and> blocked_from t' = blocked_from t \<and> paused_from t' = paused_from t"

definition to_retry :: "worker_env \<Rightarrow> instant \<Rightarrow> Ticket \<Rightarrow> Ticket \<Rightarrow> bool" where
  "to_retry env now t t' \<longleftrightarrow> waits t t'
     \<and> (case next_retry_at t' of None \<Rightarrow> False | Some due \<Rightarrow>
          in_seconds (stage_retry_base_delay (conf env)) now \<le> due
          \<and> due \<le> in_seconds (3 / 2 * stage_retry_max_delay (conf env)) now)"

lemma failed_run:
  assumes w: "wf_world (mill ws)" "homed (mill ws)" and g: "get_ticket svc i (mill ws) = Some t"
    and t: "readable t" "STAGE_FOR_STATE (tstate t) = Some s" "s \<noteq> ''retrospect''"
    and c: "sane_retries env" and e: "ordinary st e"
  shows "\<exists>ws' t'. handle_stage_error env svc i s st e repr link ws = (Inr (), ws')
    \<and> wf_world (mill ws') \<and> homed (mill ws') \<and> get_ticket svc i (mill ws') = Some t'
    \<and> (if classify_stage_error st e = Transient \<and> retry_attempt t < stage_retry_max_attempts (conf env)
       then to_retry env (clock (mill ws)) t t'
       else tstate t' = BLOCKED \<and> blocked_from t' = Some (state_value (tstate t)))"
proof (cases "classify_stage_error st e = Transient")
  case False
  then show ?thesis
    using block_notify_row [OF w g t(1,2), of "fatal_note (st e)" link] t(3)
    by (simp add: handle_stage_error_def give_up_def)
next
  case True
  let ?ws = "drop_implement_guard svc i s ws"
  have same: "boards (mill ?ws) = boards (mill ws)" "clock (mill ?ws) = clock (mill ws)"
    by (rule drop_guard_same)+
  have w1: "wf_world (mill ?ws)" "homed (mill ?ws)" "get_ticket svc i (mill ?ws) = Some t"
    using w g by (simp_all add: wf_same [OF same(1)] homed_same [OF same(1)] get_ticket_same [OF same(1)])
  have run: "handle_stage_error env svc i s st e repr link ws = retry_or_give_up env svc i s (st e) repr link t ?ws"
    using True e w1(3) by (simp add: handle_stage_error_def Let_def handle_transient_def ordinary_def split: prod.split)
  show ?thesis
  proof (cases "retry_attempt t < stage_retry_max_attempts (conf env)")
    case True
    let ?d = "compute_retry_delay (retry_attempt t + 1) (stage_retry_base_delay (conf env))
        (stage_retry_max_delay (conf env)) (jitter env (mill ?ws))"
    have "stage_retry_base_delay (conf env) \<le> ?d" "?d \<le> 3 / 2 * stage_retry_max_delay (conf env)"
      using c by (intro retry_delay_range; simp add: sane_retries_def)+
    then have "in_seconds (stage_retry_base_delay (conf env)) now \<le> in_seconds ?d now"
      "in_seconds ?d now \<le> in_seconds (3 / 2 * stage_retry_max_delay (conf env)) now" for now
      by (auto intro: in_seconds_mono)
    then show ?thesis
      using True \<open>classify_stage_error st e = Transient\<close> run same(2)
        park_row [OF w1, of s link "retry_attempt t + 1" repr ?d]
      by (auto simp: retry_or_give_up_def Let_def to_retry_def waits_def)
  next
    case False
    then show ?thesis
      using block_notify_row [OF w1 t(1,2), of "exhausted_note (st e) (stage_retry_max_attempts (conf env))" link] run t(3)
      by (simp add: retry_or_give_up_def Let_def give_up_def)
  qed
qed


text \<open>One failed run after the other, of the errors \<open>es\<close>.\<close>

fun fail_repeatedly ::
    "worker_env \<Rightarrow> service \<Rightarrow> string \<Rightarrow> string \<Rightarrow> exn_store \<Rightarrow> nat list \<Rightarrow> worker_state \<Rightarrow> worker_state" where
  "fail_repeatedly env svc i s st [] ws = ws"
| "fail_repeatedly env svc i s st (e # es) ws =
     fail_repeatedly env svc i s st es (snd (handle_stage_error env svc i s st e (exn_repr env e) None ws))"

lemma outage_run:
  assumes w: "wf_world (mill ws)" "homed (mill ws)" and g: "get_ticket svc i (mill ws) = Some t"
    and t: "readable t" "STAGE_FOR_STATE (tstate t) = Some s" and e: "outage st e"
  shows "\<exists>ws' t'. handle_stage_error env svc i s st e repr link ws = (Inr (), ws')
    \<and> wf_world (mill ws') \<and> homed (mill ws') \<and> get_ticket svc i (mill ws') = Some t'
    \<and> (if retry_attempt t < model_outage_max_parks (conf env) then waits t t'
       else tstate t' = BLOCKED \<and> blocked_from t' = Some (state_value (tstate t)))"
proof -
  let ?ws = "drop_implement_guard svc i s ws" and ?n = "retry_attempt t + 1"
  have same: "boards (mill ?ws) = boards (mill ws)" by (rule drop_guard_same)
  have w1: "wf_world (mill ?ws)" "homed (mill ?ws)" "get_ticket svc i (mill ?ws) = Some t"
    using w g by (simp_all add: wf_same [OF same] homed_same [OF same] get_ticket_same [OF same])
  obtain what delay where out: "outage_park env st e (clock (mill ?ws)) = (what, delay)" by fastforce
  have "classify_stage_error st e = Transient"
    using e full_or_out_transient
    by (auto simp: outage_def is_model_unavailable_error_def classify_stage_error_def list_ex_iff)
  then have run: "handle_stage_error env svc i s st e repr link ws =
      (if ?n > model_outage_max_parks (conf env)
       then block_ticket_and_notify svc i s (outage_exhausted_note (st e) (?n - 1)) link ?ws
       else park svc i s link ?n
              (what @ '' ('' @ MODEL_OUTAGE_MARKER @ '', park '' @ show_int ?n @ ''/''
               @ show_int (model_outage_max_parks (conf env)) @ '', retry budget untouched): '' @ repr)
              delay (\<lambda>s. s) ?ws)"
    using e w1(3) by (simp add: handle_stage_error_def Let_def handle_transient_def outage_def out split: prod.split)
  show ?thesis
  proof (cases "retry_attempt t < model_outage_max_parks (conf env)")
    case True
    then show ?thesis
      using park_row [OF w1, of s link ?n _ delay] run by (fastforce simp: waits_def)
  next
    case False
    then show ?thesis
      using block_notify_row [OF w1 t, of "outage_exhausted_note (st e) (?n - 1)" link] run by simp
  qed
qed

text \<open>What counts, and against which limit.\<close>

definition counted :: "exn_store \<Rightarrow> nat \<Rightarrow> bool" where
  "counted st e \<longleftrightarrow> outage st e \<or> ordinary st e \<and> classify_stage_error st e = Transient"

definition limit_for :: "worker_env \<Rightarrow> exn_store \<Rightarrow> nat \<Rightarrow> int" where
  "limit_for env st e =
     (if is_model_unavailable_error st e then model_outage_max_parks (conf env) else stage_retry_max_attempts (conf env))"

lemma counted_run:
  assumes w: "wf_world (mill ws)" "homed (mill ws)" and g: "get_ticket svc i (mill ws) = Some t"
    and t: "readable t" "STAGE_FOR_STATE (tstate t) = Some s" "s \<noteq> ''retrospect''"
    and c: "sane_retries env" and e: "counted st e"
  shows "\<exists>ws' t'. handle_stage_error env svc i s st e repr link ws = (Inr (), ws')
    \<and> wf_world (mill ws') \<and> homed (mill ws') \<and> get_ticket svc i (mill ws') = Some t'
    \<and> (if retry_attempt t < limit_for env st e then waits t t'
       else tstate t' = BLOCKED \<and> blocked_from t' = Some (state_value (tstate t)))"
proof (cases "is_model_unavailable_error st e")
  case True
  then have "outage st e" using e by (auto simp: counted_def ordinary_def)
  from outage_run [OF w g t(1,2) this] True show ?thesis by (simp add: limit_for_def)
next
  case False
  then have "ordinary st e" "classify_stage_error st e = Transient" using e by (auto simp: counted_def outage_def)
  with failed_run [OF w g t c this(1), of repr link] False show ?thesis
    by (auto simp: limit_for_def to_retry_def split: if_splits)
qed

lemma failing_runs:
  assumes w: "wf_world (mill ws)" "homed (mill ws)" and g: "get_ticket svc i (mill ws) = Some t"
    and t: "readable t" "STAGE_FOR_STATE (tstate t) = Some s" "s \<noteq> ''retrospect''"
    and c: "sane_retries env"
    and e: "list_all (\<lambda>e. counted st e \<and> retry_attempt t + int (length es) \<le> limit_for env st e) es"
  shows "\<exists>t'. wf_world (mill (fail_repeatedly env svc i s st es ws)) \<and> homed (mill (fail_repeatedly env svc i s st es ws))
    \<and> get_ticket svc i (mill (fail_repeatedly env svc i s st es ws)) = Some t'
    \<and> tstate t' = tstate t \<and> retry_attempt t' = retry_attempt t + int (length es) \<and> readable t'"
  using w g t(1,2) e
proof (induction es arbitrary: ws t)
  case (Cons e es)
  obtain ws1 t1 where run: "handle_stage_error env svc i s st e (exn_repr env e) None ws = (Inr (), ws1)"
    "wf_world (mill ws1)" "homed (mill ws1)" "get_ticket svc i (mill ws1) = Some t1" "waits t t1"
    using counted_run [OF Cons.prems(1-5) t(3) c, of st e "exn_repr env e" None] Cons.prems by auto
  then have t1: "tstate t1 = tstate t" "retry_attempt t1 = retry_attempt t + 1" "readable t1"
    using Cons.prems(4) by (simp_all add: waits_def readable_def)
  then have "list_all (\<lambda>e. counted st e \<and> retry_attempt t1 + int (length es) \<le> limit_for env st e) es"
    using Cons.prems(6) by (auto simp: list_all_iff)
  with Cons.IH [OF run(2-4) t1(3)] show ?case
    using run(1) t1 Cons.prems(5) by auto
qed simp


lemma fail_repeatedly_snoc:
  "fail_repeatedly env svc i s st (es @ [e]) ws =
     snd (handle_stage_error env svc i s st e (exn_repr env e) None (fail_repeatedly env svc i s st es ws))"
  by (induction es arbitrary: ws) simp_all

section \<open>Small failures\<close>

text \<open>Number 0 is a timeout without a text, every other number a model out of quota.\<close>

definition sample_errors :: exn_store where
  "sample_errors n =
     (if n = 0 then timeout_error [] else
      (timeout_error [])\<lparr>classes := [''builtins.Exception''], type_name := ''ClaudeSDKUsageExhaustedError''\<rparr>)"

lemma sample_chain: "walk_chain sample_errors n = [sample_errors n]"
  by (simp add: walk_chain_def MAX_CHAIN_WALK_def numeral_eq_Suc next_in_chain_def sample_errors_def timeout_error_def)

lemma empty_message:
  "map (\<lambda>r. rx_search r []) [NETWORK_DOWN_RE, DISK_FULL_RE, MODEL_UNAVAILABLE_RE, CLAUDE_USAGE_EXHAUSTED_RE]
     = [False, False, False, False]"
  by code_simp

lemma sample_errors_match:
  "\<not> matches_network_down (sample_errors 0)" "\<not> matches_disk_full (sample_errors 0)"
  "\<not> matches_model_unavailable (sample_errors 0)" "\<not> matches_claude_usage_exhausted (sample_errors 0)"
  "check_one_transient (sample_errors 0)"
  "\<not> matches_network_down (sample_errors 1)" "\<not> matches_disk_full (sample_errors 1)"
  "matches_claude_usage_exhausted (sample_errors 1)"
  using empty_message
  by (simp_all add: matches_network_down_def matches_disk_full_def matches_model_unavailable_def
      matches_claude_usage_exhausted_def check_one_transient_def is_transient_httpx_def is_transient_openai_def
      is_transient_called_process_error_def stderr_matches_def
      isinstance_def sample_errors_def timeout_error_def)

lemma sample_counted:
  "counted sample_errors 0" "counted sample_errors 1" "\<not> is_model_unavailable_error sample_errors 0"
  "is_model_unavailable_error sample_errors 1"
  using sample_errors_match
  by (simp_all add: counted_def outage_def ordinary_def is_network_down_error_def is_disk_full_error_def
      is_model_unavailable_error_def classify_stage_error_def sample_chain)

section \<open>Properties\<close>

text \<open>
  C8: The budget of retries of a stage other than retrospect, on a ticket whose recorded origins can be
  read. Every failure is an outage of the model, with the limit model_outage_max_parks, or another
  transient error (not the network, not a full disk), with the limit stage_retry_max_attempts. While
  the attempts stay within the limit of each failure, the ticket waits in its state with one attempt
  more after each. The next failure lets it wait once more when its own limit is not reached, and
  otherwise blocks it, with the state of the stage as the recorded origin. Both kinds are counted in
  the one column retry_attempt; the comment and the note of a park say that the budget is untouched.
\<close>

theorem retry_budget:
  assumes "wf_world (mill ws)" "homed (mill ws)" "get_ticket svc i (mill ws) = Some t" "readable t"
    and "STAGE_FOR_STATE (tstate t) = Some s" "s \<noteq> ''retrospect''" "sane_retries env"
    and "list_all (\<lambda>e. counted st e \<and> retry_attempt t + int (length es) \<le> limit_for env st e) es" "counted st e"
  shows "\<exists>t1 t2. get_ticket svc i (mill (fail_repeatedly env svc i s st es ws)) = Some t1
    \<and> tstate t1 = tstate t \<and> retry_attempt t1 = retry_attempt t + int (length es)
    \<and> get_ticket svc i (mill (fail_repeatedly env svc i s st (es @ [e]) ws)) = Some t2
    \<and> (if retry_attempt t + int (length es) < limit_for env st e
       then tstate t2 = tstate t \<and> retry_attempt t2 = retry_attempt t + int (length es) + 1
       else tstate t2 = BLOCKED \<and> blocked_from t2 = Some (state_value (tstate t)))"
proof -
  obtain t1 where t1: "wf_world (mill (fail_repeatedly env svc i s st es ws))"
      "homed (mill (fail_repeatedly env svc i s st es ws))"
      "get_ticket svc i (mill (fail_repeatedly env svc i s st es ws)) = Some t1"
      "tstate t1 = tstate t" "retry_attempt t1 = retry_attempt t + int (length es)" "readable t1"
    using failing_runs [OF assms(1-8)] by blast
  have "STAGE_FOR_STATE (tstate t1) = Some s" using assms(5) t1(4) by simp
  from counted_run [OF t1(1-3,6) this assms(6,7,9), of "exn_repr env e" None]
  show ?thesis using t1(3-5) by (auto simp: fail_repeatedly_snoc waits_def)
qed

lemma retry_budget_witness:
  "map_option (\<lambda>t. (tstate t, blocked_from t))
     (get_ticket sample_service ''t1''
       (mill (fail_repeatedly (sample_env (still True (\<lambda>_. to_state READY)) sample_errors) sample_service ''t1'' ''merge''
          sample_errors ([1, 1, 1, 1, 1] @ [0]) (sample_state sample_world))))
   = Some (BLOCKED, Some (state_value WAITING_AUTO_MERGE))"
proof -
  let ?env = "sample_env (still True (\<lambda>_. to_state READY)) sample_errors"
  have g: "get_ticket sample_service ''t1'' sample_world = Some (sample_tickets ! 0)"
    by (simp add: get_ticket_def sample_service_def board_def sample_world_def sample_board_def tickets_fold_events
        find_ticket_def lookup_by_def resolve_board_id_def sample_tickets_def sample_ticket_def)
  have t: "readable (sample_tickets ! 0)" "tstate (sample_tickets ! 0) = WAITING_AUTO_MERGE"
    "retry_attempt (sample_tickets ! 0) = 0"
    by (simp_all add: sample_tickets_def sample_ticket_def readable_def stored_state_def)
  have c: "sane_retries ?env" by (simp add: sane_retries_def sample_env_def sample_conf_def)
  have l: "limit_for ?env sample_errors 1 = 20" "limit_for ?env sample_errors 0 = 5"
    using sample_counted by (simp_all add: limit_for_def sample_env_def sample_conf_def)
  then have "list_all (\<lambda>e. counted sample_errors e \<and> retry_attempt (sample_tickets ! 0) + int (length [1, 1, 1, 1, 1::nat])
      \<le> limit_for ?env sample_errors e) [1, 1, 1, 1, 1]"
    using sample_counted(2) t(3) by simp
  from retry_budget [where ws = "sample_state sample_world" and s = "''merge''", unfolded sample_state_def worker_state.simps,
      OF sample_wf sample_homed g t(1) _ _ c this sample_counted(1)]
  show ?thesis using t l by (auto simp: sample_state_def)
qed

end
