(* ===== verification/Rounds.thy ===== *)
theory Rounds
  imports Budget
begin

text \<open>
  Single rounds of the loop: an outcome that comes after the ticket has been moved, and the two
  stages that hand a ticket to each other without end.
\<close>

section \<open>A round that ends in a transition\<close>

text \<open>A ticket the loop dispatches at once.\<close>

definition dispatchable :: "worker_env \<Rightarrow> service \<Rightarrow> string \<Rightarrow> Ticket \<Rightarrow> world \<Rightarrow> bool" where
  "dispatchable env svc i t w \<longleftrightarrow> wf_world w \<and> homed w \<and> get_ticket svc i w = Some t \<and> readable t
     \<and> next_retry_at t = None \<and> retry_attempt t \<le> 0 \<and> parse_depends_on t = []
     \<and> disk_min_free_mb (conf env) \<le> 0"

lemma no_full_path: "m \<le> 0 \<Longrightarrow> first_full_path free ps m = None"
  by (induction ps) (simp_all add: disk_space_available_def)

lemma admitted:
  assumes "dispatchable env svc i t w" "STAGE_FOR_STATE (tstate t) = Some s"
  shows "admit env svc i None w = Dispatch t s"
proof -
  have "tstate t \<notin> set WORKER_TERMINAL" "tstate t \<noteq> AWAITING_USER_REPLY"
    using assms(2) by (cases "tstate t"; simp add: WORKER_TERMINAL_def)+
  then show ?thesis
    using assms by (simp add: admit_def dispatchable_def unmet_dependencies_def no_full_path)
qed

text \<open>The move from one state of the pull request to another.\<close>

lemma moved_on:
  assumes d: "dispatchable env svc i t w" and e: "edge (tstate t) dst" and p: "plain dst"
    and "tstate t \<notin> {READY, BLOCKED, AWAITING_USER_REPLY}" "dst \<notin> {READY, BLOCKED, AWAITING_USER_REPLY} \<union> set TERMINAL_STATES"
  shows "\<exists>t' w'. transition svc i dst nt reason w = (Inr t', w') \<and> dispatchable env svc i t' w' \<and> tstate t' = dst"
proof -
  let ?d = "board w (board_id t)"
  have w: "wf_world w" "homed w" and g: "get_ticket svc i w = Some t" and t: "readable t"
    using d by (simp_all add: dispatchable_def)
  have guards: "transition_guards i t dst (clock w) ?d = Inr ?d"
    using t e assms(5) by (auto simp: transition_guards_def readable_def can_transition_cases split: sum.split)
  have files: "fst (transition_files svc t dst nt w) = Inr ()"
    using assms(4,5) by (simp add: transition_files_def)
  let ?t = "moved_row dst nt reason (clock w) t"
  obtain w' where tr: "transition svc i dst nt reason w = (Inr ?t, w')"
    using plain_transition [OF w g guards files p] by blast
  have row: "?t = t\<lparr>tstate := dst, updated_at := clock w\<rparr>"
    using assms(4,5) by (simp add: moved_row_def blocked_columns_def paused_columns_def)
  have "wf_world w'" "homed w'"
    using wf.transition_keeps [OF refl, of w svc i dst nt reason] homed.transition_keeps [OF refl, of w svc i dst nt reason]
      w tr by (simp_all add: wf_world_def homed_def)
  moreover have "get_ticket svc i w' = Some ?t" by (rule transition_found [OF w g guards files p tr])
  ultimately show ?thesis
    using d tr by (intro exI [of _ ?t] exI [of _ w']) (simp add: dispatchable_def row readable_def parse_depends_on_def)
qed

section \<open>Two stages without end\<close>

text \<open>\<open>merge\<close> finds the checks red, and \<open>ci_fix\<close> hands the ticket back to have them checked.\<close>

definition bounce :: "string \<Rightarrow> outcome" where
  "bounce s = (if s = ''merge'' then to_state FIXING_CI else to_state IMPLEMENT_COMPLETE)"

lemma bounce_again:
  assumes d: "dispatchable env svc i t (mill ws)" and t: "tstate t \<in> {IMPLEMENT_COMPLETE, FIXING_CI}"
    and st: "stage_of env = still False bounce"
  shows "\<exists>ws' t'. process_once env svc i None counts ws = (Again counts, ws')
    \<and> dispatchable env svc i t' (mill ws') \<and> tstate t' \<in> {IMPLEMENT_COMPLETE, FIXING_CI}"
proof -
  define s where "s = (if tstate t = FIXING_CI then ''ci_fix'' else ''merge'')"
  define dst where "dst = (if tstate t = FIXING_CI then IMPLEMENT_COMPLETE else FIXING_CI)"
  have s: "STAGE_FOR_STATE (tstate t) = Some s" using t by (auto simp: s_def)
  have out: "bounce s = to_state dst" by (simp add: bounce_def s_def dst_def)
  have "edge (tstate t) dst" using t by (auto simp: dst_def edge_iff)
  moreover have "plain dst" by (simp add: plain_def dst_def ARCHIVABLE_STATES_def UNBLOCK_TRIGGER_STATES_def)
  ultimately obtain t' w' where tr: "transition svc i dst None None (mill ws) = (Inr t', w')"
      "dispatchable env svc i t' w'" "tstate t' = dst"
    using moved_on [OF d, of dst None None] t by (auto simp: dst_def TERMINAL_STATES_def)
  have g: "get_ticket svc i (mill ws) = Some t" "retry_attempt t \<le> 0" using d by (simp_all add: dispatchable_def)
  have ne: "tstate t \<noteq> dst" "dst \<noteq> tstate t" using t by (auto simp: dst_def)
  have "process_once env svc i None counts ws = (Again counts, ws\<lparr>mill := w'\<rparr>)"
    using g ne tr(1)
    by (simp add: process_once_def admitted [OF d s] st still_def Let_def run_round_def out to_state_def
        finish_run_def clear_retry_def post_trace_event_def apply_outcome_def call_def maybe_reevaluate_epic_def)
      (simp add: dst_def TRIGGER_STATES_def EPIC_CHILD_TERMINAL_def)
  then show ?thesis using tr(2,3) by (intro exI [of _ "ws\<lparr>mill := w'\<rparr>"] exI [of _ t']) (simp add: dst_def)
qed

lemma bounce_never_returns:
  assumes "process_loop env svc i None counts ws = Some r" "stage_of env = still False bounce"
  shows "\<not> (\<exists>t. dispatchable env svc i t (mill ws) \<and> tstate t \<in> {IMPLEMENT_COMPLETE, FIXING_CI})"
proof -
  define P where "P env svc i (allowed :: State set option) counts ws r \<longleftrightarrow>
      (allowed = None \<longrightarrow> stage_of env = still False bounce \<longrightarrow>
       \<not> (\<exists>t. dispatchable env svc i t (mill ws) \<and> tstate t \<in> {IMPLEMENT_COMPLETE, FIXING_CI}))"
    for env svc i allowed and counts :: "string \<Rightarrow> nat" and ws :: worker_state and r :: "(crash + unit) \<times> worker_state"
  have "P env svc i None counts ws r"
  proof (rule process_loop.raw_induct [OF _ assms(1), where P = P])
    fix loop env svc i allowed counts ws r
    assume IH: "\<And>env svc i allowed counts ws r. loop env svc i allowed counts ws = Some r \<Longrightarrow> P env svc i allowed counts ws r"
      and run: "(case process_once env svc i allowed counts ws of
          (Stop r, ws1) \<Rightarrow> Some (r, ws1) | (Again c, ws1) \<Rightarrow> loop env svc i allowed c ws1) = Some r"
    show "P env svc i allowed counts ws r"
      unfolding P_def
    proof (intro impI notI)
      assume none: "allowed = None" and st: "stage_of env = still False bounce"
        and "\<exists>t. dispatchable env svc i t (mill ws) \<and> tstate t \<in> {IMPLEMENT_COMPLETE, FIXING_CI}"
      then obtain ws' t' where next': "process_once env svc i allowed counts ws = (Again counts, ws')"
          "dispatchable env svc i t' (mill ws')" "tstate t' \<in> {IMPLEMENT_COMPLETE, FIXING_CI}"
        using bounce_again [of env svc i _ ws counts] by blast
      then have "P env svc i allowed counts ws' r" using IH run by simp
      with next' none st show False by (auto simp: P_def)
    qed
  qed
  then show ?thesis using assms(2) by (simp add: P_def)
qed


section \<open>Properties\<close>

text \<open>
  The cycle ceiling does not bound every loop it is meant for. \<open>merge\<close> and \<open>ci_fix\<close> do not
  count for it, so when the checks stay red and every fix is handed back, a pass over the ticket
  never returns, whatever the limit is.
\<close>

theorem uncounted_stages_loop:
  assumes "dispatchable env svc i t (mill ws)" "tstate t \<in> {IMPLEMENT_COMPLETE, FIXING_CI}"
    and "stage_of env = still False bounce"
  shows "process_ticket env svc i None ws = None"
proof (cases "process_ticket env svc i None ws")
  case (Some r)
  then show ?thesis
    using bounce_never_returns assms unfolding process_ticket_def by blast
qed

definition red_ticket :: Ticket where
  "red_ticket = sample_ticket ''t9'' FIXING_CI"

lemma red_get: "get_ticket sample_service ''t9'' (seed_world ''alpha'' (seed sample_externals [red_ticket])) = Some red_ticket"
  by (simp add: get_ticket_def sample_service_def find_seed resolve_board_id_def red_ticket_def sample_ticket_def)

lemma red_dispatchable:
  "dispatchable (sample_env st es) sample_service ''t9'' red_ticket (seed_world ''alpha'' (seed sample_externals [red_ticket]))"
proof -
  have "wf_world (seed_world ''alpha'' (seed sample_externals [red_ticket]))"
    "homed (seed_world ''alpha'' (seed sample_externals [red_ticket]))"
    by (intro wf_seed_world wf_seed homed_seed_world; simp add: red_ticket_def sample_ticket_def)+
  then show ?thesis
    using red_get
    by (simp add: dispatchable_def sample_env_def sample_conf_def readable_def stored_state_def red_ticket_def
        sample_ticket_def parse_depends_on_def parse_depends_on_str_def)
qed

lemma uncounted_stages_loop_witness:
  "process_ticket (sample_env (still False bounce) sample_errors) sample_service ''t9'' None
     (sample_state (seed_world ''alpha'' (seed sample_externals [red_ticket]))) = None"
  by (rule uncounted_stages_loop [of _ _ _ red_ticket])
    (simp_all add: sample_state_def red_dispatchable, simp_all add: red_ticket_def sample_ticket_def sample_env_def)

text \<open>
  C12: A ticket that was moved while a stage was running, to a state from which the state machine does
  not allow the outcome of that stage, and which is not the state of the outcome. The ticket stays where
  it is, and the outcome is written to its history as a note, under the state the ticket is in. (An
  outcome that is allowed from the new state is applied.)
\<close>

theorem late_outcome_discarded:
  assumes "homed (mill ws)" "get_ticket svc i (mill ws) = Some now'" "tstate now' \<noteq> out_state out"
    and "stored_state (blocked_from now') = Inr bf" "stored_state (paused_from now') = Inr pf"
    and "\<not> can_transition (tstate now') (out_state out) bf pf"
  shows "\<exists>ws' e. apply_outcome svc i s t out ws = (Inr False, ws')
    \<and> get_ticket svc i (mill ws') = Some now'
    \<and> events_of (board (mill ws') (board_id now')) i = events_of (board (mill ws) (board_id now')) i @ [e]
    \<and> ev_state e = tstate now' \<and> ev_note e = Some (discard_note t (Some now') s out)"
proof -
  have refused: "transition svc i (out_state out) (out_note out) (out_block_reason out) (mill ws) =
      (Inl (TransitionError i (NotAllowed (tstate now') (out_state out))), mill ws)"
    using assms by (auto simp: transition_def step_at transition_session_def transition_guards_def TERMINAL_EPIC_STATES_def)
  obtain e w' where e: "add_history_note svc i (discard_note t (Some now') s out) (mill ws) = (Inr e, w')"
      "get_ticket svc i w' = Some now'" "ev_state e = tstate now'" "ev_note e = Some (discard_note t (Some now') s out)"
      "events_of (board w' (board_id now')) i = events_of (board (mill ws) (board_id now')) i @ [e]"
    using note_row [OF assms(1,2)] by blast
  have "apply_outcome svc i s t out ws = (Inr False, ws\<lparr>mill := w'\<rparr>)"
    using refused e(1) assms(2,3)
    by (simp add: apply_outcome_def call_def is_transition_error_def is_stale_ask_user_block_def)
  with e show ?thesis by (intro exI [of _ "ws\<lparr>mill := w'\<rparr>"] exI [of _ e]) simp
qed

lemma late_outcome_discarded_witness:
  "map_option tstate (get_ticket sample_service ''t9''
     (mill (snd (apply_outcome sample_service ''t9'' ''ci_fix'' red_ticket (to_state CODE_REVIEW)
        (sample_state (seed_world ''alpha'' (seed sample_externals [red_ticket]))))))) = Some FIXING_CI"
proof -
  let ?ws = "sample_state (seed_world ''alpha'' (seed sample_externals [red_ticket]))"
  have h: "homed (mill ?ws)" "get_ticket sample_service ''t9'' (mill ?ws) = Some red_ticket"
    using red_dispatchable [of "\<lambda>_. undefined" sample_errors] by (simp_all add: dispatchable_def sample_state_def)
  have r: "tstate red_ticket = FIXING_CI" "blocked_from red_ticket = None" "paused_from red_ticket = None"
    by (simp_all add: red_ticket_def sample_ticket_def)
  show ?thesis
    using late_outcome_discarded [OF h, of "to_state CODE_REVIEW" None None "''ci_fix''" red_ticket] r
    by (auto simp: to_state_def stored_state_def can_transition_cases edge_iff)
qed

text \<open>
  C13: The cycle ceiling in one turn of a pass, for a stage that counts, on a ticket whose recorded
  origins can be read, that is to be dispatched to the stage and that its preflight lets through without
  a change. While fewer runs of the stage than the limit have been counted in this pass, the stage is
  run, with one run more on its count. Otherwise the stage is not run: the pass stops and the ticket is
  blocked, with the state of the stage as the recorded origin.
\<close>

theorem ceiling_blocks:
  assumes "wf_world (mill ws)" "homed (mill ws)" "get_ticket svc i (mill ws) = Some t" "readable t"
    and "admit env svc i allowed (mill ws) = Dispatch t s" "traced (stage_of env s)" "0 < cycle_limit (conf env)"
    and "preflight (stage_of env s) t (mill ws) = (Inr None, mill ws)"
  shows "if int (counts s) < cycle_limit (conf env)
    then process_once env svc i allowed counts ws = run_round env svc i s t (counts(s := Suc (counts s))) ws
    else \<exists>ws' t'. process_once env svc i allowed counts ws = (Stop (Inr ()), ws')
      \<and> get_ticket svc i (mill ws') = Some t' \<and> tstate t' = BLOCKED
      \<and> blocked_from t' = Some (state_value (tstate t))"
proof -
  have once: "process_once env svc i allowed counts ws =
      (if cycle_limit (conf env) < int (Suc (counts s))
       then stopped (block_ticket_and_notify svc i s (cycle_note s (Suc (counts s)) (cycle_limit (conf env))) None ws)
       else run_round env svc i s t (counts(s := Suc (counts s))) ws)"
    using assms(5-8) by (simp add: process_once_def Let_def)
  obtain ws' t' where "block_ticket_and_notify svc i s (cycle_note s (Suc (counts s)) (cycle_limit (conf env))) None ws = (Inr (), ws')"
      "get_ticket svc i (mill ws') = Some t'" "tstate t' = BLOCKED" "blocked_from t' = Some (state_value (tstate t))"
    using block_notify_row [OF assms(1-4) admit_stage [OF assms(5)]] by blast
  with once show ?thesis by simp
qed

lemma ceiling_blocks_witness:
  "\<exists>ws' t'. process_once (sample_env (still True bounce) sample_errors) sample_service ''t9'' None (\<lambda>_. 4)
      (sample_state (seed_world ''alpha'' (seed sample_externals [red_ticket]))) = (Stop (Inr ()), ws')
     \<and> get_ticket sample_service ''t9'' (mill ws') = Some t' \<and> tstate t' = BLOCKED
     \<and> blocked_from t' = Some (state_value FIXING_CI)"
proof -
  let ?env = "sample_env (still True bounce) sample_errors"
  let ?ws = "sample_state (seed_world ''alpha'' (seed sample_externals [red_ticket]))"
  have r: "tstate red_ticket = FIXING_CI" by (simp add: red_ticket_def sample_ticket_def)
  have d: "dispatchable ?env sample_service ''t9'' red_ticket (mill ?ws)"
    using red_dispatchable by (simp add: sample_state_def)
  then have w: "wf_world (mill ?ws)" "homed (mill ?ws)" "get_ticket sample_service ''t9'' (mill ?ws) = Some red_ticket"
    "readable red_ticket" by (simp_all add: dispatchable_def)
  have a: "admit ?env sample_service ''t9'' None (mill ?ws) = Dispatch red_ticket ''ci_fix''"
    by (rule admitted [OF d]) (simp add: r)
  have st: "traced (stage_of ?env ''ci_fix'')" "preflight (stage_of ?env ''ci_fix'') red_ticket (mill ?ws) = (Inr None, mill ?ws)"
    by (simp_all add: sample_env_def still_def)
  show ?thesis
    using ceiling_blocks [OF w a st(1) _ st(2), of "\<lambda>_. 4"] r by (simp add: cycle_limit_sample)
qed

end
