(* ===== verification/Consumers.thy ===== *)
theory Consumers
  imports Dispatch Rounds
begin

text \<open>
  What holds of the consumers of the worker however they, the requests to enqueue and the stages
  interleave: no ticket is run twice, the queues are balanced, a ticket is shut out by
  nothing but the deregistration of its board, and the ticket a consumer settles on is the best its queue has.
\<close>

section \<open>The queue is a priority list\<close>

interpretation queue_heap: priority_list queue_key queue_push "\<lambda>es. sorted (map queue_key es)"
  by unfold_locales
    (auto simp: queue_push_def set_insort_key sorted_insort_key less_imp_le intro: insort_is_Cons)

lemma length_push [simp]: "length (queue_push e q) = Suc (length q)"
  by (simp add: queue_push_def)

lemma set_push [simp]: "set (queue_push e q) = insert e (set q)"
  by (rule queue_heap.set_push)

section \<open>The swaps\<close>

definition stale :: "(string \<Rightarrow> rank option) \<Rightarrow> string set \<Rightarrow> queue_entry list \<Rightarrow> nat" where
  "stale cur D q = length (filter (\<lambda>e. effective_rank cur D e \<noteq> q_rank e) q)"

lemma stale_push: "effective_rank cur D e = q_rank e \<Longrightarrow> stale cur D (queue_push e q) = stale cur D q"
  by (induction q) (simp_all add: stale_def queue_push_def)

definition put_back_entry :: "(string \<Rightarrow> rank option) \<Rightarrow> string set \<Rightarrow> nat \<Rightarrow> queue_entry \<Rightarrow> queue_entry" where
  "put_back_entry cur D k e =
     (let r = effective_rank cur D e in \<lparr>q_prio = fst r, q_stage = snd r, q_seq = Suc k, q_ticket = q_ticket e\<rparr>)"

lemma put_back_fields [simp]:
  "q_ticket (put_back_entry cur D k e) = q_ticket e" "q_seq (put_back_entry cur D k e) = Suc k"
  "q_prio (put_back_entry cur D k e) = fst (effective_rank cur D e)"
  "q_stage (put_back_entry cur D k e) = snd (effective_rank cur D e)"
  by (simp_all add: put_back_entry_def Let_def)

lemma put_back_fresh: "effective_rank cur D (put_back_entry cur D k e) = effective_rank cur D e"
  by (auto simp: effective_rank_def split: option.split)

lemma must_swap_cases:
  assumes "must_swap cur D (e, q, k, P)"
  obtains h q1 where "q = h # q1" "q_rank h < effective_rank cur D e" "q_ticket h \<notin> D"
    "swap cur D (e, q, k, P) = (h, queue_push (put_back_entry cur D k e) q1, Suc k, insert (q_ticket e) P)"
proof -
  obtain h q1 where q: "q = h # q1" "q_rank h < effective_rank cur D e" "q_ticket h \<notin> D"
    using assms by (auto simp: must_swap_def split: list.splits if_splits)
  have "queue_key h < queue_key (put_back_entry cur D k e)"
    using q(2) by (simp add: queue_key_def)
  then have "queue_push (put_back_entry cur D k e) q = h # queue_push (put_back_entry cur D k e) q1"
    by (simp add: q(1) queue_heap.push_over)
  then show ?thesis using that q by (simp add: swap_def put_back_entry_def Let_def)
qed

text \<open>Each swap makes one stale entry fresh, or is the last.\<close>

definition swaps_left :: "(string \<Rightarrow> rank option) \<Rightarrow> string set \<Rightarrow> swap_state \<Rightarrow> nat" where
  "swaps_left cur D s = 2 * stale cur D (fst (snd s)) + (if must_swap cur D s then 1 else 0)"

lemma rank_le: "queue_key e \<le> queue_key x \<Longrightarrow> q_rank e \<le> q_rank x"
  by (auto simp: queue_key_def)

lemma swap_less:
  assumes "must_swap cur D (e, q, k, P)" "sorted (map queue_key q)"
  shows "swaps_left cur D (swap cur D (e, q, k, P)) < swaps_left cur D (e, q, k, P)"
proof -
  obtain h q1 where q: "q = h # q1" "q_rank h < effective_rank cur D e"
    and sw: "swap cur D (e, q, k, P) = (h, queue_push (put_back_entry cur D k e) q1, Suc k, insert (q_ticket e) P)"
    using assms(1) by (rule must_swap_cases)
  let ?b = "put_back_entry cur D k e"
  have st: "stale cur D (queue_push ?b q1) = stale cur D q1"
    by (rule stale_push) (simp add: put_back_fresh)
  show ?thesis
  proof (cases "effective_rank cur D h = q_rank h")
    case False
    then have "stale cur D q = Suc (stale cur D q1)" by (simp add: q(1) stale_def)
    then show ?thesis by (simp add: swaps_left_def sw st)
  next
    case True
    have "\<not> q_rank x < q_rank h" if "x \<in> set (queue_push ?b q1)" for x
    proof -
      have "q_rank ?b = effective_rank cur D e" by simp
      then have "q_rank h \<le> q_rank ?b" using q(2) less_imp_le by metis
      moreover have "\<forall>x \<in> set q1. q_rank h \<le> q_rank x"
        using assms(2) rank_le by (simp only: q(1) list.map sorted_simps set_map) blast
      ultimately have "q_rank h \<le> q_rank x" using that by (simp only: set_push) blast
      then show ?thesis by (rule leD)
    qed
    then have "\<not> must_swap cur D (swap cur D (e, q, k, P))"
      unfolding sw must_swap_def prod.case True by (cases "queue_push ?b q1") (simp_all only: list.case list.set, auto)
    then show ?thesis
      using True assms(1) by (simp add: swaps_left_def sw st) (simp add: q(1) stale_def)
  qed
qed

text \<open>What the swaps keep: the tickets in hand and in the queue, the order, the numbers.\<close>

definition swap_ok :: "nat \<Rightarrow> string set \<Rightarrow> string set \<Rightarrow> swap_state \<Rightarrow> bool" where
  "swap_ok n T P0 s \<longleftrightarrow> (case s of (e, q, k, P) \<Rightarrow> sorted (map queue_key q) \<and> (\<forall>x \<in> set q. q_seq x \<le> k)
     \<and> length q = n \<and> insert (q_ticket e) (q_ticket ` set q) = T \<and> P0 \<subseteq> P \<and> P \<subseteq> P0 \<union> T)"

lemma swap_keeps:
  assumes "must_swap cur D s" "swap_ok n T P0 s"
  shows "swap_ok n T P0 (swap cur D s)"
proof -
  obtain e q k P where s: "s = (e, q, k, P)" using prod_cases4 by blast
  obtain h q1 where q: "q = h # q1"
    and sw: "swap cur D (e, q, k, P) = (h, queue_push (put_back_entry cur D k e) q1, Suc k, insert (q_ticket e) P)"
    using assms(1) unfolding s by (rule must_swap_cases)
  have "sorted (map queue_key q1)" using assms(2) by (simp add: s q swap_ok_def)
  then have "sorted (map queue_key (queue_push (put_back_entry cur D k e) q1))" by (rule queue_heap.ordered_push)
  then show ?thesis using assms(2) unfolding s sw by (auto simp: swap_ok_def q)
qed

lemma settle_ends:
  assumes "swap_ok n T P0 s"
  shows "\<exists>s'. settle cur D s = Some s'"
  unfolding settle_def
proof (rule measure_while_option_Some [where P = "swap_ok n T P0" and f = "swaps_left cur D"])
  fix s assume "swap_ok n T P0 s" "must_swap cur D s"
  then show "swap_ok n T P0 (swap cur D s) \<and> swaps_left cur D (swap cur D s) < swaps_left cur D s"
    using swap_keeps swap_less by (cases s) (auto simp: swap_ok_def)
qed (rule assms)

lemma settle_result:
  assumes "settle cur D s = Some s'" "swap_ok n T P0 s"
  shows "swap_ok n T P0 s'" "\<not> must_swap cur D s'"
proof -
  show "swap_ok n T P0 s'"
    using assms(1) unfolding settle_def
    by (rule while_option_rule [where P = "swap_ok n T P0", rotated]) (auto intro: swap_keeps assms(2))
  show "\<not> must_swap cur D s'" using assms(1) unfolding settle_def by (rule while_option_stop)
qed


section \<open>The invariant of the worker\<close>

definition queued :: "dispatcher \<Rightarrow> string set" where
  "queued d = {i. \<exists>b. i \<in> q_ticket ` set (entries (queue_of b d))}"

text \<open>
  Of a dispatcher beside \<open>n b\<close> consumers of board \<open>b\<close> that hold a ticket of its queue, the tickets
  \<open>H\<close> among them, and those of \<open>F\<close> in work.
\<close>

definition sound :: "(string \<Rightarrow> nat) \<Rightarrow> string set \<Rightarrow> string set \<Rightarrow> dispatcher \<Rightarrow> bool" where
  "sound n H F d \<longleftrightarrow>
     (\<forall>b. unfinished (queue_of b d) = length (entries (queue_of b d)) + n b
        \<and> sorted (map queue_key (entries (queue_of b d)))
        \<and> (\<forall>e \<in> set (entries (queue_of b d)). q_seq e \<le> enqueue_seq d))
     \<and> pending d \<subseteq> queued d \<union> H \<and> in_flight d = F"

lemma queue_of_set [simp]: "queue_of c (set_queue b q d) = (if c = b then q else queue_of c d)"
  by (simp add: queue_of_def set_queue_def)

lemma queue_of_fields [simp]:
  "queue_of b (d\<lparr>pending := P\<rparr>) = queue_of b d" "queue_of b (d\<lparr>cap_deferred := P\<rparr>) = queue_of b d"
  "queue_of b (d\<lparr>in_flight := P\<rparr>) = queue_of b d" "queue_of b (d\<lparr>enqueue_seq := k\<rparr>) = queue_of b d"
  "queue_of b (d\<lparr>drain_until := u\<rparr>) = queue_of b d"
  by (simp_all add: queue_of_def)

lemma set_queue_fields [simp]:
  "pending (set_queue b q d) = pending d" "in_flight (set_queue b q d) = in_flight d"
  "cap_deferred (set_queue b q d) = cap_deferred d" "enqueue_seq (set_queue b q d) = enqueue_seq d"
  "drain_until (set_queue b q d) = drain_until d"
  by (simp_all add: set_queue_def)

lemma put_fields [simp]:
  "entries (put_nowait e q) = queue_push e (entries q)" "unfinished (put_nowait e q) = Suc (unfinished q)"
  by (simp_all add: put_nowait_def)

lemma queued_put [simp]:
  "queued (set_queue b (put_nowait e (queue_of b d)) d1) = insert (q_ticket e) (queued d)"
  if "\<And>c. queue_of c d1 = queue_of c d"
  using that by (auto simp: queued_def split: if_splits) (metis imageI)

lemma queued_cong: "(\<And>c. queue_of c d1 = queue_of c d) \<Longrightarrow> queued d1 = queued d"
  by (simp add: queued_def)

text \<open>The tickets of one queue, and those of the others.\<close>

lemma queued_at:
  "queued d = q_ticket ` set (entries (queue_of b d)) \<union> {i. \<exists>c. c \<noteq> b \<and> i \<in> q_ticket ` set (entries (queue_of c d))}"
  by (auto simp: queued_def)

lemma queued_set:
  "(\<And>c. queue_of c d1 = queue_of c d) \<Longrightarrow> queued (set_queue b q d1) =
     q_ticket ` set (entries q) \<union> {i. \<exists>c. c \<noteq> b \<and> i \<in> q_ticket ` set (entries (queue_of c d))}"
  by (simp add: queued_at [of "set_queue b q d1" b] cong: conj_cong)

text \<open>A put with a new number.\<close>

lemma sound_put:
  assumes "sound n H F d" "q_seq e = Suc (enqueue_seq d)" "P \<subseteq> insert (q_ticket e) (pending d)"
  shows "sound n H F (set_queue b (put_nowait e (queue_of b d))
           (d\<lparr>pending := P, enqueue_seq := Suc (enqueue_seq d)\<rparr>))"
proof -
  have "queued (set_queue b (put_nowait e (queue_of b d)) (d\<lparr>pending := P, enqueue_seq := Suc (enqueue_seq d)\<rparr>))
      = insert (q_ticket e) (queued d)"
    by (rule queued_put) simp
  then show ?thesis
    using assms by (auto simp: sound_def queue_heap.ordered_push le_Suc_eq)
qed

lemma sound_enqueue: "sound n H F d \<Longrightarrow> sound n H F (enqueue svc w i d)"
  unfolding enqueue_def Let_def by (simp add: sound_put [where d = d])

lemma sound_fields:
  "sound n H F (d\<lparr>drain_until := u\<rparr>) = sound n H F d"
  "sound n H F (d\<lparr>cap_deferred := D\<rparr>) = sound n H F d"
  by (simp_all add: sound_def queued_def)

lemma sound_pending: "\<lbrakk>sound n H F d; P \<subseteq> pending d\<rbrakk> \<Longrightarrow> sound n H F (d\<lparr>pending := P\<rparr>)"
  by (auto simp: sound_def queued_def)

lemma sound_drain_active: "sound n H F d \<Longrightarrow> sound n H F (snd (drain_active now d))"
  by (simp add: drain_active_def sound_fields split: option.split)

text \<open>Letting go.\<close>

lemma let_go_sound:
  assumes "sound (n(b := Suc (n b))) (insert i H) (if claimed then insert i F else F) d" "claimed \<Longrightarrow> i \<notin> F"
  shows "\<exists>d'. let_go b i claimed d = (Idle, d') \<and> sound n H F d'"
proof -
  let ?d = "d\<lparr>pending := pending d - {i}, in_flight := (if claimed then in_flight d - {i} else in_flight d)\<rparr>"
  have u: "unfinished (queue_of b d) = Suc (length (entries (queue_of b d)) + n b)"
    using assms(1) by (simp add: sound_def)
  then have run: "let_go b i claimed d = (Idle, set_queue b ((queue_of b d)\<lparr>unfinished := unfinished (queue_of b d) - 1\<rparr>) ?d)"
    by (simp add: let_go_def Let_def task_done_def)
  have "queued (set_queue b ((queue_of b d)\<lparr>unfinished := unfinished (queue_of b d) - 1\<rparr>) ?d) = queued d"
    by (auto simp: queued_def split: if_splits)
  then have "sound n H F (set_queue b ((queue_of b d)\<lparr>unfinished := unfinished (queue_of b d) - 1\<rparr>) ?d)"
    using assms u by (auto simp: sound_def split: if_splits)
  with run show ?thesis by simp
qed


text \<open>What a decision leaves: the consumer is idle and the ticket let go, or it holds the ticket.\<close>

definition left_sound :: "(string \<Rightarrow> nat) \<Rightarrow> string set \<Rightarrow> string set \<Rightarrow> string \<Rightarrow> consumer \<times> dispatcher \<Rightarrow> bool" where
  "left_sound n H F b r \<longleftrightarrow>
     (case fst r of
        Idle \<Rightarrow> sound n H F (snd r)
      | Napping i \<Rightarrow> sound (n(b := Suc (n b))) (insert i H) F (snd r)
      | Working i l \<Rightarrow> i \<notin> F \<and> sound (n(b := Suc (n b))) (insert i H) (insert i F) (snd r)
      | Broken \<Rightarrow> False)"

lemma let_go_left: "sound (n(b := Suc (n b))) (insert i H) F d \<Longrightarrow> left_sound n H F b (let_go b i False d)"
  using let_go_sound [of n b i H False F d] by (auto simp: left_sound_def)

lemma sound_claim:
  assumes "sound n H F d" "i \<notin> F"
  shows "sound n H (insert i F) (d\<lparr>in_flight := insert i (in_flight d)\<rparr>)"
  using assms by (auto simp: sound_def queued_def)

lemma decide_sound:
  assumes d: "sound (n(b := Suc (n b))) (insert (q_ticket e) H) F d"
  shows "left_sound n H F b (decide c svc b w e d)"
proof -
  let ?n = "n(b := Suc (n b))" and ?H = "insert (q_ticket e) H"
  obtain dr d1 where dr: "drain_active (clock w) d = (dr, d1)" by fastforce
  have d1: "sound ?n ?H F d1" using sound_drain_active [OF d, of "clock w"] dr by simp
  have again: "sound ?n ?H F (set_queue b (put_nowait
        \<lparr>q_prio = p, q_stage = q_stage e, q_seq = Suc (enqueue_seq d2), q_ticket = q_ticket e\<rparr> (queue_of b d2))
        (d2\<lparr>pending := insert (q_ticket e) (pending d2), enqueue_seq := Suc (enqueue_seq d2)\<rparr>))"
    if "sound ?n ?H F d2" for p d2
    using that by (intro sound_put) auto
  have work: "left_sound n H F b (case try_claim (q_ticket e) (d1\<lparr>cap_deferred := D\<rparr>) of
        (False, d2) \<Rightarrow> let_go b (q_ticket e) False d2 | (True, d2) \<Rightarrow> (Working (q_ticket e) l, d2))" for D l
  proof -
    have d2: "sound ?n ?H F (d1\<lparr>cap_deferred := D\<rparr>)" using d1 by (simp add: sound_fields)
    show ?thesis
    proof (cases "q_ticket e \<in> F")
      case True
      then have "try_claim (q_ticket e) (d1\<lparr>cap_deferred := D\<rparr>) = (False, d1\<lparr>cap_deferred := D\<rparr>)"
        using d2 by (simp add: try_claim_def sound_def)
      then show ?thesis using let_go_left [OF d2] by simp
    next
      case False
      then have "try_claim (q_ticket e) (d1\<lparr>cap_deferred := D\<rparr>) =
          (True, d1\<lparr>cap_deferred := D, in_flight := insert (q_ticket e) (in_flight (d1\<lparr>cap_deferred := D\<rparr>))\<rparr>)"
        using d2 by (simp add: try_claim_def sound_def)
      then show ?thesis using sound_claim [OF d2 False] False by (simp add: left_sound_def)
    qed
  qed
  have nap: "left_sound n H F b (Napping (q_ticket e), d2)" if "sound ?n ?H F d2" for d2
    using that by (simp add: left_sound_def)
  have cap: "sound ?n ?H F (d1\<lparr>cap_deferred := D\<rparr>)" for D using d1 by (simp add: sound_fields)
  show ?thesis
    unfolding decide_def Let_def dr prod.case
    using let_go_left [OF d1] work nap [OF again [OF d1]] nap [OF again [OF cap]]
    by (simp split: option.split sum.split)
qed

lemma pop_sound:
  assumes d: "sound n H F d" and e: "entries (queue_of b d) = e # q"
  shows "sound (n(b := Suc (n b))) (insert (q_ticket e) H) F (set_queue b ((queue_of b d)\<lparr>entries := q\<rparr>) d)"
proof -
  let ?d = "set_queue b ((queue_of b d)\<lparr>entries := q\<rparr>) d"
  have "insert (q_ticket e) (queued ?d) = insert (q_ticket e) (queued d)"
    by (simp only: queued_set [OF refl] queued_at [of d b] e) auto
  then have "queued d \<subseteq> insert (q_ticket e) (queued ?d)" by blast
  moreover have "pending ?d \<subseteq> queued d \<union> H" "in_flight ?d = F" using d by (simp_all add: sound_def)
  ultimately have "pending ?d \<subseteq> queued ?d \<union> insert (q_ticket e) H" "in_flight ?d = F" by blast+
  moreover have "unfinished (queue_of c ?d) = length (entries (queue_of c ?d)) + (n(b := Suc (n b))) c
      \<and> sorted (map queue_key (entries (queue_of c ?d)))
      \<and> (\<forall>x \<in> set (entries (queue_of c ?d)). q_seq x \<le> enqueue_seq ?d)" for c
  proof (cases "c = b")
    case True
    have "sorted (map queue_key (e # q))" "\<forall>x \<in> set (e # q). q_seq x \<le> enqueue_seq d"
      "unfinished (queue_of b d) = length (e # q) + n b"
      using d unfolding e [symmetric] by (simp_all add: sound_def)
    then show ?thesis by (simp add: True)
  next
    case False
    have "unfinished (queue_of c d) = length (entries (queue_of c d)) + n c
      \<and> sorted (map queue_key (entries (queue_of c d))) \<and> (\<forall>x \<in> set (entries (queue_of c d)). q_seq x \<le> enqueue_seq d)"
      using d by (simp add: sound_def)
    then show ?thesis using False by simp
  qed
  ultimately show ?thesis by (simp add: sound_def)
qed


lemma queue_ok:
  assumes "sound n H F d" "entries (queue_of b d) = e # q"
  shows "sorted (map queue_key q)" "\<forall>x \<in> set q. q_seq x \<le> enqueue_seq d"
proof -
  have "sorted (map queue_key (e # q))" "\<forall>x \<in> set (e # q). q_seq x \<le> enqueue_seq d"
    using assms(1) unfolding assms(2) [symmetric] by (simp_all add: sound_def)
  then show "sorted (map queue_key q)" "\<forall>x \<in> set q. q_seq x \<le> enqueue_seq d" by simp_all
qed

lemma swapped_sound:
  assumes d: "sound n H F d" and e: "entries (queue_of b d) = e # q"
    and sw: "swap_ok (length q) (insert (q_ticket e) (q_ticket ` set q)) (pending d) (e1, q1, k, P)" "enqueue_seq d \<le> k"
  shows "sound (n(b := Suc (n b))) (insert (q_ticket e1) H) F
           (set_queue b ((queue_of b d)\<lparr>entries := q1\<rparr>) (d\<lparr>pending := P, enqueue_seq := k\<rparr>))"
proof -
  let ?d = "set_queue b ((queue_of b d)\<lparr>entries := q1\<rparr>) (d\<lparr>pending := P, enqueue_seq := k\<rparr>)"
  have T: "insert (q_ticket e1) (q_ticket ` set q1) = insert (q_ticket e) (q_ticket ` set q)"
    "sorted (map queue_key q1)" "\<forall>x \<in> set q1. q_seq x \<le> k" "length q1 = length q"
    "P \<subseteq> pending d \<union> insert (q_ticket e) (q_ticket ` set q)"
    using sw(1) by (simp_all add: swap_ok_def)
  define C where "C = {i. \<exists>c. c \<noteq> b \<and> i \<in> q_ticket ` set (entries (queue_of c d))}"
  have qd: "queued d = insert (q_ticket e) (q_ticket ` set q) \<union> C"
    by (simp add: queued_at [of d b] e C_def)
  have "queued ?d = q_ticket ` set q1 \<union> C"
    by (subst queued_set [where d = d]) (simp_all add: C_def)
  then have "insert (q_ticket e1) (queued ?d) = queued d"
    by (simp only: qd Un_insert_left [symmetric] T(1))
  then have "queued d \<subseteq> queued ?d \<union> {q_ticket e1}" by blast
  moreover have "pending d \<subseteq> queued d \<union> H" using d by (simp add: sound_def)
  moreover have "P \<subseteq> pending d \<union> queued d" using T(5) unfolding qd by blast
  ultimately have "P \<subseteq> queued ?d \<union> insert (q_ticket e1) H" by blast
  then have "pending ?d \<subseteq> queued ?d \<union> insert (q_ticket e1) H" by simp
  moreover have "in_flight ?d = F" using d by (simp add: sound_def)
  moreover have "unfinished (queue_of c ?d) = length (entries (queue_of c ?d)) + (n(b := Suc (n b))) c
      \<and> sorted (map queue_key (entries (queue_of c ?d)))
      \<and> (\<forall>x \<in> set (entries (queue_of c ?d)). q_seq x \<le> enqueue_seq ?d)" for c
  proof (cases "c = b")
    case True
    have "unfinished (queue_of b d) = length (e # q) + n b"
      using d unfolding e [symmetric] by (simp add: sound_def)
    then show ?thesis using T by (simp add: True)
  next
    case False
    have "unfinished (queue_of c d) = length (entries (queue_of c d)) + n c
      \<and> sorted (map queue_key (entries (queue_of c d))) \<and> (\<forall>x \<in> set (entries (queue_of c d)). q_seq x \<le> enqueue_seq d)"
      using d by (simp add: sound_def)
    then show ?thesis using False sw(2) by (auto intro: le_trans)
  qed
  ultimately show ?thesis by (simp add: sound_def)
qed

lemma take_sound:
  assumes d: "sound n H F d"
  shows "\<exists>r. take_ticket c svc b w d = Some r \<and> left_sound n H F b r"
proof (cases "entries (queue_of b d)")
  case Nil
  then show ?thesis using d by (simp add: take_ticket_def left_sound_def)
next
  case (Cons e q)
  let ?d1 = "set_queue b ((queue_of b d)\<lparr>entries := q\<rparr>) d"
  let ?cur = "\<lambda>i. current_rank (get_ticket (board_service svc b) i w)"
  note pop = pop_sound [OF d Cons]
  show ?thesis
  proof (cases "q_ticket e \<notin> cap_deferred d \<and> ?cur (q_ticket e) \<noteq> None \<and> ?cur (q_ticket e) \<noteq> Some (q_rank e)")
    case True
    have "sound (n(b := Suc (n b))) (insert (q_ticket e) H) F
        (enqueue svc w (q_ticket e) (?d1\<lparr>pending := pending ?d1 - {q_ticket e}\<rparr>))"
      by (intro sound_enqueue sound_pending pop) auto
    from let_go_left [OF this] show ?thesis
      using True by (auto simp: take_ticket_def Cons Let_def)
  next
    case False
    let ?T = "insert (q_ticket e) (q_ticket ` set q)"
    let ?s = "(e, q, enqueue_seq d, pending d)"
    have ok: "swap_ok (length q) ?T (pending d) ?s" using queue_ok [OF d Cons] by (auto simp: swap_ok_def)
    obtain e1 q1 k P where st: "settle ?cur (cap_deferred d) ?s = Some (e1, q1, k, P)"
      using settle_ends [OF ok] by (metis prod_cases4)
    have ok1: "swap_ok (length q) ?T (pending d) (e1, q1, k, P)" by (rule settle_result(1) [OF st ok])
    have "enqueue_seq d \<le> fst (snd (snd (e1, q1, k, P)))"
      using st unfolding settle_def
      by (rule while_option_rule [where P = "\<lambda>s. enqueue_seq d \<le> fst (snd (snd s))", rotated])
        (auto elim!: must_swap_cases)
    then have "sound (n(b := Suc (n b))) (insert (q_ticket e1) H) F
           (set_queue b ((queue_of b d)\<lparr>entries := q1\<rparr>) (d\<lparr>pending := P, enqueue_seq := k\<rparr>))"
      by (intro swapped_sound [OF d Cons ok1]) simp
    moreover have "set_queue b ((queue_of b d)\<lparr>entries := q1\<rparr>) (?d1\<lparr>enqueue_seq := k, pending := P\<rparr>) =
        set_queue b ((queue_of b d)\<lparr>entries := q1\<rparr>) (d\<lparr>pending := P, enqueue_seq := k\<rparr>)"
      by (simp add: set_queue_def)
    ultimately have "left_sound n H F b (decide c svc b w e1
        (set_queue b ((queue_of b d)\<lparr>entries := q1\<rparr>) (?d1\<lparr>enqueue_seq := k, pending := P\<rparr>)))"
      by (simp add: decide_sound)
    moreover have "take_ticket c svc b w d = Some (decide c svc b w e1
        (set_queue b ((queue_of b d)\<lparr>entries := q1\<rparr>) (?d1\<lparr>enqueue_seq := k, pending := P\<rparr>)))"
      using False st by (simp only: take_ticket_def Cons list.case Let_def if_False option.case prod.case)
    ultimately show ?thesis by blast
  qed
qed

section \<open>The invariant of all consumers\<close>

definition held_by :: "(string \<times> consumer) list \<Rightarrow> string list" where
  "held_by cs = concat (map (\<lambda>x. holds (snd x)) cs)"

definition running :: "(string \<times> consumer) list \<Rightarrow> string list" where
  "running cs = concat (map (\<lambda>x. works (snd x)) cs)"

definition busy :: "(string \<times> consumer) list \<Rightarrow> string \<Rightarrow> nat" where
  "busy cs b = sum_list (map (\<lambda>x. if fst x = b then length (holds (snd x)) else 0) cs)"

text \<open>The tickets \<open>L\<close> may be pending though they are in no queue and with no consumer.\<close>

definition pool_ok :: "string set \<Rightarrow> pool \<Rightarrow> bool" where
  "pool_ok L s \<longleftrightarrow> sound (busy (crew s)) (set (held_by (crew s)) \<union> L) (set (running (crew s))) (disp s)
     \<and> distinct (running (crew s)) \<and> Broken \<notin> snd ` set (crew s)"

lemma crew_append [simp]:
  "held_by (cs @ cs') = held_by cs @ held_by cs'" "running (cs @ cs') = running cs @ running cs'"
  "held_by (x # cs) = holds (snd x) @ held_by cs" "running (x # cs) = works (snd x) @ running cs"
  "held_by [] = []" "running [] = []"
  by (simp_all add: held_by_def running_def)

lemma busy_append [simp]:
  "busy (cs @ cs') b = busy cs b + busy cs' b" "busy [] b = 0"
  "busy ((c, m) # cs) b = (if c = b then length (holds m) else 0) + busy cs b"
  by (simp_all add: busy_def)

text \<open>The others, beside one consumer.\<close>

lemma crew_split:
  assumes "k < length cs" "cs ! k = (b, m)"
  obtains xs ys where "cs = xs @ (b, m) # ys" "\<And>x. cs[k := x] = xs @ x # ys"
proof
  show "cs = take k cs @ (b, m) # drop (Suc k) cs" using assms id_take_nth_drop by metis
  show "cs[k := x] = take k cs @ x # drop (Suc k) cs" for x using assms(1) upd_conv_take_nth_drop by metis
qed

lemma pool_ok_split:
  "pool_ok L (s\<lparr>disp := d, crew := xs @ (b, m) # ys\<rparr>) \<longleftrightarrow>
     left_sound (busy (xs @ ys)) (set (held_by (xs @ ys)) \<union> L) (set (running (xs @ ys))) b (m, d)
     \<and> distinct (running (xs @ ys)) \<and> Broken \<notin> snd ` set (xs @ ys)"
proof -
  have n: "busy (xs @ (b, m) # ys) = (if holds m = [] then busy (xs @ ys) else (busy (xs @ ys))(b := Suc (busy (xs @ ys) b)))"
    for m
    by (cases m) (auto simp: fun_eq_iff)
  have h: "set (held_by (xs @ (b, m) # ys)) = set (holds m) \<union> set (held_by (xs @ ys))"
    "set (running (xs @ (b, m) # ys)) = set (works m) \<union> set (running (xs @ ys))" for m by auto
  show ?thesis
    by (cases m) (auto simp: pool_ok_def left_sound_def n h simp del: busy_append)
qed


lemma pool_ok_disp:
  "\<lbrakk>pool_ok L s; sound (busy (crew s)) (set (held_by (crew s)) \<union> L) (set (running (crew s))) d\<rbrakk>
     \<Longrightarrow> pool_ok L (s\<lparr>disp := d\<rparr>)"
  by (simp add: pool_ok_def)

lemma pool_sound: "pool_ok L s \<Longrightarrow> sound (busy (crew s)) (set (held_by (crew s)) \<union> L) (set (running (crew s))) (disp s)"
  by (simp add: pool_ok_def)

text \<open>One consumer goes from one state to another.\<close>

lemma pool_ok_man:
  assumes ok: "pool_ok L s" and k: "k < length (crew s)" "crew s ! k = (b, m)"
    and move: "\<And>n H F. left_sound n H F b (m, disp s) \<Longrightarrow> left_sound n H F b r"
  shows "pool_ok L (man k b r s)"
proof -
  obtain xs ys where cs: "crew s = xs @ (b, m) # ys" "\<And>x. (crew s)[k := x] = xs @ x # ys"
    using crew_split [OF k] by blast
  have "s = s\<lparr>disp := disp s, crew := xs @ (b, m) # ys\<rparr>" using cs(1) by simp
  with ok have "left_sound (busy (xs @ ys)) (set (held_by (xs @ ys)) \<union> L) (set (running (xs @ ys))) b (m, disp s)
     \<and> distinct (running (xs @ ys)) \<and> Broken \<notin> snd ` set (xs @ ys)"
    by (metis pool_ok_split)
  with move have "pool_ok L (s\<lparr>disp := snd r, crew := xs @ (b, fst r) # ys\<rparr>)"
    by (simp only: pool_ok_split prod.collapse simp_thms)
  then show ?thesis by (simp only: cs(2))
qed

lemma sound_requeue_if_left:
  "sound n H F d \<Longrightarrow> sound n H F (requeue_if_left_lane bsvc svc w i d)"
  by (simp add: requeue_if_left_lane_def sound_enqueue split: option.split)

lemma dispatch_step_keeps:
  assumes "dispatch_step c svc s s'" "pool_ok L s"
  shows "pool_ok L s'"
  using assms
proof (cases rule: dispatch_step.cases)
  case (enqueued w i)
  then show ?thesis using assms(2) by (simp add: pool_ok_disp sound_enqueue pool_sound)
next
  case (requeued w i)
  have "sound (busy (crew s)) (set (held_by (crew s)) \<union> L) (set (running (crew s)))
      ((disp s)\<lparr>pending := pending (disp s) - {i}\<rparr>)"
    by (rule sound_pending [OF pool_sound [OF assms(2)]]) auto
  then have "sound (busy (crew s)) (set (held_by (crew s)) \<union> L) (set (running (crew s)))
      ((disp s)\<lparr>pending := pending (disp s) - {i}, cap_deferred := cap_deferred (disp s) - {i}\<rparr>)"
    by (rule sound_fields(2) [THEN iffD2])
  then show ?thesis
    using requeued assms(2) by (simp add: requeue_with_current_priority_def pool_ok_disp sound_enqueue)
next
  case (drain ttl now)
  then show ?thesis using assms(2) by (simp add: set_drain_def pool_ok_disp pool_sound sound_fields)
next
  case undrain
  then show ?thesis using assms(2) by (simp add: clear_drain_def pool_ok_disp pool_sound sound_fields)
next
  case (asked now names)
  then show ?thesis
    using assms(2) sound_drain_active [OF pool_sound [OF assms(2)], of now]
    by (simp add: drained_def case_prod_beta pool_ok_disp)
next
  case (hired b)
  have "busy (crew s @ [(b, Idle)]) = busy (crew s)" by (simp add: fun_eq_iff)
  then show ?thesis using hired assms(2) by (simp add: pool_ok_def image_Un)
next
  case (took k b w r)
  show ?thesis
    unfolding took(1)
  proof (rule pool_ok_man [OF assms(2) took(2,3)])
    fix n H F assume "left_sound n H F b (Idle, disp s)"
    then show "left_sound n H F b r" using take_sound [of n H F "disp s" c svc b w] took(4) by (simp add: left_sound_def)
  qed
next
  case (woke k b i)
  show ?thesis
    unfolding woke(1)
    by (rule pool_ok_man [OF assms(2) woke(2,3)]) (simp add: left_sound_def [of _ _ _ _ "(Napping i, disp s)"] let_go_left)
next
  case (finished k b i lane m d returned w)
  show ?thesis
    unfolding finished(1)
  proof (rule pool_ok_man [OF assms(2) finished(2,3)])
    fix n H F assume "left_sound n H F b (Working i lane, disp s)"
    then have "\<exists>d'. let_go b i True (disp s) = (Idle, d') \<and> sound n H F d'"
      by (intro let_go_sound) (simp_all add: left_sound_def)
    then show "left_sound n H F b
        (m, if lane \<and> returned \<and> m \<noteq> Broken then requeue_if_left_lane (board_service svc b) svc w i d else d)"
      using finished(4) by (simp add: left_sound_def sound_requeue_if_left)
  qed
qed

lemma start_pool_ok: "pool_ok {} start_pool"
proof -
  have "queue_of b (disp start_pool) = empty_queue" for b
    by (simp add: queue_of_def start_pool_def)
  then show ?thesis
    unfolding pool_ok_def sound_def by (simp add: empty_queue_def start_pool_def)
qed

lemma dispatch_reaches_ok: "dispatch_reaches c svc start_pool s \<Longrightarrow> pool_ok {} s"
  by (induction rule: rtranclp_induct) (auto intro: start_pool_ok dispatch_step_keeps)


text \<open>The tickets that are shut out: \<open>enqueue\<close> ignores them, and no consumer will find them.\<close>

definition lost :: "pool \<Rightarrow> string set" where
  "lost s = pending (disp s) - queued (disp s) - set (held_by (crew s))"

lemma lost_start: "lost start_pool = {}"
  by (simp add: lost_def start_pool_def)

lemma lost_within: "pool_ok L s \<Longrightarrow> lost s \<subseteq> L"
  by (auto simp: pool_ok_def sound_def lost_def)

lemma lost_enough: "pool_ok L s \<Longrightarrow> pool_ok (lost s) s"
  by (auto simp: pool_ok_def sound_def lost_def)

lemma crew_without:
  "set (held_by cs) = set (concat (map holds (map snd (filter (\<lambda>x. fst x = b) cs)))) \<union> set (held_by (filter (\<lambda>x. fst x \<noteq> b) cs))"
  "set (running cs) = set (concat (map works (map snd (filter (\<lambda>x. fst x = b) cs)))) \<union> set (running (filter (\<lambda>x. fst x \<noteq> b) cs))"
  "busy (filter (\<lambda>x. fst x \<noteq> b) cs) c = (if c = b then 0 else busy cs c)"
  by (induction cs) (auto simp: busy_def held_by_def running_def)

lemma running_without:
  "distinct (running cs) \<Longrightarrow> distinct (running (filter (\<lambda>x. fst x \<noteq> b) cs))
     \<and> set (concat (map works (map snd (filter (\<lambda>x. fst x = b) cs)))) \<inter> set (running (filter (\<lambda>x. fst x \<noteq> b) cs)) = {}"
proof (induction cs)
  case (Cons x cs)
  then show ?case using crew_without(2) [of cs b] by auto
qed simp

text \<open>A deregistration shuts out the tickets of its queue at most.\<close>

lemma deregister_ok:
  assumes ok: "pool_ok L s"
  shows "pool_ok (L \<union> q_ticket ` set (entries (queue_of b (disp s)))) (deregister b s)"
proof -
  let ?s = "deregister b s" and ?cs = "filter (\<lambda>x. fst x \<noteq> b) (crew s)"
  let ?theirs = "map snd (filter (\<lambda>x. fst x = b) (crew s))"
  have fields: "crew ?s = ?cs" "pending (disp ?s) = pending (disp s) - set (concat (map holds ?theirs))"
    "in_flight (disp ?s) = in_flight (disp s) - set (concat (map works ?theirs))"
    "enqueue_seq (disp ?s) = enqueue_seq (disp s)"
    by (simp_all add: deregister_def drop_board_def Let_def)
  have q: "queue_of c (disp ?s) = (if c = b then empty_queue else queue_of c (disp s))" for c
    by (simp add: deregister_def drop_board_def Let_def queue_of_def)
  have d: "distinct (running (crew s))" "Broken \<notin> snd ` set (crew s)"
    and snd: "sound (busy (crew s)) (set (held_by (crew s)) \<union> L) (set (running (crew s))) (disp s)"
    using ok by (simp_all add: pool_ok_def)
  note r = running_without [OF d(1), of b]
  have "unfinished (queue_of c (disp ?s)) = length (entries (queue_of c (disp ?s))) + busy ?cs c
      \<and> sorted (map queue_key (entries (queue_of c (disp ?s))))
      \<and> (\<forall>e \<in> set (entries (queue_of c (disp ?s))). q_seq e \<le> enqueue_seq (disp ?s))" for c
    using snd by (simp add: q crew_without(3) fields(4) sound_def empty_queue_def)
  moreover have "queued (disp s) \<subseteq> queued (disp ?s) \<union> q_ticket ` set (entries (queue_of b (disp s)))"
    by (auto simp: queued_def q)
  then have "pending (disp ?s) \<subseteq> queued (disp ?s) \<union> (set (held_by ?cs) \<union> (L \<union> q_ticket ` set (entries (queue_of b (disp s)))))"
    using snd crew_without(1) [of "crew s" b] unfolding fields sound_def by blast
  moreover have "in_flight (disp ?s) = set (running ?cs)"
  proof -
    have "in_flight (disp s) = set (concat (map works ?theirs)) \<union> set (running ?cs)"
      using snd crew_without(2) [of "crew s" b] unfolding sound_def by blast
    then show ?thesis using r unfolding fields by blast
  qed
  ultimately have "sound (busy ?cs) (set (held_by ?cs) \<union> (L \<union> q_ticket ` set (entries (queue_of b (disp s)))))
      (set (running ?cs)) (disp ?s)"
    unfolding sound_def by blast
  moreover have "Broken \<notin> snd ` set ?cs" using d(2) by auto
  ultimately show ?thesis using r unfolding pool_ok_def fields(1) by blast
qed

lemma worker_reaches_ok: "worker_reaches c svc start_pool s \<Longrightarrow> pool_ok (lost s) s"
proof (induction rule: rtranclp_induct)
  case base
  then show ?case using start_pool_ok by (simp add: lost_start)
next
  case (step s s')
  from step.hyps(2) show ?case
  proof cases
    case dispatched
    then show ?thesis using dispatch_step_keeps [OF _ step.IH] lost_enough by blast
  next
    case (deregistered b)
    then show ?thesis using deregister_ok [OF step.IH] lost_enough by blast
  qed
qed

lemma dispatch_is_worker: "dispatch_reaches c svc s s' \<Longrightarrow> worker_reaches c svc s s'"
  by (rule rtranclp_mono [THEN predicate2D]) (auto intro: worker_step.dispatched)

section \<open>Properties\<close>

text \<open>
  C7: No ticket is run twice at the same time, and no consumer dies of its own bookkeeping: however
  the requests to enqueue, the consumers of all boards, the drain mode and the moves of tickets
  interleave, the tickets in work are pairwise different and are exactly the claims, and the counter
  of each queue is the number of its entries and of the consumers that hold one, so that
  \<open>task_done\<close> never raises.
\<close>

theorem one_run_per_ticket:
  assumes "dispatch_reaches c svc start_pool s"
  shows "distinct (running (crew s)) \<and> set (running (crew s)) = in_flight (disp s)
    \<and> Broken \<notin> snd ` set (crew s)
    \<and> unfinished (queue_of b (disp s)) = length (entries (queue_of b (disp s))) + busy (crew s) b"
  using dispatch_reaches_ok [OF assms] by (auto simp: pool_ok_def sound_def)

text \<open>
  C11: How a ticket gets shut out: enqueue ignores it, because it is pending, though it is in no queue
  and no consumer holds it. At the start there is none. In whatever way the requests to enqueue, the
  rounds of the consumers, the drain mode and deregistrations of boards have interleaved, the next step
  shuts out no further ticket, unless it deregisters a board; then those it shuts out are at most the
  ones that were in the queue of that board.
\<close>

theorem shut_out_by_deregistration:
  assumes "worker_reaches c svc start_pool s" "worker_step c svc s s'"
  shows "lost start_pool = {}
    \<and> (lost s' \<subseteq> lost s
       \<or> (\<exists>b. b \<notin> set PERMANENT_BOARDS \<and> s' = deregister b s
             \<and> lost s' \<subseteq> lost s \<union> q_ticket ` set (entries (queue_of b (disp s)))))"
proof -
  note ok = worker_reaches_ok [OF assms(1)]
  from assms(2) show ?thesis
  proof cases
    case dispatched
    then show ?thesis using lost_within [OF dispatch_step_keeps [OF _ ok]] by (simp add: lost_start)
  next
    case (deregistered b)
    then show ?thesis using lost_within [OF deregister_ok [OF ok, of b]] lost_start by blast
  qed
qed

text \<open>
  C37: The exchange of a ticket for a better one ends in every reachable state, at the latest when each
  entry of the queue is up to date, and then the ticket in hand is at least as good as every entry
  of the queue, unless a deferred ticket is at its head. No ticket is lost in it.
\<close>

theorem best_ticket_taken:
  assumes "dispatch_reaches c svc start_pool s" "entries (queue_of b (disp s)) = e # q"
  shows "\<exists>e1 q1 k P. settle cur (cap_deferred (disp s)) (e, q, enqueue_seq (disp s), pending (disp s)) = Some (e1, q1, k, P)
    \<and> insert (q_ticket e1) (q_ticket ` set q1) = insert (q_ticket e) (q_ticket ` set q) \<and> length q1 = length q
    \<and> (q1 = [] \<or> q_ticket (hd q1) \<in> cap_deferred (disp s)
       \<or> (\<forall>x \<in> set q1. effective_rank cur (cap_deferred (disp s)) e1 \<le> q_rank x))"
proof -
  let ?D = "cap_deferred (disp s)"
  let ?s = "(e, q, enqueue_seq (disp s), pending (disp s))" and ?T = "insert (q_ticket e) (q_ticket ` set q)"
  have "swap_ok (length q) ?T (pending (disp s)) ?s"
    using queue_ok [OF pool_sound [OF dispatch_reaches_ok [OF assms(1)]] assms(2)] by (auto simp: swap_ok_def)
  moreover obtain e1 q1 k P where st: "settle cur ?D ?s = Some (e1, q1, k, P)"
    using settle_ends [OF calculation] by (metis prod_cases4)
  ultimately have ok: "swap_ok (length q) ?T (pending (disp s)) (e1, q1, k, P)" "\<not> must_swap cur ?D (e1, q1, k, P)"
    using settle_result by blast+
  have "effective_rank cur ?D e1 \<le> q_rank x" if "x \<in> set q1" "q1 \<noteq> []" "q_ticket (hd q1) \<notin> ?D" for x
  proof -
    have "queue_key (hd q1) \<le> queue_key x"
      using ok(1) that(1,2) by (cases q1) (auto simp: swap_ok_def)
    then have "q_rank (hd q1) \<le> q_rank x" by (rule rank_le)
    moreover have "effective_rank cur ?D e1 \<le> q_rank (hd q1)"
      using ok(2) that(2,3) by (cases q1) (simp_all add: must_swap_def not_less)
    ultimately show ?thesis by (rule order_trans [rotated])
  qed
  then show ?thesis using st ok(1) by (intro exI [of _ e1] exI [of _ q1] exI [of _ k] exI [of _ P]) (auto simp: swap_ok_def)
qed


section \<open>A small crew\<close>

text \<open>A board with one ticket, flagged or not, and a board with two.\<close>

definition one_ticket :: "bool \<Rightarrow> world" where
  "one_ticket flag = seed_world ''alpha'' (seed sample_externals [(sample_ticket ''t1'' CODE_REVIEW)\<lparr>priority := flag\<rparr>])"

definition two_tickets :: world where
  "two_tickets = seed_world ''alpha'' (seed sample_externals [sample_ticket ''t1'' CODE_REVIEW, sample_ticket ''t2'' DRAFT])"

definition sample_dispatch :: dispatch_conf where
  "sample_dispatch = \<lparr>has_gate = True, max_inflight_prs = Map.empty\<rparr>"

definition hired_pool :: pool where
  "hired_pool = start_pool\<lparr>crew := [(''alpha'', Idle)]\<rparr>"

definition after_enqueue :: "world \<Rightarrow> string \<Rightarrow> pool \<Rightarrow> pool" where
  "after_enqueue w i s = s\<lparr>disp := enqueue sample_service w i (disp s)\<rparr>"

lemma hired_reached: "dispatch_reaches sample_dispatch sample_service start_pool hired_pool"
proof -
  have "dispatch_step sample_dispatch sample_service start_pool (start_pool\<lparr>crew := crew start_pool @ [(''alpha'', Idle)]\<rparr>)"
    by (rule dispatch_step.hired)
  then show ?thesis by (simp add: hired_pool_def start_pool_def r_into_rtranclp)
qed

lemma enqueue_reached:
  "dispatch_reaches c sample_service start_pool s \<Longrightarrow> dispatch_reaches c sample_service start_pool (after_enqueue w i s)"
  unfolding after_enqueue_def by (erule rtranclp.rtrancl_into_rtrancl) (rule dispatch_step.enqueued)

lemma sample_lookup:
  "get_ticket sample_service ''t1'' (one_ticket flag) = Some ((sample_ticket ''t1'' CODE_REVIEW)\<lparr>priority := flag\<rparr>)"
  "get_ticket (board_service sample_service ''alpha'') ''t1'' (one_ticket flag) = Some ((sample_ticket ''t1'' CODE_REVIEW)\<lparr>priority := flag\<rparr>)"
  "get_ticket sample_service ''t1'' two_tickets = Some (sample_ticket ''t1'' CODE_REVIEW)"
  "get_ticket sample_service ''t2'' two_tickets = Some (sample_ticket ''t2'' DRAFT)"
  by (simp_all add: get_ticket_def sample_service_def board_service_def one_ticket_def two_tickets_def find_seed
      resolve_board_id_def sample_ticket_def)

definition entry :: "int \<Rightarrow> int \<Rightarrow> nat \<Rightarrow> string \<Rightarrow> queue_entry" where
  "entry p st k i = \<lparr>q_prio = p, q_stage = st, q_seq = k, q_ticket = i\<rparr>"

lemma one_enqueued:
  "disp (after_enqueue (one_ticket flag) ''t1'' hired_pool) =
     (disp start_pool)\<lparr>queues := [[] \<mapsto> empty_queue, ''alpha'' \<mapsto> \<lparr>entries = [entry (if flag then 0 else 1) 3 1 ''t1''], unfinished = 1\<rparr>],
        enqueue_seq := 1, pending := {''t1''}\<rparr>"
  "crew (after_enqueue w i hired_pool) = [(''alpha'', Idle)]"
  by (simp_all add: after_enqueue_def hired_pool_def start_pool_def enqueue_def sample_lookup Let_def set_queue_def
      put_nowait_def queue_push_def queue_of_def empty_queue_def sample_ticket_def priority_rank_def stage_rank_def entry_def)

lemma one_deregistered:
  "lost (after_enqueue (one_ticket False) ''t1'' hired_pool) = {}"
  "lost (deregister ''alpha'' (after_enqueue (one_ticket False) ''t1'' hired_pool)) = {''t1''}"
proof -
  have q: "queue_of b (disp (deregister ''alpha'' (after_enqueue (one_ticket False) ''t1'' hired_pool))) = empty_queue" for b
    by (simp add: deregister_def one_enqueued drop_board_def queue_of_def Let_def)
  then show "lost (deregister ''alpha'' (after_enqueue (one_ticket False) ''t1'' hired_pool)) = {''t1''}"
    by (simp add: lost_def queued_def empty_queue_def) (simp add: deregister_def one_enqueued drop_board_def Let_def held_by_def)
  show "lost (after_enqueue (one_ticket False) ''t1'' hired_pool) = {}"
    by (auto simp: lost_def queued_def one_enqueued queue_of_def entry_def)
qed

lemma one_deregistered_step:
  "worker_step c svc s (deregister ''alpha'' s)"
  by (rule worker_step.deregistered) (simp add: PERMANENT_BOARDS_def)

lemma shut_out_by_deregistration_witness:
  "\<exists>b s. worker_reaches sample_dispatch sample_service start_pool s \<and> lost s = {}
     \<and> lost (deregister ''alpha'' s) = {''t1''} \<and> ''t1'' \<in> q_ticket ` set (entries (queue_of b (disp s)))"
proof -
  let ?s = "after_enqueue (one_ticket False) ''t1'' hired_pool"
  have reach: "worker_reaches sample_dispatch sample_service start_pool ?s"
    by (rule dispatch_is_worker [OF enqueue_reached [OF hired_reached]])
  from shut_out_by_deregistration [OF reach one_deregistered_step] one_deregistered
  have "\<exists>b. ''t1'' \<in> q_ticket ` set (entries (queue_of b (disp ?s)))" by auto
  then show ?thesis using reach one_deregistered by blast
qed

lemma one_taken:
  "take_ticket sample_dispatch sample_service ''alpha'' (one_ticket False)
      (disp (after_enqueue (one_ticket False) ''t1'' hired_pool)) = Some r
   \<Longrightarrow> fst r = Working ''t1'' False"
  by (auto simp: one_enqueued take_ticket_def queue_of_def Let_def entry_def sample_lookup current_rank_def priority_rank_def
      stage_rank_def sample_ticket_def settle_def must_swap_def while_option_unfold decide_def drain_active_def
      start_pool_def set_queue_def repo_cap_def sample_dispatch_def try_claim_def MERGE_LANE_STATES_def)

lemma one_run_per_ticket_witness:
  "\<exists>s. dispatch_reaches sample_dispatch sample_service start_pool s \<and> running (crew s) = [''t1'']
     \<and> in_flight (disp s) = {''t1''} \<and> Broken \<notin> snd ` set (crew s)"
proof -
  let ?s = "after_enqueue (one_ticket False) ''t1'' hired_pool"
  have ok: "pool_ok {} ?s" by (rule dispatch_reaches_ok [OF enqueue_reached [OF hired_reached]])
  obtain r where r: "take_ticket sample_dispatch sample_service ''alpha'' (one_ticket False) (disp ?s) = Some r"
    using take_sound [OF pool_sound [OF ok]] by blast
  have "dispatch_step sample_dispatch sample_service ?s (man 0 ''alpha'' r ?s)"
    by (rule dispatch_step.took [OF _ _ r]) (simp_all add: one_enqueued)
  then have reach: "dispatch_reaches sample_dispatch sample_service start_pool (man 0 ''alpha'' r ?s)"
    using enqueue_reached [OF hired_reached] by (rule rtranclp.rtrancl_into_rtrancl [rotated])
  have "running (crew (man 0 ''alpha'' r ?s)) = [''t1'']"
    using one_taken [OF r] by (simp add: one_enqueued running_def)
  with one_run_per_ticket [OF reach] reach show ?thesis by (intro exI [of _ "man 0 ''alpha'' r ?s"]) auto
qed

lemma two_enqueued:
  "entries (queue_of ''alpha'' (disp (after_enqueue two_tickets ''t2'' (after_enqueue two_tickets ''t1'' hired_pool)))) =
     [entry 1 3 1 ''t1'', entry 1 12 2 ''t2'']"
  by (simp add: after_enqueue_def hired_pool_def start_pool_def enqueue_def sample_lookup Let_def set_queue_def
      put_nowait_def queue_push_def queue_of_def empty_queue_def sample_ticket_def priority_rank_def stage_rank_def
      entry_def queue_key_def)

lemma two_deferred:
  "cap_deferred (disp (after_enqueue two_tickets ''t2'' (after_enqueue two_tickets ''t1'' hired_pool))) = {}"
  by (simp add: after_enqueue_def hired_pool_def start_pool_def enqueue_def Let_def)

text \<open>The first ticket has moved to \<open>ready\<close> at rank 13 since; the second one is better.\<close>

lemma best_ticket_taken_witness:
  "\<exists>e1 q1 k P. settle (\<lambda>i. if i = ''t1'' then Some (1, 13) else Some (1, 12)) {}
       (entry 1 3 1 ''t1'', [entry 1 12 2 ''t2''],
        enqueue_seq (disp (after_enqueue two_tickets ''t2'' (after_enqueue two_tickets ''t1'' hired_pool))),
        pending (disp (after_enqueue two_tickets ''t2'' (after_enqueue two_tickets ''t1'' hired_pool)))) = Some (e1, q1, k, P)
     \<and> insert (q_ticket e1) (q_ticket ` set q1) = {''t1'', ''t2''} \<and> length q1 = 1
     \<and> effective_rank (\<lambda>i. if i = ''t1'' then Some (1, 13) else Some (1, 12)) {} e1 \<le> q_rank (hd q1)"
proof -
  let ?s = "after_enqueue two_tickets ''t2'' (after_enqueue two_tickets ''t1'' hired_pool)"
  let ?cur = "\<lambda>i. if i = ''t1'' then Some (1, 13) else Some (1::int, 12::int)"
  obtain e1 q1 k P where st: "settle ?cur {} (entry 1 3 1 ''t1'', [entry 1 12 2 ''t2''], enqueue_seq (disp ?s), pending (disp ?s))
        = Some (e1, q1, k, P)"
      "insert (q_ticket e1) (q_ticket ` set q1) = insert (q_ticket (entry 1 3 1 ''t1'')) (q_ticket ` set [entry 1 12 2 ''t2''])"
      "length q1 = length [entry 1 12 2 ''t2'']"
      "q1 = [] \<or> q_ticket (hd q1) \<in> {} \<or> (\<forall>x \<in> set q1. effective_rank ?cur {} e1 \<le> q_rank x)"
    using best_ticket_taken [OF enqueue_reached [OF enqueue_reached [OF hired_reached]] two_enqueued, of ?cur,
        unfolded two_deferred]
    by (elim exE conjE) (rule that; assumption)
  then obtain x where x: "q1 = [x]" by (cases q1) auto
  have "effective_rank ?cur {} e1 \<le> q_rank (hd q1)" using st(4) unfolding x by simp
  moreover have "insert (q_ticket e1) (q_ticket ` set q1) = {''t1'', ''t2''}" using st(2) by (simp add: entry_def)
  moreover have "length q1 = 1" by (simp add: x)
  ultimately show ?thesis using st(1) by blast
qed

text \<open>The flag of a queued ticket turns, and it is not known to be pending after its entry is exchanged.\<close>

lemma exchanged_twice:
  "\<exists>s e1 e2. dispatch_reaches sample_dispatch sample_service start_pool s
     \<and> {e1, e2} \<subseteq> set (entries (queue_of ''alpha'' (disp s))) \<and> q_ticket e1 = q_ticket e2 \<and> e1 \<noteq> e2"
proof -
  let ?s = "after_enqueue (one_ticket False) ''t1'' hired_pool"
  obtain r where r: "take_ticket sample_dispatch sample_service ''alpha'' (one_ticket True) (disp ?s) = Some r"
    using take_sound [OF pool_sound [OF dispatch_reaches_ok [OF enqueue_reached [OF hired_reached]]]] by blast
  then have d: "pending (snd r) = {}" "enqueue_seq (snd r) = 2"
    "entries (queue_of ''alpha'' (snd r)) = [entry 0 3 2 ''t1'']"
    by (auto simp: one_enqueued take_ticket_def queue_of_def Let_def entry_def sample_lookup current_rank_def priority_rank_def
        stage_rank_def sample_ticket_def start_pool_def set_queue_def enqueue_def let_go_def task_done_def put_nowait_def
        queue_push_def)
  have "dispatch_step sample_dispatch sample_service ?s (man 0 ''alpha'' r ?s)"
    by (rule dispatch_step.took [OF _ _ r]) (simp_all add: one_enqueued)
  then have reach: "dispatch_reaches sample_dispatch sample_service start_pool (man 0 ''alpha'' r ?s)"
    using enqueue_reached [OF hired_reached] by (rule rtranclp.rtrancl_into_rtrancl [rotated])
  let ?s2 = "after_enqueue (one_ticket True) ''t1'' (man 0 ''alpha'' r ?s)"
  have "entries (queue_of ''alpha'' (disp ?s2)) = [entry 0 3 2 ''t1'', entry 0 3 3 ''t1'']"
    using d by (simp add: after_enqueue_def enqueue_def Let_def sample_lookup sample_ticket_def priority_rank_def
        stage_rank_def put_nowait_def queue_push_def entry_def queue_key_def)
  then show ?thesis
    using enqueue_reached [OF reach, of "one_ticket True" "''t1''"]
    by (intro exI [of _ ?s2] exI [of _ "entry 0 3 2 ''t1''"] exI [of _ "entry 0 3 3 ''t1''"]) (simp add: entry_def)
qed

text \<open>The queue of a board goes with the board, but not the record that its tickets are pending.\<close>

lemma dropped_board_shuts_out:
  "\<exists>s. worker_reaches sample_dispatch sample_service start_pool s \<and> ''t1'' \<in> lost s
     \<and> (\<forall>svc w. enqueue svc w ''t1'' (disp s) = disp s)"
proof -
  let ?s = "after_enqueue (one_ticket False) ''t1'' hired_pool"
  have "worker_reaches sample_dispatch sample_service start_pool (deregister ''alpha'' ?s)"
    using dispatch_is_worker [OF enqueue_reached [OF hired_reached]] one_deregistered_step
    by (rule rtranclp.rtrancl_into_rtrancl)
  moreover have "enqueue svc w ''t1'' (disp (deregister ''alpha'' ?s)) = disp (deregister ''alpha'' ?s)" for svc w
    by (simp add: enqueue_def deregister_def drop_board_def Let_def one_enqueued)
  ultimately show ?thesis using one_deregistered by (intro exI [of _ "deregister ''alpha'' ?s"]) simp
qed

end
