(* ===== verification/Epic.thy ===== *)
theory Epic
  imports Processing
begin

text \<open>
  The re-evaluation of an epic, \<open>runtime/worker/epic.py\<close>: what a child delivered, the brakes on new
  children, and what the decision of the status agent changes. The agent itself is a parameter.
\<close>

section \<open>Titles, paths and times\<close>

definition RECENT_CHILD_WINDOW_SECONDS :: int where
  "RECENT_CHILD_WINDOW_SECONDS = 600"

definition TITLE_STOPWORDS :: "string list" where
  "TITLE_STOPWORDS =
     [''a'', ''an'', ''the'', ''and'', ''or'', ''for'', ''of'', ''to'', ''in'', ''on'', ''with'', ''from'', ''by'',
      ''when'', ''into'']"

definition singular :: "string \<Rightarrow> string" where
  "singular s = (if 3 < length s \<and> endswith ''s'' s \<and> \<not> endswith ''ss'' s then butlast s else s)"

definition title_tokens :: "string \<Rightarrow> string set" where
  "title_tokens s =
     set (map singular (filter (\<lambda>v. v \<noteq> [] \<and> v \<notin> set TITLE_STOPWORDS)
       (split_on (\<lambda>c. \<not> (is_lower c \<or> is_digit c \<or> c = CHR ''_'')) (lower s))))"

text \<open>A quotient of at least one half.\<close>

definition titles_similar :: "string \<Rightarrow> string \<Rightarrow> bool" where
  "titles_similar a b =
     (let ta = title_tokens a; tb = title_tokens b
      in ta \<noteq> {} \<and> tb \<noteq> {} \<and> card (ta \<union> tb) \<le> 2 * card (ta \<inter> tb))"

definition epic_path_char :: "char \<Rightarrow> bool" where
  "epic_path_char c \<longleftrightarrow> word_char c \<or> c = CHR ''.'' \<or> c = CHR ''-''"

definition EPIC_PATH_TOKEN_RE :: rx where
  "EPIC_PATH_TOKEN_RE =
     Cat (plus_rx (Cls epic_path_char)) (plus_rx (Cat (chr_rx (CHR ''/'')) (plus_rx (Cls epic_path_char))))"

definition path_tokens :: "string \<Rightarrow> string list" where
  "path_tokens s = map (rstrip_by (\<lambda>c. c = CHR ''.'')) (findall EPIC_PATH_TOKEN_RE s)"

definition UNCLASSIFIED_GAP_RE :: rx where
  "UNCLASSIFIED_GAP_RE =
     seqs [lit ''<!--'', star_rx (Cls is_space), lit ''module_curator-gap-id:'', star_rx (Cls is_space),
           lit ''unclassified:'',
           Grp 1 (Cat (Cls (\<lambda>c. \<not> is_space c)) (Lazy (Cls (\<lambda>c. \<not> is_space c)))),
           star_rx (Cls is_space), lit ''-->'']"

text \<open>The first group of the first match of a search.\<close>

definition search_group :: "rx \<Rightarrow> string \<Rightarrow> string option" where
  "search_group r s = (case finditer r s of [] \<Rightarrow> None | m # _ \<Rightarrow> snd m 1)"

definition drop_prefix :: "string \<Rightarrow> string \<Rightarrow> string" where
  "drop_prefix p s = (if startswith p s then drop (length p) s else s)"

definition parse_unclassified_gap_path :: "string \<Rightarrow> string option" where
  "parse_unclassified_gap_path s =
     (case search_group UNCLASSIFIED_GAP_RE s of
        None \<Rightarrow> None
      | Some g \<Rightarrow> (let p = drop_prefix ''./'' (strip_by (\<lambda>c. c = CHR ''`'') (strip g))
                  in if p = [] then None else Some p))"

text \<open>
  The day of a date, and the time an id starts with. A date that the calendar does not have does
  not read back: \<open>strptime\<close> refuses it.
\<close>

definition days_of_civil :: "int \<Rightarrow> int \<Rightarrow> int \<Rightarrow> int" where
  "days_of_civil y m d =
     (let y1 = (if m \<le> 2 then y - 1 else y); era = y1 div 400; yoe = y1 mod 400;
          mp = (if 2 < m then m - 3 else m + 9);
          doy = (153 * mp + 2) div 5 + d - 1;
          doe = 365 * yoe + yoe div 4 - yoe div 100 + doy
      in era * 146097 + doe - 719468)"

definition ID_STAMP_RE :: rx where
  "ID_STAMP_RE =
     Cat (Grp 1 (seqs [Rep 8 (Some 8) (Cls is_digit), chr_rx (CHR ''T''), Rep 6 (Some 6) (Cls is_digit)]))
       (Cat (chr_rx (CHR ''Z'')) (chr_rx (CHR ''-'')))"

definition parse_stamp :: "string \<Rightarrow> instant option" where
  "parse_stamp s =
     (let f = (\<lambda>k n. int (digits_val (take n (drop k s))));
          y = f 0 4; m = f 4 2; d = f 6 2; h = f 9 2; mi = f 11 2; sec = f 13 2;
          days = days_of_civil y m d
      in if 1 \<le> y \<and> civil_of_days days = (y, m, d) \<and> h < 24 \<and> mi < 60 \<and> sec < 60
         then Some ((days * 86400 + h * 3600 + mi * 60 + sec) * 1000000) else None)"

definition id_created_at :: "string \<Rightarrow> instant option" where
  "id_created_at i =
     (case match_start ID_STAMP_RE i of
        None \<Rightarrow> None
      | Some g \<Rightarrow> (case g 1 of None \<Rightarrow> None | Some s \<Rightarrow> parse_stamp s))"

section \<open>Delivery\<close>

definition DEDUP_DUPLICATE_PREFIX :: string where
  "DEDUP_DUPLICATE_PREFIX = ''duplicate of ''"

definition DEDUP_ALREADY_DONE_PREFIX :: string where
  "DEDUP_ALREADY_DONE_PREFIX = ''already implemented in ''"

definition OBSOLESCENCE_GAP_PREFIX :: string where
  "OBSOLESCENCE_GAP_PREFIX = ''obsolete '' @ em_dash @ '' gap already resolved''"

definition NO_CHANGE_NEEDED_PREFIX :: string where
  "NO_CHANGE_NEEDED_PREFIX = ''no change needed''"

definition ALREADY_SATISFIED_PREFIX :: string where
  "ALREADY_SATISFIED_PREFIX = ''already satisfied''"

definition NON_IMPLEMENTATION_CLOSE_PREFIXES :: "string list" where
  "NON_IMPLEMENTATION_CLOSE_PREFIXES =
     [DEDUP_DUPLICATE_PREFIX, DEDUP_ALREADY_DONE_PREFIX, ''stale or invalid finding'',
      OBSOLESCENCE_GAP_PREFIX, ''internal workflow gate:'', ''standards gate:'',
      ''scope-triage repo awareness gate:'', ''dependency gate:'', ''external scope gate:'',
      NO_CHANGE_NEEDED_PREFIX, ALREADY_SATISFIED_PREFIX, ''Stale CI failure:'']"

text \<open>The dictionary of \<open>_resolve_delivery\<close>; a key it lacks is false or nothing.\<close>

record delivery =
  delivered :: bool
  satisfied :: bool
  d_label :: string
  canonical :: "string option"
  base_sha :: "string option"

definition no_delivery :: "string \<Rightarrow> string option \<Rightarrow> delivery" where
  "no_delivery s c =
     \<lparr>delivered = False, satisfied = False, d_label = s, canonical = c, base_sha = None\<rparr>"

definition merged_delivery :: delivery where
  "merged_delivery = (no_delivery ''merged'' None)\<lparr>delivered := True\<rparr>"

definition BASE_SHA_RE :: rx where
  "BASE_SHA_RE = seqs [WordB, lit ''base '', Grp 1 (Rep 7 (Some 40) (Cls is_hex_char)), WordB]"

definition satisfied_delivery :: "string \<Rightarrow> delivery" where
  "satisfied_delivery s =
     (let sha = search_group BASE_SHA_RE s
      in (no_delivery
            (case sha of
               Some h \<Rightarrow> ''satisfied '' @ em_dash @ '' already met at base '' @ take 12 h @ '' (no change needed)''
             | None \<Rightarrow> ''satisfied '' @ em_dash @ '' no change needed (goal already met on main)'') None)
          \<lparr>satisfied := True, base_sha := sha\<rparr>)"

text \<open>The last event that says the ticket is done, in the order of \<open>history\<close>.\<close>

definition done_event :: "service \<Rightarrow> string \<Rightarrow> world \<Rightarrow> TicketEvent option" where
  "done_event svc i w =
     (case history svc i None 0 ''asc'' w of
        Inl _ \<Rightarrow> None
      | Inr evs \<Rightarrow> (case filter (\<lambda>e. ev_state e = DONE) evs of [] \<Rightarrow> None | es \<Rightarrow> Some (last es)))"

definition close_prefix :: "string \<Rightarrow> string option" where
  "close_prefix s = find (\<lambda>p. startswith p s) NON_IMPLEMENTATION_CLOSE_PREFIXES"

definition canonical_of :: "string \<Rightarrow> string \<Rightarrow> string" where
  "canonical_of p s = strip (takeWhile (\<lambda>c. c \<noteq> CHR '':'') (drop (length p) s))"

function resolve_delivery :: "service \<Rightarrow> world \<Rightarrow> string list \<Rightarrow> string \<Rightarrow> delivery" where
  "resolve_delivery svc w seen i =
     (if i \<in> set seen \<or> 20 < length seen then no_delivery ''not delivered'' None
      else (case get_ticket svc i w of
        None \<Rightarrow> no_delivery ''not delivered'' None
      | Some t \<Rightarrow>
          (case done_event svc i w of
             None \<Rightarrow> no_delivery (if tstate t = DRAFT then ''unstarted'' else ''in_progress'') None
           | Some e \<Rightarrow>
               (let s = or_empty (ev_note e)
                in case close_prefix s of
                     None \<Rightarrow> merged_delivery
                   | Some p \<Rightarrow>
                       if p = DEDUP_DUPLICATE_PREFIX \<or> p = DEDUP_ALREADY_DONE_PREFIX then
                         (let c = canonical_of p s
                          in if c \<noteq> [] \<and> c \<noteq> i \<and> c \<notin> set (i # seen) then
                               (let sub = resolve_delivery svc w (i # seen) c
                                in (no_delivery (''dedup-closed '' @ right_arrow @ '' '' @ c @ '' (''
                                      @ (if delivered sub then ''merged'' else ''not delivered'') @ '')'') (Some c))
                                    \<lparr>delivered := delivered sub\<rparr>)
                             else no_delivery (''dedup-closed '' @ right_arrow @ '' ''
                                      @ (if c = [] then ''?'' else c) @ '' (not delivered)'')
                                    (if c = [] then None else Some c))
                       else if p = NO_CHANGE_NEEDED_PREFIX \<or> p = OBSOLESCENCE_GAP_PREFIX
                           \<or> p = ALREADY_SATISFIED_PREFIX
                         then satisfied_delivery s
                       else no_delivery ''closed (not delivered)'' None))))"
  by pat_completeness auto

termination resolve_delivery
  by (relation "measure (\<lambda>(svc, w, seen, i). 22 - length seen)") auto

declare resolve_delivery.simps [simp del]

text \<open>What the status agent is told of the children.\<close>

record child_summary =
  s_id :: string
  s_title :: string
  s_state :: State
  s_description :: string
  s_depends_on :: "string list"
  s_delivery :: string

definition shorten :: "nat \<Rightarrow> string \<Rightarrow> string" where
  "shorten n s = (if take_chars n s = s then s else take_chars n s @ nl @ ''...(truncated)'')"

fun build_child_summaries ::
    "service \<Rightarrow> Ticket list \<Rightarrow> world \<Rightarrow> child_summary list result \<times> world" where
  "build_child_summaries svc [] w = (Inr [], w)"
| "build_child_summaries svc (c # cs) w =
     (case open_workspace svc c w of
        (Inl e, w1) \<Rightarrow> (Inl e, w1)
      | (Inr k, w1) \<Rightarrow>
          (let s = \<lparr>s_id = tid c, s_title = title c, s_state = tstate c,
                    s_description = shorten 500 (read_description (ws_dir w1 k)),
                    s_depends_on = parse_depends_on c,
                    s_delivery = d_label (resolve_delivery svc w1 [] (tid c))\<rparr>
           in (case build_child_summaries svc cs w1 of
                 (Inl e, w2) \<Rightarrow> (Inl e, w2)
               | (Inr ss, w2) \<Rightarrow> (Inr (s # ss), w2))))"

section \<open>The decision on the epic\<close>

datatype epic_decision = Close_Epic | Keep_Open | Update_Description | Update_Deps

datatype closures = Covered_By "(string \<times> string) list" | Bare "string list"

type_synonym text_dict = "(string \<times> string) list"

text \<open>\<open>EpicStatusResult\<close>; a dictionary is the list of its items.\<close>

record epic_result =
  decision :: epic_decision
  r_note :: string
  dep_updates :: "(string \<times> string list option) list option"
  proposals :: "text_dict list option"
  child_rescopes :: "(string \<times> text_dict) list option"
  child_closures :: "closures option"

fun apply_dep_updates ::
    "service \<Rightarrow> (string \<times> string list option) list \<Rightarrow> world \<Rightarrow> unit result \<times> world" where
  "apply_dep_updates svc [] w = (Inr (), w)"
| "apply_dep_updates svc (u # us) w =
     (case set_depends_on svc (fst u) (case snd u of None \<Rightarrow> [] | Some deps \<Rightarrow> deps) w of
        (Inl e, w1) \<Rightarrow> (Inl e, w1)
      | (Inr _, w1) \<Rightarrow> apply_dep_updates svc us w1)"

text \<open>\<open>workspace(t).write_description(s)\<close> and \<open>set_content_hash\<close> of the hash it returns.\<close>

definition rewrite_description :: "service \<Rightarrow> Ticket \<Rightarrow> string \<Rightarrow> string \<Rightarrow> world \<Rightarrow> unit result \<times> world" where
  "rewrite_description svc t i s w =
     (case open_workspace svc t w of
        (Inl e, w1) \<Rightarrow> (Inl e, w1)
      | (Inr k, w1) \<Rightarrow>
          (let (dir, h) = write_description (ext svc) s (ws_dir w1 k)
           in case set_content_hash svc i h (put_ws k dir w1) of
                (Inl e, w2) \<Rightarrow> (Inl e, w2)
              | (Inr _, w2) \<Rightarrow> (Inr (), w2)))"

definition effective_decision :: "epic_result \<Rightarrow> epic_decision" where
  "effective_decision r =
     (if decision r = Close_Epic \<and> proposals r \<noteq> None \<and> proposals r \<noteq> Some [] then Keep_Open
      else decision r)"

definition handle_epic_decision ::
    "service \<Rightarrow> string \<Rightarrow> Ticket \<Rightarrow> epic_result \<Rightarrow> world \<Rightarrow> unit result \<times> world" where
  "handle_epic_decision svc i epic r w =
     (case effective_decision r of
        Close_Epic \<Rightarrow>
          (case transition svc i EPIC_CLOSED (Some (''[auto-closed] '' @ r_note r)) None w of
             (Inl e, w1) \<Rightarrow> (Inl e, w1)
           | (Inr _, w1) \<Rightarrow> (Inr (), w1))
      | Keep_Open \<Rightarrow> (Inr (), w)
      | Update_Description \<Rightarrow> rewrite_description svc epic i (r_note r) w
      | Update_Deps \<Rightarrow>
          (case (case dep_updates r of None \<Rightarrow> (Inr (), w) | Some us \<Rightarrow> apply_dep_updates svc us w) of
             (Inl e, w1) \<Rightarrow> (Inl e, w1)
           | (Inr _, w1) \<Rightarrow>
               if r_note r = [] then (Inr (), w1) else rewrite_description svc epic i (r_note r) w1))"

section \<open>New children\<close>

definition is_live :: "Ticket \<Rightarrow> bool" where
  "is_live t \<longleftrightarrow> tstate t \<notin> set EPIC_CHILD_TERMINAL"

definition recent_children :: "instant \<Rightarrow> Ticket list \<Rightarrow> string list" where
  "recent_children now cs =
     map tid (filter (\<lambda>c. is_live c \<and> (case id_created_at (tid c) of
         None \<Rightarrow> False
       | Some a \<Rightarrow> now - a < RECENT_CHILD_WINDOW_SECONDS * 1000000)) cs)"

definition count_reeval_children :: "string \<Rightarrow> Ticket list \<Rightarrow> int" where
  "count_reeval_children i cs =
     (case id_created_at i of
        None \<Rightarrow> 0
      | Some start \<Rightarrow>
          int (length (filter (\<lambda>c. case id_created_at (tid c) of
              None \<Rightarrow> False
            | Some a \<Rightarrow> RECENT_CHILD_WINDOW_SECONDS * 1000000 < a - start) cs)))"

definition closed_no_delivery_children ::
    "service \<Rightarrow> world \<Rightarrow> Ticket list \<Rightarrow> instant \<Rightarrow> int \<Rightarrow> (string \<times> string) list" where
  "closed_no_delivery_children svc w cs now lookback_days =
     map (\<lambda>c. (tid c, title c)) (filter (\<lambda>c. \<not> is_live c
       \<and> (case id_created_at (tid c) of None \<Rightarrow> True | Some a \<Rightarrow> now - a \<le> lookback_days * 86400 * 1000000)
       \<and> \<not> delivered (resolve_delivery svc w [] (tid c))) cs)"

text \<open>Reading a description opens the workspace; a child whose workspace is refused is skipped.\<close>

fun satisfied_children ::
    "service \<Rightarrow> Ticket list \<Rightarrow> world \<Rightarrow> (string \<times> string \<times> string list) list \<times> world" where
  "satisfied_children svc [] w = ([], w)"
| "satisfied_children svc (c # cs) w =
     (if is_live c \<or> \<not> satisfied (resolve_delivery svc w [] (tid c)) then satisfied_children svc cs w
      else (case open_workspace svc c w of
              (Inl _, w1) \<Rightarrow> satisfied_children svc cs w1
            | (Inr k, w1) \<Rightarrow>
                (let marker = parse_unclassified_gap_path (read_description (ws_dir w1 k));
                     paths = path_tokens (title c) @ (case marker of None \<Rightarrow> [] | Some p \<Rightarrow> [p]);
                     (rest, w2) = satisfied_children svc cs w1
                 in ((tid c, title c, paths) # rest, w2))))"

definition dict_text :: "text_dict \<Rightarrow> string \<Rightarrow> string" where
  "dict_text d k = (case map_of d k of None \<Rightarrow> [] | Some s \<Rightarrow> s)"

text \<open>No brake holds a proposal: its texts are there, and it repeats no sibling.\<close>

definition admissible ::
    "string list \<Rightarrow> (string \<times> string) list \<Rightarrow> (string \<times> string \<times> string list) list \<Rightarrow> text_dict \<Rightarrow> bool" where
  "admissible live_titles shut sat spec =
     (let s = dict_text spec ''title''; body = dict_text spec ''body'';
          new_paths = path_tokens (s @ nl @ body)
      in has_text s \<and> has_text body
         \<and> \<not> list_ex (titles_similar s) live_titles
         \<and> \<not> list_ex (\<lambda>c. titles_similar s (snd c)) shut
         \<and> \<not> list_ex (\<lambda>(_, t, ps). list_ex (\<lambda>p. p \<in> set new_paths) ps \<or> titles_similar s t) sat)"

definition child_request :: "string \<Rightarrow> text_dict \<Rightarrow> string \<Rightarrow> create_request" where
  "child_request epic spec tok =
     \<lparr>r_title = strip (dict_text spec ''title''), r_description = strip (dict_text spec ''body''),
      r_source = ''user'', r_origin_session = None, r_depends_on = None, r_unblocks = None, r_kind = TASK,
      r_parent = Some epic, r_board = None, r_priority = False, r_initial = None, r_token = tok\<rparr>"

text \<open>The loop over the proposals: the re-evaluation children so far, the titles of the live siblings.\<close>

fun file_children ::
    "service \<Rightarrow> string \<Rightarrow> int \<Rightarrow> (string \<times> string) list \<Rightarrow> (string \<times> string \<times> string list) list \<Rightarrow>
     (world \<Rightarrow> string) \<Rightarrow> text_dict list \<Rightarrow> int \<Rightarrow> string list \<Rightarrow> world \<Rightarrow> int \<times> string list \<times> world" where
  "file_children svc epic cap shut sat fresh [] n live_titles w = (n, live_titles, w)"
| "file_children svc epic cap shut sat fresh (spec # specs) n live_titles w =
     (if cap \<le> n then (n, live_titles, w)
      else if \<not> admissible live_titles shut sat spec
        then file_children svc epic cap shut sat fresh specs n live_titles w
      else (case create_ticket svc (child_request epic spec (fresh w)) w of
              (Inl _, w1) \<Rightarrow> file_children svc epic cap shut sat fresh specs n live_titles w1
            | (Inr _, w1) \<Rightarrow>
                file_children svc epic cap shut sat fresh specs (n + 1)
                  (live_titles @ [strip (dict_text spec ''title'')]) w1))"

record epic_settings =
  epic_max_reeval_children :: int
  epic_dedup_lookback_days :: int

definition reconcile_new_children ::
    "service \<Rightarrow> epic_settings \<Rightarrow> (world \<Rightarrow> string) \<Rightarrow> string \<Rightarrow> text_dict list \<Rightarrow> world \<Rightarrow> world" where
  "reconcile_new_children svc es fresh epic specs w =
     (let cs = list_children_across_boards svc epic w; n = count_reeval_children epic cs
      in if specs = [] \<or> recent_children (clock w) cs \<noteq> [] \<or> epic_max_reeval_children es \<le> n then w
         else (let shut = closed_no_delivery_children svc w cs (clock w) (epic_dedup_lookback_days es);
                   (sat, w1) = satisfied_children svc cs w
               in snd (snd (file_children svc epic (epic_max_reeval_children es) shut sat fresh specs n
                              (map title (filter is_live cs)) w1))))"

section \<open>Rescopes and closures\<close>

definition fetch_draft_child :: "service \<Rightarrow> string \<Rightarrow> world \<Rightarrow> Ticket option" where
  "fetch_draft_child svc i w =
     (case get_ticket svc i w of
        None \<Rightarrow> None
      | Some c \<Rightarrow> if tstate c = DRAFT then Some c else None)"

definition rescope_child :: "service \<Rightarrow> string \<times> text_dict \<Rightarrow> world \<Rightarrow> world" where
  "rescope_child svc u w =
     (let s = dict_text (snd u) ''title''; body = dict_text (snd u) ''body''
      in if \<not> has_text s \<and> \<not> has_text body then w
         else (case fetch_draft_child svc (fst u) w of
                 None \<Rightarrow> w
               | Some c \<Rightarrow>
                   (case (if has_text s then set_title svc (fst u) (strip s) w else (Inr c, w)) of
                      (Inl _, w1) \<Rightarrow> w1
                    | (Inr _, w1) \<Rightarrow>
                        if has_text body then snd (rewrite_description svc c (fst u) (strip body) w1)
                        else w1)))"

definition closure_pairs :: "closures \<Rightarrow> (string \<times> string option) list" where
  "closure_pairs cl =
     (case cl of Covered_By ps \<Rightarrow> map (\<lambda>(i, c). (i, Some c)) ps | Bare cs \<Rightarrow> map (\<lambda>i. (i, None)) cs)"

definition obsolete_child :: "service \<Rightarrow> string \<times> string option \<Rightarrow> world \<Rightarrow> world" where
  "obsolete_child svc p w =
     (if \<not> has_text (fst p) then w
      else (case fetch_draft_child svc (fst p) w of
              None \<Rightarrow> w
            | Some c \<Rightarrow>
                (let covering = strip (or_empty (snd p))
                 in if covering = [] \<or> covering = fst p
                        \<or> \<not> delivered (resolve_delivery svc w [] covering) then w
                    else snd (transition svc (fst p) CLOSED
                           (Some (''Obsoleted: scope delivered by merged sibling '' @ covering)) None w))))"

definition reconcile_child_changes ::
    "service \<Rightarrow> epic_settings \<Rightarrow> (world \<Rightarrow> string) \<Rightarrow> string \<Rightarrow> epic_result \<Rightarrow> world \<Rightarrow> world" where
  "reconcile_child_changes svc es fresh epic r w =
     (let w1 = (case proposals r of None \<Rightarrow> w | Some specs \<Rightarrow> reconcile_new_children svc es fresh epic specs w);
          w2 = (case child_rescopes r of None \<Rightarrow> w1 | Some us \<Rightarrow> fold (rescope_child svc) us w1)
      in (case child_closures r of None \<Rightarrow> w2 | Some cl \<Rightarrow> fold (obsolete_child svc) (closure_pairs cl) w2))"

section \<open>The re-evaluation\<close>

definition validate_epic_state :: "settings \<Rightarrow> externals \<Rightarrow> string \<Rightarrow> world \<Rightarrow> (service \<times> Ticket) option" where
  "validate_epic_state st x i w =
     (let discovery = \<lparr>settings_of = st, ext = x, svc_board = [], has_callback = False\<rparr>
      in case get_ticket discovery i w of
           None \<Rightarrow> None
         | Some found \<Rightarrow>
             (let svc = discovery\<lparr>svc_board := board_id found\<rparr>
              in case get_ticket svc i w of
                   None \<Rightarrow> None
                 | Some epic \<Rightarrow>
                     if tstate epic = EPIC_CLOSED \<or> tstate epic = BLOCKED then None else Some (svc, epic)))"

text \<open>
  The agent sees the epic's title, description and children. It takes its time, so it also returns
  the world it ends in; it returns nothing when it raises.
\<close>

type_synonym status_agent =
  "string \<Rightarrow> string \<Rightarrow> child_summary list \<Rightarrow> world \<Rightarrow> epic_result option \<times> world"

definition run_epic_reeval ::
    "settings \<Rightarrow> externals \<Rightarrow> epic_settings \<Rightarrow> (world \<Rightarrow> string) \<Rightarrow> status_agent \<Rightarrow> string \<Rightarrow> world \<Rightarrow> world" where
  "run_epic_reeval st x es fresh agent i w =
     (case validate_epic_state st x i w of
        None \<Rightarrow> w
      | Some (svc, epic) \<Rightarrow>
          (case open_workspace svc epic w of
             (Inl _, w1) \<Rightarrow> w1
           | (Inr k, w1) \<Rightarrow>
               (case build_child_summaries svc (list_children_across_boards svc i w1) w1 of
                  (Inl _, w2) \<Rightarrow> w2
                | (Inr cs, w2) \<Rightarrow>
                    (case agent (title epic) (read_description (ws_dir w1 k)) cs w2 of
                       (None, w3) \<Rightarrow> w3
                     | (Some r, w3) \<Rightarrow>
                         (case handle_epic_decision svc i epic r w3 of
                            (Inl _, w4) \<Rightarrow> w4
                          | (Inr _, w4) \<Rightarrow> reconcile_child_changes svc es fresh i r w4)))))"

end
