(* ===== verification/Stamps.thy ===== *)
theory Stamps
  imports Epic Seed
begin

text \<open>
  The calendar of timestamps: a day is read back from its civil date, and the time of a ticket's
  creation from its id.
\<close>

section \<open>Days and dates\<close>

text \<open>The year of a day within a 400-year era, and that the day lies in that year.\<close>

lemma year_of_era_aux:
  fixes b r u w k :: int
  assumes r: "0 \<le> r" "r \<le> 36524" "r = 36524 \<Longrightarrow> b = 3" and b: "0 \<le> b" "b \<le> 3"
    and u: "1460 * u \<le> 24 * b + r" "24 * b + r < 1460 * u + 1460"
    and w: "365 * w \<le> r - u" "r - u < 365 * w + 365" and k: "4 * k \<le> w" "w < 4 * k + 4"
  shows "0 \<le> w \<and> w \<le> 99 \<and> 365 * w + k \<le> r \<and> r \<le> 365 * w + k + 365"
proof -
  have "u \<le> 25" using u r b by linarith
  have "0 \<le> u" using u r b by linarith
  have "0 \<le> w"
  proof (rule ccontr)
    assume "\<not> 0 \<le> w"
    then have "r - u < 0" using w by linarith
    then show False using u \<open>0 \<le> u\<close> b r by linarith
  qed
  moreover have "w \<le> 99"
  proof (rule ccontr)
    assume "\<not> w \<le> 99"
    then have big: "36500 + u \<le> r" using w by linarith
    then have "25 \<le> u" using u b by linarith
    then show False using big r \<open>u \<le> 25\<close> b u by linarith
  qed
  moreover have "365 * w + k \<le> r"
  proof (cases "k \<le> u")
    case False
    then have "24 * b + r < 1460 * k" using u by linarith
    moreover have "1460 * k \<le> r" using w k \<open>0 \<le> u\<close> by linarith
    ultimately show ?thesis using b by linarith
  qed (use w in linarith)
  moreover have "r \<le> 365 * w + k + 365"
  proof (cases "u \<le> k + 1")
    case False
    then have "k + 2 \<le> u" by simp
    then have "1460 * k + 2920 \<le> 24 * b + r" using u(1) by linarith
    moreover have "r \<le> 1460 * k + 1459 + u" using w k by linarith
    ultimately show ?thesis using b \<open>u \<le> 25\<close> by linarith
  qed (use w in linarith)
  ultimately show ?thesis by blast
qed

lemma div_bounds:
  fixes a n :: int
  assumes "0 < n"
  shows "n * (a div n) \<le> a" "a < n * (a div n) + n"
  using mult_div_mod_eq [of n a] pos_mod_bound [OF assms, of a] pos_mod_sign [OF assms, of a]
  by linarith+

lemma year_of_era:
  fixes doe :: int
  assumes "0 \<le> doe" "doe < 146097"
  defines "y \<equiv> (doe - doe div 1460 + doe div 36524 - doe div 146096) div 365"
  shows "0 \<le> y \<and> y \<le> 399 \<and> 0 \<le> doe - (365 * y + y div 4 - y div 100)
    \<and> doe - (365 * y + y div 4 - y div 100) \<le> 365"
proof (cases "doe = 146096")
  case True
  then show ?thesis by (simp add: y_def)
next
  case False
  define b r u w k where "b = doe div 36524" and "r = doe - 36524 * b" and "u = (24 * b + r) div 1460"
    and "w = (r - u) div 365" and "k = w div 4"
  have b: "0 \<le> b" "b \<le> 3" using assms False unfolding b_def by linarith+
  have r: "0 \<le> r" "r < 36524" unfolding r_def b_def by presburger+
  have "doe = 1460 * (25 * b) + (24 * b + r)" unfolding r_def by simp
  then have a: "doe div 1460 = 25 * b + u" unfolding u_def by (metis add.commute div_mult_self4 mult.commute zero_neq_numeral)
  have "doe div 146096 = 0" using assms False by simp
  then have "y = (365 * (100 * b) + (r - u)) div 365"
    unfolding y_def a b_def [symmetric] r_def by (simp add: algebra_simps)
  then have y: "y = 100 * b + w" unfolding w_def by simp
  have "0 \<le> w \<and> w \<le> 99 \<and> 365 * w + k \<le> r \<and> r \<le> 365 * w + k + 365"
  proof (rule year_of_era_aux [of r b u])
    show "1460 * u \<le> 24 * b + r" "24 * b + r < 1460 * u + 1460"
      unfolding u_def by (rule div_bounds, simp)+
    show "365 * w \<le> r - u" "r - u < 365 * w + 365" unfolding w_def by (rule div_bounds, simp)+
    show "4 * k \<le> w" "w < 4 * k + 4" unfolding k_def by (rule div_bounds, simp)+
  qed (use r b in auto)
  moreover have "y div 100 = b" using calculation unfolding y by simp
  moreover have "y = 4 * (25 * b) + w" unfolding y by simp
  then have "y div 4 = 25 * b + k" unfolding k_def by simp
  moreover have "doe = 36524 * b + r" unfolding r_def by simp
  ultimately show ?thesis using b unfolding y by simp
qed

text \<open>A date from its era, the year of the era, the day of the year and the month from March.\<close>

lemma civil_shape:
  assumes "civil_of_days n = (y, m, d)"
  obtains e q doy mp where "0 \<le> q" "q \<le> 399" "0 \<le> mp" "mp \<le> 11" "mp = (5 * doy + 2) div 153"
    "y = q + e * 400 + (if mp < 10 then 0 else 1)" "m = (if mp < 10 then mp + 3 else mp - 9)"
    "d = doy - (153 * mp + 2) div 5 + 1"
    "n + 719468 = e * 146097 + (365 * q + q div 4 - q div 100 + doy)"
proof -
  define doe where "doe = (n + 719468) mod 146097"
  define q where "q = (doe - doe div 1460 + doe div 36524 - doe div 146096) div 365"
  define doy where "doy = doe - (365 * q + q div 4 - q div 100)"
  define mp where "mp = (5 * doy + 2) div 153"
  have "0 \<le> doe" "doe < 146097" unfolding doe_def by simp_all
  from year_of_era [OF this] have q: "0 \<le> q" "q \<le> 399" "0 \<le> doy" "doy \<le> 365"
    unfolding q_def [symmetric] doy_def [symmetric] by blast+
  then have mp: "0 \<le> mp" "mp \<le> 11" unfolding mp_def by linarith+
  have ymd: "y = q + (n + 719468) div 146097 * 400 + (if mp < 10 then 0 else 1)"
    "m = (if mp < 10 then mp + 3 else mp - 9)" "d = doy - (153 * mp + 2) div 5 + 1"
    using assms mp unfolding civil_of_days_def Let_def doe_def [symmetric]
    unfolding q_def [symmetric] unfolding doy_def [symmetric] unfolding mp_def [symmetric]
    by (auto split: if_splits)
  have "n + 719468 = (n + 719468) div 146097 * 146097 + doe" unfolding doe_def by simp
  then have "n + 719468 = (n + 719468) div 146097 * 146097 + (365 * q + q div 4 - q div 100 + doy)"
    unfolding doy_def by simp
  from that [OF q(1,2) mp mp_def ymd this] show thesis .
qed

lemma days_of_civil_of_days:
  assumes "civil_of_days n = (y, m, d)"
  shows "days_of_civil y m d = n"
  using assms
proof (rule civil_shape)
  fix e q doy mp
  assume *: "0 \<le> q" "q \<le> 399" "0 \<le> mp" "mp \<le> 11"
    "y = q + e * 400 + (if mp < 10 then 0 else 1)" "m = (if mp < 10 then mp + 3 else mp - 9)"
    "d = doy - (153 * mp + 2) div 5 + 1"
    "n + 719468 = e * 146097 + (365 * q + q div 4 - q div 100 + doy)"
  have "(if m \<le> 2 then y - 1 else y) = q + e * 400" using * by (auto split: if_splits)
  moreover have "(if 2 < m then m - 3 else m + 9) = mp" using * by (auto split: if_splits)
  moreover have "(q + e * 400) div 400 = e" "(q + e * 400) mod 400 = q"
    using * by (simp_all add: div_pos_pos_trivial)
  ultimately have "days_of_civil y m d = e * 146097 + (365 * q + q div 4 - q div 100 + doy) - 719468"
    unfolding days_of_civil_def Let_def *(7) by simp
  with *(8) show ?thesis by linarith
qed

lemma civil_bounds:
  assumes "civil_of_days n = (y, m, d)"
  shows "1 \<le> m \<and> m \<le> 12 \<and> 1 \<le> d \<and> d \<le> 31"
  using assms
proof (rule civil_shape)
  fix e q doy mp
  assume *: "0 \<le> mp" "mp \<le> 11" "mp = (5 * doy + 2) div 153" "m = (if mp < 10 then mp + 3 else mp - 9)"
    "d = doy - (153 * mp + 2) div 5 + 1"
  have "153 * mp \<le> 5 * doy + 2" "5 * doy + 2 < 153 * mp + 153"
    unfolding *(3) by (rule div_bounds, simp)+
  moreover have "5 * ((153 * mp + 2) div 5) \<le> 153 * mp + 2" "153 * mp + 2 < 5 * ((153 * mp + 2) div 5) + 5"
    by (rule div_bounds, simp)+
  ultimately have "0 \<le> doy - (153 * mp + 2) div 5" "doy - (153 * mp + 2) div 5 \<le> 30" by linarith+
  with * show ?thesis by (auto split: if_splits)
qed

section \<open>Padded numbers\<close>

lemma length_show_nat: "n < 10 ^ Suc k \<Longrightarrow> length (show_nat n) \<le> Suc k"
proof (induction k arbitrary: n)
  case 0
  then show ?case by (subst show_nat.simps) simp
next
  case (Suc k)
  then have "n div 10 < 10 ^ Suc k" by auto
  from Suc.IH [OF this] show ?case by (subst show_nat.simps) simp
qed

lemma digits_val_zeros [simp]: "digits_val (replicate j CHR ''0'' @ s) = digits_val s"
proof (induction j)
  case (Suc j)
  then show ?case by (simp add: digits_val_def digit_val_def code_def)
qed simp

lemma pad_facts:
  assumes "0 \<le> n" "n < 10 ^ Suc k"
  shows "length (pad (Suc k) n) = Suc k" "int (digits_val (pad (Suc k) n)) = n" "list_all is_digit (pad (Suc k) n)"
proof -
  have s: "show_int n = show_nat (nat n)" using assms by (simp add: show_int_def)
  have "nat n < 10 ^ Suc k" using assms by (simp add: nat_less_iff)
  then show "length (pad (Suc k) n) = Suc k"
    using length_show_nat by (simp add: pad_def s Let_def)
  show "int (digits_val (pad (Suc k) n)) = n" using assms by (simp add: pad_def s Let_def)
  have "is_digit (CHR ''0'')" by (simp add: is_digit_def code_def)
  then show "list_all is_digit (pad (Suc k) n)"
    using show_nat_digits [of "nat n"] by (auto simp: pad_def s Let_def list_all_iff)
qed

section \<open>The time in an id\<close>

lemma rep_exact:
  "\<lbrakk>list_all p u; rx_rest s = u @ v\<rbrakk>
     \<Longrightarrow> \<exists>b. ways (Rep (length u) (Some (length u)) (Cls p)) s = [s\<lparr>rx_before := b, rx_rest := v\<rparr>]"
proof (induction u arbitrary: s)
  case Nil
  then have "s = s\<lparr>rx_before := rx_before s, rx_rest := v\<rparr>" by simp
  moreover have "ways (Rep 0 (Some 0) (Cls p)) s = [s]" by (subst ways_Rep) simp
  ultimately show ?case by (metis list.size(3))
next
  case (Cons c u)
  let ?s = "step_char s"
  obtain b where b: "ways (Rep (length u) (Some (length u)) (Cls p)) ?s = [?s\<lparr>rx_before := b, rx_rest := v\<rparr>]"
    using Cons.IH [of ?s] Cons.prems by (auto simp: step_char_def)
  have "ways (Rep (length (c # u)) (Some (length (c # u))) (Cls p)) s = [?s\<lparr>rx_before := b, rx_rest := v\<rparr>]"
    using Cons.prems b by (subst ways_Rep) (simp add: shorter_def step_char_def less_one_def)
  then show ?case by (auto simp: step_char_def)
qed

lemma stamp_matched:
  assumes a: "list_all is_digit a" "length a = 8" and b: "list_all is_digit b" "length b = 6"
  shows "match_start ID_STAMP_RE (a @ ''T'' @ b @ ''Z-'' @ v) = Some [1 \<mapsto> a @ ''T'' @ b]"
proof -
  let ?s = "start_state (a @ ''T'' @ b @ ''Z-'' @ v)"
  obtain c where c: "ways (Rep 8 (Some 8) (Cls is_digit)) ?s =
      [?s\<lparr>rx_before := c, rx_rest := ''T'' @ b @ ''Z-'' @ v\<rparr>]" (is "_ = [?s1]")
    using rep_exact [OF a(1), of ?s "''T'' @ b @ ''Z-'' @ v"] a(2) by (auto simp: start_state_def)
  have t: "ways (chr_rx (CHR ''T'')) ?s1 = [step_char ?s1]" by (simp add: chr_rx_def)
  obtain c' where d: "ways (Rep 6 (Some 6) (Cls is_digit)) (step_char ?s1) =
      [(step_char ?s1)\<lparr>rx_before := c', rx_rest := ''Z-'' @ v\<rparr>]" (is "_ = [?s2]")
    using rep_exact [OF b(1), of "step_char ?s1" "''Z-'' @ v"] b(2) by (auto simp: step_char_def)
  have g: "consumed ?s ?s2 = a @ ''T'' @ b"
    using a(2) b(2) by (simp add: consumed_def start_state_def)
  have "ways (Grp 1 (seqs [Rep 8 (Some 8) (Cls is_digit), chr_rx (CHR ''T''), Rep 6 (Some 6) (Cls is_digit)])) ?s =
      [?s2\<lparr>rx_groups := (rx_groups ?s2)(1 \<mapsto> consumed ?s ?s2)\<rparr>]"
    by (simp only: seqs.simps ways.simps(3,12) c t d list.map concat.simps append_Nil2)
  moreover have "ways (Cat (chr_rx (CHR ''Z'')) (chr_rx (CHR ''-''))) (?s2\<lparr>rx_groups := f\<rparr>) =
      [step_char (step_char (?s2\<lparr>rx_groups := f\<rparr>))]" for f
    by (simp add: chr_rx_def step_char_def)
  ultimately have "ways ID_STAMP_RE ?s = [step_char (step_char (?s2\<lparr>rx_groups := (rx_groups ?s2)(1 \<mapsto> consumed ?s ?s2)\<rparr>))]"
    by (simp only: ID_STAMP_RE_def ways.simps(3) list.map concat.simps append_Nil2)
  then show ?thesis
    by (simp only: match_start_def rx_match_def g) (simp add: step_char_def start_state_def)
qed

lemma stamp_parts:
  assumes "civil_of_days days = (y, m, d)" "1000 \<le> y" "y \<le> 9999"
    and "0 \<le> h" "h < 24" "0 \<le> mi" "mi < 60" "0 \<le> sec" "sec < 60"
  shows "list_all is_digit (pad 4 y @ pad 2 m @ pad 2 d)" "length (pad 4 y @ pad 2 m @ pad 2 d) = 8"
    "list_all is_digit (pad 2 h @ pad 2 mi @ pad 2 sec)" "length (pad 2 h @ pad 2 mi @ pad 2 sec) = 6"
proof -
  have md: "1 \<le> m" "m \<le> 12" "1 \<le> d" "d \<le> 31" using civil_bounds [OF assms(1)] by auto
  have p2: "length (pad 2 n) = 2 \<and> list_all is_digit (pad 2 n)" if "0 \<le> n" "n < 100" for n
    using pad_facts [of n 1] that by (simp add: numeral_eq_Suc)
  have p4: "length (pad 4 y) = 4 \<and> list_all is_digit (pad 4 y)"
    using pad_facts [of y 3] assms by (simp add: numeral_eq_Suc)
  show "list_all is_digit (pad 4 y @ pad 2 m @ pad 2 d)" "length (pad 4 y @ pad 2 m @ pad 2 d) = 8"
    "list_all is_digit (pad 2 h @ pad 2 mi @ pad 2 sec)" "length (pad 2 h @ pad 2 mi @ pad 2 sec) = 6"
    using p4 p2 [of m] p2 [of d] p2 [of h] p2 [of mi] p2 [of sec] md assms by simp_all
qed

lemma stamp_read_back:
  assumes "civil_of_days days = (y, m, d)" "1000 \<le> y" "y \<le> 9999"
    and "0 \<le> h" "h < 24" "0 \<le> mi" "mi < 60" "0 \<le> sec" "sec < 60"
  shows "parse_stamp (pad 4 y @ pad 2 m @ pad 2 d @ ''T'' @ pad 2 h @ pad 2 mi @ pad 2 sec)
    = Some ((days * 86400 + h * 3600 + mi * 60 + sec) * 1000000)"
proof -
  have md: "1 \<le> m" "m \<le> 12" "1 \<le> d" "d \<le> 31" using civil_bounds [OF assms(1)] by auto
  have p4: "length (pad 4 y) = 4" "int (digits_val (pad 4 y)) = y"
    using pad_facts [of y 3] assms by (simp_all add: numeral_eq_Suc)
  have p2: "length (pad 2 n) = 2" "int (digits_val (pad 2 n)) = n" if "0 \<le> n" "n < 100" for n
    using pad_facts [of n 1] that by (simp_all add: numeral_eq_Suc)
  show ?thesis
    using assms md by (simp add: parse_stamp_def Let_def p4 p2 days_of_civil_of_days [OF assms(1)])
qed

text \<open>
  C39: The time that an epic's brakes read from a child's id is the second in which \<open>create\<close> made the
  ticket, for every title, token and time with a year of four digits.
\<close>

theorem id_time_read_back:
  assumes "civil_of_days (now div 86400000000) = (y, m, d)" "1000 \<le> y" "y \<le> 9999"
  shows "id_created_at (new_ticket_id r now) = Some (now div 1000000 * 1000000)"
proof -
  let ?s = "now div 1000000"
  let ?days = "?s div 86400" and ?sod = "?s mod 86400"
  let ?a = "pad 4 y @ pad 2 m @ pad 2 d"
  let ?b = "pad 2 (?sod div 3600) @ pad 2 (?sod div 60 mod 60) @ pad 2 (?sod mod 60)"
  have days: "?days = now div 86400000000" by (simp add: zdiv_zmult2_eq [symmetric])
  have sod: "0 \<le> ?sod" "?sod < 86400" by simp_all
  then have f: "0 \<le> ?sod div 3600" "?sod div 3600 < 24" by linarith+
  have g: "0 \<le> ?sod div 60 mod 60" "?sod div 60 mod 60 < 60" "0 \<le> ?sod mod 60" "?sod mod 60 < 60" by simp_all
  note ymd = assms(1) [folded days]
  note ab = stamp_parts [OF ymd assms(2,3) f g]
  have "new_ticket_id r now = ?a @ ''T'' @ ?b @ ''Z-'' @ (slug (r_title r) @ ''-'' @ r_token r)"
    by (simp only: new_ticket_id_def id_stamp_def Let_def ymd prod.case append_assoc append.simps)
  then have "id_created_at (new_ticket_id r now) = parse_stamp (?a @ ''T'' @ ?b)"
    using stamp_matched [OF ab] by (simp only: id_created_at_def option.case fun_upd_same)
  also have "\<dots> = Some ((?days * 86400 + ?sod div 3600 * 3600 + ?sod div 60 mod 60 * 60 + ?sod mod 60) * 1000000)"
    using stamp_read_back [OF ymd assms(2,3) f g] by (simp only: append_assoc)
  also have "?days * 86400 + ?sod div 3600 * 3600 + ?sod div 60 mod 60 * 60 + ?sod mod 60 = ?s"
  proof -
    have "?sod div 60 = 60 * (?sod div 3600) + ?sod div 60 mod 60"
      using mult_div_mod_eq [of 60 "?sod div 60"] by (simp add: zdiv_zmult2_eq [symmetric])
    then show ?thesis using mult_div_mod_eq [of 60 ?sod] mult_div_mod_eq [of 86400 ?s] by linarith
  qed
  finally show ?thesis .
qed

lemma id_time_read_back_witness:
  "id_created_at (new_ticket_id sample_request 1764000000123456) = Some 1764000000000000"
proof -
  have "civil_of_days (1764000000123456 div 86400000000) = (2025, 11, 24)" by code_simp
  from id_time_read_back [OF this, of sample_request] show ?thesis by simp
qed

end
