(* ===== verification/Dedup.thy ===== *)
theory Dedup
  imports Epic
begin

text \<open>
  The duplicate check before a ticket is filed or refined, \<open>core/dedup.py\<close>: what a text names (paths,
  symbols, its declared scope), the gates a recent ticket passes to count as the same work, and the
  advisory notes for a draft and for the children of an epic.
\<close>

section \<open>What a text names\<close>

text \<open>Runs of other characters are one space, none at the ends.\<close>

definition normalize :: "string \<Rightarrow> string" where
  "normalize s =
     join '' '' (filter (\<lambda>v. v \<noteq> []) (split_on (\<lambda>c. \<not> (is_lower c \<or> is_digit c)) (lower s)))"

definition BACKTICK_RE :: rx where
  "BACKTICK_RE =
     seqs [chr_rx (CHR ''`''), Grp 1 (plus_rx (Cls (\<lambda>c. c \<noteq> CHR ''`''))), chr_rx (CHR ''`'')]"

definition is_punct_only :: "string \<Rightarrow> bool" where
  "is_punct_only s \<longleftrightarrow> s \<noteq> [] \<and> list_all (\<lambda>c. \<not> word_char c \<or> c = CHR ''_'') s"

definition extract_concern_tokens :: "string \<Rightarrow> string list" where
  "extract_concern_tokens s =
     filter (\<lambda>v. \<not> is_punct_only v \<and> fullmatch PATH_TOKEN_RE v = None)
       (dedup_first (map (\<lambda>m. strip (or_empty (snd m 1))) (finditer BACKTICK_RE s)))"

definition heading_title :: "string \<Rightarrow> string" where
  "heading_title s = lower (strip (lstrip_by (\<lambda>c. c = CHR ''#'') s))"

text \<open>
  The lines of the sections that declare what is changed. The flags: inside a section to capture,
  inside a fenced file map.
\<close>

fun scope_lines :: "bool \<Rightarrow> bool \<Rightarrow> string list \<Rightarrow> string list" where
  "scope_lines capturing fenced [] = []"
| "scope_lines capturing fenced (l # ls) =
     (let s = strip l
      in if startswith ''```'' s then
           scope_lines capturing (\<not> fenced \<and> lower (strip (drop 3 s)) = ''file_map'') ls
         else if fenced then l # scope_lines capturing fenced ls
         else if startswith ''#'' s then
           (let t = heading_title s
            in scope_lines (\<not> startswith ''out of scope'' t
                 \<and> list_ex (\<lambda>p. startswith p t) [''scope'', ''acceptance'', ''file map'', ''file_map'']) fenced ls)
         else if capturing then l # scope_lines capturing fenced ls
         else scope_lines capturing fenced ls)"

definition scope_paths :: "string \<Rightarrow> string list" where
  "scope_paths s = extract_paths (join nl (scope_lines False False (splitlines s)))"

text \<open>
  The lines outside of regions marked as out of scope: after such a heading up to the next heading,
  after such a line up to the next blank one.
\<close>

datatype exclusion = Included | HeadingExclusion | InlineExclusion

definition marker_text :: "string \<Rightarrow> string" where
  "marker_text s = lower (strip (lstrip_by (\<lambda>c. c \<in> {CHR ''#'', CHR ''*'', CHR ''-'', CHR '' ''}) s))"

fun in_scope_lines :: "exclusion \<Rightarrow> string list \<Rightarrow> string list" where
  "in_scope_lines m [] = []"
| "in_scope_lines m (l # ls) =
     (let s = strip l
      in if startswith ''#'' s then
           in_scope_lines (if list_ex (\<lambda>p. startswith p (marker_text s))
                [''out of scope'', ''explicitly out of scope'', ''reference'', ''see also'', ''related work'']
              then HeadingExclusion else Included) ls
         else if m = InlineExclusion \<and> s = [] then l # in_scope_lines Included ls
         else if m \<noteq> Included then in_scope_lines m ls
         else if list_ex (\<lambda>p. startswith p (marker_text s)) [''out of scope'', ''explicitly out of scope'']
           then in_scope_lines InlineExclusion ls
         else l # in_scope_lines Included ls)"

definition paths_excluding_out_of_scope :: "string \<Rightarrow> string list" where
  "paths_excluding_out_of_scope s = extract_paths (join nl (in_scope_lines Included (splitlines s)))"

section \<open>The fingerprint of a CI failure\<close>

definition CI_DRAFT_META_PREFIXES :: "string list" where
  "CI_DRAFT_META_PREFIXES =
     [''**Workflow:**'', ''**Path:**'', ''**Branch:**'', ''**Run:**'', ''**Commit:**'', ''**Created:**'']"

definition ANSI_ESCAPE_RE :: rx where
  "ANSI_ESCAPE_RE =
     seqs [chr_rx (CHR 0x1B), chr_rx (CHR ''[''), star_rx (Cls (\<lambda>c. is_digit c \<or> c = CHR '';'')), Cls is_letter]"

definition digits_rx :: "nat \<Rightarrow> rx" where
  "digits_rx n = Rep n (Some n) (Cls is_digit)"

definition ISO8601_RE :: rx where
  "ISO8601_RE =
     seqs [digits_rx 4, chr_rx (CHR ''-''), digits_rx 2, chr_rx (CHR ''-''), digits_rx 2,
           Cls (\<lambda>c. c = CHR ''T'' \<or> c = CHR '' ''), digits_rx 2, chr_rx (CHR '':''), digits_rx 2,
           chr_rx (CHR '':''), digits_rx 2, opt_rx (Cat (chr_rx (CHR ''.'')) (plus_rx (Cls is_digit))),
           opt_rx (Alt (chr_rx (CHR ''Z''))
             (seqs [Cls (\<lambda>c. c = CHR ''+'' \<or> c = CHR ''-''), digits_rx 2, chr_rx (CHR '':''), digits_rx 2]))]"

definition GH_RUN_URL_RE :: rx where
  "GH_RUN_URL_RE =
     (let name = plus_rx (Cls (\<lambda>c. c \<noteq> CHR ''/'' \<and> \<not> is_space c))
      in seqs [lit ''http'', opt_rx (chr_rx (CHR ''s'')), lit ''://github.com/'', name, chr_rx (CHR ''/''), name,
               lit ''/actions/runs/'', plus_rx (Cls is_digit), star_rx (Cls (\<lambda>c. \<not> is_space c))])"

definition ci_draft_line :: "string \<Rightarrow> string option" where
  "ci_draft_line l =
     (let s = strip l
      in if list_ex (\<lambda>p. startswith p s) CI_DRAFT_META_PREFIXES then None
         else (let c = rx_sub GH_RUN_URL_RE [] (rx_sub ISO8601_RE [] (rx_sub ANSI_ESCAPE_RE [] s))
               in if c = [] then None else Some c))"

definition ci_draft_fingerprint :: "externals \<Rightarrow> string \<Rightarrow> string \<Rightarrow> string" where
  "ci_draft_fingerprint x body path =
     (let collapsed = join '' '' (words (join '' '' (List.map_filter ci_draft_line (splitlines body))))
      in take 16 (sha256 x (if path = [] then collapsed else path @ nl @ collapsed)))"

section \<open>The gates of a candidate\<close>

text \<open>What the caller looks for, and how strict it is.\<close>

record dedup_query =
  target_files :: "string list"
  fingerprint_text :: string
  q_sources :: "string list option"
  lookback_days :: int
  exclude_ids :: "string list"
  require_scope :: bool
  target_concern_tokens :: "string list option"
  concern_min_overlap :: nat
  dedup_labels :: "string list"
  suppress_title_only :: bool

definition is_eligible_candidate :: "service \<Rightarrow> dedup_query \<Rightarrow> instant \<Rightarrow> Ticket \<Rightarrow> world \<Rightarrow> bool result" where
  "is_eligible_candidate svc q cutoff t w =
     (if tid t \<in> set (exclude_ids q) \<or> created_at t < cutoff \<or> tstate t = ERRORED then Inr False
      else if tstate t = CLOSED then
        (case history svc (tid t) None 0 ''asc'' w of
           Inl e \<Rightarrow> Inl e
         | Inr evs \<Rightarrow> Inr (list_ex (\<lambda>e. ev_state e = DONE) evs))
      else Inr True)"

datatype gate_answer = Match | Skip | Continue

definition candidate_labels :: "Ticket \<Rightarrow> json list" where
  "candidate_labels t =
     (if \<not> truthy (labels t) then []
      else (case loads (the (labels t)) of Some (JArr js) \<Rightarrow> js | _ \<Rightarrow> []))"

definition label_gate :: "dedup_query \<Rightarrow> Ticket \<Rightarrow> gate_answer" where
  "label_gate q t =
     (if dedup_labels q = [] then Continue
      else if list_ex (\<lambda>l. JStr l \<in> set (candidate_labels t)) (dedup_labels q) then Match
      else if list_ex (startswith ''ci_fp:'') (dedup_labels q) then Skip
      else Continue)"

definition is_path_strong :: "dedup_query \<Rightarrow> string list \<Rightarrow> string \<Rightarrow> bool" where
  "is_path_strong q matched body \<longleftrightarrow>
     2 \<le> length matched \<or> \<not> require_scope q \<or> hd matched \<in> set (scope_paths body)"

definition concern_gate :: "dedup_query \<Rightarrow> string list \<Rightarrow> string \<Rightarrow> string \<Rightarrow> bool" where
  "concern_gate q tokens s body =
     (let cand = extract_concern_tokens (s @ nl @ body)
      in if tokens \<noteq> [] \<and> cand \<noteq> [] then concern_min_overlap q \<le> card (set tokens \<inter> set cand)
         else concern_min_overlap q \<le> 1)"

text \<open>\<open>Workspace(workspaces_dir_for(t.board_id or board), t.id).read_description()\<close>.\<close>

definition read_body :: "string \<Rightarrow> Ticket \<Rightarrow> world \<Rightarrow> string result \<times> world" where
  "read_body b t w =
     (case make_workspace (if board_id t \<noteq> [] then board_id t else b) (tid t) w of
        (Inl e, w1) \<Rightarrow> (Inl e, w1)
      | (Inr k, w1) \<Rightarrow> (Inr (read_description (ws_dir w1 k)), w1))"

definition path_match :: "string \<Rightarrow> dedup_query \<Rightarrow> Ticket \<Rightarrow> world \<Rightarrow> bool result \<times> world" where
  "path_match b q t w =
     (if target_files q = [] then (Inr False, w)
      else (case read_body b t w of
              (Inl e, w1) \<Rightarrow> (Inl e, w1)
            | (Inr body, w1) \<Rightarrow>
                (let matched = filter (\<lambda>p. p \<noteq> [] \<and> contains p body) (target_files q)
                 in (Inr (matched \<noteq> [] \<and> is_path_strong q matched body
                       \<and> (case target_concern_tokens q of
                            None \<Rightarrow> True
                          | Some tokens \<Rightarrow> concern_gate q tokens (title t) body)), w1))))"

definition fingerprint_match :: "dedup_query \<Rightarrow> Ticket \<Rightarrow> bool" where
  "fingerprint_match q t =
     (let f = take 60 (normalize (fingerprint_text q))
      in \<not> suppress_title_only q \<and> f \<noteq> [] \<and> contains f (normalize (title t)))"

text \<open>The loop over the candidates.\<close>

fun first_match ::
    "service \<Rightarrow> string \<Rightarrow> dedup_query \<Rightarrow> instant \<Rightarrow> Ticket list \<Rightarrow> world \<Rightarrow> Ticket option result \<times> world" where
  "first_match svc b q cutoff [] w = (Inr None, w)"
| "first_match svc b q cutoff (t # ts) w =
     (case is_eligible_candidate svc q cutoff t w of
        Inl e \<Rightarrow> (Inl e, w)
      | Inr ok \<Rightarrow>
          if \<not> ok \<or> label_gate q t = Skip then first_match svc b q cutoff ts w
          else if label_gate q t = Match then (Inr (Some t), w)
          else (case path_match b q t w of
                  (Inl e, w1) \<Rightarrow> (Inl e, w1)
                | (Inr hit, w1) \<Rightarrow>
                    if hit \<or> fingerprint_match q t then (Inr (Some t), w1)
                    else first_match svc b q cutoff ts w1))"

text \<open>Any failure is logged and is no match.\<close>

definition find_prior_matching_ticket ::
    "service \<Rightarrow> string \<Rightarrow> dedup_query \<Rightarrow> instant \<Rightarrow> world \<Rightarrow> Ticket option \<times> world" where
  "find_prior_matching_ticket svc b q now w =
     (case recent_tickets svc 200 (q_sources q) None w of
        Inl e \<Rightarrow> (None, w)
      | Inr ts \<Rightarrow>
          (case first_match svc b q (now - lookback_days q * 86400 * 1000000) ts w of
             (Inl e, w1) \<Rightarrow> (None, w1)
           | (Inr r, w1) \<Rightarrow> (r, w1)))"

section \<open>The advisory notes\<close>

definition ellipsis :: string where
  "ellipsis = [CHR 0xE2, CHR 0x80, CHR 0xA6]"

definition describe_recent_signal ::
    "string \<Rightarrow> Ticket \<Rightarrow> string list \<Rightarrow> string list \<Rightarrow> world \<Rightarrow> string \<times> world" where
  "describe_recent_signal b t paths tokens w =
     (if paths = [] then (''title overlap'', w)
      else (case read_body b t w of
              (Inl e, w1) \<Rightarrow> (''title overlap'', w1)
            | (Inr body, w1) \<Rightarrow>
                (let matched = filter (\<lambda>p. p \<noteq> [] \<and> contains p body) paths
                 in if \<not> (2 \<le> length matched \<or> (length matched = 1 \<and> hd matched \<in> set (scope_paths body)))
                    then (''title overlap'', w1)
                    else (let desc = ''file path `'' @ hd matched @ ''`'';
                              cand = extract_concern_tokens (title t @ nl @ body);
                              symbols = sort_key str_key (filter (\<lambda>v. v \<in> set cand) tokens)
                          in if symbols = [] then (desc, w1)
                             else (desc @ '' (symbol `'' @ join ''`, `'' (take 3 symbols)
                                     @ (if 3 < length symbols then ''`, '' @ ellipsis else []) @ ''`)'', w1)))))"

definition annotate_child_body :: "string \<Rightarrow> string \<Rightarrow> string \<Rightarrow> string" where
  "annotate_child_body body msg source_desc =
     ''> [!warning] '' @ msg @ nl @ ''>'' @ nl @ ''> _Advisory flag from '' @ source_desc
     @ ''; verify and close as duplicate during refine if confirmed._'' @ nl @ nl @ body"

definition possible_duplicate :: "Ticket \<Rightarrow> string \<Rightarrow> string" where
  "possible_duplicate t signal =
     ''Possible duplicate of '' @ tid t @ '' ('' @ py_repr (title t) @ '') '' @ em_dash @ '' matched on '' @ signal"

definition inflight_query :: "int \<Rightarrow> string \<Rightarrow> string \<Rightarrow> string \<Rightarrow> string list \<Rightarrow> dedup_query" where
  "inflight_query days i s body ls =
     \<lparr>target_files = extract_paths body, fingerprint_text = s, q_sources = None, lookback_days = days,
      exclude_ids = [i], require_scope = True,
      target_concern_tokens = Some (extract_concern_tokens (s @ nl @ body)), concern_min_overlap = 3,
      dedup_labels = ls, suppress_title_only = True\<rparr>"

definition find_inflight_overlap ::
    "service \<Rightarrow> int \<Rightarrow> string \<Rightarrow> string \<Rightarrow> string \<Rightarrow> string list \<Rightarrow> instant \<Rightarrow> world \<Rightarrow> string option \<times> world" where
  "find_inflight_overlap svc days i s body ls now w =
     (case find_prior_matching_ticket svc (svc_board svc) (inflight_query days i s body ls) now w of
        (None, w1) \<Rightarrow> (None, w1)
      | (Some t, w1) \<Rightarrow>
          (let (signal, w2) = describe_recent_signal (svc_board svc) t (extract_paths body)
                 (extract_concern_tokens (s @ nl @ body)) w1
           in (Some (possible_duplicate t signal), w2)))"

definition proposal_fingerprint :: "string \<Rightarrow> string \<Rightarrow> string" where
  "proposal_fingerprint sec rule =
     (let l = strip (lstrip_by (\<lambda>c. c = CHR ''#'') sec); r = join '' '' (words rule);
          snippet = (if take_chars 80 r = r then r else rstrip (take_chars 79 r) @ ellipsis)
      in ''AGENT.md: '' @ (if l = [] then ''AGENT.md'' else l) @ '' '' @ em_dash @ '' ''
         @ (if snippet = [] then ''proposed rule'' else snippet))"

definition find_agent_md_proposal_overlap ::
    "service \<Rightarrow> int \<Rightarrow> string \<Rightarrow> string \<Rightarrow> string list \<Rightarrow> instant \<Rightarrow> world \<Rightarrow> Ticket option \<times> world" where
  "find_agent_md_proposal_overlap svc days sec rule ex now w =
     find_prior_matching_ticket svc (svc_board svc)
       \<lparr>target_files = [], fingerprint_text = proposal_fingerprint sec rule, q_sources = None,
        lookback_days = days, exclude_ids = ex, require_scope = False, target_concern_tokens = None,
        concern_min_overlap = 1, dedup_labels = [], suppress_title_only = False\<rparr> now w"

section \<open>The children of an epic\<close>

definition child_query :: "int \<Rightarrow> string list \<Rightarrow> string \<Rightarrow> string \<Rightarrow> dedup_query" where
  "child_query days ex s body =
     \<lparr>target_files = extract_paths body, fingerprint_text = s, q_sources = None, lookback_days = days,
      exclude_ids = ex, require_scope = True,
      target_concern_tokens = Some (extract_concern_tokens (s @ nl @ body)), concern_min_overlap = 1,
      dedup_labels = [], suppress_title_only = False\<rparr>"

text \<open>
  An earlier child of the batch that shares a path, or whose title holds or is held by this one's:
  the first such child decides. The least path is the first in the order of texts.
\<close>

definition least_text :: "string list \<Rightarrow> string" where
  "least_text ps = hd (sort_key str_key ps)"

fun batch_overlap :: "nat \<Rightarrow> string \<Rightarrow> string list \<Rightarrow> (string \<times> string list) list \<Rightarrow> string option" where
  "batch_overlap j s paths [] = None"
| "batch_overlap j s paths (a # as) =
     (let shared = filter (\<lambda>p. p \<in> set (snd a)) paths
      in if shared \<noteq> [] then
           Some (''Possible duplicate of sibling #'' @ show_nat j @ '' in this batch '' @ em_dash
             @ '' shared file path `'' @ least_text shared @ ''`'')
         else if s \<noteq> [] \<and> fst a \<noteq> [] \<and> (contains s (fst a) \<or> contains (fst a) s) then
           Some (''Possible duplicate of sibling #'' @ show_nat j @ '' in this batch '' @ em_dash
             @ '' overlapping title'')
         else batch_overlap (Suc j) s paths as)"

definition recent_note ::
    "service \<Rightarrow> int \<Rightarrow> string list \<Rightarrow> string \<times> string \<Rightarrow> instant \<Rightarrow> world \<Rightarrow> string option \<times> world" where
  "recent_note svc days ex c now w =
     (case find_prior_matching_ticket svc (svc_board svc) (child_query days ex (fst c) (snd c)) now w of
        (None, w1) \<Rightarrow> (None, w1)
      | (Some t, w1) \<Rightarrow>
          (let (signal, w2) = describe_recent_signal (svc_board svc) t (extract_paths (snd c))
                 (extract_concern_tokens (fst c @ nl @ snd c)) w1
           in (Some (possible_duplicate t signal), w2)))"

fun overlap_notes ::
    "service \<Rightarrow> int \<Rightarrow> string list \<Rightarrow> instant \<Rightarrow> (string \<times> string list) list \<Rightarrow> (string \<times> string) list \<Rightarrow> world \<Rightarrow>
     string option list \<times> world" where
  "overlap_notes svc days ex now accepted [] w = ([], w)"
| "overlap_notes svc days ex now accepted (c # cs) w =
     (let (recent, w1) = recent_note svc days ex c now w;
          me = (normalize (fst c), extract_paths (snd c));
          here = (if recent = None then batch_overlap 0 (fst me) (snd me) accepted else recent);
          (notes, w2) = overlap_notes svc days ex now (accepted @ [me]) cs w1
      in (here # notes, w2))"

definition find_child_overlaps ::
    "service \<Rightarrow> int \<Rightarrow> string \<Rightarrow> (string \<times> string) list \<Rightarrow> instant \<Rightarrow> world \<Rightarrow> string option list \<times> world" where
  "find_child_overlaps svc days epic cs now w =
     (let ex = epic # (case list_children svc epic w of Inl e \<Rightarrow> [] | Inr ts \<Rightarrow> map tid ts)
      in overlap_notes svc days ex now [] cs w)"

end
