(* ===== verification/Breakdown.thy ===== *)
theory Breakdown
  imports Dedup
begin

text \<open>
  The children of an epic after a comment: the dependencies planned for a batch of new children,
  \<open>agents/epic_breakdown.py\<close>, and the re-processing of the epic, \<open>runtime/worker/epic.py\<close>. The agent
  that proposes the children is a parameter, and so is the order in which Python walks through a set
  of texts, which differs from run to run. And the test for a branch that may be deleted.
\<close>

section \<open>Children that create a repository\<close>

definition blank_rx :: rx where
  "blank_rx = Cls (\<lambda>c. c = CHR '' '' \<or> c = CHR 0x09)"

definition any_rx :: rx where
  "any_rx = Cls (\<lambda>_. True)"

definition repository_rx :: rx where
  "repository_rx = Cat (lit_ci ''repositor'') (Alt (lit_ci ''y'') (lit_ci ''ies''))"

definition INIT_REPO_RE :: rx where
  "INIT_REPO_RE =
     Alt (seqs [lit_ci ''create'', plus_rx (Cls is_space), lit_ci ''repo'',
                opt_rx (Cat (lit_ci ''sitor'') (Alt (lit_ci ''y'') (lit_ci ''ies''))), WordB])
         (seqs [WordB,
                alts [seqs [lit_ci ''initiali'', Cls (\<lambda>c. lower_char c \<in> {CHR ''s'', CHR ''z''}), lit_ci ''e''],
                      lit_ci ''scaffold'', lit_ci ''bootstrap'',
                      seqs [lit_ci ''set'', star_rx (Cls is_space), lit_ci ''up'']],
                WordB, Lazy (Cls (\<lambda>c. c \<noteq> CHR 0x0A)), WordB, repository_rx, WordB])"

type_synonym child = "string \<times> string \<times> string"

definition is_init_repo_child :: "string \<Rightarrow> string \<Rightarrow> bool" where
  "is_init_repo_child s body \<longleftrightarrow> rx_search INIT_REPO_RE s \<or> rx_search INIT_REPO_RE body"

section \<open>Edges inside one repository\<close>

text \<open>A dictionary of dependencies, in the order of insertion.\<close>

type_synonym edges = "(string \<times> string list) list"

fun chain_edges :: "string option \<Rightarrow> string list \<Rightarrow> edges \<Rightarrow> edges" where
  "chain_edges pred [] es = es"
| "chain_edges pred (c # cs) es =
     chain_edges (Some c) cs (case pred of None \<Rightarrow> es | Some p \<Rightarrow> AList.update c [p] es)"

fun star_edges :: "nat \<Rightarrow> string \<Rightarrow> nat \<Rightarrow> string list \<Rightarrow> edges \<Rightarrow> edges" where
  "star_edges k hub i [] es = es"
| "star_edges k hub i (c # cs) es =
     star_edges k hub (Suc i) cs (if i = k then es else AList.update c [hub] es)"

fun init_index :: "nat \<Rightarrow> child list \<Rightarrow> nat option" where
  "init_index i [] = None"
| "init_index i (c # cs) =
     (if is_init_repo_child (fst (snd c)) (snd (snd c)) then Some i else init_index (Suc i) cs)"

definition compute_base_edges :: "child list \<Rightarrow> string option \<Rightarrow> edges" where
  "compute_base_edges cs pred =
     (case init_index 0 cs of
        Some k \<Rightarrow>
          (let hub = fst (cs ! k)
           in star_edges k hub 0 (map fst cs) (case pred of None \<Rightarrow> [] | Some p \<Rightarrow> [(hub, [p])]))
      | None \<Rightarrow> chain_edges pred (map fst cs) [])"

section \<open>Prerequisites between repositories\<close>

definition PREREQ_SECTION_RE :: rx where
  "PREREQ_SECTION_RE =
     seqs [LineStart, star_rx blank_rx, lit ''##'', plus_rx blank_rx, lit ''Prerequisites'', star_rx blank_rx,
           LineEnd, chr_rx (CHR 0x0A), Grp 1 (Lazy any_rx),
           Look (Alt (seqs [LineStart, star_rx blank_rx, lit ''##'', blank_rx]) TextEnd)]"

definition PREREQ_FENCE_RE :: rx where
  "PREREQ_FENCE_RE =
     seqs [lit ''```prereq'', star_rx blank_rx, chr_rx (CHR 0x0A), Grp 1 (Lazy any_rx),
           LineStart, star_rx blank_rx, lit ''```'']"

definition module_rx :: rx where
  "module_rx = plus_rx (Cls (\<lambda>c. word_char c \<or> c = CHR ''.''))"

definition IMPORT_RE :: rx where
  "IMPORT_RE = seqs [lit ''import'', plus_rx (Cls is_space), Grp 1 module_rx, TextEnd]"

definition SYMBOL_RE :: rx where
  "SYMBOL_RE =
     seqs [lit ''symbol'', plus_rx (Cls is_space), Grp 1 (plus_rx (Cls word_char)), plus_rx (Cls is_space),
           lit ''from'', plus_rx (Cls is_space), Grp 2 module_rx, TextEnd]"

definition top_level_module :: "string \<Rightarrow> string" where
  "top_level_module s = takeWhile (\<lambda>c. c \<noteq> CHR ''.'') s"

definition prereq_package :: "string \<Rightarrow> string option" where
  "prereq_package l =
     (let s = strip l
      in case match_start IMPORT_RE s of
           Some g \<Rightarrow> map_option top_level_module (g 1)
         | None \<Rightarrow>
             (case match_start SYMBOL_RE s of
                Some g \<Rightarrow> map_option top_level_module (g 2)
              | None \<Rightarrow> None))"

definition parse_prereq_packages :: "string \<Rightarrow> string list" where
  "parse_prereq_packages body =
     (case search_group PREREQ_SECTION_RE body of
        None \<Rightarrow> []
      | Some sec \<Rightarrow>
          (case search_group PREREQ_FENCE_RE sec of
             None \<Rightarrow> []
           | Some fence \<Rightarrow> dedup_first (List.map_filter prereq_package (splitlines fence))))"

type_synonym set_order = "string list \<Rightarrow> string list"

definition build_child_repo_map :: "(string \<times> string) list \<Rightarrow> (string \<Rightarrow> string) \<Rightarrow> child list \<Rightarrow> (string \<times> string) list" where
  "build_child_repo_map repos board_of_child cs =
     fold (\<lambda>c m. case find (\<lambda>rc. snd rc = board_of_child (fst c)) repos of
             None \<Rightarrow> m | Some rc \<Rightarrow> AList.update (fst c) (fst rc) m) cs []"

definition package_of_repo :: "string \<Rightarrow> string" where
  "package_of_repo r = map (\<lambda>c. if c = CHR ''-'' then CHR ''_'' else c) (lower r)"

definition build_package_repo_map :: "string list \<Rightarrow> (string \<times> string) list" where
  "build_package_repo_map rs = fold (\<lambda>r. AList.update (package_of_repo r) r) rs []"

definition children_in_repo :: "(string \<times> string) list \<Rightarrow> string \<Rightarrow> string list" where
  "children_in_repo m r = map fst (filter (\<lambda>e. snd e = r) m)"

text \<open>The children of one consumer repository that need packages of one producer repository.\<close>

type_synonym bumps = "((string \<times> string) \<times> string list \<times> string list) list"

definition add_bump :: "string \<times> string \<Rightarrow> string \<Rightarrow> string \<Rightarrow> bumps \<Rightarrow> bumps" where
  "add_bump k i pkg bs =
     (let (consumers, packages) = (case map_of bs k of None \<Rightarrow> ([], []) | Some e \<Rightarrow> e)
      in AList.update k
           (if i \<in> set consumers then consumers else consumers @ [i],
            if pkg \<in> set packages then packages else packages @ [pkg]) bs)"

definition group_package ::
    "(string \<times> string) list \<Rightarrow> (string \<times> string) list \<Rightarrow> string \<Rightarrow> string \<Rightarrow> string \<Rightarrow> bumps \<Rightarrow> bumps" where
  "group_package child_repo packages i consumer pkg bs =
     (case map_of packages pkg of
        None \<Rightarrow> bs
      | Some producer \<Rightarrow>
          if producer = consumer \<or> children_in_repo child_repo producer = [] then bs
          else add_bump (consumer, producer) i pkg bs)"

definition group_bump_candidates ::
    "set_order \<Rightarrow> child list \<Rightarrow> (string \<times> string) list \<Rightarrow> (string \<times> string) list \<Rightarrow> bumps" where
  "group_bump_candidates ord cs child_repo packages =
     fold (\<lambda>c bs. case map_of child_repo (fst c) of
             None \<Rightarrow> bs
           | Some consumer \<Rightarrow>
               fold (group_package child_repo packages (fst c) consumer)
                 (ord (parse_prereq_packages (snd (snd c)))) bs) cs []"

section \<open>Bump children\<close>

definition pin_title :: "string \<Rightarrow> string \<Rightarrow> string \<Rightarrow> string" where
  "pin_title consumer producer pkgs =
     ''Bump '' @ consumer @ [CHR 0x27] @ ''s '' @ producer @ '' pin to include '' @ pkgs"

definition pin_body :: "string \<Rightarrow> string \<Rightarrow> string \<Rightarrow> string" where
  "pin_body consumer producer pkgs =
     ''## Scope'' @ nl @ nl
     @ ''Bump the git-rev pin of `'' @ producer @ ''` in `'' @ consumer
     @ ''`'' @ [CHR 0x27] @ ''s `pyproject.toml` to the latest commit on `'' @ producer
     @ ''`'' @ [CHR 0x27] @ ''s default branch, then regenerate the lockfile so that the following symbols become importable: ''
     @ pkgs @ ''.'' @ nl @ nl @ ''## Steps'' @ nl @ nl
     @ ''1. Determine the latest commit hash of `'' @ producer
     @ ''` on its default branch (the producer children have merged by this point).'' @ nl
     @ ''2. Update `pyproject.toml`: change the `rev` for the `'' @ producer @ ''` dependency to the new hash.'' @ nl
     @ ''3. Run `uv lock --upgrade-package '' @ hd (words pkgs) @ ''`.'' @ nl
     @ ''4. Commit both `pyproject.toml` and `uv.lock`.'' @ nl @ nl
     @ ''## Acceptance criteria'' @ nl @ nl
     @ ''- `pyproject.toml` pins `'' @ producer @ ''` to a commit that includes the symbols: '' @ pkgs @ ''.'' @ nl
     @ ''- `uv.lock` is regenerated and consistent.'' @ nl"

text \<open>Filing a child: its id, or an error.\<close>

type_synonym file_child = "string \<Rightarrow> string \<Rightarrow> world \<Rightarrow> string result \<times> world"

definition create_bump_child ::
    "file_child \<Rightarrow> string \<Rightarrow> string \<Rightarrow> string list \<Rightarrow> string list \<Rightarrow> string list \<Rightarrow> world \<Rightarrow> edges \<times> world" where
  "create_bump_child file consumer producer consumers producers packages w =
     (let pkgs = join '', '' (sort_key str_key packages)
      in case file (pin_title consumer producer pkgs) (pin_body consumer producer pkgs) w of
           (Inl e, w1) \<Rightarrow> ([], w1)
         | (Inr bump, w1) \<Rightarrow> ((bump, producers) # map (\<lambda>i. (i, [bump])) consumers, w1))"

fun create_bumps ::
    "file_child \<Rightarrow> (string \<times> string) list \<Rightarrow> bumps \<Rightarrow> edges \<Rightarrow> world \<Rightarrow> edges \<times> world" where
  "create_bumps file child_repo [] es w = (es, w)"
| "create_bumps file child_repo (((consumer, producer), consumers, packages) # bs) es w =
     (let (new, w1) = create_bump_child file consumer producer consumers
                        (children_in_repo child_repo producer) packages w
      in create_bumps file child_repo bs (fold (\<lambda>e. AList.update (fst e) (snd e)) new es) w1)"

definition detect_cross_repo_deps ::
    "set_order \<Rightarrow> (string \<times> string) list \<Rightarrow> (string \<Rightarrow> string) \<Rightarrow> file_child \<Rightarrow> child list \<Rightarrow> world \<Rightarrow> edges \<times> world" where
  "detect_cross_repo_deps ord repos board_of_child file cs w =
     (let child_repo = build_child_repo_map repos board_of_child cs;
          present = ord (dedup_first (map snd child_repo))
      in if length present \<le> 1 then ([], w)
         else create_bumps file child_repo
                (group_bump_candidates ord cs child_repo (build_package_repo_map present)) [] w)"

definition add_edges :: "string \<times> string list \<Rightarrow> edges \<Rightarrow> edges" where
  "add_edges e es =
     AList.update (fst e) (case map_of es (fst e) of None \<Rightarrow> snd e | Some deps \<Rightarrow> deps @ snd e) es"

text \<open>The registry is nothing when it cannot be read.\<close>

definition plan_child_dependencies ::
    "set_order \<Rightarrow> (string \<times> string) list option \<Rightarrow> (string \<Rightarrow> string) \<Rightarrow> file_child \<Rightarrow> string option \<Rightarrow>
     child list \<Rightarrow> world \<Rightarrow> edges \<times> world" where
  "plan_child_dependencies ord repos board_of_child file pred cs w =
     (if cs = [] then ([], w)
      else (let base = compute_base_edges cs pred
            in case repos of
                 None \<Rightarrow> (base, w)
               | Some rs \<Rightarrow>
                   (let (extra, w1) = detect_cross_repo_deps ord rs board_of_child file cs w
                    in (fold add_edges extra base, w1))))"

section \<open>Re-processing an epic\<close>

record breakdown =
  child_titles :: "string list"
  child_bodies :: "string list"
  child_repo_ids :: "string list"

definition comment_stamp :: "instant \<Rightarrow> string" where
  "comment_stamp i =
     (let s = i div 1000000; sod = s mod 86400; (y, m, d) = civil_of_days (s div 86400)
      in pad 4 y @ ''-'' @ pad 2 m @ ''-'' @ pad 2 d @ '' ''
         @ pad 2 (sod div 3600) @ '':'' @ pad 2 (sod div 60 mod 60) @ '':'' @ pad 2 (sod mod 60))"

definition comment_line :: "Comment \<Rightarrow> string" where
  "comment_line c =
     ''['' @ comment_stamp (c_created c) @ '']''
     @ (if c_parent c = None then '' '' else ''   '' @ [CHR 0xE2, CHR 0x86, CHR 0xB3] @ '' '')
     @ c_author c @ '': '' @ c_body c"

definition resolve_child_board_id :: "(string \<times> string) list option \<Rightarrow> string \<Rightarrow> string \<Rightarrow> string" where
  "resolve_child_board_id repos epic_board r =
     (case repos of
        None \<Rightarrow> epic_board
      | Some rs \<Rightarrow>
          if \<not> has_text r then epic_board
          else (case map_of rs r of None \<Rightarrow> epic_board | Some b \<Rightarrow> b))"

text \<open>The proposals that no child is titled like; nothing when the lists differ in length, which raises.\<close>

definition new_proposals :: "Ticket list \<Rightarrow> breakdown \<Rightarrow> (string \<times> string \<times> string) list option" where
  "new_proposals existing r =
     (let n = length (child_titles r); rids = take n (child_repo_ids r @ replicate n [])
      in if length (child_bodies r) \<noteq> n then None
         else Some (filter (\<lambda>p. lower (strip (fst p)) \<notin> set (map (\<lambda>t. lower (strip (title t))) existing))
                      (zip (child_titles r) (zip (child_bodies r) rids))))"

definition breakdown_request :: "string \<Rightarrow> string \<Rightarrow> string \<Rightarrow> string \<Rightarrow> create_request" where
  "breakdown_request epic s body tok =
     \<lparr>r_title = s, r_description = body, r_source = ''user'', r_origin_session = None, r_depends_on = None,
      r_unblocks = None, r_kind = TASK, r_parent = Some epic, r_board = None, r_priority = False,
      r_initial = None, r_token = tok\<rparr>"

definition bound_service :: "settings \<Rightarrow> externals \<Rightarrow> string \<Rightarrow> service" where
  "bound_service st x b = \<lparr>settings_of = st, ext = x, svc_board = b, has_callback = False\<rparr>"

definition flagged_body :: "string \<Rightarrow> string option \<Rightarrow> string" where
  "flagged_body body msg =
     (case msg of None \<Rightarrow> body | Some m \<Rightarrow> annotate_child_body body m ''epic-decomposition pre-filing dedup'')"

fun create_children ::
    "settings \<Rightarrow> externals \<Rightarrow> (world \<Rightarrow> string) \<Rightarrow> string \<Rightarrow> string \<Rightarrow>
     ((string \<times> string \<times> string) \<times> string option) list \<Rightarrow> world \<Rightarrow> child list result \<times> world" where
  "create_children st x fresh epic b [] w = (Inr [], w)"
| "create_children st x fresh epic b (((s, body, r), msg) # ps) w =
     (let body1 = flagged_body body msg;
          svc = bound_service st x (resolve_child_board_id (repos_config st) b r)
      in case create_ticket svc (breakdown_request epic s body1 (fresh w)) w of
           (Inl e, w1) \<Rightarrow> (Inl e, w1)
         | (Inr t, w1) \<Rightarrow>
             (case create_children st x fresh epic b ps w1 of
                (Inl e, w2) \<Rightarrow> (Inl e, w2)
              | (Inr cs, w2) \<Rightarrow> (Inr ((tid t, s, body1) # cs), w2)))"

definition file_child_on :: "service \<Rightarrow> (world \<Rightarrow> string) \<Rightarrow> string \<Rightarrow> file_child" where
  "file_child_on svc fresh epic s body w =
     (case create_ticket svc (breakdown_request epic s body (fresh w)) w of
        (Inl e, w1) \<Rightarrow> (Inl e, w1)
      | (Inr t, w1) \<Rightarrow> (Inr (tid t), w1))"

fun store_edges :: "service \<Rightarrow> edges \<Rightarrow> world \<Rightarrow> world" where
  "store_edges svc [] w = w"
| "store_edges svc (e # es) w =
     (case set_depends_on svc (fst e) (snd e) w of
        (Inl _, w1) \<Rightarrow> w1
      | (Inr _, w1) \<Rightarrow> store_edges svc es w1)"

definition file_breakdown ::
    "settings \<Rightarrow> externals \<Rightarrow> int \<Rightarrow> (world \<Rightarrow> string) \<Rightarrow> set_order \<Rightarrow> string \<Rightarrow> string \<Rightarrow> breakdown \<Rightarrow> world \<Rightarrow> world" where
  "file_breakdown st x days fresh ord epic b r w =
     (let svc = bound_service st x b; existing = list_children_across_boards svc epic w
      in case new_proposals existing r of
           None \<Rightarrow> w
         | Some ps \<Rightarrow>
             if ps = [] then w
             else (let (notes, w1) = find_child_overlaps svc days epic (map (\<lambda>p. (fst p, fst (snd p))) ps) (clock w) w
                   in case create_children st x fresh epic b (zip ps notes) w1 of
                        (Inl _, w2) \<Rightarrow> w2
                      | (Inr cs, w2) \<Rightarrow>
                          (let pred = (if existing = [] then None else Some (tid (last existing)));
                               board_of = (\<lambda>i. case get_ticket (bound_service st x []) i w2 of
                                                 None \<Rightarrow> b | Some t \<Rightarrow> board_id t);
                               (es, w3) = plan_child_dependencies ord (repos_config st) board_of
                                            (file_child_on svc fresh epic) pred cs w2
                           in store_edges svc es w3)))"

text \<open>
  The agent sees the title, the description, the comments, the repositories and the epic's own one;
  it takes its time, so it also returns the world it ends in.
\<close>

type_synonym breakdown_agent =
  "string \<Rightarrow> string \<Rightarrow> string \<Rightarrow> (string \<times> string) list \<Rightarrow> string \<Rightarrow> world \<Rightarrow> breakdown option \<times> world"

definition run_epic_reprocess ::
    "settings \<Rightarrow> externals \<Rightarrow> int \<Rightarrow> (world \<Rightarrow> string) \<Rightarrow> set_order \<Rightarrow> breakdown_agent \<Rightarrow> string \<Rightarrow> string \<Rightarrow>
     world \<Rightarrow> world" where
  "run_epic_reprocess st x days fresh ord agent epic_id known_board w =
     (case (if known_board \<noteq> [] then Some known_board
            else map_option board_id (get_ticket (bound_service st x []) epic_id w)) of
        None \<Rightarrow> w
      | Some b \<Rightarrow>
          (let svc = bound_service st x b
           in case get_ticket svc epic_id w of
                None \<Rightarrow> w
              | Some epic \<Rightarrow>
                  (case open_workspace svc epic w of
                     (Inl _, w1) \<Rightarrow> w1
                   | (Inr k, w1) \<Rightarrow>
                       (case list_comments svc epic_id w1 of
                          Inl _ \<Rightarrow> w1
                        | Inr cs \<Rightarrow>
                            (let repos = (case repos_config st of None \<Rightarrow> [] | Some rs \<Rightarrow> rs);
                                 own = filter (\<lambda>rc. snd rc = b) repos
                             in case agent (title epic) (read_description (ws_dir w1 k))
                                  (join nl (map comment_line cs)) repos (if own = [] then [] else fst (last own)) w1 of
                                  (None, w2) \<Rightarrow> w2
                                | (Some r, w2) \<Rightarrow> file_breakdown st x days fresh ord epic_id b r w2)))))"

section \<open>Stale branches\<close>

record BranchInfo =
  b_name :: string
  last_commit_at :: instant
  is_protected :: bool

definition branch_is_stale :: "BranchInfo \<Rightarrow> instant \<Rightarrow> int \<Rightarrow> string \<Rightarrow> string list \<Rightarrow> bool \<Rightarrow> string \<Rightarrow> bool" where
  "branch_is_stale b now max_age_days target_branch open_pr prefix_only mill_prefix \<longleftrightarrow>
     (if b_name b = target_branch then False
      else if is_protected b then False
      else if b_name b \<in> set open_pr then False
      else if now - max_age_days * 86400 * 1000000 \<le> last_commit_at b then False
      else \<not> (prefix_only \<and> \<not> startswith mill_prefix (b_name b)))"

end
