(* ===== verification/Followups.thy ===== *)
theory Followups
  imports Epic Chain Seed
begin

text \<open>
  What the re-evaluation of an epic guarantees, whatever the status agent answers: it acts through
  the service; what counts as delivered; the follow-up children it files stay within the cap and
  repeat no sibling; a child is only closed for a merged delivery.
\<close>

section \<open>Delivery as a chain of duplicates\<close>

text \<open>A ticket is merged when its last done event carries no closing prefix of another kind.\<close>

definition merged_at :: "service \<Rightarrow> world \<Rightarrow> string \<Rightarrow> bool" where
  "merged_at svc w i \<longleftrightarrow> get_ticket svc i w \<noteq> None
     \<and> (case done_event svc i w of None \<Rightarrow> False | Some e \<Rightarrow> close_prefix (or_empty (ev_note e)) = None)"

definition duplicate_of :: "service \<Rightarrow> world \<Rightarrow> string \<Rightarrow> string option" where
  "duplicate_of svc w i =
     (if get_ticket svc i w = None then None
      else (case done_event svc i w of
              None \<Rightarrow> None
            | Some e \<Rightarrow>
                (case close_prefix (or_empty (ev_note e)) of
                   None \<Rightarrow> None
                 | Some p \<Rightarrow>
                     if (p = DEDUP_DUPLICATE_PREFIX \<or> p = DEDUP_ALREADY_DONE_PREFIX)
                         \<and> canonical_of p (or_empty (ev_note e)) \<noteq> []
                     then Some (canonical_of p (or_empty (ev_note e))) else None)))"

fun hops :: "service \<Rightarrow> world \<Rightarrow> nat \<Rightarrow> string \<Rightarrow> string option" where
  "hops svc w 0 i = Some i"
| "hops svc w (Suc n) i = (case duplicate_of svc w i of None \<Rightarrow> None | Some c \<Rightarrow> hops svc w n c)"

lemma delivery_fields [simp]:
  "delivered (no_delivery s c) = False" "delivered merged_delivery" "\<not> delivered (satisfied_delivery s)"
  by (simp_all add: no_delivery_def merged_delivery_def satisfied_delivery_def Let_def)

lemma merged_not_duplicate: "merged_at svc w i \<Longrightarrow> duplicate_of svc w i = None"
  by (auto simp: merged_at_def duplicate_of_def split: option.splits)

lemma seen_not_delivered: "\<lbrakk>i \<in> set seen\<rbrakk> \<Longrightarrow> \<not> delivered (resolve_delivery svc w seen i)"
  by (subst resolve_delivery.simps) simp

text \<open>One step of the walk.\<close>

lemma delivered_step:
  "delivered (resolve_delivery svc w seen i) \<longleftrightarrow>
     i \<notin> set seen \<and> length seen \<le> 20
     \<and> (merged_at svc w i
        \<or> (case duplicate_of svc w i of None \<Rightarrow> False | Some c \<Rightarrow> delivered (resolve_delivery svc w (i # seen) c)))"
proof -
  have self: "\<not> delivered (resolve_delivery svc w (i # seen) c)" if "c = i \<or> c \<in> set seen" for c
    using that seen_not_delivered [of c "i # seen"] by auto
  show ?thesis
    by (subst resolve_delivery.simps)
      (auto simp: merged_at_def duplicate_of_def Let_def self split: option.splits)
qed

lemma delivered_hops:
  "delivered (resolve_delivery svc w seen i)
     \<Longrightarrow> \<exists>n j. n + length seen \<le> 20 \<and> hops svc w n i = Some j \<and> merged_at svc w j"
proof (induction "21 - length seen" arbitrary: seen i rule: less_induct)
  case less
  show ?case
  proof (cases "merged_at svc w i")
    case True
    then show ?thesis using less.prems unfolding delivered_step [of svc w seen i]
      by (intro exI [of _ 0] exI [of _ i]) simp
  next
    case False
    then obtain c where c: "duplicate_of svc w i = Some c" "length seen \<le> 20"
        "delivered (resolve_delivery svc w (i # seen) c)"
      using less.prems unfolding delivered_step [of svc w seen i] by (auto split: option.splits)
    obtain n j where "n + length (i # seen) \<le> 20" "hops svc w n c = Some j" "merged_at svc w j"
      using less.hyps [OF _ c(3)] c(2) by fastforce
    then show ?thesis using c(1) by (intro exI [of _ "Suc n"] exI [of _ j]) simp
  qed
qed

text \<open>A walk that ends at a merged ticket has one length only, so it meets no ticket twice.\<close>

lemma hops_length:
  "\<lbrakk>hops svc w n i = Some j; merged_at svc w j; hops svc w k i = Some l; merged_at svc w l\<rbrakk> \<Longrightarrow> n = k"
proof (induction n arbitrary: i k)
  case 0
  then show ?case by (cases k) (auto dest: merged_not_duplicate)
next
  case (Suc n)
  then show ?case by (cases k) (auto dest: merged_not_duplicate split: option.splits)
qed

lemma hops_delivered:
  "\<lbrakk>hops svc w n i = Some j; merged_at svc w j; n + length seen \<le> 20;
    \<forall>s \<in> set seen. \<forall>k l. hops svc w k s = Some l \<longrightarrow> merged_at svc w l \<longrightarrow> n < k\<rbrakk>
     \<Longrightarrow> delivered (resolve_delivery svc w seen i)"
proof (induction n arbitrary: seen i)
  case 0
  then have "i \<notin> set seen" by fastforce
  with 0 show ?case by (subst delivered_step) simp
next
  case (Suc n)
  then obtain c where c: "duplicate_of svc w i = Some c" "hops svc w n c = Some j"
    by (auto split: option.splits)
  have far: "\<forall>s \<in> set (i # seen). \<forall>k l. hops svc w k s = Some l \<longrightarrow> merged_at svc w l \<longrightarrow> n < k"
    using Suc.prems hops_length [OF Suc.prems(1,2)] by (metis Suc_lessD lessI set_ConsD)
  have "i \<notin> set seen" using Suc.prems by blast
  moreover have "delivered (resolve_delivery svc w (i # seen) c)"
    using Suc.prems c far by (intro Suc.IH) auto
  ultimately show ?case using c(1) Suc.prems(3) by (subst delivered_step) simp
qed

lemma delivered_iff_hops:
  "delivered (resolve_delivery svc w [] i) \<longleftrightarrow>
     (\<exists>n \<le> 20. \<exists>j. hops svc w n i = Some j \<and> merged_at svc w j)"
  using delivered_hops [of svc w "[]" i] hops_delivered [of svc w _ i _ "[]"] by auto

section \<open>Titles\<close>

lemma split_on_not_Nil [simp]: "split_on p s \<noteq> []"
  by (cases s) (auto split: list.split)

lemma words_ends:
  assumes "p c"
  shows "filter (\<lambda>v. v \<noteq> []) (split_on p (c # s)) = filter (\<lambda>v. v \<noteq> []) (split_on p s)"
    "filter (\<lambda>v. v \<noteq> []) (split_on p (s @ [c])) = filter (\<lambda>v. v \<noteq> []) (split_on p s)"
proof -
  have "split_on p (s @ [c]) = split_on p s @ [[]]"
    using assms by (induction s) (auto split: list.split)
  then show "filter (\<lambda>v. v \<noteq> []) (split_on p (s @ [c])) = filter (\<lambda>v. v \<noteq> []) (split_on p s)" by simp
qed (use assms in simp)

lemma words_strip:
  assumes "\<And>c. is_space c \<Longrightarrow> p (f c)"
  shows "filter (\<lambda>v. v \<noteq> []) (split_on p (map f (strip s))) = filter (\<lambda>v. v \<noteq> []) (split_on p (map f s))"
proof -
  have l: "filter (\<lambda>v. v \<noteq> []) (split_on p (map f (dropWhile is_space u))) = filter (\<lambda>v. v \<noteq> []) (split_on p (map f u))" for u
    using assms by (induction u) (simp_all add: words_ends(1))
  have r: "filter (\<lambda>v. v \<noteq> []) (split_on p (map f (rev (dropWhile is_space u)))) = filter (\<lambda>v. v \<noteq> []) (split_on p (map f (rev u)))" for u
    using assms by (induction u) (simp_all add: words_ends(2))
  show ?thesis by (simp add: strip_def strip_by_def rstrip_by_def lstrip_by_def r l)
qed

lemma lower_space [simp]: "is_space c \<Longrightarrow> \<not> is_lower (lower_char c) \<and> \<not> is_digit (lower_char c) \<and> lower_char c \<noteq> CHR ''_''"
  by (auto simp: is_space_def lower_char_def is_upper_def is_lower_def is_digit_def code_def)

lemma title_tokens_strip [simp]: "title_tokens (strip s) = title_tokens s"
proof -
  have two: "filter (\<lambda>v. v \<noteq> [] \<and> v \<notin> set TITLE_STOPWORDS) xs = filter (\<lambda>v. v \<notin> set TITLE_STOPWORDS) (filter (\<lambda>v. v \<noteq> []) xs)" for xs
    by simp
  then show ?thesis unfolding title_tokens_def lower_def by (subst (1 2) two) (simp only: words_strip lower_space simp_thms)
qed

lemma similar_strip [simp]: "titles_similar (strip a) b = titles_similar a b" "titles_similar a (strip b) = titles_similar a b"
  by (simp_all add: titles_similar_def)

section \<open>Filing follow-ups\<close>

lemma create_filed:
  assumes "create_ticket svc r w = (Inr t, w')"
  shows "tickets (board w' (effective_board svc r)) = tickets (board w (effective_board svc r)) @ [t]"
    "c \<noteq> effective_board svc r \<Longrightarrow> board w' c = board w c" "clock w' = clock w"
    "title t = r_title r" "parent_id t = r_parent r" "kind t = r_kind r" "tstate t = initial_state r"
  using assms
  by (auto simp: create_ticket_def Let_def make_workspace_def new_row_def insert_ticket_def
      split: option.splits prod.splits sum.splits if_splits)

lemma create_not_filed: "create_ticket svc r w = (Inl e, w') \<Longrightarrow> boards w' = boards w \<and> clock w' = clock w"
  by (auto simp: create_ticket_def Let_def make_workspace_def put_ws_def
      split: option.splits prod.splits sum.splits if_splits)

lemma satisfied_boards [simp]: "boards (snd (satisfied_children svc cs w)) = boards w"
  by (induction svc cs w rule: satisfied_children.induct)
    (auto simp: Let_def open_workspace_def make_workspace_def put_ws_def split: prod.splits sum.splits if_splits)

text \<open>A follow-up draft of an epic that repeats no live, empty-handed or satisfied sibling.\<close>

definition fresh_scope ::
    "string \<Rightarrow> string list \<Rightarrow> (string \<times> string) list \<Rightarrow> (string \<times> string \<times> string list) list \<Rightarrow> Ticket \<Rightarrow> bool" where
  "fresh_scope epic live_titles shut sat t \<longleftrightarrow>
     parent_id t = Some epic \<and> kind t = TASK \<and> tstate t = DRAFT
     \<and> list_all (\<lambda>s. \<not> titles_similar (title t) s)
         (live_titles @ map snd shut @ map (\<lambda>c. fst (snd c)) sat)"

lemma file_children_files:
  "file_children svc epic cap shut sat fresh specs n lt w = (n', lt', w') \<Longrightarrow>
    \<exists>rows. tickets (board w' (svc_board svc)) = tickets (board w (svc_board svc)) @ rows
      \<and> (board w')(svc_board svc := d) = (board w)(svc_board svc := d)
      \<and> lt' = lt @ map title rows \<and> n' = n + int (length rows) \<and> n' \<le> max n cap
      \<and> list_all (fresh_scope epic lt shut sat) rows
      \<and> sorted_wrt (\<lambda>a b. \<not> titles_similar (title b) (title a)) rows"
proof (induction specs arbitrary: n lt w)
  case Nil
  then show ?case by (intro exI [of _ "[]"]) simp
next
  case (Cons spec specs)
  let ?r = "child_request epic spec (fresh w)"
  consider "cap \<le> n" | "\<not> cap \<le> n" "\<not> admissible lt shut sat spec"
    | e w1 where "\<not> cap \<le> n" "admissible lt shut sat spec" "create_ticket svc ?r w = (Inl e, w1)"
    | t w1 where "\<not> cap \<le> n" "admissible lt shut sat spec" "create_ticket svc ?r w = (Inr t, w1)"
    by (metis old.sum.exhaust surj_pair)
  then show ?case
  proof cases
    case 1
    with Cons.prems show ?thesis by (intro exI [of _ "[]"]) simp
  next
    case 2
    with Cons.prems have "file_children svc epic cap shut sat fresh specs n lt w = (n', lt', w')" by simp
    then show ?thesis by (rule Cons.IH)
  next
    case 3
    then have "board w1 = board w" using create_not_filed [OF 3(3)] by (auto simp: board_def fun_eq_iff)
    with 3 Cons.IH [of n lt w1] Cons.prems show ?thesis by simp
  next
    case 4
    let ?title = "strip (dict_text spec ''title'')"
    have b: "effective_board svc ?r = svc_board svc" by (simp add: child_request_def effective_board_def)
    note t = create_filed [OF 4(3), unfolded b]
    have row: "title t = ?title" "fresh_scope epic lt shut sat t"
      using t 4(2) by (auto simp: child_request_def initial_state_def fresh_scope_def admissible_def Let_def
          list_all_iff list_ex_iff)
    from Cons.prems 4 have "file_children svc epic cap shut sat fresh specs (n + 1) (lt @ [?title]) w1 = (n', lt', w')"
      by simp
    from Cons.IH [OF this] obtain rows where rows:
      "tickets (board w' (svc_board svc)) = tickets (board w1 (svc_board svc)) @ rows"
      "(board w')(svc_board svc := d) = (board w1)(svc_board svc := d)"
      "lt' = (lt @ [?title]) @ map title rows" "n' = n + 1 + int (length rows)" "n' \<le> max (n + 1) cap"
      "list_all (fresh_scope epic (lt @ [?title]) shut sat) rows"
      "sorted_wrt (\<lambda>a b. \<not> titles_similar (title b) (title a)) rows" by blast
    have "(board w1)(svc_board svc := d) = (board w)(svc_board svc := d)" using t(2) by (auto simp: fun_eq_iff)
    moreover have "list_all (\<lambda>u. fresh_scope epic lt shut sat u \<and> \<not> titles_similar (title u) (title t)) rows"
      using rows(6) row(1) by (auto simp: fresh_scope_def list_all_iff)
    ultimately show ?thesis
      using rows row t(1) 4(1) by (intro exI [of _ "t # rows"]) (auto simp: list_all_iff)
  qed
qed

section \<open>A re-evaluation acts through the service\<close>

lemma workspaces_step: "w' = w\<lparr>workspaces := workspaces w'\<rparr> \<Longrightarrow> service_step x w w'"
  by (metis service_step.files)

lemma open_acts: "\<lbrakk>open_workspace svc t w = (r, w1); reaches x v w\<rbrakk> \<Longrightarrow> reaches x v w1"
  by (rule step_acts, assumption, rule workspaces_step)
    (auto simp: open_workspace_def make_workspace_def put_ws_def split: if_splits)

lemma summaries_acts: "reaches x v w \<Longrightarrow> reaches x v (snd (build_child_summaries svc cs w))"
proof (induction cs arbitrary: w)
  case (Cons c cs)
  obtain r w1 where o: "open_workspace svc c w = (r, w1)" by fastforce
  have a: "reaches x v w1" by (rule open_acts [OF o Cons.prems])
  obtain r2 w2 where b: "build_child_summaries svc cs w1 = (r2, w2)" by fastforce
  have "reaches x v w2" using Cons.IH [OF a] b by simp
  with a show ?case by (simp add: o b Let_def split: sum.split)
qed simp

lemma satisfied_acts: "reaches x v w \<Longrightarrow> reaches x v (snd (satisfied_children svc cs w))"
proof (induction cs arbitrary: w)
  case (Cons c cs)
  obtain r w1 where o: "open_workspace svc c w = (r, w1)" by fastforce
  have a: "reaches x v w1" by (rule open_acts [OF o Cons.prems])
  show ?case
    using Cons.IH [OF a] Cons.IH [OF Cons.prems]
    by (simp add: o Let_def case_prod_beta split: sum.split)
qed simp

lemma columns_acts:
  assumes "ext svc = x" "reaches x v w"
  shows "reaches x v (snd (set_content_hash svc i h w))" "reaches x v (snd (set_title svc i s w))"
    "reaches x v (snd (set_depends_on svc i ds w))"
proof -
  have c: "reaches x v (snd (set_columns svc i f w))"
    if "\<And>t. tid (f t) = tid t" "\<And>t. tstate (f t) = tstate t" "\<And>t. board_id (f t) = board_id t" for f
    by (rule step_acts [OF assms(2) service_step.columns [OF assms(1) that]])
  show "reaches x v (snd (set_content_hash svc i h w))" "reaches x v (snd (set_title svc i s w))"
    unfolding set_content_hash_def set_title_def by (rule c; simp)+
  have "reaches x v (snd (set_columns svc i (\<lambda>t. t\<lparr>depends_on := json_list ds\<rparr>) w))" by (rule c) simp_all
  then show "reaches x v (snd (set_depends_on svc i ds w))" using assms(2) by (simp add: set_depends_on_def)
qed

lemma rewrite_acts:
  assumes "ext svc = x" "reaches x v w"
  shows "reaches x v (snd (rewrite_description svc t i s w))"
proof -
  obtain r w1 where o: "open_workspace svc t w = (r, w1)" by fastforce
  have a: "reaches x v w1" by (rule open_acts [OF o assms(2)])
  have b: "reaches x v (put_ws k dir w1)" for k dir
    by (rule step_acts [OF a]) (rule workspaces_step, simp add: put_ws_def)
  have "reaches x v (snd (set_content_hash svc i h (put_ws k dir w1)))" for h k dir
    by (rule columns_acts(1) [OF assms(1) b])
  with a show ?thesis
    by (simp add: rewrite_description_def o Let_def case_prod_beta split: sum.split prod.split)
qed

lemma dep_updates_acts:
  "\<lbrakk>ext svc = x; reaches x v w\<rbrakk> \<Longrightarrow> reaches x v (snd (apply_dep_updates svc us w))"
proof (induction svc us w rule: apply_dep_updates.induct)
  case (2 svc u us w)
  then show ?case
    using columns_acts(3) [OF "2.prems", of "fst u" "case snd u of None \<Rightarrow> [] | Some deps \<Rightarrow> deps"]
    by (auto split: prod.split sum.split)
qed simp

lemma decision_acts:
  assumes x: "ext svc = x" and r: "reaches x v w"
  shows "reaches x v (snd (handle_epic_decision svc i epic r' w))"
proof -
  have t: "reaches x v (snd (transition svc i EPIC_CLOSED nt None w))" for nt
    by (rule step_acts [OF r service_step.transition [OF x]])
  have d: "reaches x v (snd (apply_dep_updates svc us w))" for us by (rule dep_updates_acts [OF x r])
  have n: "reaches x v (snd (rewrite_description svc epic i s w1))" if "reaches x v w1" for s w1
    by (rule rewrite_acts [OF x that])
  show ?thesis
  proof (cases "effective_decision r'")
    case Close_Epic
    then show ?thesis using t [of "Some (''[auto-closed] '' @ r_note r')"]
      by (simp add: handle_epic_decision_def case_prod_beta split: sum.split)
  next
    case Update_Deps
    obtain r1 w1 where u: "(case dep_updates r' of None \<Rightarrow> (Inr (), w) | Some us \<Rightarrow> apply_dep_updates svc us w) = (r1, w1)"
      by fastforce
    have "reaches x v w1"
    proof (cases "dep_updates r'")
      case (Some us)
      then show ?thesis using u d [of us] by simp
    qed (use u r in simp)
    with Update_Deps show ?thesis using n by (simp add: handle_epic_decision_def u split: sum.split)
  qed (use n r in \<open>simp_all add: handle_epic_decision_def\<close>)
qed

lemma file_children_acts:
  "\<lbrakk>ext svc = x; reaches x v w\<rbrakk>
     \<Longrightarrow> reaches x v (snd (snd (file_children svc epic cap shut sat fresh specs n lt w)))"
proof (induction specs arbitrary: n lt w)
  case (Cons spec specs)
  have "reaches x v (snd (create_ticket svc (child_request epic spec (fresh w)) w))"
    by (rule step_acts [OF Cons.prems(2) service_step.create [OF Cons.prems(1)]])
  then show ?case using Cons by (auto split: prod.split sum.split)
qed simp

lemma new_children_acts:
  assumes "ext svc = x" "reaches x v w"
  shows "reaches x v (reconcile_new_children svc es fresh epic specs w)"
  using assms satisfied_acts [OF assms(2)]
  by (auto simp: reconcile_new_children_def Let_def case_prod_beta intro: file_children_acts)

lemma rescope_acts:
  assumes "ext svc = x" "reaches x v w"
  shows "reaches x v (rescope_child svc u w)"
proof -
  have "reaches x v w1" if "set_title svc (fst u) s w = (r, w1)" for s r w1
    using columns_acts(2) [OF assms, of "fst u" s] that by simp
  then show ?thesis
    using assms by (auto simp: rescope_child_def Let_def split: option.split prod.split sum.split intro: rewrite_acts)
qed

lemma obsolete_acts:
  assumes x: "ext svc = x" and r: "reaches x v w"
  shows "reaches x v (obsolete_child svc p w)"
proof -
  have "reaches x v (snd (transition svc i CLOSED nt None w))" for i nt
    by (rule step_acts [OF r service_step.transition [OF x]])
  with r show ?thesis by (simp add: obsolete_child_def Let_def split: option.split)
qed

lemma reconcile_acts:
  assumes x: "ext svc = x" and r: "reaches x v w"
  shows "reaches x v (reconcile_child_changes svc es fresh epic r' w)"
proof -
  have f: "reaches x v (fold f us w1)" if "\<And>u w2. reaches x v w2 \<Longrightarrow> reaches x v (f u w2)" "reaches x v w1"
    for f :: "'b \<Rightarrow> world \<Rightarrow> world" and us w1
    using that by (induction us arbitrary: w1) auto
  show ?thesis
    unfolding reconcile_child_changes_def Let_def
    by (auto split: option.split intro!: f rescope_acts obsolete_acts new_children_acts x r)
qed

section \<open>A concrete epic\<close>

text \<open>An epic, a merged ticket, a duplicate of it and two drafts that are no children of the epic.\<close>

definition epic_world :: world where
  "epic_world = seed_world ''alpha'' (seed sample_externals
     [(sample_ticket ''e1'' EPIC_OPEN)\<lparr>kind := EPIC\<rparr>, sample_ticket ''m1'' DONE, sample_ticket ''d1'' DRAFT,
      sample_ticket ''d2'' DRAFT])"

definition epic_answer :: epic_result where
  "epic_answer =
     \<lparr>decision = Update_Deps, r_note = [],
      dep_updates = Some [(''d1'', Some [''d2'']), (''d2'', Some [''d1''])], proposals = None,
      child_rescopes = None, child_closures = Some (Covered_By [(''d1'', ''m1'')])\<rparr>"

text \<open>A draft that is no child of the epic is closed, for a ticket that is no child of it either.\<close>

lemma closes_foreign_draft:
  "map_option (\<lambda>t. (tstate t, parent_id t))
      (get_ticket sample_service ''d1'' (obsolete_child sample_service (''d1'', Some ''m1'') epic_world))
    = Some (CLOSED, None)"
  by code_simp

text \<open>A ticket that an operator marked as done counts as merged.\<close>

lemma marked_done_delivers:
  "(let w1 = snd (mark_done sample_service ''d1'' [] ''op'' epic_world)
    in map_option (\<lambda>e. startswith ''mark done'' (or_empty (ev_note e))) (done_event sample_service ''d1'' w1) = Some True
       \<and> delivered (resolve_delivery sample_service w1 [] ''d1''))"
  by code_simp

text \<open>The agent's dependency updates make a cycle, which the operator's edit refuses.\<close>

lemma dep_updates_make_cycle:
  "(let w1 = snd (apply_dep_updates sample_service [(''d1'', Some [''d2'']), (''d2'', Some [''d1''])] epic_world)
    in map_option depends_on (get_ticket sample_service ''d1'' w1) = Some (json_list [''d2''])
       \<and> map_option depends_on (get_ticket sample_service ''d2'' w1) = Some (json_list [''d1'']))"
  by code_simp

section \<open>Properties\<close>

text \<open>
  C16: A ticket counts as delivered exactly when following the duplicates named by the closing notes
  leads, in at most twenty hops, to a ticket whose last done event is no closing of another kind; a
  chain of duplicates that loops delivers nothing.
\<close>

theorem delivery_iff:
  "delivered (resolve_delivery svc w [] i) \<longleftrightarrow>
     (\<exists>n j. n \<le> 20 \<and> hops svc w n i = Some j \<and> merged_at svc w j)"
  using delivered_iff_hops by blast

text \<open>
  C15: However many children the status agent proposes, a re-evaluation files at most as many as the
  cap of the epic leaves; each is a draft of the epic on its board whose title is like that of no
  live sibling, no closed sibling that delivered nothing and no satisfied one, and no two are alike.
\<close>

theorem followups_bounded:
  defines "cs svc epic w \<equiv> list_children_across_boards svc epic w"
  shows "\<exists>rows. tickets (board (reconcile_new_children svc es fresh epic specs w) (svc_board svc))
        = tickets (board w (svc_board svc)) @ rows
      \<and> (board (reconcile_new_children svc es fresh epic specs w))(svc_board svc := d)
        = (board w)(svc_board svc := d)
      \<and> int (length rows) \<le> max 0 (epic_max_reeval_children es - count_reeval_children epic (cs svc epic w))
      \<and> list_all (fresh_scope epic (map title (filter is_live (cs svc epic w)))
          (closed_no_delivery_children svc w (cs svc epic w) (clock w) (epic_dedup_lookback_days es))
          (fst (satisfied_children svc (cs svc epic w) w))) rows
      \<and> sorted_wrt (\<lambda>a b. \<not> titles_similar (title b) (title a)) rows"
proof -
  let ?cs = "cs svc epic w"
  let ?n = "count_reeval_children epic ?cs" and ?lt = "map title (filter is_live ?cs)"
  let ?shut = "closed_no_delivery_children svc w ?cs (clock w) (epic_dedup_lookback_days es)"
  obtain sat w1 where s: "satisfied_children svc ?cs w = (sat, w1)" by fastforce
  have w1: "board w1 = board w" using satisfied_boards [of svc ?cs w] s by (auto simp: board_def fun_eq_iff)
  obtain n' lt' w' where f: "file_children svc epic (epic_max_reeval_children es) ?shut sat fresh specs ?n ?lt w1
      = (n', lt', w')" by (metis prod_cases3)
  show ?thesis
  proof (cases "specs = [] \<or> recent_children (clock w) ?cs \<noteq> [] \<or> epic_max_reeval_children es \<le> ?n")
    case True
    then show ?thesis by (intro exI [of _ "[]"]) (auto simp: reconcile_new_children_def cs_def Let_def)
  next
    case False
    then have "reconcile_new_children svc es fresh epic specs w = w'"
      using s f by (simp add: reconcile_new_children_def cs_def [symmetric] Let_def)
    with file_children_files [OF f] False show ?thesis unfolding s w1 by fastforce
  qed
qed

text \<open>
  C14: A re-evaluation that closes a child as obsolete, whatever the agent named, found it a draft and
  a different ticket to cover it, from which at most twenty duplicates lead to a merged one.
\<close>

theorem closure_needs_delivery:
  assumes "obsolete_child svc (i, cov) w \<noteq> w"
  shows "\<exists>c n j. get_ticket svc i w = Some c \<and> tstate c = DRAFT \<and> strip (or_empty cov) \<noteq> i
    \<and> n \<le> 20 \<and> hops svc w n (strip (or_empty cov)) = Some j \<and> merged_at svc w j"
  using assms delivered_iff_hops [of svc w "strip (or_empty cov)"]
  by (auto simp: obsolete_child_def fetch_draft_child_def Let_def split: if_splits option.splits)

lemma closure_needs_delivery_witness:
  "\<exists>c n j. get_ticket sample_service ''d1'' epic_world = Some c \<and> tstate c = DRAFT
    \<and> strip (or_empty (Some '' m1'')) \<noteq> ''d1'' \<and> n \<le> 20
    \<and> hops sample_service epic_world n (strip (or_empty (Some '' m1''))) = Some j
    \<and> merged_at sample_service epic_world j"
proof (rule closure_needs_delivery)
  have closed_after: "map_option tstate (get_ticket sample_service ''d1'' (obsolete_child sample_service (''d1'', Some '' m1'') epic_world))
      = Some CLOSED" by code_simp
  have before: "map_option tstate (get_ticket sample_service ''d1'' epic_world) = Some DRAFT" by code_simp
  show "obsolete_child sample_service (''d1'', Some '' m1'') epic_world \<noteq> epic_world"
  proof
    assume e: "obsolete_child sample_service (''d1'', Some '' m1'') epic_world = epic_world"
    from before closed_after [unfolded e] have "Some DRAFT = Some CLOSED" by (rule trans [OF sym])
    then show False by simp
  qed
qed

text \<open>
  The re-evaluation of an epic is a run of calls of the service, whatever the status agent
  answers and whatever the rest of the mill does meanwhile through the service: every invariant of
  the reachable worlds holds after it.
\<close>

theorem reeval_refines_service:
  assumes "\<And>s desc cs w. reaches x w (snd (agent s desc cs w))"
  shows "reaches x w (run_epic_reeval st x es fresh agent i w)"
proof (cases "validate_epic_state st x i w")
  case None
  then show ?thesis by (simp add: run_epic_reeval_def)
next
  case (Some p)
  obtain svc epic where p: "p = (svc, epic)" by fastforce
  have x: "ext svc = x"
    using Some p by (auto simp: validate_epic_state_def Let_def split: option.splits if_splits)
  obtain r1 w1 where w1: "open_workspace svc epic w = (r1, w1)" by fastforce
  have a1: "reaches x w w1" by (rule open_acts [OF w1]) simp
  obtain r2 w2 where w2: "build_child_summaries svc (list_children_across_boards svc i w1) w1 = (r2, w2)" by fastforce
  have a2: "reaches x w w2"
    using summaries_acts [OF a1, of svc "list_children_across_boards svc i w1"] w2 by simp
  have a3: "reaches x w (snd (agent s desc cs w2))" for s desc cs
    using a2 assms by (rule rtranclp_trans)
  have a4: "reaches x w w4" if "agent s desc cs w2 = (r, w3)" "handle_epic_decision svc i epic r' w3 = (r4, w4)"
    for s desc cs r w3 r' r4 w4
    using decision_acts [OF x, of w w3 i epic r'] a3 [of s desc cs] that by simp
  show ?thesis
    using a1 a2 a3 a4 reconcile_acts [OF x, of w]
    by (simp add: run_epic_reeval_def Some p w1 w2 split: prod.split sum.split option.split) (metis snd_conv)
qed

lemma reeval_refines_service_witness:
  "reaches sample_externals epic_world
     (run_epic_reeval sample_settings sample_externals \<lparr>epic_max_reeval_children = 5, epic_dedup_lookback_days = 7\<rparr>
        (\<lambda>_. ''abcd'') (\<lambda>_ _ _ w. (Some epic_answer, w)) ''e1'' epic_world)"
  by (rule reeval_refines_service) simp

end
