(* ===== verification/Overlaps.thy ===== *)
theory Overlaps
  imports Breakdown Followups
begin

text \<open>
  What the duplicate check and the planning of an epic's children guarantee: a prior match passed every
  gate, overlaps inside a batch are flagged, the planned order has no cycle as long as no repository
  needs another, and the re-processing of an epic acts through the service.
\<close>

section \<open>Matches and msgs\<close>

lemma read_body_boards: "read_body b t w = (r, w1) \<Longrightarrow> boards w1 = boards w"
  by (auto simp: read_body_def make_workspace_def put_ws_def split: prod.splits sum.splits if_splits)

lemma path_match_boards: "path_match b q t w = (r, w1) \<Longrightarrow> boards w1 = boards w"
  by (auto simp: path_match_def Let_def dest: read_body_boards split: prod.splits sum.splits if_splits)

text \<open>What a candidate that matches has passed, in a world with the boards \<open>w0\<close> has.\<close>

definition passes :: "service \<Rightarrow> dedup_query \<Rightarrow> instant \<Rightarrow> world \<Rightarrow> Ticket \<Rightarrow> bool" where
  "passes svc q cutoff w0 t \<longleftrightarrow>
     (\<exists>w. boards w = boards w0 \<and> is_eligible_candidate svc q cutoff t w = Inr True) \<and> label_gate q t \<noteq> Skip"

lemma first_match_passes:
  "first_match svc b q cutoff ts w = (r, w1) \<Longrightarrow>
     boards w1 = boards w \<and> (case r of Inr (Some t) \<Rightarrow> t \<in> set ts \<and> passes svc q cutoff w t | _ \<Rightarrow> True)"
proof (induction ts arbitrary: w)
  case (Cons t ts)
  consider e where "is_eligible_candidate svc q cutoff t w = Inl e"
    | ok where "is_eligible_candidate svc q cutoff t w = Inr ok" "\<not> ok \<or> label_gate q t = Skip"
    | "is_eligible_candidate svc q cutoff t w = Inr True" "label_gate q t = Match"
    | "is_eligible_candidate svc q cutoff t w = Inr True" "label_gate q t = Continue"
    by (metis (full_types) gate_answer.exhaust old.sum.exhaust)
  then show ?case
  proof cases
    case 2
    then have "first_match svc b q cutoff ts w = (r, w1)" using Cons.prems by simp
    with Cons.IH [OF this] show ?thesis by (auto split: sum.splits option.splits)
  next
    case 3
    then show ?thesis using Cons.prems by (auto simp: passes_def)
  next
    case 4
    obtain r2 w2 where p: "path_match b q t w = (r2, w2)" by fastforce
    have same: "boards w2 = boards w" by (rule path_match_boards [OF p])
    show ?thesis
    proof (cases "\<exists>hit. r2 = Inr hit \<and> \<not> (hit \<or> fingerprint_match q t)")
      case True
      then have "first_match svc b q cutoff ts w2 = (r, w1)" using Cons.prems 4 p by auto
      from Cons.IH [OF this] show ?thesis using same
        by (auto simp: passes_def split: sum.splits option.splits)
    next
      case False
      then show ?thesis using Cons.prems 4 p same by (cases r2) (auto simp: passes_def)
    qed
  qed (use Cons.prems in auto)
qed auto

lemma find_prior_passes:
  assumes "find_prior_matching_ticket svc b q now w = (r, w1)"
  shows "boards w1 = boards w"
    "r = Some t \<Longrightarrow> t \<in> set (tickets (board w (svc_board svc)))
       \<and> passes svc q (now - lookback_days q * 86400 * 1000000) w t"
proof -
  let ?cut = "now - lookback_days q * 86400 * 1000000"
  have "boards w1 = boards w \<and> (\<forall>t. r = Some t \<longrightarrow> t \<in> set (tickets (board w (svc_board svc))) \<and> passes svc q ?cut w t)"
  proof (cases "recent_tickets svc 200 (q_sources q) None w")
    case (Inl e)
    then show ?thesis using assms by (simp add: find_prior_matching_ticket_def)
  next
    case (Inr ts)
    have rows: "set ts \<subseteq> set (tickets (board w (svc_board svc)))"
      using Inr by (auto simp: recent_tickets_def open_board_def window_def dest!: in_set_takeD split: if_splits)
    obtain r2 w2 where f: "first_match svc b q ?cut ts w = (r2, w2)" by fastforce
    show ?thesis
      using first_match_passes [OF f] assms Inr f rows
      by (auto simp: find_prior_matching_ticket_def split: sum.splits)
  qed
  then show "boards w1 = boards w"
    "r = Some t \<Longrightarrow> t \<in> set (tickets (board w (svc_board svc))) \<and> passes svc q ?cut w t" by auto
qed

lemma first_hit_same: "boards w = boards w0 \<Longrightarrow> first_hit w bs i = first_hit w0 bs i"
  by (induction bs) (simp_all add: board_def split: option.split)

lemma history_same:
  assumes "boards w = boards w0"
  shows "history svc i l off ord w = history svc i l off ord w0"
proof -
  have "first_hit w = first_hit w0" "board w = board w0"
    using first_hit_same [OF assms] assms by (auto simp: fun_eq_iff board_def)
  moreover from this have "collect_candidate_boards svc w = collect_candidate_boards svc w0"
    by (simp only: collect_candidate_boards_def assms)
  ultimately have "board_for svc i w = board_for svc i w0" "open_board b w = open_board b w0" for b
    by (simp_all only: board_for_def get_anywhere_def open_board_def)
  then show ?thesis by (simp only: history_def open_board_for_def)
qed

lemma describe_boards [simp]: "boards (snd (describe_recent_signal b t paths tokens w)) = boards w"
  by (auto simp: describe_recent_signal_def Let_def dest: read_body_boards split: prod.split sum.split)

lemma recent_note_boards [simp]: "boards (snd (recent_note svc days ex c now w)) = boards w"
proof -
  obtain r w1 where f: "find_prior_matching_ticket svc (svc_board svc) (child_query days ex (fst c) (snd c)) now w = (r, w1)"
    by fastforce
  have "boards w1 = boards w" by (rule find_prior_passes(1) [OF f])
  then show ?thesis by (simp add: recent_note_def f case_prod_beta split: option.split)
qed

text \<open>An earlier child of a batch that a child overlaps with: a common path, or one title in the other.\<close>

definition overlaps :: "string \<times> string list \<Rightarrow> string \<times> string list \<Rightarrow> bool" where
  "overlaps a c \<longleftrightarrow>
     set (snd a) \<inter> set (snd c) \<noteq> {}
     \<or> (fst a \<noteq> [] \<and> fst c \<noteq> [] \<and> (contains (fst c) (fst a) \<or> contains (fst a) (fst c)))"

definition names :: "string \<times> string \<Rightarrow> string \<times> string list" where
  "names c = (normalize (fst c), extract_paths (snd c))"

lemma batch_overlap_iff: "batch_overlap j s paths as \<noteq> None \<longleftrightarrow> (\<exists>a \<in> set as. overlaps a (s, paths))"
proof (induction as arbitrary: j)
  case (Cons a as)
  then show ?case by (auto simp: overlaps_def Let_def filter_empty_conv)
qed simp

lemma overlap_notes_flag:
  "overlap_notes svc days ex now acc cs w = (msgs, w1) \<Longrightarrow>
     length msgs = length cs \<and> boards w1 = boards w
     \<and> (\<forall>j < length cs. (\<exists>a \<in> set acc \<union> set (take j (map names cs)). overlaps a (names (cs ! j))) \<longrightarrow> msgs ! j \<noteq> None)"
proof (induction cs arbitrary: acc w msgs w1)
  case (Cons c cs)
  obtain r w2 where r: "recent_note svc days ex c now w = (r, w2)" by fastforce
  have w2: "boards w2 = boards w" using recent_note_boards [of svc days ex c now w] r by simp
  obtain ns w3 where n: "overlap_notes svc days ex now (acc @ [names c]) cs w2 = (ns, w3)" by fastforce
  let ?here = "if r = None then batch_overlap 0 (normalize (fst c)) (extract_paths (snd c)) acc else r"
  have eq: "msgs = ?here # ns" "w1 = w3" using Cons.prems r n by (auto simp: names_def Let_def)
  note IH = Cons.IH [OF n]
  have here: "?here \<noteq> None" if "\<exists>a \<in> set acc. overlaps a (names c)"
    using that batch_overlap_iff [of 0 "normalize (fst c)" "extract_paths (snd c)" acc] by (auto simp: names_def)
  have "(\<exists>a \<in> set acc \<union> set (take j (map names (c # cs))). overlaps a (names ((c # cs) ! j))) \<longrightarrow> msgs ! j \<noteq> None"
    if j: "j < length (c # cs)" for j
  proof (cases j)
    case 0
    then show ?thesis using here by (simp add: eq(1))
  next
    case (Suc k)
    then have "(\<exists>a \<in> set (acc @ [names c]) \<union> set (take k (map names cs)). overlaps a (names (cs ! k))) \<longrightarrow> ns ! k \<noteq> None"
      using IH j by simp
    then show ?thesis unfolding eq(1) Suc by auto
  qed
  then show ?case using IH w2 by (auto simp: eq)
qed simp

section \<open>The planned order\<close>

definition edge_rel :: "edges \<Rightarrow> (string \<times> string) set" where
  "edge_rel es = {(c, d). \<exists>ds. map_of es c = Some ds \<and> d \<in> set ds}"

lemma chain_edges_new:
  "\<lbrakk>distinct cs; \<forall>c \<in> set cs. map_of es c = None\<rbrakk> \<Longrightarrow>
     edge_rel (chain_edges pred cs es) = edge_rel es \<union>
       (case pred of None \<Rightarrow> {} | Some p \<Rightarrow> (if cs = [] then {} else {(hd cs, p)})) \<union> set (zip (tl cs) cs)"
proof (induction cs arbitrary: pred es)
  case (Cons c cs)
  let ?es = "case pred of None \<Rightarrow> es | Some p \<Rightarrow> AList.update c [p] es"
  have dom: "\<forall>x \<in> set cs. map_of ?es x = None" using Cons.prems by (auto simp: update_conv split: option.split)
  have c: "map_of es c = None" using Cons.prems by auto
  have "edge_rel ?es = edge_rel es \<union> (case pred of None \<Rightarrow> {} | Some p \<Rightarrow> {(c, p)})"
    using c by (auto simp: edge_rel_def update_conv split: option.splits if_splits)
  moreover have "(if cs = [] then {} else {(hd cs, c)}) \<union> set (zip (tl cs) cs) = set (zip cs (c # cs))"
    by (cases cs) auto
  ultimately show ?case using Cons.IH [OF _ dom, of "Some c"] Cons.prems(1)
    by (auto split: option.split)
qed (simp split: option.split)

lemma star_edges_rel:
  "edge_rel (star_edges k hub i cs es) \<subseteq> edge_rel es \<union> {(cs ! j, hub) |j. j < length cs \<and> i + j \<noteq> k}"
proof (induction cs arbitrary: i es)
  case (Cons c cs)
  let ?es = "if i = k then es else AList.update c [hub] es"
  have "edge_rel ?es \<subseteq> edge_rel es \<union> (if i = k then {} else {(c, hub)})"
    by (auto simp: edge_rel_def update_conv split: if_splits)
  moreover have "{(cs ! j, hub) |j. j < length cs \<and> Suc i + j \<noteq> k} \<union> (if i = k then {} else {(c, hub)})
      \<subseteq> {((c # cs) ! j, hub) |j. j < length (c # cs) \<and> i + j \<noteq> k}"
    by (auto intro: exI [of _ "Suc _"] exI [of _ 0])
  moreover have "edge_rel (star_edges k hub (Suc i) cs ?es)
      \<subseteq> edge_rel ?es \<union> {(cs ! j, hub) |j. j < length cs \<and> Suc i + j \<noteq> k}" by (rule Cons.IH)
  ultimately show ?case unfolding star_edges.simps by blast
qed simp

lemma init_index_bound: "init_index i cs = Some k \<Longrightarrow> i \<le> k \<and> k < i + length cs"
  by (induction cs arbitrary: i) (fastforce split: if_splits)+

lemma chain_acyclic:
  assumes "distinct cs" "\<And>p. pred = Some p \<Longrightarrow> p \<notin> set cs"
  shows "acyclic (edge_rel (chain_edges pred cs []))"
proof -
  define f where "f x = (case map_of (zip cs [0..<length cs]) x of None \<Rightarrow> 0 | Some n \<Rightarrow> Suc n)" for x
  have nth: "f (cs ! i) = Suc i" if "i < length cs" for i
    using that map_of_zip_nth [of cs "[0..<length cs]" i] assms(1) by (simp add: f_def)
  have other: "f x = 0" if "x \<notin> set cs" for x
  proof -
    have none: "map_of (zip cs [0..<length cs]) x = None" using that by (simp add: map_of_zip_is_None)
    show ?thesis unfolding f_def none by simp
  qed
  have "edge_rel [] = {}" by (simp add: edge_rel_def)
  then have eq: "edge_rel (chain_edges pred cs []) =
      (case pred of None \<Rightarrow> {} | Some p \<Rightarrow> (if cs = [] then {} else {(hd cs, p)})) \<union> set (zip (tl cs) cs)"
    using chain_edges_new [OF assms(1), of "[]" pred] by simp
  have "f d < f c" if e: "(c, d) \<in> edge_rel (chain_edges pred cs [])" for c d
  proof -
    from e have "(\<exists>p. pred = Some p \<and> cs \<noteq> [] \<and> c = hd cs \<and> d = p) \<or> (c, d) \<in> set (zip (tl cs) cs)"
      unfolding eq by (auto split: option.splits if_splits)
    then consider p where "pred = Some p" "cs \<noteq> []" "c = cs ! 0" "d = p"
      | i where "Suc i < length cs" "c = cs ! Suc i" "d = cs ! i"
    proof (elim disjE)
      assume "(c, d) \<in> set (zip (tl cs) cs)"
      then obtain i where "i < length (tl cs)" "c = tl cs ! i" "d = cs ! i" by (auto simp: set_zip)
      then show thesis using that(2) [of i] by (simp add: nth_tl)
    qed (auto simp: hd_conv_nth intro: that(1))
    then show ?thesis
    proof cases
      case 1
      then show ?thesis using nth [of 0] other [of d] assms(2) by simp
    next
      case 2
      then show ?thesis using nth [of i] nth [of "Suc i"] by simp
    qed
  qed
  then show ?thesis by (rule acyclicI_order [of _ f])
qed

lemma star_acyclic:
  assumes "distinct cs" "k < length cs" "\<And>p. pred = Some p \<Longrightarrow> p \<notin> set cs"
  shows "acyclic (edge_rel (star_edges k (cs ! k) 0 cs (case pred of None \<Rightarrow> [] | Some p \<Rightarrow> [(cs ! k, [p])])))"
proof -
  define f :: "string \<Rightarrow> nat" where "f x = (if x = cs ! k then 1 else if x \<in> set cs then 2 else 0)" for x
  have "f d < f c" if "(c, d) \<in> edge_rel (star_edges k (cs ! k) 0 cs (case pred of None \<Rightarrow> [] | Some p \<Rightarrow> [(cs ! k, [p])]))" for c d
  proof -
    let ?es = "case pred of None \<Rightarrow> [] | Some p \<Rightarrow> [(cs ! k, [p])]"
    have "(c, d) \<in> edge_rel ?es \<union> {(cs ! j, cs ! k) |j. j < length cs \<and> 0 + j \<noteq> k}"
      by (rule subsetD [OF star_edges_rel that])
    moreover have "edge_rel ?es = (case pred of None \<Rightarrow> {} | Some p \<Rightarrow> {(cs ! k, p)})"
      by (cases pred) (auto simp: edge_rel_def split: if_splits)
    ultimately consider p where "pred = Some p" "c = cs ! k" "d = p"
      | j where "j < length cs" "j \<noteq> k" "c = cs ! j" "d = cs ! k"
      by (cases pred) auto
    then show ?thesis
    proof cases
      case 1
      then show ?thesis using assms by (auto simp: f_def)
    next
      case 2
      then show ?thesis using assms by (simp add: f_def nth_eq_iff_index_eq)
    qed
  qed
  then show ?thesis by (rule acyclicI_order [of _ f])
qed

lemma base_acyclic:
  assumes "distinct (map fst cs)" "\<And>p. pred = Some p \<Longrightarrow> p \<notin> set (map fst cs)"
  shows "acyclic (edge_rel (compute_base_edges cs pred))"
proof (cases "init_index 0 cs")
  case None
  then show ?thesis using chain_acyclic [OF assms] by (simp add: compute_base_edges_def)
next
  case (Some k)
  then have k: "k < length cs" using init_index_bound by fastforce
  have "acyclic (edge_rel (star_edges k (map fst cs ! k) 0 (map fst cs)
      (case pred of None \<Rightarrow> [] | Some p \<Rightarrow> [(map fst cs ! k, [p])])))"
    by (rule star_acyclic [OF assms(1) _ assms(2)]) (use k in simp)
  then show ?thesis unfolding compute_base_edges_def Some option.case Let_def nth_map [OF k] .
qed

section \<open>A re-processing acts through the service\<close>

lemma read_body_acts:
  assumes "read_body b t w = (r, w1)" "reaches x v w"
  shows "reaches x v w1"
proof (rule step_acts [OF assms(2)], rule workspaces_step)
  show "w1 = w\<lparr>workspaces := workspaces w1\<rparr>"
    using assms(1) by (auto simp: read_body_def make_workspace_def put_ws_def split: prod.splits sum.splits if_splits)
qed

lemma path_match_acts: "\<lbrakk>path_match b q t w = (r, w1); reaches x v w\<rbrakk> \<Longrightarrow> reaches x v w1"
  by (auto simp: path_match_def Let_def split: prod.splits sum.splits if_splits intro: read_body_acts)

lemma first_match_acts: "reaches x v w \<Longrightarrow> reaches x v (snd (first_match svc b q cutoff ts w))"
proof (induction ts arbitrary: w)
  case (Cons t ts)
  obtain r2 w2 where p: "path_match b q t w = (r2, w2)" by fastforce
  have "reaches x v w2" by (rule path_match_acts [OF p Cons.prems])
  with Cons.IH Cons.prems show ?case by (simp add: p split: sum.split)
qed simp

lemma find_prior_acts:
  assumes "reaches x v w"
  shows "reaches x v (snd (find_prior_matching_ticket svc b q now w))"
proof (cases "recent_tickets svc 200 (q_sources q) None w")
  case (Inr ts)
  show ?thesis
    using first_match_acts [OF assms, of svc b q "now - lookback_days q * 86400 * 1000000" ts]
    by (simp add: find_prior_matching_ticket_def Inr case_prod_beta split: sum.split)
qed (use assms in \<open>simp add: find_prior_matching_ticket_def\<close>)

lemma describe_acts:
  assumes "reaches x v w"
  shows "reaches x v (snd (describe_recent_signal b t paths tokens w))"
proof -
  obtain r w1 where p: "read_body b t w = (r, w1)" by fastforce
  have "reaches x v w1" by (rule read_body_acts [OF p assms])
  with assms show ?thesis by (simp add: describe_recent_signal_def p Let_def split: sum.split)
qed

lemma recent_note_acts:
  assumes "reaches x v w"
  shows "reaches x v (snd (recent_note svc days ex c now w))"
proof -
  obtain r w1 where f: "find_prior_matching_ticket svc (svc_board svc) (child_query days ex (fst c) (snd c)) now w = (r, w1)"
    by fastforce
  have "reaches x v w1"
    using find_prior_acts [OF assms, of svc "svc_board svc" "child_query days ex (fst c) (snd c)" now] f by simp
  then show ?thesis by (simp add: recent_note_def f case_prod_beta describe_acts split: option.split)
qed

lemma overlap_notes_acts: "reaches x v w \<Longrightarrow> reaches x v (snd (overlap_notes svc days ex now acc cs w))"
  by (induction cs arbitrary: acc w) (simp_all add: Let_def case_prod_beta recent_note_acts)

lemma create_children_acts:
  "reaches x v w \<Longrightarrow> reaches x v (snd (create_children st x fresh epic b ps w))"
proof (induction ps arbitrary: w)
  case (Cons p ps)
  obtain s body r msg where p: "p = ((s, body, r), msg)" by (metis surj_pair)
  obtain res w1 where c: "create_ticket (bound_service st x (resolve_child_board_id (repos_config st) b r))
      (breakdown_request epic s (flagged_body body msg) (fresh w)) w = (res, w1)" by fastforce
  have "service_step x w (snd (create_ticket (bound_service st x (resolve_child_board_id (repos_config st) b r))
      (breakdown_request epic s (flagged_body body msg) (fresh w)) w))"
    by (rule service_step.create) (simp add: bound_service_def)
  then have w1: "reaches x v w1" using step_acts [OF Cons.prems] c by simp
  show ?case using Cons.IH [OF w1] w1 by (simp add: p c Let_def case_prod_beta split: sum.split)
qed simp

lemma file_child_acts:
  assumes "ext svc = x" "reaches x v w"
  shows "reaches x v (snd (file_child_on svc fresh epic s body w))"
  using step_acts [OF assms(2) service_step.create [OF assms(1)]]
  by (simp add: file_child_on_def case_prod_beta split: sum.split)

lemma create_bumps_acts:
  assumes filed: "\<And>s body w. reaches x v w \<Longrightarrow> reaches x v (snd (file s body w))"
  shows "reaches x v w \<Longrightarrow> reaches x v (snd (create_bumps file m bs es w))"
proof (induction bs arbitrary: es w)
  case (Cons e bs)
  obtain consumer producer consumers packages where e: "e = ((consumer, producer), consumers, packages)"
    by (metis surj_pair)
  have "reaches x v (snd (create_bump_child file consumer producer consumers
      (children_in_repo m producer) packages w))"
    using filed [OF Cons.prems] by (simp add: create_bump_child_def Let_def case_prod_beta split: sum.split)
  with Cons.IH show ?case by (simp add: e case_prod_beta)
qed simp

lemma plan_acts:
  assumes "\<And>s body w. reaches x v w \<Longrightarrow> reaches x v (snd (file s body w))" "reaches x v w"
  shows "reaches x v (snd (plan_child_dependencies ord repos board_of file pred cs w))"
  using create_bumps_acts [OF assms] assms(2)
  by (simp add: plan_child_dependencies_def detect_cross_repo_deps_def Let_def case_prod_beta split: option.split)

lemma store_edges_acts:
  "\<lbrakk>ext svc = x; reaches x v w\<rbrakk> \<Longrightarrow> reaches x v (store_edges svc es w)"
proof (induction es arbitrary: w)
  case (Cons e es)
  obtain r w1 where s: "set_depends_on svc (fst e) (snd e) w = (r, w1)" by fastforce
  have "reaches x v w1" using columns_acts(3) [OF Cons.prems, of "fst e" "snd e"] s by simp
  with Cons show ?case by (simp add: s split: sum.split)
qed simp

lemma find_child_acts:
  assumes "reaches x v w"
  shows "reaches x v (snd (find_child_overlaps svc days epic cs now w))"
  unfolding find_child_overlaps_def Let_def by (rule overlap_notes_acts [OF assms])

lemma file_breakdown_acts:
  assumes r: "reaches x v w"
  shows "reaches x v (file_breakdown st x days fresh ord epic b br w)"
proof (cases "new_proposals (list_children_across_boards (bound_service st x b) epic w) br")
  case None
  then show ?thesis using r by (simp only: file_breakdown_def Let_def option.case)
next
  case (Some ps)
  let ?svc = "bound_service st x b"
  have x: "ext ?svc = x" by (simp add: bound_service_def)
  obtain msgs w1 where o: "find_child_overlaps ?svc days epic (map (\<lambda>p. (fst p, fst (snd p))) ps) (clock w) w
      = (msgs, w1)" by (metis surj_pair)
  have w1: "reaches x v w1"
    using find_child_acts [OF r, of ?svc days epic "map (\<lambda>p. (fst p, fst (snd p))) ps" "clock w"] unfolding o by simp
  obtain res w2 where c: "create_children st x fresh epic b (zip ps msgs) w1 = (res, w2)" by (metis surj_pair)
  have w2: "reaches x v w2" using create_children_acts [OF w1, of st fresh epic b "zip ps msgs"] unfolding c by simp
  have plan: "reaches x v (snd (plan_child_dependencies ord rs bo (file_child_on ?svc fresh epic) pr cs w2))" for rs bo pr cs
    by (rule plan_acts [OF file_child_acts [OF x] w2])
  show ?thesis
  proof (cases "ps = []")
    case True
    then show ?thesis using r Some by (simp add: file_breakdown_def Let_def)
  next
    case False
    then show ?thesis
      unfolding file_breakdown_def Let_def Some option.case o c prod.case if_not_P [OF False]
      using w2 store_edges_acts [OF x plan] by (cases res) (simp_all only: sum.case case_prod_beta)
  qed
qed


lemma reprocess_acts:
  assumes agent: "\<And>s desc log repos own w. reaches x w (snd (agent s desc log repos own w))"
  shows "reaches x w (run_epic_reprocess st x days fresh ord agent i known w)"
proof (cases "if known \<noteq> [] then Some known else map_option board_id (get_ticket (bound_service st x []) i w)")
  case None
  show ?thesis unfolding run_epic_reprocess_def None by simp
next
  case (Some b)
  let ?svc = "bound_service st x b"
  show ?thesis
  proof (cases "get_ticket ?svc i w")
    case None
    show ?thesis unfolding run_epic_reprocess_def Some option.case Let_def None by simp
  next
    case epic: (Some epic)
    obtain k w1 where o: "open_workspace ?svc epic w = (k, w1)" by (metis surj_pair)
    have w1: "reaches x w w1" by (rule open_acts [OF o]) simp
    have filed: "reaches x w (file_breakdown st x days fresh ord i b r w2)" if "reaches x w1 w2" for r w2
      by (rule file_breakdown_acts) (use w1 that in simp)
    show ?thesis
    proof (cases k)
      case (Inl e)
      show ?thesis unfolding run_epic_reprocess_def Some option.case Let_def epic o Inl prod.case sum.case by (rule w1)
    next
      case (Inr dir)
      show ?thesis
      proof (cases "list_comments ?svc i w1")
        case (Inl e)
        show ?thesis
          unfolding run_epic_reprocess_def Some option.case Let_def epic o prod.case \<open>k = Inr dir\<close> sum.case Inl
          by (rule w1)
      next
        case cs: (Inr cs)
        define a where "a = agent (title epic) (read_description (ws_dir w1 dir)) (join nl (map comment_line cs))
          (case repos_config st of None \<Rightarrow> [] | Some rs \<Rightarrow> rs)
          (if filter (\<lambda>rc. snd rc = b) (case repos_config st of None \<Rightarrow> [] | Some rs \<Rightarrow> rs) = [] then []
           else fst (last (filter (\<lambda>rc. snd rc = b) (case repos_config st of None \<Rightarrow> [] | Some rs \<Rightarrow> rs)))) w1"
        have a: "reaches x w1 (snd a)" unfolding a_def by (rule agent)
        show ?thesis
          unfolding run_epic_reprocess_def Some option.case Let_def epic o prod.case \<open>k = Inr dir\<close> sum.case cs
            a_def [symmetric]
          using a filed [of "snd a"] w1 rtranclp_trans [OF w1 a] by (auto split: prod.split option.split)
      qed
    qed
  qed
qed

section \<open>What goes wrong\<close>

text \<open>
  Two children of two repositories: the first needs a package of the repository of the second. The
  second waits for the first, as the batch is filed in order, and the first waits for the bump of its
  pin, which waits for the second.
\<close>

definition needs :: "string \<Rightarrow> string" where
  "needs pkg = ''## Prerequisites'' @ nl @ ''```prereq'' @ nl @ ''import '' @ pkg @ nl @ ''```''"

definition two_children :: "child list" where
  "two_children = [(''c1'', ''Use b'', needs ''b''), (''c2'', ''Add b'', [])]"

definition board_of_two :: "string \<Rightarrow> string" where
  "board_of_two i = (if i = ''c1'' then ''ba'' else ''bb'')"

definition file_titled :: file_child where
  "file_titled s body w = (Inr s, w)"

lemma needs_b: "parse_prereq_packages (needs ''b'') = [''b'']"
  by code_simp

lemma needs_nothing: "parse_prereq_packages [] = []"
  by code_simp

lemma two_chain: "compute_base_edges two_children None = [(''c2'', [''c1''])]"
  by code_simp

lemma two_map:
  "build_child_repo_map [(''a'', ''ba''), (''b'', ''bb'')] board_of_two two_children = [(''c1'', ''a''), (''c2'', ''b'')]"
  by (simp add: build_child_repo_map_def two_children_def board_of_two_def)

lemma two_bumps:
  "group_bump_candidates (\<lambda>xs. xs) two_children [(''c1'', ''a''), (''c2'', ''b'')] [(''a'', ''a''), (''b'', ''b'')]
     = [((''a'', ''b''), [''c1''], [''b''])]"
  by (simp add: group_bump_candidates_def two_children_def needs_b needs_nothing group_package_def
      children_in_repo_def add_bump_def)

lemma consumer_first_makes_cycle:
  "fst (plan_child_dependencies (\<lambda>xs. xs) (Some [(''a'', ''ba''), (''b'', ''bb'')]) board_of_two file_titled None
     two_children w)
   = [(''c2'', [''c1'']), (pin_title ''a'' ''b'' ''b'', [''c2'']), (''c1'', [pin_title ''a'' ''b'' ''b''])]"
proof -
  have p: "build_package_repo_map (dedup_first (map snd [(''c1'', ''a''), (''c2'', ''b'')])) = [(''a'', ''a''), (''b'', ''b'')]"
    by code_simp
  have present: "\<not> length (dedup_first (map snd [(''c1'', ''a''), (''c2'', ''b'')])) \<le> 1" by code_simp
  have some: "two_children \<noteq> []" by (simp add: two_children_def)
  have pkgs: "join '', '' (sort_key str_key [''b'']) = ''b''" by code_simp
  show ?thesis
    unfolding plan_child_dependencies_def detect_cross_repo_deps_def Let_def two_map p two_bumps two_chain pkgs
      if_not_P [OF some] if_not_P [OF present] option.case create_bumps.simps create_bump_child_def file_titled_def
      prod.case sum.case
    by (simp add: children_in_repo_def add_edges_def pin_title_def)
qed

text \<open>A child that needs packages of two repositories waits for the last bump only.\<close>

lemma last_bump_only:
  "map_of (fst (create_bumps file_titled [(''c1'', ''a''), (''c2'', ''b''), (''c3'', ''d'')]
       [((''a'', ''b''), [''c1''], [''b'']), ((''a'', ''d''), [''c1''], [''d''])] [] w)) ''c1''
     = Some [pin_title ''a'' ''d'' ''d'']"
  by code_simp

text \<open>A board with one draft, looked for by its title.\<close>

definition draft_world :: world where
  "draft_world =
     \<lparr>boards = [(''alpha'', \<lparr>tickets = [sample_ticket ''d1'' DRAFT], events = [], comments = []\<rparr>)],
      workspaces = Map.empty, clock = 86400000000, notices = []\<rparr>"

definition title_query :: dedup_query where
  "title_query =
     \<lparr>target_files = [], fingerprint_text = ''t'', q_sources = None, lookback_days = 7,
      exclude_ids = [''e1''], require_scope = False, target_concern_tokens = None,
      concern_min_overlap = 1, dedup_labels = [], suppress_title_only = False\<rparr>"

section \<open>Properties\<close>

text \<open>
  C17: A ticket that the duplicate check answers is on the board, is none of the excluded ones, was
  filed within the days looked back, is not errored and, when it is closed, has been done; and when
  the caller names the fingerprint of a failed check run, it carries one of the labels named. The
  check writes no board.
\<close>

theorem prior_match_sound:
  assumes "find_prior_matching_ticket svc b q now w = (Some t, w1)"
  shows "t \<in> set (tickets (board w (svc_board svc))) \<and> tid t \<notin> set (exclude_ids q)
    \<and> now - lookback_days q * 86400 * 1000000 \<le> created_at t \<and> tstate t \<noteq> ERRORED
    \<and> (tstate t = CLOSED \<longrightarrow>
         (\<exists>evs. history svc (tid t) None 0 ''asc'' w = Inr evs \<and> list_ex (\<lambda>e. ev_state e = DONE) evs))
    \<and> (list_ex (startswith ''ci_fp:'') (dedup_labels q) \<longrightarrow>
         list_ex (\<lambda>l. JStr l \<in> set (candidate_labels t)) (dedup_labels q))
    \<and> boards w1 = boards w"
proof -
  from find_prior_passes [OF assms] obtain w0 where w0: "boards w0 = boards w"
    and rows: "t \<in> set (tickets (board w (svc_board svc)))" and gate: "label_gate q t \<noteq> Skip"
    and ok: "is_eligible_candidate svc q (now - lookback_days q * 86400 * 1000000) t w0 = Inr True"
    and same: "boards w1 = boards w" by (auto simp: passes_def)
  have "history svc i l off ord w0 = history svc i l off ord w" for i l off ord by (rule history_same [OF w0])
  with ok gate rows same show ?thesis
    by (auto simp: is_eligible_candidate_def label_gate_def split: if_splits sum.splits)
qed

lemma prior_match_sound_witness:
  "sample_ticket ''d1'' DRAFT \<in> set (tickets (board draft_world ''alpha''))
    \<and> tid (sample_ticket ''d1'' DRAFT) \<notin> set [''e1'']"
proof -
  let ?answer = "find_prior_matching_ticket sample_service ''alpha'' title_query (clock draft_world) draft_world"
  have "fst ?answer = Some (sample_ticket ''d1'' DRAFT)" by code_simp
  then have f: "?answer = (Some (sample_ticket ''d1'' DRAFT), snd ?answer)" by (metis prod.collapse)
  have "svc_board sample_service = ''alpha''" by code_simp
  with prior_match_sound [OF f] show ?thesis by (simp add: title_query_def)
qed

text \<open>
  Within a batch of proposed children each one gets an answer, and one that shares a path with an
  earlier one, or whose title holds the other's, is flagged, whatever is on the board; the check
  writes no board.
\<close>

theorem batch_overlap_flagged:
  assumes "find_child_overlaps svc days epic cs now w = (msgs, w1)"
  shows "length msgs = length cs \<and> boards w1 = boards w
    \<and> (\<forall>i j. i < j \<and> j < length cs \<and> overlaps (names (cs ! i)) (names (cs ! j)) \<longrightarrow> msgs ! j \<noteq> None)"
proof -
  note o = overlap_notes_flag [OF assms [unfolded find_child_overlaps_def Let_def]]
  have "msgs ! j \<noteq> None" if "i < j" "j < length cs" "overlaps (names (cs ! i)) (names (cs ! j))" for i j
  proof -
    have "names (cs ! i) \<in> set (take j (map names cs))"
      using that(1,2) by (auto simp: in_set_conv_nth intro!: exI [of _ i])
    with o that show ?thesis by blast
  qed
  with o show ?thesis by blast
qed

lemma batch_overlap_flagged_witness:
  "snd (find_child_overlaps sample_service 7 ''e1'' [(''Add x'', []), (''add X'', [])] 0 epic_world) =
     snd (find_child_overlaps sample_service 7 ''e1'' [(''Add x'', []), (''add X'', [])] 0 epic_world)
   \<and> fst (find_child_overlaps sample_service 7 ''e1'' [(''Add x'', []), (''add X'', [])] 0 epic_world) ! 1 \<noteq> None"
proof -
  let ?c = "[(''Add x'', []), (''add X'', [])] :: (string \<times> string) list"
  have "overlaps (names (?c ! 0)) (names (?c ! 1))" by code_simp
  with batch_overlap_flagged [OF prod.collapse [symmetric], of sample_service 7 "''e1''" ?c 0 epic_world]
  show ?thesis by fastforce
qed

text \<open>What the base plan of a batch is, position by position.\<close>

lemma chain_edges_at:
  "\<lbrakk>distinct cs; \<forall>c \<in> set cs. map_of es c = None\<rbrakk> \<Longrightarrow>
     (\<forall>j < length cs. map_of (chain_edges pred cs es) (cs ! j)
        = (if j = 0 then map_option (\<lambda>p. [p]) pred else Some [cs ! (j - 1)]))
     \<and> (\<forall>c. c \<notin> set cs \<longrightarrow> map_of (chain_edges pred cs es) c = map_of es c)"
proof (induction cs arbitrary: pred es)
  case (Cons c cs)
  let ?es = "case pred of None \<Rightarrow> es | Some p \<Rightarrow> AList.update c [p] es"
  have dom: "\<forall>x \<in> set cs. map_of ?es x = None" using Cons.prems by (auto simp: update_conv split: option.split)
  have c: "map_of ?es c = map_option (\<lambda>p. [p]) pred" using Cons.prems by (auto simp: update_conv split: option.split)
  have IH: "(\<forall>j < length cs. map_of (chain_edges (Some c) cs ?es) (cs ! j) = (if j = 0 then Some [c] else Some [cs ! (j - 1)]))
      \<and> (\<forall>x. x \<notin> set cs \<longrightarrow> map_of (chain_edges (Some c) cs ?es) x = map_of ?es x)"
    using Cons.IH [OF _ dom, of "Some c"] Cons.prems(1) by auto
  have "map_of (chain_edges pred (c # cs) es) ((c # cs) ! j)
      = (if j = 0 then map_option (\<lambda>p. [p]) pred else Some [(c # cs) ! (j - 1)])" if "j < length (c # cs)" for j
    using IH that c Cons.prems(1) by (cases j) (auto simp: nth_Cons')
  moreover have "map_of (chain_edges pred (c # cs) es) x = map_of es x" if "x \<notin> set (c # cs)" for x
    using IH that by (auto simp: update_conv split: option.split)
  ultimately show ?case by blast
qed simp

lemma star_edges_at:
  "distinct cs \<Longrightarrow>
     (\<forall>j < length cs. map_of (star_edges k hub i cs es) (cs ! j) = (if i + j = k then map_of es (cs ! j) else Some [hub]))
     \<and> (\<forall>c. c \<notin> set cs \<longrightarrow> map_of (star_edges k hub i cs es) c = map_of es c)"
proof (induction cs arbitrary: i es)
  case (Cons c cs)
  let ?es = "if i = k then es else AList.update c [hub] es"
  have IH: "(\<forall>j < length cs. map_of (star_edges k hub (Suc i) cs ?es) (cs ! j)
        = (if Suc i + j = k then map_of ?es (cs ! j) else Some [hub]))
      \<and> (\<forall>x. x \<notin> set cs \<longrightarrow> map_of (star_edges k hub (Suc i) cs ?es) x = map_of ?es x)"
    using Cons by auto
  have other: "map_of ?es x = map_of es x" if "x \<noteq> c" for x using that by (simp add: update_conv)
  have "map_of (star_edges k hub i (c # cs) es) ((c # cs) ! j)
      = (if i + j = k then map_of es ((c # cs) ! j) else Some [hub])" if j: "j < length (c # cs)" for j
  proof (cases j)
    case 0
    have "map_of (star_edges k hub i (c # cs) es) c = map_of ?es c" using IH Cons.prems by simp
    then show ?thesis using 0 by (simp add: update_conv)
  next
    case (Suc m)
    then have "cs ! m \<noteq> c" using j Cons.prems nth_mem [of m cs] by auto
    then show ?thesis using IH Suc j by (simp add: update_conv)
  qed
  moreover have "map_of (star_edges k hub i (c # cs) es) x = map_of es x" if "x \<notin> set (c # cs)" for x
    using IH other that by simp
  ultimately show ?case by blast
qed simp

text \<open>A child that creates the repository of the batch.\<close>

abbreviation creates_repo :: "child \<Rightarrow> bool" where
  "creates_repo c \<equiv> is_init_repo_child (fst (snd c)) (snd (snd c))"

lemma init_index_None: "init_index i cs = None \<longleftrightarrow> (\<forall>c \<in> set cs. \<not> creates_repo c)"
  by (induction cs arbitrary: i) auto

lemma init_index_Some:
  "init_index i cs = Some k \<Longrightarrow> i \<le> k \<and> k - i < length cs \<and> creates_repo (cs ! (k - i)) \<and> (\<forall>m < k - i. \<not> creates_repo (cs ! m))"
proof (induction cs arbitrary: i)
  case (Cons c cs)
  show ?case
  proof (cases "creates_repo c")
    case False
    then have IH: "Suc i \<le> k \<and> k - Suc i < length cs \<and> creates_repo (cs ! (k - Suc i)) \<and> (\<forall>m < k - Suc i. \<not> creates_repo (cs ! m))"
      using Cons by simp
    then obtain n where "k = Suc (i + n)" using less_iff_Suc_add [of i k] by auto
    then show ?thesis using IH False by (auto simp: less_Suc_eq_0_disj)
  qed (use Cons.prems in simp)
qed simp

lemma base_edges_at:
  assumes "distinct (map fst cs)" "\<And>p. pred = Some p \<Longrightarrow> p \<notin> set (map fst cs)" "j < length cs"
  shows "map_of (compute_base_edges cs pred) (fst (cs ! j)) =
    (case init_index 0 cs of
       None \<Rightarrow> if j = 0 then map_option (\<lambda>p. [p]) pred else Some [fst (cs ! (j - 1))]
     | Some k \<Rightarrow> if j = k then map_option (\<lambda>p. [p]) pred else Some [fst (cs ! k)])"
proof (cases "init_index 0 cs")
  case None
  then show ?thesis using chain_edges_at [OF assms(1), of "[]" pred] assms(3) by (auto simp: compute_base_edges_def)
next
  case (Some k)
  let ?es = "case pred of None \<Rightarrow> [] | Some p \<Rightarrow> [(fst (cs ! k), [p])]"
  have "map_of (star_edges k (fst (cs ! k)) 0 (map fst cs) ?es) (fst (cs ! j))
      = (if j = k then map_of ?es (fst (cs ! j)) else Some [fst (cs ! k)])"
    using star_edges_at [OF assms(1), of k "fst (cs ! k)" 0 ?es] assms(3) by auto
  moreover have "map_of ?es (fst (cs ! k)) = map_option (\<lambda>p. [p]) pred" by (cases pred) simp_all
  ultimately show ?thesis using Some by (simp add: compute_base_edges_def Let_def)
qed

lemma base_edges_only:
  assumes "distinct (map fst cs)" "c \<notin> set (map fst cs)"
  shows "map_of (compute_base_edges cs pred) c = None"
proof (cases "init_index 0 cs")
  case None
  then show ?thesis using chain_edges_at [OF assms(1), of "[]" pred] assms(2) by (auto simp: compute_base_edges_def)
next
  case (Some k)
  have "k < length cs" using init_index_bound [OF Some] by simp
  then have "fst (cs ! k) \<in> set (map fst cs)" by simp
  then have "c \<noteq> fst (cs ! k)" using assms(2) by blast
  then have "map_of (case pred of None \<Rightarrow> [] | Some p \<Rightarrow> [(fst (cs ! k), [p])]) c = None" by (cases pred) simp_all
  then show ?thesis using star_edges_at [OF assms(1), of k "fst (cs ! k)" 0] assms(2) Some
    by (simp add: compute_base_edges_def Let_def)
qed

lemma plan_is_base:
  assumes "ord [] = []" "\<And>c. c \<in> set cs \<Longrightarrow> parse_prereq_packages (snd (snd c)) = []"
  shows "plan_child_dependencies ord repos board_of filer pred cs w = (if cs = [] then [] else compute_base_edges cs pred, w)"
proof -
  have "group_bump_candidates ord cs m ps = []" for m ps
  proof -
    have "fold (\<lambda>c bs. case map_of m (fst c) of None \<Rightarrow> bs
        | Some consumer \<Rightarrow> fold (group_package m ps (fst c) consumer) (ord (parse_prereq_packages (snd (snd c)))) bs) ds bs
      = bs" if "set ds \<subseteq> set cs" for ds bs
      using that by (induction ds) (auto simp: assms split: option.split)
    then show ?thesis by (simp add: group_bump_candidates_def)
  qed
  then have "detect_cross_repo_deps ord rs board_of filer cs w = ([], w)" for rs
    by (simp add: detect_cross_repo_deps_def Let_def)
  then show ?thesis by (simp add: plan_child_dependencies_def Let_def split: option.split)
qed

text \<open>
  C19: The planned order of a batch of new children, whose ids are distinct and none of which is the
  predecessor, when none of them names a package it needs (and a walk through no packages yields none).
  Where no child creates a repository, each child waits for just the one before it, the first one for
  the predecessor, if there is one. Otherwise all others wait for just the first child that creates
  one, and that child for the predecessor. Nothing else gets an edge, nothing is filed on the way, and
  no children wait for each other in a circle.
\<close>

theorem base_plan_acyclic:
  assumes "distinct (map fst cs)" "\<And>p. pred = Some p \<Longrightarrow> p \<notin> set (map fst cs)" "ord [] = []"
    "\<And>c. c \<in> set cs \<Longrightarrow> parse_prereq_packages (snd (snd c)) = []"
  shows "\<exists>es. plan_child_dependencies ord repos board_of filer pred cs w = (es, w) \<and> acyclic (edge_rel es)
    \<and> (\<forall>c. c \<notin> set (map fst cs) \<longrightarrow> map_of es c = None)
    \<and> ((\<forall>c \<in> set cs. \<not> creates_repo c)
         \<and> (\<forall>j < length cs. map_of es (fst (cs ! j))
              = (if j = 0 then map_option (\<lambda>p. [p]) pred else Some [fst (cs ! (j - 1))]))
       \<or> (\<exists>k < length cs. creates_repo (cs ! k) \<and> (\<forall>m < k. \<not> creates_repo (cs ! m))
         \<and> (\<forall>j < length cs. map_of es (fst (cs ! j))
              = (if j = k then map_option (\<lambda>p. [p]) pred else Some [fst (cs ! k)]))))"
proof -
  have plan: "plan_child_dependencies ord repos board_of filer pred cs w = (if cs = [] then [] else compute_base_edges cs pred, w)"
    by (rule plan_is_base) (use assms(3,4) in auto)
  let ?es = "compute_base_edges cs pred"
  note at = base_edges_at [OF assms(1,2)] and only = base_edges_only [OF assms(1)]
  show ?thesis
  proof (cases "cs = []")
    case True
    then show ?thesis using plan by (simp add: edge_rel_def acyclic_def)
  next
    case False
    have "acyclic (edge_rel ?es)" by (rule base_acyclic [OF assms(1,2)])
    moreover have "\<forall>c. c \<notin> set (map fst cs) \<longrightarrow> map_of ?es c = None" using only by blast
    moreover have "(\<forall>c \<in> set cs. \<not> creates_repo c)
         \<and> (\<forall>j < length cs. map_of ?es (fst (cs ! j))
              = (if j = 0 then map_option (\<lambda>p. [p]) pred else Some [fst (cs ! (j - 1))]))
       \<or> (\<exists>k < length cs. creates_repo (cs ! k) \<and> (\<forall>m < k. \<not> creates_repo (cs ! m))
         \<and> (\<forall>j < length cs. map_of ?es (fst (cs ! j))
              = (if j = k then map_option (\<lambda>p. [p]) pred else Some [fst (cs ! k)])))"
    proof (cases "init_index 0 cs")
      case None
      then show ?thesis using at init_index_None [of 0 cs] by simp
    next
      case (Some k)
      then show ?thesis using at init_index_Some [OF Some] by auto
    qed
    ultimately show ?thesis using plan False by auto
  qed
qed

lemma base_plan_acyclic_witness:
  "\<exists>es. plan_child_dependencies (\<lambda>xs. xs) None board_of_two file_titled (Some ''c0'')
     [(''c1'', ''Add a'', []), (''c2'', ''Add b'', [])] epic_world = (es, epic_world) \<and> acyclic (edge_rel es)"
proof -
  let ?cs = "[(''c1'', ''Add a'', []), (''c2'', ''Add b'', [])] :: child list"
  have "distinct (map fst ?cs)" by simp
  moreover have "p \<notin> set (map fst ?cs)" if "Some ''c0'' = Some p" for p using that by auto
  moreover have "parse_prereq_packages (snd (snd c)) = []" if "c \<in> set ?cs" for c
    using that by (auto simp: needs_nothing)
  ultimately show ?thesis
    using base_plan_acyclic [of ?cs "Some ''c0''" "\<lambda>xs. xs" None board_of_two file_titled epic_world] by blast
qed

text \<open>
  The re-processing of an epic after a comment is a run of calls of the service, whatever the
  agent proposes and whatever the rest of the mill does meanwhile: every invariant of the reachable
  worlds holds after it.
\<close>

theorem reprocess_refines_service:
  assumes "\<And>s desc log repos own w. reaches x w (snd (agent s desc log repos own w))"
  shows "reaches x w (run_epic_reprocess st x days fresh ord agent i known w)"
  by (rule reprocess_acts [OF assms])

lemma reprocess_refines_service_witness:
  "reaches sample_externals epic_world
     (run_epic_reprocess sample_settings sample_externals 7 (\<lambda>_. ''abcd'') (\<lambda>xs. xs)
        (\<lambda>_ _ _ _ _ w. (Some \<lparr>child_titles = [''Add a''], child_bodies = [''Do it''], child_repo_ids = []\<rparr>, w))
        ''e1'' ''alpha'' epic_world)"
  by (rule reprocess_refines_service) simp

end
