(* ===== verification/Helpers.thy ===== *)
theory Helpers
  imports Processing
begin

text \<open>
  The pure helpers of the core: durations, \<open>core/duration.py\<close>; the truncation of texts and diffs that
  go into prompts, \<open>core/text_utils.py\<close>; reports and tickets with nothing in them, \<open>core/text_noop.py\<close>;
  the reasons of a block that a program can read, \<open>core/block_reason.py\<close>.
\<close>

section \<open>Durations\<close>

definition UNIT_SECONDS :: "(char \<times> nat) list" where
  "UNIT_SECONDS = [(CHR ''w'', 604800), (CHR ''d'', 86400), (CHR ''h'', 3600), (CHR ''m'', 60), (CHR ''s'', 1)]"

text \<open>The group of a unit has the number of its place.\<close>

fun units_rx :: "nat \<Rightarrow> char list \<Rightarrow> rx" where
  "units_rx k [] = TextEnd"
| "units_rx k (u # us) = Cat (opt_rx (Cat (Grp k (plus_rx (Cls is_digit))) (chr_rx u))) (units_rx (Suc k) us)"

definition DURATION_RE :: rx where
  "DURATION_RE = units_rx 0 (map fst UNIT_SECONDS)"

datatype duration_value = Secs int | Spelled string | Flag bool

definition value_repr :: "duration_value \<Rightarrow> string" where
  "value_repr v =
     (case v of Secs i \<Rightarrow> show_int i | Spelled s \<Rightarrow> py_repr s | Flag b \<Rightarrow> if b then ''True'' else ''False'')"

definition EXPECTED_DURATION :: string where
  "EXPECTED_DURATION = ''an integer number of seconds or a form like '' @ CHR 0x27 # ''1w2d3h40m10s'' @ [CHR 0x27]"

definition bad_duration :: "duration_value \<Rightarrow> string" where
  "bad_duration v = ''invalid duration '' @ value_repr v @ ''; expected '' @ EXPECTED_DURATION"

fun units_total :: "nat \<Rightarrow> (char \<times> nat) list \<Rightarrow> (nat \<rightharpoonup> string) \<Rightarrow> nat" where
  "units_total k [] g = 0"
| "units_total k ((u, sec) # us) g =
     (case g k of None \<Rightarrow> 0 | Some ds \<Rightarrow> digits_val ds * sec) + units_total (Suc k) us g"

definition parse_duration :: "duration_value \<Rightarrow> string + nat" where
  "parse_duration v =
     (case v of
        Flag b \<Rightarrow> Inl (bad_duration v)
      | Secs i \<Rightarrow> if i < 0 then Inl (''invalid duration '' @ value_repr v @ ''; must not be negative'') else Inr (nat i)
      | Spelled s \<Rightarrow>
          (let t = strip s
           in if t = [] then Inl (bad_duration v)
              else (case match_start DURATION_RE t of
                      Some g \<Rightarrow>
                        if list_ex (\<lambda>k. g k \<noteq> None) [0..<length UNIT_SECONDS] then Inr (units_total 0 UNIT_SECONDS g)
                        else if list_all is_digit t then Inr (digits_val t)
                        else Inl (bad_duration v)
                    | None \<Rightarrow> if list_all is_digit t then Inr (digits_val t) else Inl (bad_duration v))))"

fun duration_parts :: "(char \<times> nat) list \<Rightarrow> nat \<Rightarrow> string" where
  "duration_parts [] n = []"
| "duration_parts ((u, sec) # us) n =
     (if n div sec = 0 then [] else show_nat (n div sec) @ [u]) @ duration_parts us (n mod sec)"

definition format_duration :: "duration_value \<Rightarrow> string + string" where
  "format_duration v =
     (case v of
        Secs i \<Rightarrow>
          if i < 0 then Inl (''invalid duration '' @ value_repr v @ ''; must not be negative'')
          else if i = 0 then Inr ''0s''
          else Inr (duration_parts UNIT_SECONDS (nat i))
      | _ \<Rightarrow> Inl (''invalid duration '' @ value_repr v @ ''; expected a non-negative int''))"

section \<open>Truncation\<close>

text \<open>The number of characters, a character being several bytes.\<close>

definition n_chars :: "string \<Rightarrow> nat" where
  "n_chars s = length (filter (\<lambda>c. \<not> continuation c) s)"

definition drop_chars :: "nat \<Rightarrow> string \<Rightarrow> string" where
  "drop_chars n s = drop (length (take_chars n s)) s"

definition rfind :: "string \<Rightarrow> string \<Rightarrow> nat option" where
  "rfind p s = find (\<lambda>i. startswith p (drop i s)) (rev [0..<Suc (length s)])"

definition BOUNDARIES :: "string list" where
  "BOUNDARIES =
     [''. '', ''! '', ''? '', CHR ''.'' # nl, CHR ''!'' # nl, CHR ''?'' # nl, nl @ nl, ''```'']"

definition truncate_at_boundary :: "string \<Rightarrow> nat \<Rightarrow> string" where
  "truncate_at_boundary s max_chars =
     (if n_chars s \<le> max_chars then s
      else (let pre = take_chars max_chars s;
                cuts = List.map_filter (\<lambda>p. map_option (\<lambda>i. i + length p) (rfind p pre)) BOUNDARIES;
                truncated = rstrip (if cuts = [] then pre else take (fold max cuts 0) s)
            in truncated @ nl @ nl @ ''[... description truncated; ''
               @ show_nat (n_chars s - n_chars truncated) @ '' chars omitted]''))"

text \<open>What follows the first line break, when there is one.\<close>

definition next_line :: "string \<Rightarrow> string" where
  "next_line s = (if CHR 0x0A \<in> set s then tl (dropWhile (\<lambda>c. c \<noteq> CHR 0x0A) s) else s)"

definition tail_keep :: "string \<Rightarrow> nat \<Rightarrow> string \<Rightarrow> string" where
  "tail_keep s max_chars label =
     (if n_chars s \<le> max_chars then s
      else (let kept = next_line (drop_chars (n_chars s - max_chars) s)
            in ''[... '' @ label @ '' truncated: '' @ show_nat (n_chars s - n_chars kept)
               @ '' chars omitted]'' @ nl @ nl @ kept))"

text \<open>What precedes the last line break and the break, when there is one.\<close>

definition whole_lines :: "string \<Rightarrow> string" where
  "whole_lines s = (if CHR 0x0A \<in> set s then rev (dropWhile (\<lambda>c. c \<noteq> CHR 0x0A) (rev s)) else s)"

definition kept_head :: "string \<Rightarrow> nat \<Rightarrow> string" where
  "kept_head s max_chars = whole_lines (take_chars (max_chars * 6 div 10) s)"

definition kept_tail :: "string \<Rightarrow> nat \<Rightarrow> string" where
  "kept_tail s max_chars = next_line (drop_chars (n_chars s - (max_chars - max_chars * 6 div 10)) s)"

definition head_tail_keep :: "string \<Rightarrow> nat \<Rightarrow> string \<Rightarrow> string" where
  "head_tail_keep s max_chars label =
     (if max_chars = 0 \<or> n_chars s \<le> max_chars then s
      else (let h = kept_head s max_chars; t = kept_tail s max_chars
            in h @ nl @ nl @ ''[... '' @ label @ '' truncated: '' @ show_nat (n_chars s - n_chars h - n_chars t)
               @ '' chars omitted from the middle ...]'' @ nl @ nl @ t))"

section \<open>Thinning a diff\<close>

text \<open>\<open>str.splitlines(keepends=True)\<close>.\<close>

fun keep_lines_acc :: "string \<Rightarrow> string \<Rightarrow> string list" where
  "keep_lines_acc acc [] = (if acc = [] then [] else [rev acc])"
| "keep_lines_acc acc [c] = [rev (c # acc)]"
| "keep_lines_acc acc (c # d # cs) =
     (if c = CHR 0x0D \<and> d = CHR 0x0A then rev (d # c # acc) # keep_lines_acc [] cs
      else if is_line_break c then rev (c # acc) # keep_lines_acc [] (d # cs)
      else keep_lines_acc (c # acc) (d # cs))"

definition keep_lines :: "string \<Rightarrow> string list" where
  "keep_lines s = keep_lines_acc [] s"

datatype run_place = AtStart | AtMiddle | AtEnd

definition omitted_marker :: "nat \<Rightarrow> string" where
  "omitted_marker n = ''[... '' @ show_nat n @ '' context lines omitted ...]'' @ nl"

definition emit_context_run :: "string list \<Rightarrow> nat \<Rightarrow> run_place \<Rightarrow> string list" where
  "emit_context_run run k p =
     (let n = length run; keep = min k n
      in if run = [] then []
         else case p of
             AtStart \<Rightarrow> (if keep < n then [omitted_marker (n - keep)] else []) @ drop (n - keep) run
           | AtEnd \<Rightarrow> take keep run @ (if keep < n then [omitted_marker (n - keep)] else [])
           | AtMiddle \<Rightarrow>
               if n \<le> 2 * k then run
               else take k run @ [omitted_marker (n - 2 * k)] @ drop (n - k) run)"

fun thin_lines :: "nat \<Rightarrow> string list \<Rightarrow> bool \<Rightarrow> bool \<Rightarrow> string list \<Rightarrow> string list" where
  "thin_lines k run in_hunk seen [] = emit_context_run run k (if seen then AtEnd else AtStart)"
| "thin_lines k run in_hunk seen (l # ls) =
     (if startswith ''@@'' l then
        emit_context_run run k (if seen then AtEnd else AtStart) @ l # thin_lines k [] True False ls
      else if startswith '' '' l then thin_lines k (run @ [l]) in_hunk seen ls
      else if \<not> in_hunk \<and> (startswith ''--- '' l \<or> startswith ''+++ '' l) then
        emit_context_run run k (if seen then AtEnd else AtStart) @ l # thin_lines k [] in_hunk False ls
      else if startswith ''+'' l \<or> startswith ''-'' l \<or> startswith [CHR 0x5C] l then
        emit_context_run run k (if seen then AtMiddle else AtStart) @ l # thin_lines k [] in_hunk True ls
      else emit_context_run run k (if seen then AtEnd else AtStart) @ l # thin_lines k [] False False ls)"

definition limit_diff_context :: "string \<Rightarrow> int \<Rightarrow> string" where
  "limit_diff_context diff k =
     (if k \<le> 0 then diff else concat (thin_lines (nat k) [] False False (keep_lines diff)))"

section \<open>Nothing to report\<close>

definition NOOP_MARKERS :: "string list" where
  "NOOP_MARKERS =
    [''no notable issue'', ''no issues'', ''no issue'', ''clean run'', ''nothing to flag'',
     ''nothing to report'', ''no improvement'', ''no action needed'', ''no concerns'',
     ''no notable finding'', ''all good'', ''no changes needed'', ''clean ticket'',
     ''nothing notable'']"

definition COMPLETION_ANNOUNCEMENT_MARKERS :: "string list" where
  "COMPLETION_ANNOUNCEMENT_MARKERS =
    [''refine complete'', ''spec produced'', ''refinement complete'']"

definition CODE_CHANGE_MANDATE_PHRASES :: "string list" where
  "CODE_CHANGE_MANDATE_PHRASES =
    [''non-empty diff'', ''nonempty diff'', ''non-empty change'', ''must produce a diff'',
     ''must produce a non-empty'', ''must produce changes'', ''must make changes'',
     ''must change at least one file'', ''must modify at least one file'',
     ''must not produce an empty diff'', ''must not result in an empty diff'',
     ''must not close without'', ''must not be closed without'', ''must not mark as no-change'',
     ''must not conclude no change'',
     ''must not conclude '' @ CHR 0x27 # ''already satisfied'' @ CHR 0x27 # [],
     ''must result in a non-empty diff'', ''empty diff is not acceptable'',
     ''an empty diff is not acceptable'', ''forbidden to close without changes'',
     ''required artifacts'', ''required files'', ''required deliverables'',
     ''must create the following'', ''must create a file'', ''must add the following files'']"

definition PLACEHOLDER_BODY_PHRASES :: "string list" where
  "PLACEHOLDER_BODY_PHRASES =
    [''see spec above'', ''see the spec above'', ''see above'', ''see spec'', ''see the spec'',
     ''see description'', ''see the description'', ''spec above'', ''as above'',
     ''as written above'', ''see previous'', ''see below'', ''refer to spec'', ''tbd'',
     ''todo'']"

definition PLACEHOLDER_TITLE_TOKENS :: "string list" where
  "PLACEHOLDER_TITLE_TOKENS =
    [''noop'', ''no op'', ''dummy'', ''dummy ticket'', ''test'', ''tests'', ''testing'',
     ''test ticket'', ''test123'', ''placeholder'', ''placeholder ticket'', ''disregard'',
     ''disregard placeholder'', ''ignore'', ''ignore me'', ''ignore this'', ''delete'',
     ''delete me'', ''deleteme'', ''throwaway'', ''throw away'', ''sample'', ''example'',
     ''foo'', ''bar'', ''baz'', ''asdf'', ''qwerty'', ''xxx'', ''tmp'', ''temp'', ''junk'',
     ''scratch'']"

definition is_completion_announcement :: "string option \<Rightarrow> bool" where
  "is_completion_announcement ti =
     (let s = lower (strip (or_empty ti)) in s \<noteq> [] \<and> list_ex (\<lambda>m. contains m s) COMPLETION_ANNOUNCEMENT_MARKERS)"

definition is_noop_report :: "string option \<Rightarrow> bool" where
  "is_noop_report ti =
     (let s = lower (strip (or_empty ti)) in s = [] \<or> list_ex (\<lambda>m. contains m s) NOOP_MARKERS)"

definition spec_demands_code_change :: "string option \<Rightarrow> bool" where
  "spec_demands_code_change txt =
     (let s = lower (strip (or_empty txt)) in s \<noteq> [] \<and> list_ex (\<lambda>m. contains m s) CODE_CHANGE_MANDATE_PHRASES)"

text \<open>Lower case, everything but letters and digits a space, runs of spaces one.\<close>

definition plain_words :: "string \<Rightarrow> string" where
  "plain_words s =
     join '' '' (words (map (\<lambda>c. if is_lower c \<or> is_digit c \<or> c = CHR '' '' then c else CHR '' '') (lower s)))"

definition degenerate_body_reason :: "string option \<Rightarrow> string option" where
  "degenerate_body_reason txt =
     (let s = strip (or_empty txt); norm = plain_words s
      in if s = [] then Some ''body is empty''
         else if 120 < n_chars s then None
         else if norm = [] then Some ''body is only punctuation''
         else map_option (\<lambda>p. ''body matches placeholder phrase '' @ py_repr p)
                (find (\<lambda>p. contains p norm) PLACEHOLDER_BODY_PHRASES))"

definition is_degenerate_body :: "string option \<Rightarrow> bool" where
  "is_degenerate_body txt \<longleftrightarrow> degenerate_body_reason txt \<noteq> None"

definition is_placeholder_ticket :: "string option \<Rightarrow> string option \<Rightarrow> bool" where
  "is_placeholder_ticket ti body =
     (let norm = plain_words (or_empty ti)
      in norm = [] \<or> norm \<in> set PLACEHOLDER_TITLE_TOKENS
         \<or> (takeWhile (\<lambda>c. c \<noteq> CHR '' '') norm \<in> set PLACEHOLDER_TITLE_TOKENS \<and> is_degenerate_body body))"

section \<open>Structured block reasons\<close>

definition TARGET_BRANCH_RED :: string where
  "TARGET_BRANCH_RED = ''target_branch_red''"

text \<open>The keys of the object are sorted; Python lets no parameter be called kind.\<close>

definition encode_reason :: "string \<Rightarrow> (string \<times> json) list \<Rightarrow> string" where
  "encode_reason knd params =
     dumps (JObj (sort_key (\<lambda>e. str_key (fst e)) ((''kind'', JStr knd) # params)))"

definition json_true :: "json option \<Rightarrow> bool" where
  "json_true j =
     (case j of None \<Rightarrow> False | Some JNull \<Rightarrow> False | Some (JBool b) \<Rightarrow> b | Some (JInt i) \<Rightarrow> i \<noteq> 0
      | Some (JStr s) \<Rightarrow> s \<noteq> [] | Some (JArr js) \<Rightarrow> js \<noteq> [] | Some (JObj es) \<Rightarrow> es \<noteq> []
      | Some (JFloat s) \<Rightarrow> contains ''N'' s \<or> contains ''I'' s
          \<or> list_ex (\<lambda>c. is_digit c \<and> c \<noteq> CHR ''0'') (takeWhile (\<lambda>c. lower_char c \<noteq> CHR ''e'') s))"

definition decode_reason :: "string option \<Rightarrow> (string \<times> json) list option" where
  "decode_reason raw =
     (if \<not> truthy raw then None
      else (case loads (the raw) of
              Some (JObj es) \<Rightarrow> if json_true (map_of (rev es) ''kind'') then Some es else None
            | _ \<Rightarrow> None))"

end
