(* ===== verification/Excerpts.thy ===== *)
theory Excerpts
  imports Helpers "HOL-Library.Sublist"
begin

text \<open>
  What the helpers guarantee: a duration is read back from what it is written as, a truncated text is
  a head and a tail of the text within the budget, a thinned diff keeps every line that is not context.
\<close>

section \<open>Durations\<close>

lemma ways_digits:
  assumes "\<forall>c \<in> set ds. is_digit c" "\<not> is_digit u" "rx_rest s = ds @ r" "r = [] \<or> \<not> is_digit (hd r)"
  shows "concat (map (\<lambda>s'. ways (chr_rx u) (s'\<lparr>rx_groups := G s'\<rparr>)) (ways (Rep m None (Cls is_digit)) s))
    = (if m \<le> length ds \<and> r \<noteq> [] \<and> hd r = u
       then [\<lparr>rx_before = Some u, rx_rest = tl r,
              rx_groups = G (s\<lparr>rx_before := (if ds = [] then rx_before s else Some (last ds)), rx_rest := r\<rparr>)\<rparr>] else [])"
  using assms
proof (induction ds arbitrary: s m)
  case Nil
  then have "ways (Rep m None (Cls is_digit)) s = (if m = 0 then [s] else [])"
    unfolding ways_Rep [of m None "Cls is_digit" s] by (cases r) auto
  then show ?case using Nil by (cases s; cases r) (auto simp: chr_rx_def step_char_def)
next
  case (Cons d ds)
  have one: "ways (Rep m None (Cls is_digit)) s
      = ways (Rep (m - 1) None (Cls is_digit)) (step_char s) @ (if m = 0 then [s] else [])"
    unfolding ways_Rep [of m None "Cls is_digit" s] using Cons.prems
    by (simp add: shorter_def step_char_def less_one_def)
  have no: "ways (chr_rx u) (s\<lparr>rx_groups := G s\<rparr>) = []" using Cons.prems by (auto simp: chr_rx_def)
  have st: "step_char s = s\<lparr>rx_before := Some d, rx_rest := ds @ r\<rparr>" using Cons.prems by (simp add: step_char_def)
  have IH: "concat (map (\<lambda>s'. ways (chr_rx u) (s'\<lparr>rx_groups := G s'\<rparr>))
      (ways (Rep (m - 1) None (Cls is_digit)) (step_char s)))
    = (if m - 1 \<le> length ds \<and> r \<noteq> [] \<and> hd r = u
       then [\<lparr>rx_before = Some u, rx_rest = tl r,
              rx_groups = G ((step_char s)\<lparr>rx_before := (if ds = [] then rx_before (step_char s) else Some (last ds)), rx_rest := r\<rparr>)\<rparr>]
       else [])"
    by (rule Cons.IH) (use Cons.prems st in auto)
  have le: "m - 1 \<le> length ds \<longleftrightarrow> m \<le> length (d # ds)" by auto
  have "concat (map (\<lambda>s'. ways (chr_rx u) (s'\<lparr>rx_groups := G s'\<rparr>)) (ways (Rep m None (Cls is_digit)) s))
    = concat (map (\<lambda>s'. ways (chr_rx u) (s'\<lparr>rx_groups := G s'\<rparr>)) (ways (Rep (m - 1) None (Cls is_digit)) (step_char s)))"
    unfolding one using no by simp
  also note IH
  finally show ?case unfolding le st by simp
qed

lemma ways_opt: "ways (opt_rx a) s = filter (shorter s) (ways a s) @ [s]"
proof -
  have "ways (Rep 0 (Some 0) a) = (\<lambda>s. [s])" by (rule ext) (simp add: ways_Rep)
  then show ?thesis by (simp add: ways_Rep [of 0 "Some (Suc 0)"] less_one_def)
qed

lemma ways_unit:
  assumes "ds \<noteq> []" "\<forall>c \<in> set ds. is_digit c" "\<not> is_digit u" "rx_rest s = ds @ r" "r = [] \<or> \<not> is_digit (hd r)"
  shows "ways (Cat (Grp k (plus_rx (Cls is_digit))) (chr_rx u)) s
    = (if r \<noteq> [] \<and> hd r = u
       then [\<lparr>rx_before = Some u, rx_rest = tl r, rx_groups = (rx_groups s)(k \<mapsto> ds)\<rparr>] else [])"
  using assms ways_digits [OF assms(2-5), of "\<lambda>s'. (rx_groups s')(k \<mapsto> consumed s s')" 1]
  by (cases ds) (auto simp: consumed_def comp_def)

lemma ways_no_unit:
  assumes "rx_rest s = [] \<or> \<not> is_digit (hd (rx_rest s))"
  shows "ways (opt_rx (Cat (Grp k (plus_rx (Cls is_digit))) (chr_rx u))) s = [s]"
proof -
  have "ways (plus_rx (Cls is_digit)) s = []" using assms by (cases "rx_rest s") (simp_all add: ways_Rep)
  then show ?thesis unfolding ways_opt by simp
qed

text \<open>The text of some units, and the groups it is matched to.\<close>

fun spelled :: "(char \<times> nat) list \<Rightarrow> string" where
  "spelled [] = []"
| "spelled ((u, q) # us) = (if q = 0 then [] else show_nat q @ [u]) @ spelled us"

fun groups_of :: "nat \<Rightarrow> (char \<times> nat) list \<Rightarrow> (nat \<rightharpoonup> string) \<Rightarrow> (nat \<rightharpoonup> string)" where
  "groups_of k [] g = g"
| "groups_of k ((u, q) # us) g = groups_of (Suc k) us (if q = 0 then g else g(k \<mapsto> show_nat q))"

lemma spelled_start:
  "spelled us = [] \<or> (\<exists>ds u r. spelled us = ds @ u # r \<and> ds \<noteq> [] \<and> (\<forall>c \<in> set ds. is_digit c) \<and> u \<in> fst ` set us)"
proof (induction us rule: spelled.induct)
  case (2 u q us)
  show ?case
  proof (cases "q = 0")
    case False
    then have "spelled ((u, q) # us) = show_nat q @ u # spelled us" by simp
    then show ?thesis using show_nat_digits [of q] by (metis fst_conv image_eqI list.set_intros(1) show_nat_not_Nil)
  qed (use 2 in auto)
qed simp

lemma units_matched:
  assumes "distinct (map fst us)" "\<forall>u \<in> set (map fst us). \<not> is_digit u" "rx_rest s = spelled us"
  shows "\<exists>s'. rx_match (units_rx k (map fst us)) s = Some s' \<and> rx_groups s' = groups_of k us (rx_groups s)"
  using assms
proof (induction us arbitrary: k s rule: spelled.induct)
  case 1
  then show ?case by (simp add: rx_match_def)
next
  case (2 u q us)
  let ?unit = "opt_rx (Cat (Grp k (plus_rx (Cls is_digit))) (chr_rx u))"
  have IH: "\<exists>s'. rx_match (units_rx (Suc k) (map fst us)) s2 = Some s' \<and> rx_groups s' = groups_of (Suc k) us (rx_groups s2)"
    if "rx_rest s2 = spelled us" for s2 using 2 that by simp
  have start: "\<exists>s2 ss. ways ?unit s = s2 # ss \<and> rx_rest s2 = spelled us
      \<and> rx_groups s2 = (if q = 0 then rx_groups s else (rx_groups s)(k \<mapsto> show_nat q))"
  proof (cases "q = 0")
    case False
    have "ways (Cat (Grp k (plus_rx (Cls is_digit))) (chr_rx u)) s
      = (if u # spelled us \<noteq> [] \<and> hd (u # spelled us) = u
       then [\<lparr>rx_before = Some u, rx_rest = tl (u # spelled us), rx_groups = (rx_groups s)(k \<mapsto> show_nat q)\<rparr>] else [])"
      by (rule ways_unit) (use 2 False show_nat_digits in auto)
    then show ?thesis using 2(4) False unfolding ways_opt by (simp add: shorter_def)
  next
    case True
    then have rest: "rx_rest s = spelled us" using 2 by simp
    show ?thesis
    proof (cases "spelled us = []")
      case True
      then show ?thesis using ways_no_unit [of s k u] rest \<open>q = 0\<close> by simp
    next
      case False
      with spelled_start [of us] obtain ds u' r where sp: "spelled us = ds @ u' # r" "ds \<noteq> []"
        "\<forall>c \<in> set ds. is_digit c" "u' \<in> fst ` set us" by blast
      have "u' \<noteq> u" "\<not> is_digit u'" using sp(4) 2(2,3) by auto
      then have "ways (Cat (Grp k (plus_rx (Cls is_digit))) (chr_rx u)) s = []"
        using ways_unit [of ds u s "u' # r" k] sp rest 2(3) by simp
      then show ?thesis unfolding ways_opt using rest \<open>q = 0\<close> by (simp del: ways.simps)
    qed
  qed
  then obtain s2 ss where s2: "ways ?unit s = s2 # ss" "rx_rest s2 = spelled us"
    "rx_groups s2 = (if q = 0 then rx_groups s else (rx_groups s)(k \<mapsto> show_nat q))" by blast
  obtain x xs where x: "ways (units_rx (Suc k) (map fst us)) s2 = x # xs" "rx_groups x = groups_of (Suc k) us (rx_groups s2)"
    using IH [OF s2(2)] unfolding rx_match_def by (auto split: list.splits)
  have "ways (units_rx k (map fst ((u, q) # us))) s = x # xs @ concat (map (ways (units_rx (Suc k) (map fst us))) ss)"
    unfolding list.map fst_conv units_rx.simps ways.simps(3) s2(1) by (simp add: x(1))
  then show ?case using x(2) s2(3) by (simp add: rx_match_def)
qed


text \<open>The quotients of a number by the units.\<close>

fun quotients :: "(char \<times> nat) list \<Rightarrow> nat \<Rightarrow> (char \<times> nat) list" where
  "quotients [] n = []"
| "quotients ((u, sec) # us) n = (u, n div sec) # quotients us (n mod sec)"

lemma parts_spelled: "duration_parts us n = spelled (quotients us n)"
  by (induction us n rule: quotients.induct) auto

lemma map_fst_quotients [simp]: "map fst (quotients us n) = map fst us"
  by (induction us n rule: quotients.induct) auto

lemma groups_before: "j < k \<Longrightarrow> groups_of k us g j = g j"
  by (induction k us g rule: groups_of.induct) auto

lemma total_quotients:
  "\<lbrakk>us \<noteq> []; snd (last us) = 1; \<And>j. k \<le> j \<Longrightarrow> g j = None\<rbrakk> \<Longrightarrow>
     units_total k us (groups_of k (quotients us n) g) = n"
proof (induction us n arbitrary: k g rule: quotients.induct)
  case (2 u sec us n)
  let ?g = "if n div sec = 0 then g else g(k \<mapsto> show_nat (n div sec))"
  have here: "groups_of (Suc k) (quotients us (n mod sec)) ?g k = ?g k" by (rule groups_before) simp
  have fits: "(case ?g k of None \<Rightarrow> 0 | Some ds \<Rightarrow> digits_val ds * sec) = n div sec * sec"
    using 2(4) by simp
  show ?case
  proof (cases "us = []")
    case True
    then show ?thesis using 2(3) 2(4) [of k] fits by simp
  next
    case False
    have "units_total (Suc k) us (groups_of (Suc k) (quotients us (n mod sec)) ?g) = n mod sec"
      by (rule 2(1)) (use False 2(3,4) in auto)
    then show ?thesis using here fits by simp
  qed
qed simp

lemma some_group:
  "spelled us \<noteq> [] \<Longrightarrow> \<exists>j < length us. groups_of k us g (k + j) \<noteq> None"
proof (induction k us g rule: groups_of.induct)
  case (2 k u q us g)
  show ?case
  proof (cases "q = 0")
    case True
    then obtain j where "j < length us" "groups_of (Suc k) us g (Suc k + j) \<noteq> None" using 2 by auto
    then show ?thesis using True by (intro exI [of _ "Suc j"]) simp
  next
    case False
    then have "groups_of k ((u, q) # us) g (k + 0) \<noteq> None" by (simp add: groups_before)
    then show ?thesis by blast
  qed
qed simp

lemma spelled_zero: "spelled us = [] \<Longrightarrow> groups_of k us g = g"
  by (induction k us g rule: groups_of.induct) (auto split: if_splits)


lemma spelled_chars: "c \<in> set (spelled us) \<Longrightarrow> is_digit c \<or> c \<in> fst ` set us"
  using show_nat_digits by (induction us rule: spelled.induct) (auto split: if_splits)

lemma unit_chars: "u \<in> fst ` set UNIT_SECONDS \<Longrightarrow> \<not> is_digit u \<and> \<not> is_space u"
  by (auto simp: UNIT_SECONDS_def is_digit_def is_space_def code_def)

lemma parse_parts:
  assumes "0 < n"
  shows "parse_duration (Spelled (duration_parts UNIT_SECONDS n)) = Inr n"
proof -
  let ?qs = "quotients UNIT_SECONDS n" and ?s = "start_state (duration_parts UNIT_SECONDS n)"
  have total: "units_total 0 UNIT_SECONDS (groups_of 0 ?qs Map.empty) = n"
    by (rule total_quotients) (simp_all add: UNIT_SECONDS_def)
  have zero: "units_total k us Map.empty = 0" for k us by (induction us arbitrary: k) auto
  have some: "spelled ?qs \<noteq> []"
  proof
    assume "spelled ?qs = []"
    from spelled_zero [OF this, of 0 Map.empty] total zero assms show False by simp
  qed
  have sub: "fst ` set ?qs = fst ` set UNIT_SECONDS" by (metis list.set_map map_fst_quotients)
  have "\<forall>c \<in> set (spelled ?qs). \<not> is_space c"
    using spelled_chars unit_chars digit_not_space unfolding sub by (metis spelled_chars sub)
  then have strip: "strip (spelled ?qs) = spelled ?qs" unfolding strip_def by (rule strip_by_none)
  have "\<exists>s'. rx_match (units_rx 0 (map fst ?qs)) ?s = Some s' \<and> rx_groups s' = groups_of 0 ?qs (rx_groups ?s)"
    by (rule units_matched) (use unit_chars sub in \<open>auto simp: UNIT_SECONDS_def start_state_def parts_spelled\<close>)
  then have match: "match_start DURATION_RE (spelled ?qs) = Some (groups_of 0 ?qs Map.empty)"
    by (auto simp: match_start_def DURATION_RE_def start_state_def parts_spelled)
  obtain j where "j < length ?qs" "groups_of 0 ?qs Map.empty (0 + j) \<noteq> None" using some_group [OF some] by blast
  moreover have "length ?qs = length UNIT_SECONDS" by (metis length_map map_fst_quotients)
  ultimately have "list_ex (\<lambda>k. groups_of 0 ?qs Map.empty k \<noteq> None) [0..<length UNIT_SECONDS]"
    by (auto simp: list_ex_iff)
  then show ?thesis
    unfolding parse_duration_def parts_spelled duration_value.case Let_def strip match option.case total by (simp add: some)
qed

section \<open>Truncation\<close>

lemma n_chars_append [simp]: "n_chars (a @ b) = n_chars a + n_chars b"
  by (simp add: n_chars_def)

lemma n_chars_Nil [simp]: "n_chars [] = 0"
  by (simp add: n_chars_def)

lemma take_chars_take: "\<exists>k. take_chars n s = take k s"
proof (induction n s rule: take_chars.induct)
  case (2 n c cs)
  show ?case
  proof (cases "continuation c")
    case True
    then obtain k where "take_chars n cs = take k cs" using 2(1) by blast
    then show ?thesis using True by (intro exI [of _ "Suc k"]) simp
  next
    case False
    then show ?thesis
    proof (cases n)
      case (Suc m)
      then obtain k where "take_chars m cs = take k cs" using 2(2) False by blast
      then show ?thesis using False Suc by (intro exI [of _ "Suc k"]) simp
    qed (auto intro: exI [of _ 0])
  qed
qed simp

lemma take_drop_chars: "take_chars n s @ drop_chars n s = s"
  using take_chars_take [of n s] by (metis append_take_drop_id drop_chars_def length_take min.commute take_eq_Nil
      append_eq_conv_conj)

lemma n_chars_take [simp]: "n_chars (take_chars n s) = min n (n_chars s)"
  by (induction n s rule: take_chars.induct) (auto simp: n_chars_def split: nat.split)

lemma n_chars_drop: "n_chars (drop_chars n s) = n_chars s - n"
proof -
  have "n_chars s = n_chars (take_chars n s) + n_chars (drop_chars n s)"
    by (metis n_chars_append take_drop_chars)
  then show ?thesis by simp
qed

lemma next_line_end: "\<exists>a. s = a @ next_line s"
proof (cases "CHR 0x0A \<in> set s")
  case True
  then have "dropWhile (\<lambda>c. c \<noteq> CHR 0x0A) s \<noteq> []" by (simp add: dropWhile_eq_Nil_conv) 
  then show ?thesis using True
    by (metis next_line_def append_assoc append_Cons append_Nil list.collapse takeWhile_dropWhile_id)
qed (simp add: next_line_def)

lemma whole_lines_start: "\<exists>a. s = whole_lines s @ a"
proof (cases "CHR 0x0A \<in> set s")
  case True
  have "rev s = takeWhile (\<lambda>c. c \<noteq> CHR 0x0A) (rev s) @ dropWhile (\<lambda>c. c \<noteq> CHR 0x0A) (rev s)" by simp
  then have "s = rev (dropWhile (\<lambda>c. c \<noteq> CHR 0x0A) (rev s)) @ rev (takeWhile (\<lambda>c. c \<noteq> CHR 0x0A) (rev s))"
    by (metis rev_append rev_rev_ident)
  then show ?thesis using True unfolding whole_lines_def by auto
qed (simp add: whole_lines_def)


lemma rfind_fits:
  assumes "rfind p s = Some i"
  shows "i + length p \<le> length s"
proof -
  have "startswith p (drop i s) \<and> i \<in> set (rev [0..<Suc (length s)])"
    using assms unfolding rfind_def find_Some_iff by (metis nth_mem)
  then have "startswith p (drop i s)" "i \<le> length s" by auto
  then obtain r where "drop i s = p @ r" by (auto simp: startswith_iff)
  then have "length (drop i s) = length p + length r" by simp
  then show ?thesis using \<open>i \<le> length s\<close> by simp
qed

lemma fold_max_le: "\<lbrakk>\<forall>x \<in> set xs. x \<le> (m :: nat); a \<le> m\<rbrakk> \<Longrightarrow> fold max xs a \<le> m"
  by (induction xs arbitrary: a) auto

lemma rstrip_start: "\<exists>r. s = rstrip s @ r"
proof -
  have "s = rev (dropWhile is_space (rev s)) @ rev (takeWhile is_space (rev s))"
    by (metis rev_append rev_rev_ident takeWhile_dropWhile_id)
  then show ?thesis by (auto simp: rstrip_def rstrip_by_def)
qed

text \<open>The head that the truncation at a boundary keeps.\<close>

definition kept_prefix :: "string \<Rightarrow> nat \<Rightarrow> string" where
  "kept_prefix s m =
     (let cuts = List.map_filter (\<lambda>p. map_option (\<lambda>i. i + length p) (rfind p (take_chars m s))) BOUNDARIES
      in rstrip (if cuts = [] then take_chars m s else take (fold max cuts 0) s))"

lemma kept_prefix_start: "\<exists>r. take_chars m s = kept_prefix s m @ r"
proof -
  define cuts where "cuts = List.map_filter (\<lambda>p. map_option (\<lambda>i. i + length p) (rfind p (take_chars m s))) BOUNDARIES"
  define base where "base = (if cuts = [] then take_chars m s else take (fold max cuts 0) s)"
  have "\<forall>x \<in> set cuts. x \<le> length (take_chars m s)"
    by (auto simp: cuts_def map_filter_def dest: rfind_fits)
  then have "fold max cuts 0 \<le> length (take_chars m s)" by (rule fold_max_le) simp
  moreover obtain k where k: "take_chars m s = take k s" using take_chars_take by blast
  ultimately have "fold max cuts 0 \<le> k" by simp
  then have eq: "take (fold max cuts 0) s = take (fold max cuts 0) (take_chars m s)"
    unfolding k by (simp add: min_absorb1)
  have "take_chars m s = base @ (if cuts = [] then [] else drop (fold max cuts 0) (take_chars m s))"
    unfolding base_def eq by simp
  moreover obtain r' where "base = rstrip base @ r'" using rstrip_start by blast
  moreover have "kept_prefix s m = rstrip base" by (simp add: kept_prefix_def base_def cuts_def)
  ultimately show ?thesis by (metis append_assoc)
qed

lemma kept_fits: "n_chars (kept_head s m) \<le> m * 6 div 10" "n_chars (kept_tail s m) \<le> m - m * 6 div 10"
proof -
  obtain a where "take_chars (m * 6 div 10) s = kept_head s m @ a"
    using whole_lines_start unfolding kept_head_def by blast
  then have "n_chars (take_chars (m * 6 div 10) s) = n_chars (kept_head s m) + n_chars a" by (metis n_chars_append)
  then show "n_chars (kept_head s m) \<le> m * 6 div 10" by simp
  let ?n = "n_chars s - (m - m * 6 div 10)"
  obtain b where "drop_chars ?n s = b @ kept_tail s m" using next_line_end unfolding kept_tail_def by blast
  then have "n_chars (drop_chars ?n s) = n_chars b + n_chars (kept_tail s m)" by (metis n_chars_append)
  then show "n_chars (kept_tail s m) \<le> m - m * 6 div 10" by (simp add: n_chars_drop)
qed

text \<open>
  What is kept of a window of a text: all up to its last boundary, stripped, or all of it where it has
  none; what follows its first line break; what precedes its last line break and the break.
\<close>

definition cut_at_boundary :: "string \<Rightarrow> string \<Rightarrow> bool" where
  "cut_at_boundary w h \<longleftrightarrow>
     (if \<exists>a b z. w = a @ b @ z \<and> b \<in> set BOUNDARIES
      then (\<exists>a b z. w = a @ b @ z \<and> b \<in> set BOUNDARIES \<and> h = rstrip (a @ b)
              \<and> (\<forall>a' b' z'. w = a' @ b' @ z' \<and> b' \<in> set BOUNDARIES \<longrightarrow> length (a' @ b') \<le> length (a @ b)))
      else h = rstrip w)"

definition after_first_break :: "string \<Rightarrow> string \<Rightarrow> bool" where
  "after_first_break w t \<longleftrightarrow>
     (if CHR 0x0A \<in> set w then \<exists>a. w = a @ nl @ t \<and> CHR 0x0A \<notin> set a else t = w)"

definition up_to_last_break :: "string \<Rightarrow> string \<Rightarrow> bool" where
  "up_to_last_break w h \<longleftrightarrow>
     (if CHR 0x0A \<in> set w then \<exists>a z. w = a @ nl @ z \<and> h = a @ nl \<and> CHR 0x0A \<notin> set z else h = w)"

lemma dropWhile_break:
  assumes "c \<in> set w"
  shows "w = takeWhile (\<lambda>x. x \<noteq> c) w @ c # tl (dropWhile (\<lambda>x. x \<noteq> c) w)" "c \<notin> set (takeWhile (\<lambda>x. x \<noteq> c) w)"
proof -
  have "dropWhile (\<lambda>x. x \<noteq> c) w \<noteq> []" using assms by (simp add: dropWhile_eq_Nil_conv)
  then have "dropWhile (\<lambda>x. x \<noteq> c) w = c # tl (dropWhile (\<lambda>x. x \<noteq> c) w)"
    using hd_dropWhile [of "\<lambda>x. x \<noteq> c" w] by (metis list.collapse)
  then show "w = takeWhile (\<lambda>x. x \<noteq> c) w @ c # tl (dropWhile (\<lambda>x. x \<noteq> c) w)" by (metis takeWhile_dropWhile_id)
  show "c \<notin> set (takeWhile (\<lambda>x. x \<noteq> c) w)" using set_takeWhileD by fastforce
qed

lemma next_line_after: "after_first_break w (next_line w)"
proof (cases "CHR 0x0A \<in> set w")
  case True
  then show ?thesis using dropWhile_break [OF True] unfolding after_first_break_def next_line_def by auto
qed (simp add: after_first_break_def next_line_def)

lemma whole_lines_up_to: "up_to_last_break w (whole_lines w)"
proof (cases "CHR 0x0A \<in> set w")
  case True
  let ?D = "dropWhile (\<lambda>x. x \<noteq> CHR 0x0A) (rev w)" and ?T = "takeWhile (\<lambda>x. x \<noteq> CHR 0x0A) (rev w)"
  have in_rev: "CHR 0x0A \<in> set (rev w)" using True by simp
  have rev_w: "rev w = ?T @ CHR 0x0A # tl ?D" and "CHR 0x0A \<notin> set ?T" by (rule dropWhile_break [OF in_rev])+
  have "?D = CHR 0x0A # tl ?D" using rev_w by (metis same_append_eq takeWhile_dropWhile_id)
  then have "whole_lines w = rev (tl ?D) @ nl"
    using True unfolding whole_lines_def by (metis rev.simps(2))
  moreover have "w = rev (tl ?D) @ nl @ rev ?T"
    using arg_cong [OF rev_w, of rev] by simp
  ultimately show ?thesis using True \<open>CHR 0x0A \<notin> set ?T\<close> unfolding up_to_last_break_def by auto
qed (simp add: up_to_last_break_def whole_lines_def)

lemma rfind_None: "rfind b w = None \<Longrightarrow> w \<noteq> a @ b @ z"
proof
  assume none: "rfind b w = None" and w: "w = a @ b @ z"
  have "startswith b (drop (length a) w)" "length a \<in> set (rev [0..<Suc (length w)])"
    using w by (auto simp: startswith_iff)
  with none show False unfolding rfind_def find_None_iff by blast
qed

lemma rfind_Some:
  assumes "rfind b w = Some i"
  shows "\<exists>z. w = take i w @ b @ z" "i \<le> length w" "w = a @ b @ z \<Longrightarrow> length a \<le> i"
proof -
  obtain k where k: "k < length (rev [0..<Suc (length w)])" "rev [0..<Suc (length w)] ! k = i"
      "startswith b (drop i w)" "\<And>j. j < k \<Longrightarrow> \<not> startswith b (drop (rev [0..<Suc (length w)] ! j) w)"
    using assms unfolding rfind_def find_Some_iff by blast
  then have i: "i = length w - k" "k \<le> length w" by (auto simp: rev_nth simp del: upt_Suc)
  then show "i \<le> length w" by simp
  from k(3) obtain r where "drop i w = b @ r" by (auto simp: startswith_iff)
  then show "\<exists>z. w = take i w @ b @ z" by (metis append_take_drop_id)
  show "length a \<le> i" if w: "w = a @ b @ z"
  proof (rule ccontr)
    assume "\<not> length a \<le> i"
    then have j: "length w - length a < k" using i w by simp
    then have "rev [0..<Suc (length w)] ! (length w - length a) = length a"
      using i(2) w by (simp add: rev_nth del: upt_Suc)
    moreover have "startswith b (drop (length a) w)" using w by (simp add: startswith_iff)
    ultimately show False using k(4) [OF j] by simp
  qed
qed

lemma fold_max_in: "xs \<noteq> [] \<Longrightarrow> fold max xs (0 :: nat) \<in> set xs" "x \<in> set xs \<Longrightarrow> x \<le> fold max xs (0 :: nat)"
proof -
  have eq: "fold max xs (0 :: nat) = Max (insert 0 (set xs))" by (simp add: Max.set_eq_fold [symmetric])
  then show "x \<in> set xs \<Longrightarrow> x \<le> fold max xs (0 :: nat)" by simp
  assume "xs \<noteq> []"
  then have "Max (insert 0 (set xs)) = Max (set xs)" by (simp add: Max_insert)
  with eq show "fold max xs (0 :: nat) \<in> set xs" using \<open>xs \<noteq> []\<close> by simp
qed

lemma set_map_filter: "x \<in> set (List.map_filter f xs) \<longleftrightarrow> (\<exists>b \<in> set xs. f b = Some x)"
  by (induction xs) (auto simp: map_filter_simps split: option.splits)

lemma kept_prefix_boundary: "cut_at_boundary (take_chars m s) (kept_prefix s m)"
proof -
  define w where "w = take_chars m s"
  define cuts where "cuts = List.map_filter (\<lambda>p. map_option (\<lambda>i. i + length p) (rfind p w)) BOUNDARIES"
  have cut: "x \<in> set cuts \<longleftrightarrow> (\<exists>b \<in> set BOUNDARIES. \<exists>i. rfind b w = Some i \<and> x = i + length b)" for x
    unfolding cuts_def set_map_filter by auto
  obtain k where k: "w = take k s" unfolding w_def using take_chars_take by blast
  have le: "length (a @ b) \<le> fold max cuts 0" if w: "w = a @ b @ z" and b: "b \<in> set BOUNDARIES" for a b z
  proof -
    obtain i where i: "rfind b w = Some i" using rfind_None [of b w a z] w by (cases "rfind b w") simp_all
    then have "length a \<le> i" using rfind_Some(3) w by blast
    moreover have "i + length b \<le> fold max cuts 0" by (rule fold_max_in(2)) (use i b cut in blast)
    ultimately show ?thesis by simp
  qed
  show ?thesis
  proof (cases "cuts = []")
    case True
    have "rfind b w = None" if "b \<in> set BOUNDARIES" for b
      using cut True that by (cases "rfind b w") auto
    then have none: "\<not> (\<exists>a b z. w = a @ b @ z \<and> b \<in> set BOUNDARIES)" using rfind_None by blast
    have "kept_prefix s m = rstrip w" using True by (simp add: kept_prefix_def cuts_def w_def)
    then show ?thesis unfolding cut_at_boundary_def w_def [symmetric] if_not_P [OF none] .
  next
    case False
    then obtain b i where b: "b \<in> set BOUNDARIES" "rfind b w = Some i" "fold max cuts 0 = i + length b"
      using fold_max_in(1) [OF False] cut by blast
    obtain z where z: "w = take i w @ b @ z" using rfind_Some(1) [OF b(2)] by blast
    have i: "length (take i w) = i" using rfind_Some(2) [OF b(2)] by simp
    have "w = (take i w @ b) @ z" using z by simp
    then have tw: "take (i + length b) w = take i w @ b" using i by (metis append_eq_conv_conj length_append)
    have "i + length b \<le> length w" using z i by (metis le_add1 length_append add.assoc)
    then have "i + length b \<le> k" unfolding k by simp
    then have "take (fold max cuts 0) s = take i w @ b"
      using tw b(3) unfolding k by (simp add: min_absorb1)
    then have "kept_prefix s m = rstrip (take i w @ b)" using False by (simp add: kept_prefix_def cuts_def w_def)
    moreover have "\<forall>a' b' z'. w = a' @ b' @ z' \<and> b' \<in> set BOUNDARIES \<longrightarrow> length (a' @ b') \<le> length (take i w @ b)"
    proof -
      have "length (take i w @ b) = fold max cuts 0" using i b(3) by simp
      then show ?thesis using le by metis
    qed
    ultimately have best: "\<exists>a b z. w = a @ b @ z \<and> b \<in> set BOUNDARIES \<and> kept_prefix s m = rstrip (a @ b)
        \<and> (\<forall>a' b' z'. w = a' @ b' @ z' \<and> b' \<in> set BOUNDARIES \<longrightarrow> length (a' @ b') \<le> length (a @ b))"
      using z b(1) by (intro exI [of _ "take i w"] exI [of _ b] exI [of _ z] conjI)
    have some: "\<exists>a b z. w = a @ b @ z \<and> b \<in> set BOUNDARIES" using z b(1) by blast
    from best show ?thesis unfolding cut_at_boundary_def w_def [symmetric] if_P [OF some] .
  qed
qed

lemma prefix_suffix_disjoint:
  assumes "s = a @ x" "s = y @ b" "n_chars a + n_chars b < n_chars s"
  shows "\<exists>mid. s = a @ mid @ b"
proof -
  have "length a \<le> length y"
  proof (rule ccontr)
    assume "\<not> length a \<le> length y"
    then have "x = drop (length a - length y) b" using assms(1,2) by (simp add: append_eq_conv_conj)
    then have "n_chars x \<le> n_chars b" by (metis append_take_drop_id le_add2 n_chars_append)
    moreover have "n_chars s = n_chars a + n_chars x" by (simp add: assms(1))
    ultimately show False using assms(3) by simp
  qed
  then have "y = a @ drop (length a) y" using assms(1,2) by (metis append_eq_append_conv_if append_take_drop_id)
  then show ?thesis using assms(2) by (metis append_assoc)
qed

text \<open>
  C24: What the three ways to cut a text of more than \<open>m\<close> characters keep, never more than \<open>m\<close> of them,
  and that they state how many they leave out. The first keeps the start, up to and with the last
  boundary in the first \<open>m\<close> characters, and without the white space before the cut; all \<open>m\<close> where there
  is no boundary. The second keeps the last \<open>m\<close> characters, from behind the first line break among them;
  all of them where there is none. The third keeps both ends, of six and of four tenths of \<open>m\<close>, the first
  up to its last line break, the other from behind its first; they do not overlap.
\<close>

theorem cuts_within_budget:
  assumes "0 < m" "m < n_chars s"
  shows "(\<exists>h r. s = h @ r \<and> n_chars h \<le> m \<and> cut_at_boundary (take_chars m s) h \<and> truncate_at_boundary s m =
           h @ nl @ nl @ ''[... description truncated; '' @ show_nat (n_chars r) @ '' chars omitted]'')
    \<and> (\<exists>r t. s = r @ t \<and> n_chars t \<le> m \<and> after_first_break (drop_chars (n_chars s - m) s) t \<and> tail_keep s m l =
           ''[... '' @ l @ '' truncated: '' @ show_nat (n_chars r) @ '' chars omitted]'' @ nl @ nl @ t)
    \<and> (\<exists>h r t. s = h @ r @ t \<and> n_chars h + n_chars t \<le> m
         \<and> up_to_last_break (take_chars (m * 6 div 10) s) h
         \<and> after_first_break (drop_chars (n_chars s - (m - m * 6 div 10)) s) t
         \<and> head_tail_keep s m l =
           h @ nl @ nl @ ''[... '' @ l @ '' truncated: '' @ show_nat (n_chars r)
           @ '' chars omitted from the middle ...]'' @ nl @ nl @ t)"
proof (intro conjI)
  obtain r where r: "take_chars m s = kept_prefix s m @ r" using kept_prefix_start by blast
  then have "n_chars (take_chars m s) = n_chars (kept_prefix s m) + n_chars r" by (metis n_chars_append)
  then have "n_chars (kept_prefix s m) \<le> m" by simp
  moreover have s: "s = kept_prefix s m @ r @ drop_chars m s" using r take_drop_chars [of m s] by simp
  moreover have "truncate_at_boundary s m = kept_prefix s m @ nl @ nl @ ''[... description truncated; ''
      @ show_nat (n_chars s - n_chars (kept_prefix s m)) @ '' chars omitted]''"
    using assms(2) by (simp add: truncate_at_boundary_def kept_prefix_def Let_def)
  moreover have "n_chars s - n_chars (kept_prefix s m) = n_chars (r @ drop_chars m s)"
    using arg_cong [OF s, of n_chars] by simp
  ultimately show "\<exists>h r. s = h @ r \<and> n_chars h \<le> m \<and> cut_at_boundary (take_chars m s) h \<and> truncate_at_boundary s m =
           h @ nl @ nl @ ''[... description truncated; '' @ show_nat (n_chars r) @ '' chars omitted]''"
    using kept_prefix_boundary by metis
next
  let ?d = "drop_chars (n_chars s - m) s"
  obtain a where a: "?d = a @ next_line ?d" using next_line_end by blast
  then have "n_chars ?d = n_chars a + n_chars (next_line ?d)" by (metis n_chars_append)
  then have "n_chars (next_line ?d) \<le> m" by (simp add: n_chars_drop)
  moreover have s: "s = (take_chars (n_chars s - m) s @ a) @ next_line ?d"
    using a take_drop_chars [of "n_chars s - m" s] by simp
  moreover have "n_chars s - n_chars (next_line ?d) = n_chars (take_chars (n_chars s - m) s @ a)"
    using arg_cong [OF s, of n_chars] by simp
  moreover have "tail_keep s m l = ''[... '' @ l @ '' truncated: '' @ show_nat (n_chars s - n_chars (next_line ?d))
      @ '' chars omitted]'' @ nl @ nl @ next_line ?d"
    using assms(2) by (simp add: tail_keep_def Let_def)
  ultimately show "\<exists>r t. s = r @ t \<and> n_chars t \<le> m \<and> after_first_break ?d t \<and> tail_keep s m l =
           ''[... '' @ l @ '' truncated: '' @ show_nat (n_chars r) @ '' chars omitted]'' @ nl @ nl @ t"
    using next_line_after [of ?d] by metis
next
  let ?h = "kept_head s m" and ?t = "kept_tail s m"
  have sum: "n_chars ?h + n_chars ?t \<le> m" using kept_fits [where s = s and m = m] by simp
  obtain x where x: "s = ?h @ x"
    using whole_lines_start take_drop_chars unfolding kept_head_def by (metis append_assoc)
  obtain y where y: "s = y @ ?t"
    using next_line_end take_drop_chars unfolding kept_tail_def by (metis append_assoc)
  obtain mid where mid: "s = ?h @ mid @ ?t" using prefix_suffix_disjoint [OF x y] sum assms(2) by auto
  have "n_chars s - n_chars ?h - n_chars ?t = n_chars mid" using arg_cong [OF mid, of n_chars] by simp
  moreover have "head_tail_keep s m l = ?h @ nl @ nl @ ''[... '' @ l @ '' truncated: ''
      @ show_nat (n_chars s - n_chars ?h - n_chars ?t) @ '' chars omitted from the middle ...]'' @ nl @ nl @ ?t"
    using assms by (simp add: head_tail_keep_def Let_def)
  moreover have "up_to_last_break (take_chars (m * 6 div 10) s) ?h"
    "after_first_break (drop_chars (n_chars s - (m - m * 6 div 10)) s) ?t"
    unfolding kept_head_def kept_tail_def by (rule whole_lines_up_to next_line_after)+
  ultimately show "\<exists>h r t. s = h @ r @ t \<and> n_chars h + n_chars t \<le> m
         \<and> up_to_last_break (take_chars (m * 6 div 10) s) h
         \<and> after_first_break (drop_chars (n_chars s - (m - m * 6 div 10)) s) t
         \<and> head_tail_keep s m l =
           h @ nl @ nl @ ''[... '' @ l @ '' truncated: '' @ show_nat (n_chars r)
           @ '' chars omitted from the middle ...]'' @ nl @ nl @ t"
    using mid sum by metis
qed


lemma cuts_within_budget_witness:
  "(\<exists>h r. ''One. Two and more'' = h @ r \<and> n_chars h \<le> 8
     \<and> cut_at_boundary (take_chars 8 ''One. Two and more'') h
     \<and> truncate_at_boundary ''One. Two and more'' 8 =
       h @ nl @ nl @ ''[... description truncated; '' @ show_nat (n_chars r) @ '' chars omitted]'')"
  by (rule cuts_within_budget [THEN conjunct1]) code_simp+

section \<open>Thinned diffs\<close>

definition is_context :: "string \<Rightarrow> bool" where
  "is_context l \<longleftrightarrow> startswith '' '' l"

definition is_marker :: "string \<Rightarrow> bool" where
  "is_marker l \<longleftrightarrow> startswith ''[... '' l \<and> endswith ('' context lines omitted ...]'' @ nl) l"

text \<open>At most so many context lines in a row, some seen before.\<close>

fun runs_within :: "nat \<Rightarrow> nat \<Rightarrow> string list \<Rightarrow> bool" where
  "runs_within n c [] \<longleftrightarrow> c \<le> n"
| "runs_within n c (l # ls) \<longleftrightarrow> c \<le> n \<and> runs_within n (if is_context l then Suc c else 0) ls"

lemma runs_context: "\<lbrakk>list_all is_context xs; c + length xs \<le> n\<rbrakk> \<Longrightarrow> runs_within n c xs"
  by (induction xs arbitrary: c) auto

lemma runs_break: "\<lbrakk>runs_within n c xs; \<not> is_context l; runs_within n 0 ys\<rbrakk> \<Longrightarrow> runs_within n c (xs @ l # ys)"
  by (induction xs arbitrary: c) auto

lemma marker_facts: "\<not> is_context (omitted_marker n)" "is_marker (omitted_marker n)"
proof -
  show "\<not> is_context (omitted_marker n)" by (simp add: is_context_def omitted_marker_def startswith_def)
  have "endswith b (a @ b)" for a b by (simp add: endswith_def)
  from this [of _ "''[... '' @ show_nat n"] show "is_marker (omitted_marker n)"
    by (simp add: is_marker_def omitted_marker_def startswith_def)
qed

lemma subseq_take: "subseq (take n xs) xs"
  by (rule prefix_imp_subseq) (rule take_is_prefix)

lemma subseq_drop: "subseq (drop n xs) xs"
  by (rule suffix_imp_subseq) (rule suffix_drop)

lemma emit_facts:
  assumes "list_all is_context run"
  shows "filter (\<lambda>l. \<not> is_context l \<and> \<not> is_marker l) (emit_context_run run k p) = []"
    "subseq (filter is_context (emit_context_run run k p)) run"
    "runs_within (2 * k) 0 (emit_context_run run k p)"
proof -
  have all: "list_all is_context (take i run)" "list_all is_context (drop i run)" for i
    using assms by (auto simp: list_all_iff dest: in_set_takeD in_set_dropD)
  then have only: "filter is_context (take i run) = take i run" "filter is_context (drop i run) = drop i run"
    "filter is_context run = run"
    "filter (\<lambda>l. \<not> is_context l \<and> \<not> is_marker l) (take i run) = []"
    "filter (\<lambda>l. \<not> is_context l \<and> \<not> is_marker l) (drop i run) = []"
    "filter (\<lambda>l. \<not> is_context l \<and> \<not> is_marker l) run = []" for i
    using assms by (auto simp: list_all_iff filter_id_conv filter_empty_conv)
  show "filter (\<lambda>l. \<not> is_context l \<and> \<not> is_marker l) (emit_context_run run k p) = []"
    by (cases p) (simp_all add: emit_context_run_def Let_def only marker_facts)
  have "subseq (take k run @ drop (length run - k) run) run" if "2 * k < length run"
  proof -
    have "subseq (take k run @ drop (length run - k) run) (take k run @ drop k run)"
    proof (rule list_emb_append_mono)
      have "drop (length run - k) run = drop (length run - 2 * k) (drop k run)" using that by simp
      then show "subseq (drop (length run - k) run) (drop k run)" by (simp only: subseq_drop)
    qed simp
    then show ?thesis by simp
  qed
  then show "subseq (filter is_context (emit_context_run run k p)) run"
    by (cases p) (auto simp: emit_context_run_def Let_def only marker_facts subseq_take subseq_drop)
  have plain: "runs_within (2 * k) 0 xs" if "list_all is_context xs" "length xs \<le> 2 * k" for xs
    by (rule runs_context) (use that in simp_all)
  have mark: "runs_within (2 * k) 0 (xs @ omitted_marker n # ys)"
    if "list_all is_context xs" "list_all is_context ys" "length xs \<le> 2 * k" "length ys \<le> 2 * k" for xs ys n
    using that plain by (intro runs_break) (simp_all add: marker_facts)
  show "runs_within (2 * k) 0 (emit_context_run run k p)"
    using mark [of "[]" "drop (length run - k) run"] mark [of "take k run" "[]"]
      mark [of "take k run" "drop (length run - k) run"] plain [of run] plain [of "[]"] all assms
    by (cases p) (auto simp: emit_context_run_def Let_def min_def)
qed

lemma thin_break:
  "\<not> is_context l \<Longrightarrow>
     \<exists>p h' s'. thin_lines k run h s (l # ls) = emit_context_run run k p @ l # thin_lines k [] h' s' ls"
  unfolding thin_lines.simps is_context_def by (simp only: if_False if_True split: if_split) blast

lemma thin_facts:
  assumes "list_all is_context run"
  shows "filter (\<lambda>l. \<not> is_context l \<and> \<not> is_marker l) (thin_lines k run h s ls) =
      filter (\<lambda>l. \<not> is_context l \<and> \<not> is_marker l) ls
    \<and> subseq (filter is_context (thin_lines k run h s ls)) (run @ filter is_context ls)
    \<and> runs_within (2 * k) 0 (thin_lines k run h s ls)"
  using assms
proof (induction ls arbitrary: run h s)
  case Nil
  then show ?case using emit_facts [OF Nil] by simp
next
  case (Cons l ls)
  have step: ?case
    if out: "thin_lines k run h s (l # ls) = emit_context_run run k p @ l # thin_lines k [] h' s' ls" and l: "\<not> is_context l"
    for p h' s'
  proof -
    have rest: "list_all is_context []" by simp
    note IH = Cons.IH [OF rest, of h' s'] and emit = emit_facts [OF Cons.prems, of k p]
    have "subseq (filter is_context (emit_context_run run k p) @ filter is_context (thin_lines k [] h' s' ls))
        (run @ filter is_context ls)"
      using IH emit(2) by (intro list_emb_append_mono) auto
    moreover have "runs_within (2 * k) 0 (emit_context_run run k p @ l # thin_lines k [] h' s' ls)"
      using IH emit(3) l by (intro runs_break) auto
    ultimately show ?thesis using IH emit(1) l unfolding out by simp
  qed
  show ?case
  proof (cases "is_context l")
    case True
    then have "\<not> startswith ''@@'' l" by (auto simp: is_context_def startswith_iff)
    then have "thin_lines k run h s (l # ls) = thin_lines k (run @ [l]) h s ls" using True by (simp add: is_context_def)
    then show ?thesis using Cons.IH [of "run @ [l]" h s] Cons.prems True by simp
  next
    case False
    with thin_break [OF False] step show ?thesis by blast
  qed
qed

text \<open>
  C23: A thinned diff keeps every line that is not context, in order; what it keeps of the context is
  in order too, and no more than twice the number asked for stand in a row.
\<close>

theorem thinning_keeps_changes:
  assumes "0 < k"
  shows "\<exists>out. limit_diff_context diff k = concat out
    \<and> filter (\<lambda>l. \<not> is_context l \<and> \<not> is_marker l) out = filter (\<lambda>l. \<not> is_context l \<and> \<not> is_marker l) (keep_lines diff)
    \<and> subseq (filter is_context out) (filter is_context (keep_lines diff))
    \<and> runs_within (2 * nat k) 0 out"
  using thin_facts [of "[]" "nat k" False False "keep_lines diff"] assms
  by (intro exI [of _ "thin_lines (nat k) [] False False (keep_lines diff)"]) (simp add: limit_diff_context_def)


definition sample_diff :: string where
  "sample_diff = ''@@ -1 +1 @@'' @ nl @ '' a'' @ nl @ '' b'' @ nl @ ''-c'' @ nl @ ''+d'' @ nl @ '' e'' @ nl"

lemma thinning_keeps_changes_witness:
  "\<exists>out. limit_diff_context sample_diff 1 = concat out
    \<and> filter (\<lambda>l. \<not> is_context l \<and> \<not> is_marker l) out
      = filter (\<lambda>l. \<not> is_context l \<and> \<not> is_marker l) (keep_lines sample_diff)
    \<and> subseq (filter is_context out) (filter is_context (keep_lines sample_diff))
    \<and> runs_within (2 * nat 1) 0 out"
  by (rule thinning_keeps_changes) simp

section \<open>What is read back\<close>

lemma parse_zero: "parse_duration (Spelled ''0s'') = Inr 0"
proof -
  have "map_option (\<lambda>g. map g [0..<5]) (match_start (units_rx 0 ''wdhms'') ''0s'') = Some [None, None, None, None, Some ''0'']"
    by code_simp
  moreover have "DURATION_RE = units_rx 0 ''wdhms''" by (simp add: DURATION_RE_def UNIT_SECONDS_def)
  ultimately obtain g where g: "match_start DURATION_RE ''0s'' = Some g" "map g [0..<5] = [None, None, None, None, Some ''0'']"
    by auto
  then have g': "g 0 = None" "g (Suc 0) = None" "g (Suc (Suc 0)) = None" "g (Suc (Suc (Suc 0))) = None"
    "g (Suc (Suc (Suc (Suc 0)))) = Some ''0''"
    by (auto simp: upt_rec numeral_eq_Suc)
  have places: "[0..<length UNIT_SECONDS] = [0, Suc 0, Suc (Suc 0), Suc (Suc (Suc 0)), Suc (Suc (Suc (Suc 0)))]"
    by (simp add: UNIT_SECONDS_def upt_rec)
  have "strip ''0s'' = ''0s''" "digits_val ''0'' = 0" by code_simp+
  moreover have "units_total 0 UNIT_SECONDS g = digits_val ''0''"
    unfolding UNIT_SECONDS_def units_total.simps by (simp add: g')
  ultimately show ?thesis
    unfolding parse_duration_def duration_value.case Let_def places by (simp add: g(1) g')
qed

text \<open>
  A number of seconds is written as a duration that is read back as the same number; only a
  negative number is not written.
\<close>

theorem duration_roundtrip:
  "(\<exists>s. format_duration (Secs i) = Inr s \<and> parse_duration (Spelled s) = Inr (nat i)) \<longleftrightarrow> 0 \<le> i"
proof (cases "i \<le> 0")
  case True
  have "parse_duration (Spelled ''0s'') = Inr 0" by (rule parse_zero)
  with True show ?thesis by (cases "i = 0") (auto simp: format_duration_def)
next
  case False
  then show ?thesis using parse_parts [of "nat i"] by (simp add: format_duration_def)
qed

text \<open>
  A structured block reason is read back with its kind and every parameter, whatever their
  order; a plain note is no such reason.
\<close>

theorem block_reason_roundtrip:
  assumes "distinct (map fst params)" "''kind'' \<notin> fst ` set params" "list_all (\<lambda>e. no_float (snd e)) params" "knd \<noteq> []"
  shows "\<exists>es. decode_reason (Some (encode_reason knd params)) = Some es
    \<and> map_of es = (map_of params)(''kind'' \<mapsto> JStr knd)
    \<and> sorted (map (\<lambda>e. str_key (fst e)) es)"
proof -
  define es where "es = sort_key (\<lambda>e. str_key (fst e)) ((''kind'', JStr knd) # params)"
  have set: "set es = insert (''kind'', JStr knd) (set params)" unfolding es_def set_sort by simp
  have nf: "no_float (JObj es)" using assms(3) by (auto simp: set list_all_iff)
  from nf have l: "loads (encode_reason knd params) = Some (JObj es)" by (simp add: encode_reason_def es_def)
  have dist: "distinct (map fst es)"
  proof -
    have "distinct es" using assms(1,2) unfolding es_def distinct_sort
      by (auto simp: distinct_map) (metis fst_conv image_eqI)
    moreover have "inj_on fst (set es)" using assms(1,2) by (force simp: set distinct_map inj_on_def)
    ultimately show ?thesis by (simp add: distinct_map)
  qed
  have m: "map_of es = map_of ((''kind'', JStr knd) # params)"
    by (subst map_of_inject_set) (use dist assms(1,2) set in auto)
  have "map_of (rev es) = map_of es" by (subst map_of_inject_set) (use dist in \<open>simp_all add: rev_map [symmetric]\<close>)
  then have "json_true (map_of (rev es) ''kind'')" using assms(4) by (simp add: m json_true_def)
  moreover have "encode_reason knd params \<noteq> []" using dumps_not_Nil [OF nf] by (simp add: encode_reason_def es_def dumps_def)
  ultimately have "decode_reason (Some (encode_reason knd params)) = Some es" by (simp add: decode_reason_def l)
  moreover have "sorted (map (\<lambda>e. str_key (fst e)) es)" unfolding es_def by (rule sorted_sort_key)
  ultimately show ?thesis using m by auto
qed

lemma block_reason_roundtrip_witness:
  "\<exists>es. decode_reason (Some (encode_reason TARGET_BRANCH_RED [(''branch'', JStr ''main'')])) = Some es
    \<and> map_of es = (map_of [(''branch'', JStr ''main'')])(''kind'' \<mapsto> JStr TARGET_BRANCH_RED)
    \<and> sorted (map (\<lambda>e. str_key (fst e)) es)"
  by (rule block_reason_roundtrip) (simp_all add: TARGET_BRANCH_RED_def)

text \<open>A short body that asks for something real counts as a placeholder.\<close>

lemma todo_body_is_degenerate:
  "degenerate_body_reason (Some ''Add a todo list page'')
     = Some (''body matches placeholder phrase '' @ CHR 0x27 # ''todo'' @ [CHR 0x27])"
  by code_simp

end
