(* ===== verification/Paths.thy ===== *)
theory Paths
  imports Metadata
begin

text \<open>
  Files, directories and symbolic links, and what Python's \<open>pathlib\<close> makes of a path on them: the
  resolution of links as \<open>os.path.realpath\<close> does it, step by step, and the reading and writing of
  texts.
\<close>

section \<open>Disks\<close>

text \<open>An absolute path is the list of its names; a file has a text, a link its target as it is written.\<close>

type_synonym path = "string list"

datatype node = File string | Dir | Link string

type_synonym disk = "(path \<times> node) list"

text \<open>What \<open>lstat\<close> finds: nothing below something that is no directory. The root is always one.\<close>

definition proper_prefixes :: "path \<Rightarrow> path list" where
  "proper_prefixes p = map (\<lambda>k. take k p) [1..<length p]"

definition entry :: "disk \<Rightarrow> path \<Rightarrow> node option" where
  "entry d p =
     (if p = [] then Some Dir
      else if list_all (\<lambda>q. map_of d q = Some Dir) (proper_prefixes p) then map_of d p else None)"

section \<open>Resolution\<close>

text \<open>
  The names still to walk through, and the marks where the target of a link ends. The links seen have
  their resolved targets, or nothing as long as the target is walked through.
\<close>

datatype part = Name string | Resolved path

definition link_paths :: "disk \<Rightarrow> path set" where
  "link_paths d = {p. \<exists>t. entry d p = Some (Link t)}"

definition parts_of :: "string \<Rightarrow> part list" where
  "parts_of s = map Name (split_on (\<lambda>c. c = CHR ''/'') s)"

definition absolute :: "string \<Rightarrow> bool" where
  "absolute s \<longleftrightarrow> startswith ''/'' s"

lemma link_paths_dom: "p \<in> link_paths d \<Longrightarrow> p \<in> fst ` set d"
  by (auto simp: link_paths_def entry_def split: if_splits dest!: map_of_SomeD intro: rev_image_eqI)

lemma finite_link_paths [simp]: "finite (link_paths d)"
  by (rule finite_subset [of _ "fst ` set d"]) (auto intro: link_paths_dom)

function walk :: "disk \<Rightarrow> part list \<Rightarrow> path \<Rightarrow> (path \<times> path option) list \<Rightarrow> path" where
  "walk d [] p seen = p"
| "walk d (Resolved l # rest) p seen = walk d rest p (AList.update l (Some p) seen)"
| "walk d (Name n # rest) p seen =
     (if n = [] \<or> n = ''.'' then walk d rest p seen
      else if n = ''..'' then walk d rest (butlast p) seen
      else (let q = p @ [n]
            in case entry d q of
                 Some (Link t) \<Rightarrow>
                   (case map_of seen q of
                      Some (Some r) \<Rightarrow> walk d rest r seen
                    | Some None \<Rightarrow> walk d rest q seen
                    | None \<Rightarrow>
                        walk d (parts_of t @ Resolved q # rest) (if absolute t then [] else p)
                          (AList.update q None seen))
               | _ \<Rightarrow> walk d rest q seen))"
  by pat_completeness auto

lemma fewer_links:
  assumes "entry d q = Some (Link t)" "map_of s q = None"
  shows "card (link_paths d - fst ` set (AList.update q v s)) < card (link_paths d - fst ` set s)"
proof (rule psubset_card_mono)
  have "q \<in> link_paths d" using assms(1) by (auto simp: link_paths_def)
  moreover have "q \<notin> fst ` set s" using assms(2) by (simp add: map_of_eq_None_iff)
  ultimately show "link_paths d - fst ` set (AList.update q v s) \<subset> link_paths d - fst ` set s"
    by (auto simp: dom_update)
qed simp

lemma no_more_links: "card (link_paths d - fst ` set (AList.update q v s)) \<le> card (link_paths d - fst ` set s)"
  by (rule card_mono) (auto simp: dom_update)

termination walk
  by (relation "measures [\<lambda>(d, rest, p, s). card (link_paths d - fst ` set s), \<lambda>(d, rest, p, s). length rest]")
    (auto simp: fewer_links le_neq_implies_less no_more_links dest: le_imp_less_or_eq
      intro: le_neq_implies_less no_more_links)

definition realpath :: "disk \<Rightarrow> path \<Rightarrow> string \<Rightarrow> path" where
  "realpath d base rel = walk d ((if absolute rel then [] else map Name base) @ parts_of rel) [] []"

definition resolve :: "disk \<Rightarrow> path \<Rightarrow> path" where
  "resolve d p = walk d (map Name p) [] []"


section \<open>Reading, writing and removing\<close>

text \<open>
  The tools work on resolved paths only. Such a path has no link in it unless the links loop, which
  the system answers with an error.
\<close>

definition path_text :: "path \<Rightarrow> string" where
  "path_text p = CHR ''/'' # join ''/'' p"

definition os_error :: "nat \<Rightarrow> string \<Rightarrow> path \<Rightarrow> string" where
  "os_error n s p = ''[Errno '' @ show_nat n @ ''] '' @ s @ '': '' @ py_repr (path_text p)"

definition is_file :: "disk \<Rightarrow> path \<Rightarrow> bool" where
  "is_file d p = (case entry d p of Some (File s) \<Rightarrow> True | _ \<Rightarrow> False)"

definition is_dir :: "disk \<Rightarrow> path \<Rightarrow> bool" where
  "is_dir d p = (case entry d p of Some Dir \<Rightarrow> True | _ \<Rightarrow> False)"

definition path_exists :: "disk \<Rightarrow> path \<Rightarrow> bool" where
  "path_exists d p \<longleftrightarrow> is_file d p \<or> is_dir d p"

text \<open>Why a path cannot be opened.\<close>

definition access_error :: "disk \<Rightarrow> path \<Rightarrow> string" where
  "access_error d p =
     (case find (\<lambda>q. entry d q \<noteq> Some Dir) (proper_prefixes p @ [p]) of
        None \<Rightarrow> os_error 21 ''Is a directory'' p
      | Some q \<Rightarrow>
          (case entry d q of
             Some (Link t) \<Rightarrow> os_error 40 ''Too many levels of symbolic links'' p
           | Some (File s) \<Rightarrow> os_error 20 ''Not a directory'' p
           | _ \<Rightarrow> os_error 2 ''No such file or directory'' p))"

text \<open>Every end of a line is read as a newline.\<close>

fun universal_newlines :: "string \<Rightarrow> string" where
  "universal_newlines [] = []"
| "universal_newlines [c] = (if c = CHR 0x0D then nl else [c])"
| "universal_newlines (c # e # cs) =
     (if c = CHR 0x0D then CHR 0x0A # universal_newlines (if e = CHR 0x0A then cs else e # cs)
      else c # universal_newlines (e # cs))"

definition read_text :: "disk \<Rightarrow> path \<Rightarrow> string + string" where
  "read_text d p =
     (case entry d p of Some (File s) \<Rightarrow> Inr (universal_newlines s) | _ \<Rightarrow> Inl (access_error d p))"

definition write_text :: "disk \<Rightarrow> path \<Rightarrow> string \<Rightarrow> string + disk" where
  "write_text d p s =
     (if is_file d p \<or> (p \<noteq> [] \<and> is_dir d (butlast p) \<and> entry d p = None) then Inr (AList.update p (File s) d)
      else Inl (access_error d p))"

definition make_dirs :: "disk \<Rightarrow> path \<Rightarrow> string + disk" where
  "make_dirs d p =
     (case find (\<lambda>q. entry d q \<noteq> Some Dir \<and> entry d q \<noteq> None) (proper_prefixes p @ [p]) of
        None \<Rightarrow> Inr (fold (\<lambda>q d. if is_dir d q then d else AList.update q Dir d) (proper_prefixes p @ [p]) d)
      | Some q \<Rightarrow> Inl (if q = p then os_error 17 ''File exists'' p else access_error d p))"

definition remove_file :: "disk \<Rightarrow> path \<Rightarrow> string + disk" where
  "remove_file d p =
     (case entry d p of
        None \<Rightarrow> Inl (access_error d p)
      | Some Dir \<Rightarrow> Inl (access_error d p)
      | _ \<Rightarrow> Inr (AList.delete p d))"

end
