(* ===== verification/File_Tools.thy ===== *)
theory File_Tools
  imports Paths Helpers
begin

text \<open>
  The file tools that a coding agent calls, \<open>agents/fs_tools.py\<close>: reading with a range and a memory of
  what was served, writing, editing and deleting inside the checkout of a ticket. The tools of one run
  share a cache of texts. Python's compiler, the reader of PDF files and the YAML parser are
  parameters.
\<close>

section \<open>What an agent is shown\<close>

text \<open>Lines from the front, the first one always, then as long as they fit.\<close>

fun fit_lines :: "nat \<Rightarrow> nat \<Rightarrow> bool \<Rightarrow> string list \<Rightarrow> string list" where
  "fit_lines budget used some [] = []"
| "fit_lines budget used some (l # ls) =
     (if some \<and> budget < used + n_chars l then [] else l # fit_lines budget (used + n_chars l) True ls)"

definition truncated_marker :: "string \<Rightarrow> nat \<Rightarrow> nat \<Rightarrow> nat \<Rightarrow> nat \<Rightarrow> string" where
  "truncated_marker s m nlines h t =
     nl @ nl @ ''[... read_file truncated: file has '' @ show_nat nlines @ '' lines ('' @ show_nat (n_chars s)
     @ '' chars), over the read_file_max_chars cap of '' @ show_nat m @ ''. Showing the first '' @ show_nat h
     @ '' and last '' @ show_nat t @ '' lines. To read the omitted region (lines '' @ show_nat (h + 1) @ ''-''
     @ show_int (int nlines - int t) @ ''), call read_file again with offset/limit. ...]'' @ nl @ nl"

definition bound_full_read :: "string \<Rightarrow> int \<Rightarrow> string" where
  "bound_full_read s max_chars =
     (if max_chars \<le> 0 \<or> int (n_chars s) \<le> max_chars then s
      else (let ls = keep_lines s; m = nat max_chars; head_budget = m * 2 div 3;
                h = fit_lines head_budget 0 False ls;
                t = rev (fit_lines (m - head_budget) 0 False (rev ls))
            in concat h @ truncated_marker s m (length ls) (length h) (length t) @ concat t))"

text \<open>Ranges of lines, both ends included, widened by the lines of context and merged.\<close>

definition expand_ranges :: "(int \<times> int) list \<Rightarrow> int \<Rightarrow> int \<Rightarrow> (int \<times> int) list" where
  "expand_ranges rs context_lines nlines =
     filter (\<lambda>r. fst r \<le> snd r) (map (\<lambda>r. (max 1 (fst r - context_lines), min nlines (snd r + context_lines))) rs)"

fun merge_ranges :: "int \<times> int \<Rightarrow> (int \<times> int) list \<Rightarrow> (int \<times> int) list" where
  "merge_ranges cur [] = [cur]"
| "merge_ranges cur (r # rs) =
     (if fst r \<le> snd cur + 1 then merge_ranges (fst cur, max (snd cur) (snd r)) rs
      else cur # merge_ranges r rs)"

definition expand_and_merge_ranges :: "(int \<times> int) list \<Rightarrow> int \<Rightarrow> int \<Rightarrow> (int \<times> int) list" where
  "expand_and_merge_ranges rs context_lines nlines =
     (case sort_key (\<lambda>r. [fst r, snd r]) (expand_ranges rs context_lines nlines) of
        [] \<Rightarrow> []
      | r # rest \<Rightarrow> merge_ranges r rest)"

section \<open>Arguments\<close>

datatype limit_arg = NoLimit | LimitInt int | LimitText string

definition none_word :: "string \<Rightarrow> bool" where
  "none_word s \<longleftrightarrow> lower s \<in> {[], ''none'', ''null''}"

definition coerce_read_limit :: "limit_arg \<Rightarrow> string + int option" where
  "coerce_read_limit a =
     (case a of
        NoLimit \<Rightarrow> Inr None
      | LimitInt i \<Rightarrow> Inr (Some i)
      | LimitText s \<Rightarrow>
          if none_word (strip s) then Inr None
          else (case py_int s of
                  Some i \<Rightarrow> Inr (Some i)
                | None \<Rightarrow> Inl (''error: read_file `limit` must be an integer or None, got '' @ py_repr s)))"

datatype offset_arg = OffsetInt int | OffsetText string | OffsetRange "int list"

definition ints_repr :: "int list \<Rightarrow> string" where
  "ints_repr is = ''['' @ join '', '' (map show_int is) @ '']''"

definition coerce_read_offset :: "offset_arg \<Rightarrow> int option \<Rightarrow> string + int \<times> int option" where
  "coerce_read_offset a limit =
     (case a of
        OffsetInt i \<Rightarrow> Inr (i, limit)
      | OffsetText s \<Rightarrow>
          if none_word (strip s) then Inr (1, limit)
          else (case py_int s of
                  Some i \<Rightarrow> Inr (i, limit)
                | None \<Rightarrow> Inl (''error: read_file `offset` must be an integer, got '' @ py_repr s))
      | OffsetRange is \<Rightarrow>
          (case is of
             [] \<Rightarrow> Inl (''error: read_file `offset` must be an integer or a [start, end] line range, got '' @ ints_repr is)
           | [start] \<Rightarrow> Inr (start, limit)
           | start # rest \<Rightarrow>
               (let span = last rest - start + 1
                in if span < 1 then
                     Inl (''error: read_file `offset` range '' @ ints_repr is @ '' is empty '' @ em_dash
                       @ '' pass [start, end] with end >= start'')
                   else Inr (start, Some (case limit of None \<Rightarrow> span | Some l \<Rightarrow> min l span)))))"

text \<open>The spellings under which a path is looked for, \<open>core/repo_layout.py\<close>.\<close>

definition src_path_candidates :: "string \<Rightarrow> string list" where
  "src_path_candidates token =
     (let t = (if startswith ''./'' token then drop 2 token else token)
      in if absolute t \<or> startswith ''src/'' (lower t) then [t] else [t, ''src/'' @ t])"

section \<open>The state of the tools of one run\<close>

record file_tools =
  ft_root :: path
  ft_extra :: "path list"
  ft_cap :: "int option"
  ft_blocked :: "string list"
  ft_explored :: "path list option"
  ft_cache :: "(path \<times> string) list"
  ft_reads :: int
  ft_served :: "(path \<times> (int \<times> int option) list) list"
  ft_history :: "string list"
  ft_lint :: bool
  ft_max_chars :: int
  ft_abandoned :: bool

record tool_env =
  syntax_error :: "string \<Rightarrow> string \<Rightarrow> (string \<times> string) option"
  pdf_text :: "path \<Rightarrow> node option \<Rightarrow> string"
  load_periodic :: "string \<Rightarrow> (string option \<times> string option) option"

text \<open>An answer to the agent, or the exception that unwinds a run that was given up.\<close>

datatype tool_out = Reply string | Abandoned

datatype safe_result = Safe path | Unsafe string | Given_Up

definition not_cloned :: string where
  "not_cloned =
     ''workspace repo directory does not exist '' @ em_dash @ '' the repository has not been cloned yet''"

definition escapes :: "string \<Rightarrow> string" where
  "escapes rel =
     ''path '' @ py_repr rel @ '' escapes the repository '' @ em_dash
     @ '' all filesystem tools (read_file, list_dir, run_command) are sandboxed to the repo checkout, so files outside it (installed dependencies under site-packages, /usr/local/lib, /etc, other workspaces) are NOT reachable by any tool. Do NOT retry this path and do NOT fall back to run_command/grep/cat on it ''
     @ em_dash @ '' it will fail the same way.''"

definition below :: "path \<Rightarrow> path \<Rightarrow> bool" where
  "below r p \<longleftrightarrow> take (length r) p = r"

definition safe_path :: "file_tools \<Rightarrow> disk \<Rightarrow> string \<Rightarrow> safe_result" where
  "safe_path ft d rel =
     (if ft_abandoned ft then Given_Up
      else if \<not> path_exists d (ft_root ft) then Unsafe not_cloned
      else (let p = realpath d (ft_root ft) rel; r = resolve d (ft_root ft)
            in if below r p \<or> list_ex (\<lambda>x. below (resolve d x) p) (ft_extra ft) then Safe p
               else Unsafe (escapes rel)))"

definition check_write_allowed :: "file_tools \<Rightarrow> string \<Rightarrow> string option" where
  "check_write_allowed ft p =
     map_option (\<lambda>b. ''write blocked: path '' @ py_repr p @ '' starts with blocked prefix '' @ py_repr b
         @ ''. The document agent is not permitted to modify files under '' @ py_repr b @ '' '' @ em_dash
         @ '' those are source/test directories.'')
       (find (\<lambda>b. startswith b p) (ft_blocked ft))"

definition check_read_cap :: "file_tools \<Rightarrow> string option \<times> file_tools" where
  "check_read_cap ft =
     (case ft_cap ft of
        Some cap \<Rightarrow>
          if cap \<le> ft_reads ft then
            (Some (''error: read_file hard cap of '' @ show_int cap @ '' calls reached for this agent run '' @ em_dash
               @ '' no further files may be read. Delegate remaining lookups to the explore tool, or synthesise your spec from the content already in context.''), ft)
          else (None, ft\<lparr>ft_reads := ft_reads ft + 1\<rparr>)
      | None \<Rightarrow> (None, ft\<lparr>ft_reads := ft_reads ft + 1\<rparr>))"

definition record_served_read :: "path \<Rightarrow> int \<Rightarrow> int option \<Rightarrow> file_tools \<Rightarrow> file_tools" where
  "record_served_read p off lmt ft =
     ft\<lparr>ft_served := AList.update p
         ((case map_of (ft_served ft) p of None \<Rightarrow> [] | Some rs \<Rightarrow> rs) @ [(off, lmt)]) (ft_served ft)\<rparr>"

text \<open>A write makes the tools forget what they know of a file.\<close>

definition forget :: "path \<Rightarrow> file_tools \<Rightarrow> file_tools" where
  "forget p ft =
     ft\<lparr>ft_cache := AList.delete p (ft_cache ft), ft_served := AList.delete p (ft_served ft),
        ft_explored := map_option (filter (\<lambda>q. q \<noteq> p)) (ft_explored ft)\<rparr>"

definition is_pdf :: "path \<Rightarrow> bool" where
  "is_pdf p \<longleftrightarrow>
     p \<noteq> [] \<and> (let n = lstrip_by (\<lambda>c. c = CHR ''.'') (last p) in 4 < length n \<and> endswith ''.pdf'' (lower n))"

definition read_fresh :: "tool_env \<Rightarrow> path \<Rightarrow> disk \<Rightarrow> string + string" where
  "read_fresh env p d = (if is_pdf p then Inr (pdf_text env p (entry d p)) else read_text d p)"

definition read_cached :: "tool_env \<Rightarrow> path \<Rightarrow> disk \<Rightarrow> file_tools \<Rightarrow> (string + string) \<times> file_tools" where
  "read_cached env p d ft =
     (let key = resolve d p
      in case map_of (ft_cache ft) key of
           Some s \<Rightarrow> (Inr s, ft)
         | None \<Rightarrow>
             (case read_fresh env p d of
                Inl e \<Rightarrow> (Inl e, ft)
              | Inr s \<Rightarrow> (Inr s, ft\<lparr>ft_cache := AList.update key s (ft_cache ft)\<rparr>)))"

section \<open>The history of messages\<close>

record tool_call =
  tc_name :: string
  tc_id :: "string option"
  tc_args :: "(string \<times> json) list option"

record tool_return =
  tr_name :: string
  tr_id :: "string option"
  tr_content :: "string option"

datatype message = Response "tool_call list" | Request "tool_return list"

definition PRUNED_PLACEHOLDER :: string where
  "PRUNED_PLACEHOLDER = ''[content pruned '' @ em_dash @ '' more recent content above]''"

definition all_calls :: "message list \<Rightarrow> tool_call list" where
  "all_calls ms = concat (map (\<lambda>m. case m of Response cs \<Rightarrow> cs | Request rs \<Rightarrow> []) ms)"

definition all_returns :: "message list \<Rightarrow> tool_return list" where
  "all_returns ms = concat (map (\<lambda>m. case m of Response cs \<Rightarrow> [] | Request rs \<Rightarrow> rs) ms)"

text \<open>Whether a call reads the file, by the path it names.\<close>

definition reads_path :: "path \<Rightarrow> disk \<Rightarrow> path \<Rightarrow> tool_call \<Rightarrow> bool" where
  "reads_path r d target c \<longleftrightarrow>
     tc_name c = ''read_file''
     \<and> (case tc_args c of
          None \<Rightarrow> False
        | Some es \<Rightarrow> (case map_of es ''path'' of Some (JStr a) \<Rightarrow> realpath d r a = resolve d target | _ \<Rightarrow> False))"

definition prune_stale_file_content :: "path \<Rightarrow> disk \<Rightarrow> path \<Rightarrow> message list \<Rightarrow> message list" where
  "prune_stale_file_content r d target ms =
     (let stale = filter truthy (map tc_id (filter (reads_path r d target) (all_calls ms)))
      in map (\<lambda>m. case m of
                Response cs \<Rightarrow> m
              | Request rs \<Rightarrow>
                  Request (map (\<lambda>t. if tr_name t = ''read_file'' \<and> tr_id t \<in> set stale
                      then t\<lparr>tr_content := Some PRUNED_PLACEHOLDER\<rparr> else t) rs)) ms)"

text \<open>
  The first line that a call asked for; no answer where Python raises, which ends the whole scan. A
  number that is false, like any false value, is the default.
\<close>

definition call_offset :: "(string \<times> json) list \<Rightarrow> int option" where
  "call_offset es =
     (case map_of es ''offset'' of
        Some (JInt i) \<Rightarrow> Some (if i = 0 then 1 else max i 1)
      | j \<Rightarrow> if json_true j then (if j = Some (JBool True) then Some 1 else None) else Some 1)"

text \<open>Where a range begins and how long it is, nothing for no end; whether one holds the other.\<close>

definition covers :: "int \<times> int option \<Rightarrow> int \<times> int option \<Rightarrow> bool" where
  "covers c r \<longleftrightarrow>
     fst c \<le> fst r
     \<and> (case snd c of
          None \<Rightarrow> True
        | Some n \<Rightarrow> (case snd r of None \<Rightarrow> False | Some k \<Rightarrow> fst r + k \<le> fst c + n))"

definition limit_of :: "json option \<Rightarrow> int option option" where
  "limit_of j =
     (case j of None \<Rightarrow> Some None | Some JNull \<Rightarrow> Some None | Some (JInt i) \<Rightarrow> Some (Some i)
      | Some (JBool b) \<Rightarrow> Some (Some (if b then 1 else 0)) | _ \<Rightarrow> None)"

fun call_ranges :: "tool_call list \<Rightarrow> (string \<times> int \<times> json option) list option" where
  "call_ranges [] = Some []"
| "call_ranges (c # cs) =
     (if \<not> truthy (tc_id c) then call_ranges cs
      else (case call_offset (the (tc_args c)) of
              None \<Rightarrow> None
            | Some off \<Rightarrow>
                map_option (\<lambda>es. es @ [(the (tc_id c), off, map_of (the (tc_args c)) ''limit'')]) (call_ranges cs)))"

text \<open>The last call of an id decides, so the list is in reverse order.\<close>

fun first_covering ::
    "(string \<times> int \<times> json option) list \<Rightarrow> int \<times> int option \<Rightarrow> tool_return list \<Rightarrow> (int \<times> int option) option" where
  "first_covering es r [] = None"
| "first_covering es r (t # ts) =
     (case (if tr_name t = ''read_file'' then Option.bind (tr_id t) (map_of es) else None) of
        None \<Rightarrow> first_covering es r ts
      | Some (off, lj) \<Rightarrow>
          if tr_content t = None \<or> tr_content t = Some PRUNED_PLACEHOLDER then first_covering es r ts
          else (case limit_of lj of
                  None \<Rightarrow> None
                | Some lmt \<Rightarrow> if covers (off, lmt) r then Some (off, lmt) else first_covering es r ts))"

definition find_covering_read ::
    "path \<Rightarrow> disk \<Rightarrow> message list \<Rightarrow> path \<Rightarrow> int \<times> int option \<Rightarrow> (int \<times> int option) option" where
  "find_covering_read r d ms target rng =
     (case call_ranges (filter (reads_path r d target) (all_calls ms)) of
        None \<Rightarrow> None
      | Some es \<Rightarrow> first_covering es rng (all_returns ms))"

section \<open>Finding the file to read\<close>

datatype located = Located path string | Failed string | Unwound

definition absolute_note :: "string \<Rightarrow> string" where
  "absolute_note p =
     ''(resolved absolute '' @ py_repr p @ '' '' @ right_arrow @ '' relative '' @ py_repr (tl p)
     @ ''; use repo-relative paths)'' @ nl"

definition src_note :: "string \<Rightarrow> string \<Rightarrow> string" where
  "src_note p cand =
     ''(resolved '' @ py_repr p @ '' '' @ right_arrow @ '' '' @ py_repr cand
     @ '': package paths live under the src/ namespace)'' @ nl"

text \<open>An absolute path that escapes is tried as a relative one.\<close>

definition locate_read :: "file_tools \<Rightarrow> disk \<Rightarrow> string \<Rightarrow> located" where
  "locate_read ft d p =
     (case safe_path ft d p of
        Given_Up \<Rightarrow> Unwound
      | Safe q \<Rightarrow> Located q []
      | Unsafe e \<Rightarrow>
          if absolute p \<and> tl p \<noteq> [] then
            (case safe_path ft d (tl p) of
               Safe q \<Rightarrow> if path_exists d q then Located q (absolute_note p) else Failed (''error: '' @ e)
             | Given_Up \<Rightarrow> Unwound
             | Unsafe e' \<Rightarrow> Failed (''error: '' @ e))
          else Failed (''error: '' @ e))"

text \<open>The first other spelling that passes a test.\<close>

definition src_fallback :: "file_tools \<Rightarrow> disk \<Rightarrow> (path \<Rightarrow> bool) \<Rightarrow> string \<Rightarrow> (string \<times> path) option" where
  "src_fallback ft d ok p =
     find (\<lambda>(cand, q). ok q)
       (List.map_filter (\<lambda>cand. case safe_path ft d cand of Safe q \<Rightarrow> Some (cand, q) | _ \<Rightarrow> None)
         (tl (src_path_candidates p)))"

definition parent_hint :: "file_tools \<Rightarrow> path \<Rightarrow> string" where
  "parent_hint ft q =
     (let b = butlast q; n = length (ft_root ft)
      in if \<not> below (ft_root ft) b then path_text b
         else if drop n b = [] then ''.'' else join ''/'' (drop n b))"

definition find_file :: "file_tools \<Rightarrow> disk \<Rightarrow> string \<Rightarrow> path \<Rightarrow> string \<Rightarrow> located" where
  "find_file ft d p q msg =
     (if is_file d q then Located q msg
      else if path_exists d q then Failed (''error: '' @ py_repr p @ '' is a directory, not a file'')
      else (case src_fallback ft d (is_file d) p of
              Some (cand, alt) \<Rightarrow> Located alt (src_note p cand)
            | None \<Rightarrow>
                Failed (''error: '' @ py_repr p @ '' does not exist '' @ em_dash @ '' try list_dir('' @ [CHR 0x27]
                  @ parent_hint ft q @ [CHR 0x27] @ '') to find the correct path'')))"

section \<open>Reading\<close>

definition DEFAULT_READ_LIMIT :: int where
  "DEFAULT_READ_LIMIT = 200"

definition n_newlines :: "string \<Rightarrow> nat" where
  "n_newlines s = length (filter (\<lambda>c. c = CHR 0x0A) s)"

text \<open>A slice of a list, where a negative end counts from the end of the list.\<close>

definition py_slice :: "'a list \<Rightarrow> int \<Rightarrow> int option \<Rightarrow> 'a list" where
  "py_slice xs start stop =
     (case stop of
        None \<Rightarrow> drop (nat start) xs
      | Some e \<Rightarrow>
          take (nat ((if e < 0 then max 0 (int (length xs) + e) else e) - start)) (drop (nat start) xs))"

definition served_above :: "string \<Rightarrow> string" where
  "served_above p =
     ''already in context above '' @ em_dash @ '' '' @ p
     @ '' was read by the explore sub-agent. Scroll back to find it; synthesise from context instead of re-reading.''"

definition refused_full :: "string \<Rightarrow> string \<Rightarrow> string" where
  "refused_full p size_note =
     ''REFUSED (do NOT retry): '' @ p @ '' '' @ size_note @ em_dash
     @ '' already loaded in full earlier in this conversation.  Scroll back to find it; synthesise from context instead of re-reading.''"

definition range_text :: "int \<times> int option \<Rightarrow> string" where
  "range_text c =
     (case snd c of
        None \<Rightarrow> ''lines '' @ show_int (fst c) @ '' onward''
      | Some n \<Rightarrow> ''lines '' @ show_int (fst c) @ [CHR 0xE2, CHR 0x80, CHR 0x93] @ show_int (fst c + n - 1))"

definition refused_part :: "string \<Rightarrow> int \<times> int option \<Rightarrow> string" where
  "refused_part p c =
     ''REFUSED (do NOT retry): '' @ p @ '' '' @ range_text c @ '' '' @ em_dash
     @ '' already loaded earlier in this conversation.  Scroll back to find them; synthesise from context instead of re-reading.''"

text \<open>The read itself; a range to the end of the file counts as one without end.\<close>

definition serve ::
    "tool_env \<Rightarrow> path \<Rightarrow> string \<Rightarrow> int \<Rightarrow> int option \<Rightarrow> message list option \<Rightarrow> disk \<Rightarrow> file_tools \<Rightarrow>
     tool_out \<times> message list option \<times> file_tools" where
  "serve env q msg offset lmt ctx d ft =
     (case read_cached env q d ft of
        (Inl e, ft1) \<Rightarrow> (Reply (''error: '' @ e), ctx, ft1)
      | (Inr s, ft1) \<Rightarrow>
          (let off = max offset 1; asked_full = (off = 1 \<and> lmt = None);
               remaining = max 0 (int (n_newlines s) - (off - 1));
               to_end = (\<not> asked_full \<and> (case lmt of None \<Rightarrow> False | Some l \<Rightarrow> remaining < l));
               eff = (if to_end then None else lmt);
               full = (asked_full \<or> (to_end \<and> off = 1));
               ctx1 = (if full then map_option (prune_stale_file_content (ft_root ft) d q) ctx else ctx);
               ft2 = record_served_read (resolve d q) off eff ft1;
               ls = keep_lines s
           in if full then (Reply (msg @ bound_full_read s (ft_max_chars ft)), ctx1, ft2)
              else if int (length ls) < off \<and> 1 < off then
                (Reply (msg @ ''(file has '' @ show_nat (length ls) @ '' lines; offset '' @ show_int offset
                   @ '' is beyond end)''), ctx1, ft1)
              else (Reply (msg @ concat (py_slice ls (off - 1) (map_option (\<lambda>l. off - 1 + l) eff))), ctx1, ft2)))"

definition read_located ::
    "tool_env \<Rightarrow> string \<Rightarrow> path \<Rightarrow> string \<Rightarrow> int \<Rightarrow> int option \<Rightarrow> message list option \<Rightarrow> disk \<Rightarrow> file_tools \<Rightarrow>
     tool_out \<times> message list option \<times> file_tools" where
  "read_located env p q msg offset lmt ctx d ft =
     (let off = max offset 1; key = resolve d q; full = (off = 1 \<and> lmt = None);
          first_page = (off = 1 \<and> lmt = Some DEFAULT_READ_LIMIT)
      in if (case ft_explored ft of None \<Rightarrow> False | Some qs \<Rightarrow> key \<in> set qs) \<and> (full \<or> first_page) then
           (Reply (served_above p), ctx, ft)
         else (case ctx of
                 Some ms \<Rightarrow>
                   (case (if full \<or> first_page then None else find_covering_read (ft_root ft) d ms q (off, lmt)) of
                      None \<Rightarrow> serve env q msg offset lmt ctx d ft
                    | Some c \<Rightarrow>
                        if c = (1, None) then
                          (let (r, ft1) = read_cached env q d ft
                           in (Reply (refused_full p (''('' @ (case r of Inl e \<Rightarrow> ''?'' | Inr s \<Rightarrow> show_nat (n_newlines s))
                                 @ '' lines) '')), ctx, ft1))
                        else (Reply (refused_part p c), ctx, ft))
               | None \<Rightarrow>
                   (case find (\<lambda>c. covers c (off, lmt))
                           (case map_of (ft_served ft) key of None \<Rightarrow> [] | Some cs \<Rightarrow> cs) of
                      None \<Rightarrow> serve env q msg offset lmt ctx d ft
                    | Some c \<Rightarrow> (Reply (if c = (1, None) then refused_full p [] else refused_part p c), ctx, ft))))"

definition read_file ::
    "tool_env \<Rightarrow> string option list \<Rightarrow> offset_arg \<Rightarrow> limit_arg \<Rightarrow> message list option \<Rightarrow> disk \<Rightarrow> file_tools \<Rightarrow>
     tool_out \<times> message list option \<times> file_tools" where
  "read_file env names offset lmt ctx d ft =
     (case check_read_cap ft of
        (Some e, ft1) \<Rightarrow> (Reply e, ctx, ft1)
      | (None, ft1) \<Rightarrow>
          (case find truthy names of
             None \<Rightarrow> (Reply ''error: read_file requires `path` (the repo-relative file to read)'', ctx, ft1)
           | Some given \<Rightarrow>
               (case coerce_read_limit lmt of
                  Inl e \<Rightarrow> (Reply e, ctx, ft1)
                | Inr l \<Rightarrow>
                    (case coerce_read_offset offset l of
                       Inl e \<Rightarrow> (Reply e, ctx, ft1)
                     | Inr (off, l2) \<Rightarrow>
                         (case (case locate_read ft1 d (the given) of
                                  Located q msg \<Rightarrow> find_file ft1 d (the given) q msg | r \<Rightarrow> r) of
                            Unwound \<Rightarrow> (Abandoned, ctx, ft1)
                          | Failed e \<Rightarrow> (Reply e, ctx, ft1)
                          | Located q msg \<Rightarrow> read_located env (the given) q msg off l2 ctx d ft1)))))"

section \<open>Files of the periodic agents\<close>

definition BUILTIN_KINDS :: "(string \<times> string) list" where
  "BUILTIN_KINDS =
    [(''audit'', ''llm_agent''), (''health'', ''llm_agent''), (''agent_check'', ''llm_agent''),
     (''bc_check'', ''llm_agent''), (''completeness_check'', ''llm_agent''),
     (''copy_paste'', ''llm_agent''), (''survey'', ''llm_agent''), (''test_gap'', ''llm_agent''),
     (''docstring_coverage'', ''llm_agent''), (''module_curator'', ''llm_agent''),
     (''module_size'', ''llm_agent''), (''mypy_baseline'', ''llm_agent''),
     (''forge_parity'', ''llm_agent''), (''state_sync'', ''mill_only''),
     (''frontend_sync'', ''mill_only''), (''triage_boilerplate'', ''llm_agent''),
     (''repo_description_sync'', ''llm_agent''), (''ci_prevention_rules'', ''llm_agent''),
     (''diagnostic'', ''schedule_only''), (''trace_review'', ''schedule_only''),
     (''config_sync'', ''schedule_only''), (''credit_balance'', ''schedule_only''),
     (''member_sync'', ''schedule_only''), (''data_dir_gc'', ''schedule_only''),
     (''pin_bump'', ''schedule_only''), (''roadmap_sync'', ''schedule_only''),
     (''langfuse_cleanup'', ''global_only''), (''meta'', ''global_only''),
     (''run_health'', ''global_only''), (''timeout_escalation'', ''global_only''),
     (''upstream_ci_recovery'', ''global_only''), (''trace_health'', ''global_only'')]"

definition kind_for :: "string \<Rightarrow> string" where
  "kind_for name = (case map_of BUILTIN_KINDS name of None \<Rightarrow> ''bespoke'' | Some k \<Rightarrow> k)"

definition validate_periodic_file_content :: "string \<Rightarrow> string option \<Rightarrow> string list" where
  "validate_periodic_file_content name system_prompt =
     (let q = [CHR 0x27]; k = kind_for name
      in if k = ''global_only'' then
           [q @ name @ q @ '' is a global/cross-repo periodic and cannot be per-repo presence-managed. Remove this file.'']
         else if k = ''mill_only'' then
           [q @ name @ q @ '' is a mill-internal periodic agent (its prompt is hardcoded to robotsix-mill'' @ q
            @ ''s own source paths) and cannot be enabled on managed repos via a presence file. Remove this file ''
            @ em_dash @ '' it will not be loaded.'']
         else if k = ''bespoke'' \<and> \<not> has_text (or_empty system_prompt) then
           [q @ name @ q @ '' is not a recognised built-in periodic name. Either use one of the valid built-in names (''
            @ join '', '' (sort_key str_key (map fst (filter (\<lambda>e. snd e \<noteq> ''global_only'') BUILTIN_KINDS)))
            @ '') or include a non-empty `system_prompt` field to define a new bespoke agent.'']
         else [])"

definition PERIODIC_PATH_RE :: rx where
  "PERIODIC_PATH_RE =
     (let sep = Cls (\<lambda>c. c = CHR ''/'' \<or> c = bslash_c)
      in seqs [lit ''.robotsix-mill'', sep, lit ''periodic'', sep,
               plus_rx (Cls (\<lambda>c. c \<noteq> CHR ''/'' \<and> c \<noteq> bslash_c)), lit ''.yaml'',
               Alt TextEnd (Cat (chr_rx (CHR 0x0A)) TextEnd)])"

definition is_periodic_path :: "string \<Rightarrow> bool" where
  "is_periodic_path p \<longleftrightarrow>
     match_start PERIODIC_PATH_RE p \<noteq> None
     \<or> rx_search (Cat (Cls (\<lambda>c. c = CHR ''/'' \<or> c = bslash_c)) PERIODIC_PATH_RE) p"

definition path_stem :: "string \<Rightarrow> string" where
  "path_stem p = rev (tl (dropWhile (\<lambda>c. c \<noteq> CHR ''.'') (rev (last (split_on (\<lambda>c. c = CHR ''/'') p)))))"

definition periodic_errors :: "tool_env \<Rightarrow> string \<Rightarrow> string \<Rightarrow> string list" where
  "periodic_errors env p content =
     (if is_periodic_path p then
        (case load_periodic env content of
           None \<Rightarrow> []
         | Some (name, prompt) \<Rightarrow>
             validate_periodic_file_content (if truthy name then the name else path_stem p) prompt)
      else [])"

section \<open>Writing, editing, deleting\<close>

definition check_python_syntax :: "tool_env \<Rightarrow> file_tools \<Rightarrow> string \<Rightarrow> string \<Rightarrow> string option" where
  "check_python_syntax env ft p content =
     (if endswith ''.py'' p \<and> ft_lint ft then
        map_option (\<lambda>(line, m). ''syntax error in '' @ p @ '' line '' @ line @ '': '' @ m) (syntax_error env p content)
      else None)"

definition store_text :: "disk \<Rightarrow> path \<Rightarrow> string \<Rightarrow> file_tools \<Rightarrow> (string + unit) \<times> disk \<times> file_tools" where
  "store_text d q content ft =
     (case write_text d q content of
        Inl e \<Rightarrow> (Inl e, d, ft)
      | Inr d1 \<Rightarrow> (Inr (), d1, forget (resolve d1 q) ft))"

definition write_file ::
    "tool_env \<Rightarrow> string option list \<Rightarrow> string option \<Rightarrow> disk \<Rightarrow> file_tools \<Rightarrow> tool_out \<times> disk \<times> file_tools" where
  "write_file env names content d ft =
     (case find truthy names of
        Some (Some p) \<Rightarrow>
          (case content of
             None \<Rightarrow> (Reply ''error: write_file requires `content`'', d, ft)
           | Some s \<Rightarrow>
               (case check_write_allowed ft p of
                  Some e \<Rightarrow> (Reply e, d, ft)
                | None \<Rightarrow>
                    (case check_python_syntax env ft p s of
                       Some e \<Rightarrow> (Reply e, d, ft)
                     | None \<Rightarrow>
                         if periodic_errors env p s \<noteq> [] then
                           (Reply (''PERIODIC FILE REJECTED '' @ em_dash @ '' do not retry without fixing the issue:'' @ nl
                              @ join nl (map (\<lambda>e. ''  '' @ [CHR 0xE2, CHR 0x80, CHR 0xA2] @ '' '' @ e)
                                  (periodic_errors env p s))), d, ft)
                         else (case safe_path ft d p of
                                 Given_Up \<Rightarrow> (Abandoned, d, ft)
                               | Unsafe e \<Rightarrow> (Reply (''error: '' @ e), d, ft)
                               | Safe q \<Rightarrow>
                                   (case make_dirs d (butlast q) of
                                      Inl e \<Rightarrow> (Reply (''error: '' @ e), d, ft)
                                    | Inr d1 \<Rightarrow>
                                        (case store_text d1 q s ft of
                                           (Inl e, d2, ft2) \<Rightarrow> (Reply (''error: '' @ e), d2, ft2)
                                         | (Inr _, d2, ft2) \<Rightarrow>
                                             (Reply (''wrote '' @ show_nat (n_chars s) @ '' bytes to '' @ p), d2, ft2)))))))
      | _ \<Rightarrow> (Reply ''error: write_file requires `path` (the repo-relative file to write)'', d, ft))"

text \<open>Occurrences that do not overlap; the empty text occurs before each character and at the end.\<close>

function replace_n :: "string \<Rightarrow> string \<Rightarrow> int \<Rightarrow> string \<Rightarrow> string" where
  "replace_n old new n s =
     (if n = 0 then s
      else (case s of
              [] \<Rightarrow> if old = [] then new else []
            | c # cs \<Rightarrow>
                if old = [] then
                  (if continuation c then c # replace_n old new n cs else new @ c # replace_n old new (n - 1) cs)
                else if startswith old s then new @ replace_n old new (n - 1) (drop (length old) s)
                else c # replace_n old new n cs))"
  by pat_completeness auto

termination replace_n
  by (relation "measure (\<lambda>(old, new, n, s). length s)") auto

function occurrences :: "string \<Rightarrow> string \<Rightarrow> int" where
  "occurrences old s =
     (case s of
        [] \<Rightarrow> if old = [] then 1 else 0
      | c # cs \<Rightarrow>
          if old = [] then (if continuation c then 0 else 1) + occurrences old cs
          else if startswith old s then 1 + occurrences old (drop (length old) s)
          else occurrences old cs)"
  by pat_completeness auto

termination occurrences
  by (relation "measure (\<lambda>(old, s). length s)") auto

declare replace_n.simps [simp del] occurrences.simps [simp del]

definition edit_text ::
    "string \<Rightarrow> string \<Rightarrow> string \<Rightarrow> int \<Rightarrow> bool \<Rightarrow> string \<Rightarrow> string + int \<times> string" where
  "edit_text p old new wanted replace_all content =
     (let occ = occurrences old content; n = (if replace_all \<and> occ \<noteq> 0 then occ else wanted)
      in if occ = 0 then
           Inl (''edit_file: old_string not found in '' @ p @ '' '' @ em_dash @ '' read the file and retry, or use write_file'')
         else if n = 1 \<and> 1 < occ \<and> old \<noteq> [] then
           Inl (''edit_file: old_string appears '' @ show_int occ @ '' times in '' @ p @ '' '' @ em_dash @ '' pass count=''
             @ show_int occ @ '' to replace all, or a smaller count to replace fewer'')
         else if occ < n then
           Inl (''edit_file: old_string appears '' @ show_int occ @ '' time(s) in '' @ p @ '', but '' @ show_int n
             @ '' replacement(s) were requested '' @ em_dash @ '' read the file and retry, or use write_file'')
         else Inr (n, replace_n old new n content))"

definition edit_file ::
    "tool_env \<Rightarrow> string option list \<Rightarrow> string option \<Rightarrow> string option \<Rightarrow> int \<Rightarrow> bool \<Rightarrow> disk \<Rightarrow> file_tools \<Rightarrow>
     tool_out \<times> disk \<times> file_tools" where
  "edit_file env names old new wanted replace_all d ft =
     (case (find truthy names, old, new) of
        (Some (Some p), Some old', Some new') \<Rightarrow>
          (case check_write_allowed ft p of
             Some e \<Rightarrow> (Reply e, d, ft)
           | None \<Rightarrow>
               (case safe_path ft d p of
                  Given_Up \<Rightarrow> (Abandoned, d, ft)
                | Unsafe e \<Rightarrow> (Reply (''error: '' @ e), d, ft)
                | Safe q \<Rightarrow>
                    (case read_cached env q d ft of
                       (Inl e, ft1) \<Rightarrow> (Reply (''error: '' @ e), d, ft1)
                     | (Inr content, ft1) \<Rightarrow>
                         (case edit_text p old' new' wanted replace_all content of
                            Inl e \<Rightarrow> (Reply e, d, ft1)
                          | Inr (n, s) \<Rightarrow>
                              (case check_python_syntax env ft1 p s of
                                 Some e \<Rightarrow> (Reply e, d, ft1)
                               | None \<Rightarrow>
                                   (case store_text d q s ft1 of
                                      (Inl e, d2, ft2) \<Rightarrow> (Reply (''error: '' @ e), d2, ft2)
                                    | (Inr _, d2, ft2) \<Rightarrow>
                                        (Reply (''edit_file: replaced '' @ show_int n @ '' occurrence(s) in '' @ p), d2, ft2)))))))
      | (Some (Some p), _, _) \<Rightarrow> (Reply ''error: edit_file requires both `old_string` and `new_string`'', d, ft)
      | _ \<Rightarrow> (Reply ''error: edit_file requires `path` (the repo-relative file to edit)'', d, ft))"

definition delete_file :: "string \<Rightarrow> disk \<Rightarrow> file_tools \<Rightarrow> tool_out \<times> disk \<times> file_tools" where
  "delete_file p d ft =
     (case check_write_allowed ft p of
        Some e \<Rightarrow> (Reply e, d, ft)
      | None \<Rightarrow>
          (case safe_path ft d p of
             Given_Up \<Rightarrow> (Abandoned, d, ft)
           | Unsafe e \<Rightarrow> (Reply (''error: '' @ e), d, ft)
           | Safe q \<Rightarrow>
               (case remove_file d q of
                  Inl e \<Rightarrow> (Reply (''error: '' @ e), d, ft)
                | Inr d1 \<Rightarrow> (Reply (''deleted '' @ p), d1, forget (resolve d1 q) ft))))"

section \<open>Listing\<close>

definition child_names :: "disk \<Rightarrow> path \<Rightarrow> string list" where
  "child_names d q =
     dedup_first (map last (filter (\<lambda>p. p \<noteq> [] \<and> butlast p = q \<and> entry d p \<noteq> None) (map fst d)))"

definition listing :: "disk \<Rightarrow> path \<Rightarrow> string" where
  "listing d q =
     join nl (sort_key str_key (map (\<lambda>n. if is_dir d (resolve d (q @ [n])) then n @ ''/'' else n) (child_names d q)))"

definition locate_dir :: "file_tools \<Rightarrow> disk \<Rightarrow> string \<Rightarrow> located" where
  "locate_dir ft d p =
     (case safe_path ft d p of
        Given_Up \<Rightarrow> Unwound
      | Safe q \<Rightarrow> Located q []
      | Unsafe e \<Rightarrow>
          if absolute p \<and> tl p \<noteq> [] then
            (case safe_path ft d (tl p) of
               Safe q \<Rightarrow> if path_exists d q then Located q (absolute_note p) else Failed (''error: '' @ e)
             | Given_Up \<Rightarrow> Unwound
             | Unsafe e' \<Rightarrow> Failed (''error: '' @ e'))
          else Failed (''error: '' @ e))"

definition list_dir :: "string \<Rightarrow> disk \<Rightarrow> file_tools \<Rightarrow> tool_out" where
  "list_dir p d ft =
     (case locate_dir ft d p of
        Unwound \<Rightarrow> Abandoned
      | Failed e \<Rightarrow> Reply e
      | Located q msg \<Rightarrow>
          if \<not> path_exists d q then
            (case src_fallback ft d (is_dir d) p of
               Some (cand, alt) \<Rightarrow> Reply (src_note p cand @ listing d alt)
             | None \<Rightarrow>
                 Reply (''error: '' @ py_repr p @ '' does not exist '' @ em_dash @ '' try list_dir('' @ [CHR 0x27] @ ''.''
                   @ [CHR 0x27] @ '') to find the correct path''))
          else if is_file d q then
            Reply (''error: '' @ [CHR 0x27] @ p @ [CHR 0x27] @ '' is a file, not a directory '' @ em_dash
              @ '' use read_file to read its content'')
          else Reply (msg @ listing d q))"

end
