(* ===== verification/Confinement.thy ===== *)
theory Confinement
  imports File_Tools
begin

text \<open>
  What the file tools guarantee: nothing outside of the checkout changes, what they know of a file is
  what is on the disk, an edit replaces one place, the excerpts of a file cover the lines asked for.
\<close>

section \<open>Resolved paths\<close>

definition proper_name :: "string \<Rightarrow> bool" where
  "proper_name n \<longleftrightarrow> n \<noteq> [] \<and> n \<noteq> ''.'' \<and> n \<noteq> ''..''"

lemma entry_prefix:
  assumes "entry d (a @ b) \<noteq> None" "b \<noteq> []"
  shows "entry d a = Some Dir"
proof (cases "a = []")
  case False
  have all: "map_of d (take k (a @ b)) = Some Dir" if "1 \<le> k" "k < length (a @ b)" for k
    using assms that by (auto simp: entry_def proper_prefixes_def list_all_iff split: if_splits)
  have "map_of d (take k a) = Some Dir" if "1 \<le> k" "k \<le> length a" for k
    using all [of k] that assms(2) by (cases b) auto
  moreover from this [of "length a"] False have "map_of d a = Some Dir" by (cases a) auto
  ultimately show ?thesis by (auto simp: entry_def proper_prefixes_def list_all_iff)
qed (simp add: entry_def)

lemma walk_names:
  assumes "\<And>k t. k \<le> length ns \<Longrightarrow> entry d (p @ take k ns) \<noteq> Some (Link t)" "list_all proper_name ns"
  shows "walk d (map Name ns) p seen = p @ ns"
  using assms
proof (induction ns arbitrary: p)
  case (Cons n ns)
  have "entry d ((p @ [n]) @ take k ns) \<noteq> Some (Link t)" if "k \<le> length ns" for k t
    using Cons.prems(1) [of "Suc k" t] that by simp
  then have IH: "walk d (map Name ns) (p @ [n]) seen = (p @ [n]) @ ns" using Cons by simp
  have "entry d (p @ [n]) \<noteq> Some (Link t)" for t using Cons.prems(1) [of 1 t] by simp
  then show ?case using Cons.prems(2) IH
    by (auto simp: proper_name_def Let_def split: option.split node.split)
qed simp

lemma resolve_entry:
  assumes "entry d p = Some x" "\<And>t. x \<noteq> Link t" "list_all proper_name p"
  shows "resolve d p = p"
proof -
  have "entry d ([] @ take k p) \<noteq> Some (Link t)" if "k \<le> length p" for k t
  proof (cases "k = length p")
    case False
    then have "entry d (take k p) = Some Dir" using entry_prefix [of d "take k p" "drop k p"] assms(1) that by simp
    then show ?thesis by simp
  qed (use assms in simp)
  then show ?thesis using walk_names [of p d "[]" "[]"] assms(3) by (simp add: resolve_def)
qed

lemma list_all_butlast: "list_all P xs \<Longrightarrow> list_all P (butlast xs)"
  by (induction xs) auto

lemma walk_proper:
  "\<lbrakk>list_all proper_name p; \<And>l r. map_of seen l = Some (Some r) \<Longrightarrow> list_all proper_name r\<rbrakk> \<Longrightarrow>
     list_all proper_name (walk d rest p seen)"
proof (induction d rest p seen rule: walk.induct)
  case (2 d l rest p seen)
  show ?case unfolding walk.simps(2) by (rule 2(1)) (use 2(2,3) in \<open>auto simp: update_conv split: if_splits\<close>)
next
  case (3 d n rest p seen)
  note prems = 3(9,10)
  have short: "list_all proper_name (butlast p)" using prems(1) by (rule list_all_butlast)
  have q: "list_all proper_name (p @ [n])" if "\<not> (n = [] \<or> n = ''.'')" "n \<noteq> ''..''"
  proof -
    have "proper_name n" using that by (simp add: proper_name_def)
    then show ?thesis using prems(1) by simp
  qed
  have upd: "list_all proper_name r"
    if "map_of (AList.update (p @ [n]) None seen) l = Some (Some r)" for l r
    by (rule prems(2) [of l]) (use that in \<open>simp add: update_conv split: if_splits\<close>)
  have start: "list_all proper_name (if absolute t then [] else p)" for t using prems(1) by simp
  show ?case
  proof (cases "n = [] \<or> n = ''.''")
    case True
    then show ?thesis using 3(1) [OF True prems] by simp
  next
    case n1: False
    show ?thesis
    proof (cases "n = ''..''")
      case True
      then show ?thesis using 3(2) [OF n1 True short prems(2)] n1 by simp
    next
      case n2: False
      note here = q [OF n1 n2]
      have eq: "walk d (Name n # rest) p seen = (let q = p @ [n] in case entry d q of
          Some (Link t) \<Rightarrow>
            (case map_of seen q of
               Some (Some r) \<Rightarrow> walk d rest r seen
             | Some None \<Rightarrow> walk d rest q seen
             | None \<Rightarrow> walk d (parts_of t @ Resolved q # rest) (if absolute t then [] else p) (AList.update q None seen))
        | _ \<Rightarrow> walk d rest q seen)"
        unfolding walk.simps(3) if_not_P [OF n1] if_not_P [OF n2] ..
      show ?thesis
      proof (cases "entry d (p @ [n])")
        case None
        show ?thesis unfolding eq Let_def None option.case by (rule 3(3) [OF n1 n2 refl None here prems(2)])
      next
        case (Some x)
        show ?thesis
        proof (cases x)
          case (File s)
          show ?thesis unfolding eq Let_def Some option.case node.case File
            by (rule 3(4) [OF n1 n2 refl Some File here prems(2)])
        next
          case Dir
          show ?thesis unfolding eq Let_def Some option.case node.case Dir
            by (rule 3(5) [OF n1 n2 refl Some Dir here prems(2)])
        next
          case (Link t)
          note entry = Some and link = Some [unfolded Link]
          show ?thesis
          proof (cases "map_of seen (p @ [n])")
            case None
            show ?thesis unfolding eq Let_def link option.case node.case None
              by (rule 3(6) [OF n1 n2 refl Some Link None start upd])
          next
            case loop: (Some y)
            show ?thesis
            proof (cases y)
              case None
              show ?thesis unfolding eq Let_def link option.case node.case loop None
                by (rule 3(7) [OF n1 n2 refl Some Link loop None here prems(2)])
            next
              case (Some r)
              note cached = loop [unfolded Some]
              have "list_all proper_name r" by (rule prems(2) [OF cached])
              then show ?thesis unfolding eq Let_def link option.case node.case cached
                by (rule 3(8) [OF n1 n2 refl entry Link loop Some _ prems(2)])
            qed
          qed
        qed
      qed
    qed
  qed
qed simp


lemma realpath_proper: "list_all proper_name (realpath d base rel)"
  unfolding realpath_def by (rule walk_proper) simp_all

lemma resolve_proper: "list_all proper_name (resolve d p)"
  unfolding resolve_def by (rule walk_proper) simp_all

section \<open>What the writes change\<close>

text \<open>Every node has its directories.\<close>

definition wf_disk :: "disk \<Rightarrow> bool" where
  "wf_disk d \<longleftrightarrow> (\<forall>p x. map_of d p = Some x \<longrightarrow> p \<noteq> [] \<longrightarrow> entry d p = Some x)"

lemma entry_map: "entry d p = Some x \<Longrightarrow> p = [] \<or> map_of d p = Some x"
  by (auto simp: entry_def split: if_splits)

lemma proper_prefixes_Nil [simp]: "proper_prefixes [] = []"
  by (simp add: proper_prefixes_def)

lemma entry_dirs: "\<lbrakk>entry d p \<noteq> None; q \<in> set (proper_prefixes p)\<rbrakk> \<Longrightarrow> map_of d q = Some Dir"
  by (auto simp: entry_def list_all_iff split: if_splits)

lemma entry_intro: "\<lbrakk>\<And>q. q \<in> set (proper_prefixes p) \<Longrightarrow> map_of d q = Some Dir; map_of d p = Some x; p \<noteq> []\<rbrakk> \<Longrightarrow> entry d p = Some x"
  by (simp add: entry_def list_all_iff)

lemma prefix_entry: "\<lbrakk>entry d p \<noteq> None; q \<in> set (proper_prefixes p)\<rbrakk> \<Longrightarrow> entry d q = Some Dir"
  using entry_prefix [of d q "drop (length q) p"] by (auto simp: proper_prefixes_def)

text \<open>A change that touches one path only, other than by adding what was not there.\<close>

definition changes_only :: "path \<Rightarrow> disk \<Rightarrow> disk \<Rightarrow> bool" where
  "changes_only w d d' \<longleftrightarrow>
     entry d w \<noteq> Some Dir \<and> (\<forall>q. q \<noteq> w \<longrightarrow> entry d q \<noteq> None \<longrightarrow> q \<noteq> [] \<longrightarrow> map_of d' q = map_of d q)"

lemma changes_entry:
  assumes "changes_only w d d'" "entry d p = Some x" "p \<noteq> w"
  shows "entry d' p = Some x"
proof (cases "p = []")
  case False
  have "map_of d' q = Some Dir" if q: "q \<in> set (proper_prefixes p)" for q
  proof -
    have "entry d q = Some Dir" using prefix_entry [OF _ q] assms(2) by simp
    moreover have "q \<noteq> []" using q by (auto simp: proper_prefixes_def)
    moreover have "map_of d q = Some Dir" using entry_dirs [OF _ q] assms(2) by simp
    ultimately show ?thesis using assms(1) by (auto simp: changes_only_def)
  qed
  moreover have "map_of d' p = Some x" using assms False entry_map [OF assms(2)] by (auto simp: changes_only_def)
  ultimately show ?thesis using False by (intro entry_intro) auto
qed (use assms in \<open>simp add: entry_def\<close>)

lemma write_text_map:
  assumes "write_text d p s = Inr d'"
  shows "map_of d' = (map_of d)(p \<mapsto> File s)" "entry d p = None \<or> is_file d p" "p \<noteq> []" "is_dir d (butlast p)"
proof -
  show "map_of d' = (map_of d)(p \<mapsto> File s)" using assms by (auto simp: write_text_def update_conv' split: if_splits)
  show "entry d p = None \<or> is_file d p" using assms by (auto simp: write_text_def split: if_splits)
  show p: "p \<noteq> []" using assms by (auto simp: write_text_def is_file_def entry_def split: if_splits)
  show "is_dir d (butlast p)"
  proof (cases "is_file d p")
    case True
    then have "entry d (butlast p @ [last p]) \<noteq> None" using p by (auto simp: is_file_def split: option.splits)
    from entry_prefix [OF this] show ?thesis by (simp add: is_dir_def)
  next
    case False
    then show ?thesis using assms by (simp add: write_text_def split: if_splits)
  qed
qed

lemma remove_file_map:
  assumes "remove_file d p = Inr d'"
  shows "map_of d' = (map_of d)(p := None)" "entry d p \<noteq> None" "entry d p \<noteq> Some Dir"
  using assms by (auto simp: remove_file_def delete_conv' split: option.splits node.splits)

lemma add_dirs_map:
  "q \<noteq> [] \<Longrightarrow>
     map_of (fold (\<lambda>q d. if is_dir d q then d else AList.update q Dir d) qs d) q
       = (if q \<in> set qs then Some Dir else map_of d q)"
proof (induction qs arbitrary: d)
  case (Cons r qs)
  have "map_of d r = Some Dir" if "is_dir d r" "r \<noteq> []" for d
    using that entry_map [of d r Dir] by (auto simp: is_dir_def split: option.splits node.splits)
  then show ?case using Cons by (auto simp: update_conv')
qed simp

lemma make_dirs_map:
  assumes "make_dirs d p = Inr d'" "q \<noteq> []"
  shows "map_of d' q = (if q \<in> set (proper_prefixes p @ [p]) then Some Dir else map_of d q)"
  using assms add_dirs_map [OF assms(2), of "proper_prefixes p @ [p]" d] by (auto simp: make_dirs_def split: option.splits)

lemma make_dirs_free:
  assumes "make_dirs d p = Inr d'" "q \<in> set (proper_prefixes p @ [p])"
  shows "entry d q = None \<or> entry d q = Some Dir"
  using assms by (auto simp: make_dirs_def find_None_iff split: option.splits)


text \<open>What a call does to the disk: it writes or removes one path below the root, after making directories.\<close>

lemma proper_prefixes_snoc: "proper_prefixes (xs @ [x]) = (if xs = [] then [] else proper_prefixes xs @ [xs])"
  by (simp add: proper_prefixes_def Suc_le_eq)

lemma proper_prefixes_iff: "q \<in> set (proper_prefixes p) \<longleftrightarrow> q \<noteq> [] \<and> (\<exists>r. r \<noteq> [] \<and> p = q @ r)"
proof
  assume "q \<in> set (proper_prefixes p)"
  then obtain k where "1 \<le> k" "k < length p" "q = take k p" by (auto simp: proper_prefixes_def)
  then have "q \<noteq> []" "drop k p \<noteq> []" "p = q @ drop k p" by auto
  then show "q \<noteq> [] \<and> (\<exists>r. r \<noteq> [] \<and> p = q @ r)" by blast
next
  assume "q \<noteq> [] \<and> (\<exists>r. r \<noteq> [] \<and> p = q @ r)"
  then obtain r where "q \<noteq> []" "r \<noteq> []" "p = q @ r" by blast
  then show "q \<in> set (proper_prefixes p)"
    by (auto simp: proper_prefixes_def intro!: rev_image_eqI [of "length q"] simp: Suc_le_eq)
qed

lemma prefixes_butlast:
  assumes "p \<noteq> []" "q \<noteq> []"
  shows "q \<in> set (proper_prefixes (butlast p) @ [butlast p]) \<longleftrightarrow> q \<in> set (proper_prefixes p)"
proof -
  have "proper_prefixes (butlast p @ [last p]) = (if butlast p = [] then [] else proper_prefixes (butlast p) @ [butlast p])"
    by (rule proper_prefixes_snoc)
  then have "proper_prefixes p = (if butlast p = [] then [] else proper_prefixes (butlast p) @ [butlast p])"
    unfolding append_butlast_last_id [OF assms(1)] .
  then show ?thesis using assms(2) by simp
qed

lemma store_changes:
  assumes "make_dirs d (butlast p) = Inr d1" "write_text d1 p s = Inr d2"
  shows "changes_only p d d2" "map_of d2 p = Some (File s)"
    "q \<noteq> [] \<Longrightarrow> q \<noteq> p \<Longrightarrow> map_of d2 q = (if q \<in> set (proper_prefixes p) then Some Dir else map_of d q)"
    "q \<in> set (proper_prefixes p) \<Longrightarrow> entry d q = None \<or> entry d q = Some Dir" "p \<noteq> []"
proof -
  note w = write_text_map [OF assms(2)] and m = make_dirs_map [OF assms(1)] and free = make_dirs_free [OF assms(1)]
  show "p \<noteq> []" by (rule w(3))
  have m': "map_of d1 q = (if q \<in> set (proper_prefixes p) then Some Dir else map_of d q)" if "q \<noteq> []" for q
    using m [OF that] prefixes_butlast [OF w(3) that] by simp
  show map: "map_of d2 q = (if q \<in> set (proper_prefixes p) then Some Dir else map_of d q)" if "q \<noteq> []" "q \<noteq> p" for q
    using that m' [OF that(1)] by (simp add: w(1))
  show "map_of d2 p = Some (File s)" by (simp add: w(1))
  have notin: "p \<notin> set (proper_prefixes p)" by (auto simp: proper_prefixes_iff)
  have free': "entry d q = None \<or> entry d q = Some Dir" if "q \<in> set (proper_prefixes p)" for q
    using free [of q] prefixes_butlast [OF w(3), of q] that by (auto simp: proper_prefixes_iff)
  then show "q \<in> set (proper_prefixes p) \<Longrightarrow> entry d q = None \<or> entry d q = Some Dir" .
  have "entry d p \<noteq> Some Dir"
  proof
    assume "entry d p = Some Dir"
    then have "map_of d1 p = Some Dir" using entry_map w(3) m' [OF w(3)] notin by auto
    then have "entry d1 p = Some Dir"
      by (intro entry_intro) (use m' w(3) in \<open>auto simp: proper_prefixes_iff\<close>)
    then show False using w(2) by (auto simp: is_file_def)
  qed
  moreover have "map_of d2 q = map_of d q" if "q \<noteq> p" "entry d q \<noteq> None" "q \<noteq> []" for q
  proof (cases "q \<in> set (proper_prefixes p)")
    case True
    then have "entry d q = Some Dir" using free' [OF True] that(2) by simp
    then show ?thesis using map [OF that(3,1)] True entry_map [of d q Dir] that(3) by simp
  next
    case False
    then show ?thesis using map [OF that(3,1)] by simp
  qed
  ultimately show "changes_only p d d2" by (simp add: changes_only_def)
qed

lemma write_changes:
  assumes "write_text d p s = Inr d2"
  shows "changes_only p d d2" "map_of d2 = (map_of d)(p \<mapsto> File s)"
  using write_text_map [OF assms] by (auto simp: changes_only_def is_file_def)

lemma remove_changes:
  assumes "remove_file d p = Inr d2"
  shows "changes_only p d d2" "map_of d2 = (map_of d)(p := None)"
  using remove_file_map [OF assms] by (auto simp: changes_only_def)


section \<open>The tools as a transition system\<close>

text \<open>What a call of a tool does to the disk and to what the tools know, step by step.\<close>

inductive tool_step :: "tool_env \<Rightarrow> disk \<times> file_tools \<Rightarrow> disk \<times> file_tools \<Rightarrow> bool" for env where
  notes_taken: "\<lbrakk>ft_root ft' = ft_root ft; ft_extra ft' = ft_extra ft; ft_cache ft' = ft_cache ft\<rbrakk> \<Longrightarrow>
     tool_step env (d, ft) (d, ft')"
| content_read: "\<lbrakk>list_all proper_name q; read_cached env q d ft = (r, ft')\<rbrakk> \<Longrightarrow> tool_step env (d, ft) (d, ft')"
| dirs_made: "\<lbrakk>safe_path ft d rel = Safe q; make_dirs d (butlast q) = Inr d'\<rbrakk> \<Longrightarrow> tool_step env (d, ft) (d', ft)"
| file_stored: "\<lbrakk>safe_path ft d rel = Safe q; make_dirs d (butlast q) = Inr d1; write_text d1 q s = Inr d'\<rbrakk> \<Longrightarrow>
     tool_step env (d, ft) (d', forget (resolve d' q) ft)"
| file_edited: "\<lbrakk>safe_path ft d rel = Safe q; write_text d q s = Inr d'\<rbrakk> \<Longrightarrow>
     tool_step env (d, ft) (d', forget (resolve d' q) ft)"
| file_removed: "\<lbrakk>safe_path ft d rel = Safe q; remove_file d q = Inr d'\<rbrakk> \<Longrightarrow>
     tool_step env (d, ft) (d', forget (resolve d' q) ft)"

abbreviation tool_steps :: "tool_env \<Rightarrow> disk \<times> file_tools \<Rightarrow> disk \<times> file_tools \<Rightarrow> bool" where
  "tool_steps env \<equiv> (tool_step env)\<^sup>*\<^sup>*"

datatype file_call =
    ReadCall "string option list" offset_arg limit_arg
  | WriteCall "string option list" "string option"
  | EditCall "string option list" "string option" "string option" int bool
  | DeleteCall string
  | ListCall string

fun run_call ::
    "tool_env \<Rightarrow> file_call \<Rightarrow> message list option \<times> disk \<times> file_tools \<Rightarrow>
     tool_out \<times> message list option \<times> disk \<times> file_tools" where
  "run_call env (ReadCall names offset lmt) (ctx, d, ft) =
     (let (out, ctx', ft') = read_file env names offset lmt ctx d ft in (out, ctx', d, ft'))"
| "run_call env (WriteCall names content) (ctx, d, ft) =
     (let (out, d', ft') = write_file env names content d ft in (out, ctx, d', ft'))"
| "run_call env (EditCall names old new n every) (ctx, d, ft) =
     (let (out, d', ft') = edit_file env names old new n every d ft in (out, ctx, d', ft'))"
| "run_call env (DeleteCall p) (ctx, d, ft) = (let (out, d', ft') = delete_file p d ft in (out, ctx, d', ft'))"
| "run_call env (ListCall p) (ctx, d, ft) = (list_dir p d ft, ctx, d, ft)"

fun run_calls ::
    "tool_env \<Rightarrow> file_call list \<Rightarrow> message list option \<times> disk \<times> file_tools \<Rightarrow> message list option \<times> disk \<times> file_tools"
    where
  "run_calls env [] s = s"
| "run_calls env (c # cs) s = run_calls env cs (snd (run_call env c s))"

lemma safe_proper: "safe_path ft d rel = Safe q \<Longrightarrow> list_all proper_name q"
  using realpath_proper by (auto simp: safe_path_def Let_def split: if_splits)

lemma safe_same: "\<lbrakk>ft_root ft' = ft_root ft; ft_extra ft' = ft_extra ft; ft_abandoned ft' = ft_abandoned ft\<rbrakk> \<Longrightarrow>
   safe_path ft' d rel = safe_path ft d rel"
  by (simp add: safe_path_def)

lemma read_cached_frame:
  assumes "read_cached env q d ft = (r, ft')"
  shows "ft_root ft' = ft_root ft" "ft_extra ft' = ft_extra ft" "ft_abandoned ft' = ft_abandoned ft"
  using assms by (auto simp: read_cached_def Let_def split: option.splits sum.splits)

lemma serve_steps:
  assumes "serve env q msg off lmt ctx d ft = (out, ctx', ft')" "list_all proper_name q"
  shows "tool_steps env (d, ft) (d, ft')"
proof -
  obtain r ft1 where r: "read_cached env q d ft = (r, ft1)" by fastforce
  have one: "tool_step env (d, ft) (d, ft1)" by (rule content_read [OF assms(2) r])
  have "ft' = ft1 \<or> (\<exists>p o' l'. ft' = record_served_read p o' l' ft1)"
    using assms(1) r by (auto simp: serve_def Let_def split: sum.splits if_splits)
  then have "tool_steps env (d, ft1) (d, ft')"
    by (auto simp: record_served_read_def intro!: r_into_rtranclp notes_taken)
  then show ?thesis using one by (rule converse_rtranclp_into_rtranclp [rotated])
qed


lemma read_located_steps:
  assumes r: "read_located env p q msg off lmt ctx d ft = (out, ctx', ft')" and q: "list_all proper_name q"
  shows "tool_steps env (d, ft) (d, ft')"
proof -
  have read: "tool_steps env (d, ft) (d, snd (read_cached env q d ft))"
    by (rule r_into_rtranclp [of "tool_step env"], rule content_read [OF q]) (rule prod.collapse [symmetric])
  have serves: "tool_steps env (d, ft) (d, snd (snd (serve env q msg off lmt ctx d ft)))"
    using serve_steps [OF _ q, of env msg off lmt ctx d ft] by (metis prod.collapse)
  have "ft' \<in> {ft, snd (read_cached env q d ft), snd (snd (serve env q msg off lmt ctx d ft))}"
    using r by (auto simp: read_located_def Let_def case_prod_beta split: if_splits option.splits)
  with read serves show ?thesis by auto
qed

lemma located_proper:
  "locate_read ft d p = Located q msg \<Longrightarrow> list_all proper_name q"
  by (auto simp: locate_read_def dest: safe_proper split: safe_result.splits if_splits)

lemma find_file_proper:
  assumes "find_file ft d p q msg = Located q' msg'" "list_all proper_name q"
  shows "list_all proper_name q'"
proof (cases "is_file d q")
  case False
  then obtain cand where "src_fallback ft d (is_file d) p = Some (cand, q')"
    using assms(1) by (auto simp: find_file_def split: if_splits option.splits)
  then have "(cand, q') \<in> set (List.map_filter (\<lambda>c. case safe_path ft d c of Safe q \<Rightarrow> Some (c, q) | _ \<Rightarrow> None)
      (tl (src_path_candidates p)))"
    unfolding src_fallback_def by (metis (no_types, lifting) find_Some_iff nth_mem)
  then show ?thesis by (auto simp: map_filter_def dest: safe_proper split: safe_result.splits)
qed (use assms in \<open>simp add: find_file_def\<close>)

lemma read_file_steps:
  assumes "read_file env names offset lmt ctx d ft = (out, ctx', ft')"
  shows "tool_steps env (d, ft) (d, ft')"
proof -
  obtain e ft1 where c: "check_read_cap ft = (e, ft1)" by fastforce
  have ft1: "ft_root ft1 = ft_root ft" "ft_extra ft1 = ft_extra ft" "ft_cache ft1 = ft_cache ft"
    using c by (auto simp: check_read_cap_def split: option.splits if_splits)
  have one: "tool_steps env (d, ft) (d, ft1)" by (intro r_into_rtranclp notes_taken ft1)
  have "ft' = ft1 \<or> (\<exists>p q msg off l. list_all proper_name q \<and> read_located env p q msg off l ctx d ft1 = (out, ctx', ft'))"
  proof (cases "\<exists>given l off l2 q msg q' msg'. e = None \<and> find truthy names = Some given
      \<and> coerce_read_limit lmt = Inr l \<and> coerce_read_offset offset l = Inr (off, l2)
      \<and> locate_read ft1 d (the given) = Located q msg \<and> find_file ft1 d (the given) q msg = Located q' msg'")
    case True
    then obtain given l off l2 q msg q' msg' where g: "e = None" "find truthy names = Some given"
      "coerce_read_limit lmt = Inr l" "coerce_read_offset offset l = Inr (off, l2)"
      "locate_read ft1 d (the given) = Located q msg" "find_file ft1 d (the given) q msg = Located q' msg'" by blast
    then have "read_located env (the given) q' msg' off l2 ctx d ft1 = (out, ctx', ft')"
      using assms c by (simp add: read_file_def)
    then show ?thesis using find_file_proper [OF g(6) located_proper [OF g(5)]] by blast
  next
    case False
    then have "ft' = ft1" using assms c
      by (auto simp: read_file_def split: option.splits sum.splits located.splits)
    then show ?thesis ..
  qed
  with one read_located_steps show ?thesis by (metis rtranclp_trans)
qed

lemma write_file_steps:
  assumes "write_file env names content d ft = (out, d', ft')"
  shows "tool_steps env (d, ft) (d', ft')"
proof (cases "\<exists>p s q. find truthy names = Some (Some p) \<and> content = Some s \<and> check_write_allowed ft p = None
    \<and> check_python_syntax env ft p s = None \<and> periodic_errors env p s = [] \<and> safe_path ft d p = Safe q")
  case False
  have "d' = d \<and> ft' = ft"
  proof (rule ccontr)
    assume other: "\<not> (d' = d \<and> ft' = ft)"
    obtain p where p: "find truthy names = Some (Some p)"
      using assms other by (auto simp: write_file_def split: option.splits)
    obtain s where s: "content = Some s" using assms other p by (cases content) (auto simp: write_file_def)
    have w: "check_write_allowed ft p = None"
      using assms other p s by (cases "check_write_allowed ft p") (auto simp: write_file_def)
    have y: "check_python_syntax env ft p s = None"
      using assms other p s w by (cases "check_python_syntax env ft p s") (auto simp: write_file_def)
    have e: "periodic_errors env p s = []"
      using assms other p s w y by (cases "periodic_errors env p s") (auto simp: write_file_def)
    obtain q where "safe_path ft d p = Safe q"
      using assms other p s w y e by (cases "safe_path ft d p") (auto simp: write_file_def)
    with False p s w y e show False by blast
  qed
  then show ?thesis by simp
next
  case True
  then obtain p s q where g: "find truthy names = Some (Some p)" "content = Some s" "check_write_allowed ft p = None"
    "check_python_syntax env ft p s = None" "periodic_errors env p s = []" and safe: "safe_path ft d p = Safe q" by blast
  show ?thesis
  proof (cases "make_dirs d (butlast q)")
    case (Inl e)
    then have "d' = d \<and> ft' = ft" using assms g safe by (simp add: write_file_def)
    then show ?thesis by simp
  next
    case (Inr d1)
    have "d' = d1 \<and> ft' = ft \<or> (write_text d1 q s = Inr d' \<and> ft' = forget (resolve d' q) ft)"
      using assms g safe Inr by (cases "write_text d1 q s") (simp_all add: write_file_def store_text_def)
    then show ?thesis using dirs_made [OF safe Inr] file_stored [OF safe Inr] by auto
  qed
qed

lemma edit_file_steps:
  assumes "edit_file env names old new n every d ft = (out, d', ft')"
  shows "tool_steps env (d, ft) (d', ft')"
proof (cases "\<exists>p o' n' q. find truthy names = Some (Some p) \<and> old = Some o' \<and> new = Some n'
    \<and> check_write_allowed ft p = None \<and> safe_path ft d p = Safe q")
  case False
  then have "d' = d \<and> ft' = ft"
    using assms by (auto simp: edit_file_def split: option.splits safe_result.splits)
  then show ?thesis by simp
next
  case True
  then obtain p o' n' q where g: "find truthy names = Some (Some p)" "old = Some o'" "new = Some n'"
    "check_write_allowed ft p = None" "safe_path ft d p = Safe q" by blast
  obtain r ft1 where r: "read_cached env q d ft = (r, ft1)" by fastforce
  have one: "tool_step env (d, ft) (d, ft1)" by (rule content_read [OF safe_proper [OF g(5)] r])
  have safe1: "safe_path ft1 d p = Safe q" using g(5) safe_same [OF read_cached_frame [OF r]] by simp
  have "d' = d \<and> ft' = ft1 \<or> (\<exists>s. write_text d q s = Inr d' \<and> ft' = forget (resolve d' q) ft1)"
    using assms g r by (auto simp: edit_file_def store_text_def split: option.splits sum.splits)
  then have "tool_steps env (d, ft1) (d', ft')" using file_edited [OF safe1] by auto
  then show ?thesis using one by (rule converse_rtranclp_into_rtranclp [rotated])
qed

lemma delete_file_steps:
  assumes "delete_file p d ft = (out, d', ft')"
  shows "tool_steps env (d, ft) (d', ft')"
  using assms
  by (auto simp: delete_file_def split: option.splits safe_result.splits sum.splits intro: r_into_rtranclp file_removed)

lemma call_steps:
  assumes "run_call env c (ctx, d, ft) = (out, ctx', d', ft')"
  shows "tool_steps env (d, ft) (d', ft')"
  using assms read_file_steps write_file_steps edit_file_steps delete_file_steps
  by (cases c) (auto simp: case_prod_beta prod_eq_iff)

lemma calls_steps: "run_calls env cs (ctx, d, ft) = (ctx', d', ft') \<Longrightarrow> tool_steps env (d, ft) (d', ft')"
proof (induction cs arbitrary: ctx d ft)
  case (Cons c cs)
  obtain out ctx1 d1 ft1 where c: "run_call env c (ctx, d, ft) = (out, ctx1, d1, ft1)" by (metis prod.collapse)
  have "tool_steps env (d1, ft1) (d', ft')" using Cons c by simp
  with call_steps [OF c] show ?case by (rule rtranclp_trans)
qed simp


section \<open>Confinement\<close>

text \<open>The directories a run may work in.\<close>

abbreviation allowed :: "file_tools \<Rightarrow> path list" where
  "allowed ft \<equiv> ft_root ft # ft_extra ft"

definition rooted :: "disk \<Rightarrow> path list \<Rightarrow> bool" where
  "rooted d rs \<longleftrightarrow> list_all (\<lambda>r. list_all proper_name r \<and> entry d r = Some Dir) rs"

abbreviation outside :: "path list \<Rightarrow> path \<Rightarrow> bool" where
  "outside rs q \<equiv> \<not> list_ex (\<lambda>r. below r q) rs"

lemma rootedD: "\<lbrakk>rooted d rs; r \<in> set rs\<rbrakk> \<Longrightarrow> entry d r = Some Dir \<and> list_all proper_name r"
  by (auto simp: rooted_def list_all_iff)

lemma safe_below:
  assumes "safe_path ft d rel = Safe q" "rooted d (allowed ft)"
  shows "\<exists>r \<in> set (allowed ft). below r q"
proof -
  have same: "resolve d r = r" if "r \<in> set (allowed ft)" for r
    using resolve_entry [of d r Dir] rootedD [OF assms(2) that] by simp
  show ?thesis using assms(1) same
    by (auto simp: safe_path_def Let_def list_ex_iff split: if_splits)
qed

lemma below_append: "below r q \<Longrightarrow> below r (q @ s)"
proof -
  assume "below r q"
  then obtain t where "q = r @ t" by (metis append_take_drop_id below_def)
  then show ?thesis by (simp add: below_def)
qed

lemma below_prefix:
  assumes "below r (q @ s)" "\<not> below r q"
  shows "q = [] \<or> q \<in> set (proper_prefixes r)"
proof -
  have "length q < length r"
  proof (rule ccontr)
    assume "\<not> length q < length r"
    then have "take (length r) (q @ s) = take (length r) q" by simp
    with assms show False by (simp add: below_def)
  qed
  moreover have "take (length r) (q @ s) = r" using assms(1) by (simp add: below_def)
  moreover define t where "t = take (length r - length q) s"
  ultimately have r: "r = q @ t" by simp
  with \<open>length q < length r\<close> have "t \<noteq> []" by auto
  with r show ?thesis unfolding proper_prefixes_iff by blast
qed

lemma outside_Dir:
  assumes "rooted d rs" "r \<in> set rs" "below r p" "q \<in> set (proper_prefixes p)" "outside rs q"
  shows "map_of d q = Some Dir"
proof -
  obtain s where p: "p = q @ s" "q \<noteq> []" using assms(4) by (auto simp: proper_prefixes_iff)
  have "\<not> below r q" using assms(2,5) by (auto simp: list_ex_iff)
  then have "q \<in> set (proper_prefixes r)" using below_prefix [of r q s] assms(3) p by simp
  with rootedD [OF assms(1,2)] show ?thesis by (intro entry_dirs) auto
qed

definition same_outside :: "path list \<Rightarrow> disk \<Rightarrow> disk \<Rightarrow> bool" where
  "same_outside rs d d' \<longleftrightarrow> (\<forall>q. q \<noteq> [] \<longrightarrow> outside rs q \<longrightarrow> map_of d' q = map_of d q)"

lemma same_outside_entry:
  assumes "same_outside rs d d'" "outside rs q"
  shows "entry d' q = entry d q"
proof (cases "q = []")
  case False
  have "outside rs t" if "t \<in> set (proper_prefixes q)" for t
    using that assms(2) below_append by (fastforce simp: proper_prefixes_iff list_ex_iff)
  then have "map_of d' t = map_of d t" if "t \<in> set (proper_prefixes q)" for t
    using that assms(1) by (auto simp: same_outside_def proper_prefixes_iff)
  then have "list_all (\<lambda>t. map_of d' t = Some Dir) (proper_prefixes q) = list_all (\<lambda>t. map_of d t = Some Dir) (proper_prefixes q)"
    by (simp add: list_all_iff)
  moreover have "map_of d' q = map_of d q" using assms False by (simp add: same_outside_def)
  ultimately show ?thesis by (simp add: entry_def)
qed (simp add: entry_def)

lemma make_dirs_confined:
  assumes "make_dirs d (butlast q) = Inr d'" "rooted d rs" "r \<in> set rs" "below r q" "q \<noteq> []"
  shows "same_outside rs d d'" "\<And>p. entry d p = Some Dir \<Longrightarrow> entry d' p = Some Dir"
proof -
  have map: "map_of d' t = (if t \<in> set (proper_prefixes q) then Some Dir else map_of d t)" if "t \<noteq> []" for t
    using make_dirs_map [OF assms(1) that] prefixes_butlast [OF assms(5) that] by simp
  then show "same_outside rs d d'" using outside_Dir [OF assms(2-4)] by (auto simp: same_outside_def)
  show "entry d' p = Some Dir" if "entry d p = Some Dir" for p
  proof (cases "p = []")
    case False
    have "map_of d' t = Some Dir" if "t \<noteq> []" "map_of d t = Some Dir" for t using map that by auto
    then show ?thesis using False that entry_map [OF that] entry_dirs [of d p]
      by (intro entry_intro) (auto simp: proper_prefixes_iff)
  qed (simp add: entry_def)
qed

lemma changes_confined:
  assumes "changes_only p d d'" "rooted d rs" "r \<in> set rs" "below r p"
    "\<And>q. \<lbrakk>q \<noteq> []; q \<noteq> p\<rbrakk> \<Longrightarrow> map_of d' q = (if q \<in> set (proper_prefixes p) then Some Dir else map_of d q)
      \<or> map_of d' q = map_of d q"
  shows "same_outside rs d d'" "rooted d' rs"
proof -
  have "map_of d' q = map_of d q" if q: "q \<noteq> []" "outside rs q" for q
  proof -
    have "q \<noteq> p" using that(2) assms(3,4) by (auto simp: list_ex_iff)
    with assms(5) [OF q(1)] outside_Dir [OF assms(2-4)] q(2) show ?thesis by (metis (full_types))
  qed
  then show "same_outside rs d d'" by (simp add: same_outside_def)
  have "entry d p \<noteq> Some Dir" using assms(1) by (simp add: changes_only_def)
  then show "rooted d' rs" using changes_entry [OF assms(1)] assms(2) by (auto simp: rooted_def list_all_iff)
qed

lemma step_confined:
  assumes "tool_step env (d, ft) (d', ft')" "rooted d (allowed ft)"
  shows "same_outside (allowed ft) d d' \<and> rooted d' (allowed ft) \<and> allowed ft' = allowed ft"
  using assms(1)
proof cases
  case notes_taken
  then show ?thesis using assms(2) by (simp add: same_outside_def)
next
  case (content_read q r)
  then show ?thesis using assms(2) read_cached_frame [OF content_read(3)] by (simp add: same_outside_def)
next
  case (dirs_made rel q)
  obtain r where r: "r \<in> set (allowed ft)" "below r q" using safe_below [OF dirs_made(2) assms(2)] by blast
  show ?thesis
  proof (cases "q = []")
    case True
    then have "d' = d" using dirs_made(3) by (simp add: make_dirs_def is_dir_def entry_def)
    then show ?thesis using assms(2) dirs_made(1) by (simp add: same_outside_def)
  next
    case False
    note m = make_dirs_confined [OF dirs_made(3) assms(2) r False]
    then show ?thesis using assms(2) dirs_made(1) by (auto simp: rooted_def list_all_iff)
  qed
next
  case (file_stored rel q d1 s)
  obtain r where r: "r \<in> set (allowed ft)" "below r q" using safe_below [OF file_stored(2) assms(2)] by blast
  note c = store_changes(1,3) [OF file_stored(3,4)]
  have "same_outside (allowed ft) d d'" "rooted d' (allowed ft)"
    using changes_confined [OF c(1) assms(2) r] c(2) by auto
  then show ?thesis using file_stored(1) by (simp add: forget_def)
next
  case (file_edited rel q s)
  obtain r where r: "r \<in> set (allowed ft)" "below r q" using safe_below [OF file_edited(2) assms(2)] by blast
  note c = write_changes [OF file_edited(3)]
  have "same_outside (allowed ft) d d'" "rooted d' (allowed ft)"
    using changes_confined [OF c(1) assms(2) r] c(2) by auto
  then show ?thesis using file_edited(1) by (simp add: forget_def)
next
  case (file_removed rel q)
  obtain r where r: "r \<in> set (allowed ft)" "below r q" using safe_below [OF file_removed(2) assms(2)] by blast
  note c = remove_changes [OF file_removed(3)]
  have "same_outside (allowed ft) d d'" "rooted d' (allowed ft)"
    using changes_confined [OF c(1) assms(2) r] c(2) by auto
  then show ?thesis using file_removed(1) by (simp add: forget_def)
qed

lemma steps_confined:
  assumes "tool_steps env (d, ft) (d', ft')" "rooted d (allowed ft)"
  shows "same_outside (allowed ft) d d' \<and> rooted d' (allowed ft) \<and> allowed ft' = allowed ft"
  using assms(1)
proof (induction rule: rtranclp_induct2)
  case refl
  then show ?case using assms(2) by (simp add: same_outside_def)
next
  case (step d1 ft1 d2 ft2)
  then have one: "same_outside (allowed ft1) d1 d2 \<and> rooted d2 (allowed ft1) \<and> allowed ft2 = allowed ft1"
    by (intro step_confined) auto
  with step.IH show ?case by (auto simp: same_outside_def)
qed

text \<open>
  C20: Whatever sequence of reads, writes, edits, deletions and listings an agent asks for, with whatever
  paths - absolute ones, ones with parent directories or through symbolic links in the checkout - nothing
  outside of the checkout and of the extra roots of the run changes: a path there is found as it was, or
  is still missing. The roots must be directories given by their resolved paths.
\<close>

theorem writes_confined:
  assumes "rooted d (allowed ft)" "run_calls env calls (ctx, d, ft) = (ctx', d', ft')" "outside (allowed ft) q"
  shows "entry d' q = entry d q"
  using steps_confined [OF calls_steps [OF assms(2)] assms(1)] assms(3) by (blast intro: same_outside_entry)

definition bench_disk :: disk where
  "bench_disk =
     [([''w''], Dir), ([''w'', ''r''], Dir), ([''w'', ''r'', ''up''], Link ''../..''), ([''etc''], Dir),
      ([''etc'', ''p''], File ''secret''), ([''w'', ''r'', ''a''], File ''one'')]"

definition bench_tools :: file_tools where
  "bench_tools =
     \<lparr>ft_root = [''w'', ''r''], ft_extra = [], ft_cap = None, ft_blocked = [], ft_explored = None, ft_cache = [],
      ft_reads = 0, ft_served = [], ft_history = [], ft_lint = False, ft_max_chars = 0, ft_abandoned = False\<rparr>"

definition bench_env :: tool_env where
  "bench_env = \<lparr>syntax_error = \<lambda>p s. None, pdf_text = \<lambda>p n. [], load_periodic = \<lambda>s. None\<rparr>"

definition bench_calls :: "file_call list" where
  "bench_calls =
     [WriteCall [Some ''b''] (Some ''x''), ReadCall [Some ''a''] (OffsetInt 1) NoLimit,
      WriteCall [Some ''up/etc/p''] (Some ''x''), EditCall [Some ''a''] (Some ''one'') (Some ''two'') 1 False,
      DeleteCall ''/etc/p'']"

lemma writes_confined_witness:
  "\<exists>ctx' d' ft'. run_calls bench_env bench_calls (None, bench_disk, bench_tools) = (ctx', d', ft')
     \<and> entry d' [''etc'', ''p''] = entry bench_disk [''etc'', ''p'']
     \<and> entry d' [''w'', ''r'', ''a''] = Some (File ''two'')"
proof -
  obtain ctx' d' ft' where r: "run_calls bench_env bench_calls (None, bench_disk, bench_tools) = (ctx', d', ft')"
    by (rule prod_cases3)
  have "entry d' [''etc'', ''p''] = entry bench_disk [''etc'', ''p'']"
    by (rule writes_confined [OF _ r]) code_simp+
  moreover have "entry (fst (snd (run_calls bench_env bench_calls (None, bench_disk, bench_tools)))) [''w'', ''r'', ''a'']
      = Some (File ''two'')" by code_simp
  ultimately show ?thesis using r by simp
qed

section \<open>What the tools know is what is there\<close>

definition plain :: "disk \<Rightarrow> bool" where
  "plain d \<longleftrightarrow> (\<forall>p t. map_of d p \<noteq> Some (Link t))"

text \<open>A text that is remembered for a file is the text of the file.\<close>

definition known :: "tool_env \<Rightarrow> disk \<Rightarrow> file_tools \<Rightarrow> bool" where
  "known env d ft \<longleftrightarrow>
     (\<forall>p s. map_of (ft_cache ft) p = Some s \<longrightarrow> is_file d p \<longrightarrow> read_fresh env p d = Inr s)"

definition coherent :: "tool_env \<Rightarrow> disk \<Rightarrow> file_tools \<Rightarrow> bool" where
  "coherent env d ft \<longleftrightarrow> wf_disk d \<and> plain d \<and> known env d ft"

lemma plain_resolve: "\<lbrakk>plain d; list_all proper_name q\<rbrakk> \<Longrightarrow> resolve d q = q"
proof -
  assume d: "plain d" and q: "list_all proper_name q"
  have "entry d p \<noteq> Some (Link t)" for p t using d entry_map [of d p "Link t"] by (cases "p = []") (auto simp: plain_def entry_def)
  then show ?thesis using walk_names [OF _ q, of d "[]" "[]"] by (simp add: resolve_def)
qed

lemma is_file_iff: "is_file d p \<longleftrightarrow> (\<exists>s. entry d p = Some (File s))"
  by (auto simp: is_file_def split: option.splits node.splits)

lemma fresh_file: "entry d' p = entry d p \<Longrightarrow> is_file d p \<Longrightarrow> read_fresh env p d' = read_fresh env p d"
  by (auto simp: read_fresh_def read_text_def is_file_iff)

lemma prefixes_trans: "\<lbrakk>t \<in> set (proper_prefixes q); q \<in> set (proper_prefixes p)\<rbrakk> \<Longrightarrow> t \<in> set (proper_prefixes p)"
  unfolding proper_prefixes_iff by (metis append.assoc append_is_Nil_conv)

lemma change_coherent:
  assumes "coherent env d ft" "changes_only q d d'" "map_of d' q \<noteq> Some Dir" "\<And>t. map_of d' q \<noteq> Some (Link t)"
    "\<And>t. \<lbrakk>t \<noteq> []; t \<noteq> q\<rbrakk> \<Longrightarrow> map_of d' t = map_of d t \<or> (t \<in> set (proper_prefixes q) \<and> map_of d' t = Some Dir)"
    "\<And>t. \<lbrakk>map_of d' q \<noteq> None; t \<in> set (proper_prefixes q)\<rbrakk> \<Longrightarrow> map_of d' t = Some Dir"
    "\<And>t. \<lbrakk>map_of d' q = None; t \<noteq> []; t \<noteq> q\<rbrakk> \<Longrightarrow> map_of d' t = map_of d t" "map_of d' [] = map_of d [] \<or> q = []"
  shows "coherent env d' (forget q ft)"
proof -
  have wf: "wf_disk d" and pl: "plain d" and kn: "known env d ft" using assms(1) by (auto simp: coherent_def)
  have old: "entry d p = Some x" if "map_of d p = Some x" "p \<noteq> []" for p x using wf that by (auto simp: wf_disk_def)
  have "entry d' p = Some x" if x: "map_of d' p = Some x" "p \<noteq> []" for p x
  proof (cases "p = q")
    case True
    then show ?thesis using x assms(6) by (intro entry_intro) auto
  next
    case False
    show ?thesis
    proof (cases "map_of d' p = map_of d p")
      case True
      then have "map_of d p = Some x" using x(1) by simp
      from changes_entry [OF assms(2) old [OF this x(2)] False] show ?thesis .
    next
      case False
      from assms(5) [OF x(2) \<open>p \<noteq> q\<close>] False have p: "p \<in> set (proper_prefixes q)" by simp
      have live: "map_of d' q \<noteq> None" using assms(7) [OF _ x(2) \<open>p \<noteq> q\<close>] False by metis
      have "map_of d' t = Some Dir" if "t \<in> set (proper_prefixes p)" for t
        using prefixes_trans [OF that p] by (rule assms(6) [OF live])
      then show ?thesis using x by (intro entry_intro) auto
    qed
  qed
  then have "wf_disk d'" by (simp add: wf_disk_def)
  moreover have "map_of d' p \<noteq> Some (Link t)" for p t
    using assms(4) assms(5) [of p] assms(8) pl by (cases "p = q"; cases "p = []") (auto simp: plain_def)
  then have "plain d'" by (simp add: plain_def)
  moreover have "read_fresh env p d' = Inr s"
    if c: "map_of (ft_cache (forget q ft)) p = Some s" and f: "is_file d' p" for p s
  proof -
    have p: "p \<noteq> q" "map_of (ft_cache ft) p = Some s" using c by (auto simp: forget_def delete_conv' split: if_splits)
    obtain x where x: "entry d' p = Some (File x)" using f by (auto simp: is_file_iff)
    have ne: "p \<noteq> []" using x by (auto simp: entry_def)
    then have "map_of d' p = Some (File x)" using entry_map [OF x] by simp
    with assms(5) [OF ne p(1)] have "map_of d p = Some (File x)" by simp
    then have "entry d p = Some (File x)" using old ne by simp
    then show ?thesis using kn p(2) x fresh_file [of d' p d env] by (auto simp: known_def is_file_iff)
  qed
  then have "known env d' (forget q ft)" by (simp add: known_def)
  ultimately show ?thesis by (simp add: coherent_def)
qed

lemma make_dirs_coherent:
  assumes "make_dirs d p = Inr d'" "coherent env d ft"
  shows "coherent env d' ft"
proof -
  let ?S = "set (proper_prefixes p @ [p])"
  have wf: "wf_disk d" and pl: "plain d" and kn: "known env d ft" using assms(2) by (auto simp: coherent_def)
  note map = make_dirs_map [OF assms(1)]
  have up: "t \<in> ?S" if "q \<in> ?S" "t \<in> set (proper_prefixes q)" for q t
    using that prefixes_trans [of t q p] by auto
  have dirs: "map_of d' t = Some Dir" if "map_of d t = Some Dir" "t \<noteq> []" for t using map that by simp
  have "entry d' q = Some x" if x: "map_of d' q = Some x" "q \<noteq> []" for q x
  proof (rule entry_intro [OF _ x])
    fix t assume t: "t \<in> set (proper_prefixes q)"
    then have ne: "t \<noteq> []" by (simp add: proper_prefixes_iff)
    show "map_of d' t = Some Dir"
    proof (cases "q \<in> ?S")
      case True
      from map [OF ne] up [OF True t] show ?thesis by simp
    next
      case False
      then have "map_of d q = Some x" using map [OF x(2)] x(1) by simp
      then have "entry d q = Some x" using wf x(2) by (simp add: wf_disk_def)
      then show ?thesis using entry_dirs [OF _ t] dirs [OF _ ne] by simp
    qed
  qed
  then have wf': "wf_disk d'" by (simp add: wf_disk_def)
  have nil: "map_of d' [] = map_of d []"
  proof -
    have "map_of (fold (\<lambda>q d. if is_dir d q then d else AList.update q Dir d) qs d) [] = map_of d []" for qs d
      by (induction qs arbitrary: d) (auto simp: update_conv' is_dir_def entry_def)
    moreover have "d' = fold (\<lambda>q d. if is_dir d q then d else AList.update q Dir d) (proper_prefixes p @ [p]) d"
      using assms(1) unfolding make_dirs_def by (cases "find (\<lambda>q. entry d q \<noteq> Some Dir \<and> entry d q \<noteq> None) (proper_prefixes p @ [p])") simp_all
    ultimately show ?thesis by (simp only:)
  qed
  have "map_of d' q \<noteq> Some (Link t)" for q t
    using map [of q] nil pl by (cases "q = []") (auto simp: plain_def)
  then have pl': "plain d'" by (simp add: plain_def)
  have "read_fresh env q d' = Inr s" if c: "map_of (ft_cache ft) q = Some s" and f: "is_file d' q" for q s
  proof -
    obtain x where x: "entry d' q = Some (File x)" using f by (auto simp: is_file_iff)
    have ne: "q \<noteq> []" using x by (auto simp: entry_def)
    then have "map_of d q = Some (File x)" using entry_map [OF x] map [OF ne] by (auto split: if_splits)
    then have "entry d q = Some (File x)" using wf ne by (simp add: wf_disk_def)
    then show ?thesis using kn c x fresh_file [of d' q d env] by (auto simp: known_def is_file_iff)
  qed
  then show ?thesis using wf' pl' by (simp add: coherent_def known_def)
qed

lemma proper_prefix_self [simp]: "q \<notin> set (proper_prefixes q)"
  by (auto simp: proper_prefixes_iff)

lemma write_coherent:
  assumes "write_text d q s = Inr d'" "coherent env d ft"
  shows "coherent env d' (forget q ft)"
proof -
  note c = write_changes [OF assms(1)] and w = write_text_map [OF assms(1)]
  have "map_of d' t = Some Dir" if t: "t \<in> set (proper_prefixes q)" for t
  proof -
    have "entry d (butlast q) = Some Dir"
      using w(4) by (auto simp: is_dir_def split: option.splits node.splits)
    moreover have "t \<in> set (proper_prefixes (butlast q) @ [butlast q])" "t \<noteq> []" "t \<noteq> q"
      using t prefixes_butlast [OF w(3), of t] by (auto simp: proper_prefixes_iff)
    ultimately have "map_of d t = Some Dir" using entry_dirs [of d "butlast q" t] entry_map [of d "butlast q" Dir] by auto
    then show ?thesis using \<open>t \<noteq> q\<close> by (simp add: c(2))
  qed
  then show ?thesis using w(3) by (intro change_coherent [OF assms(2) c(1)]) (auto simp: c(2))
qed

lemma remove_coherent:
  assumes "remove_file d q = Inr d'" "coherent env d ft"
  shows "coherent env d' (forget q ft)"
proof -
  note c = remove_changes [OF assms(1)]
  have "q \<noteq> []" using remove_file_map(3) [OF assms(1)] by (auto simp: entry_def)
  then show ?thesis by (intro change_coherent [OF assms(2) c(1)]) (auto simp: c(2))
qed

lemma forget_resolved: "\<lbrakk>coherent env d (forget q ft); list_all proper_name q\<rbrakk> \<Longrightarrow> forget (resolve d q) ft = forget q ft"
  using plain_resolve by (simp add: coherent_def)

lemma read_cached_plain:
  assumes "coherent env d ft" "list_all proper_name q" "is_file d q"
  shows "fst (read_cached env q d ft) = read_fresh env q d"
  using assms plain_resolve [of d q]
  by (auto simp: coherent_def known_def read_cached_def Let_def split: option.splits sum.splits)

lemma step_coherent:
  assumes "tool_step env (d, ft) (d', ft')" "coherent env d ft"
  shows "coherent env d' ft'"
  using assms(1)
proof cases
  case notes_taken
  then show ?thesis using assms(2) by (simp add: coherent_def known_def)
next
  case (content_read q r)
  then have "resolve d q = q" using assms(2) plain_resolve by (simp add: coherent_def)
  then consider "ft_cache ft' = ft_cache ft" | s where "read_fresh env q d = Inr s" "ft_cache ft' = AList.update q s (ft_cache ft)"
  proof (cases "map_of (ft_cache ft) q")
    case None
    note here = content_read(3) [unfolded read_cached_def Let_def \<open>resolve d q = q\<close> None option.case]
    show ?thesis
    proof (cases "read_fresh env q d")
      case (Inl e)
      with here have "ft_cache ft' = ft_cache ft" by simp
      then show ?thesis by (rule that(1))
    next
      case (Inr s)
      with here have "ft_cache ft' = AList.update q s (ft_cache ft)" by auto
      with Inr show ?thesis by (rule that(2))
    qed
  next
    case (Some s)
    with \<open>resolve d q = q\<close> content_read(3) that(1) show ?thesis by (auto simp: read_cached_def)
  qed
  then show ?thesis using assms(2) content_read(1) by cases (auto simp: coherent_def known_def update_conv')
next
  case (dirs_made rel q)
  then show ?thesis using make_dirs_coherent assms(2) by simp
next
  case (file_stored rel q d1 s)
  from write_coherent [OF file_stored(4) make_dirs_coherent [OF file_stored(3) assms(2)]]
  show ?thesis using file_stored(1) forget_resolved safe_proper [OF file_stored(2)] by metis
next
  case (file_edited rel q s)
  from write_coherent [OF file_edited(3) assms(2)]
  show ?thesis using file_edited(1) forget_resolved safe_proper [OF file_edited(2)] by metis
next
  case (file_removed rel q)
  from remove_coherent [OF file_removed(3) assms(2)]
  show ?thesis using file_removed(1) forget_resolved safe_proper [OF file_removed(2)] by metis
qed

lemma steps_coherent: "\<lbrakk>tool_steps env (d, ft) (d', ft'); coherent env d ft\<rbrakk> \<Longrightarrow> coherent env d' ft'"
  by (induction rule: rtranclp_induct2) (auto intro: step_coherent)

text \<open>
  C21: In a checkout without symbolic links the memory of the tools is never stale: after any calls of the
  tools, a file that is read from the memory has the text that a fresh read of the disk would give. Each
  write, edit and deletion drops what is remembered of its file; only a change of the disk by something
  else than these tools can make an entry stale.
\<close>

theorem reads_current:
  assumes "wf_disk d" "plain d" "ft_cache ft = []" "run_calls env calls (ctx, d, ft) = (ctx', d', ft')"
    "is_file d' q" "list_all proper_name q"
  shows "fst (read_cached env q d' ft') = read_fresh env q d'"
proof -
  have "coherent env d ft" using assms(1-3) by (simp add: coherent_def known_def)
  from read_cached_plain [OF steps_coherent [OF calls_steps [OF assms(4)] this] assms(6,5)] show ?thesis .
qed

definition plain_disk :: disk where
  "plain_disk = [([''w''], Dir), ([''w'', ''r''], Dir), ([''w'', ''r'', ''a''], File ''one'')]"

lemma wf_disk_iff: "wf_disk d \<longleftrightarrow> list_all (\<lambda>p. p = [] \<or> entry d p = map_of d p) (map fst d)"
proof -
  have "wf_disk d \<longleftrightarrow> (\<forall>p \<in> fst ` set d. p = [] \<or> entry d p = map_of d p)"
    unfolding wf_disk_def dom_map_of_conv_image_fst [symmetric] by fastforce
  then show ?thesis by (simp add: list_all_iff)
qed

lemma reads_current_witness:
  "\<exists>ctx' d' ft'. run_calls bench_env bench_calls (None, plain_disk, bench_tools) = (ctx', d', ft')
     \<and> fst (read_cached bench_env [''w'', ''r'', ''a''] d' ft') = read_fresh bench_env [''w'', ''r'', ''a''] d'
     \<and> entry d' [''w'', ''r'', ''a''] = Some (File ''two'')"
proof -
  let ?r = "run_calls bench_env bench_calls (None, plain_disk, bench_tools)"
  obtain ctx' d' ft' where r: "?r = (ctx', d', ft')" by (rule prod_cases3)
  have e: "entry (fst (snd ?r)) [''w'', ''r'', ''a''] = Some (File ''two'')" by code_simp
  have "wf_disk plain_disk" unfolding wf_disk_iff by code_simp
  moreover have "plain plain_disk" by (simp add: plain_def plain_disk_def)
  ultimately have "fst (read_cached bench_env [''w'', ''r'', ''a''] d' ft') = read_fresh bench_env [''w'', ''r'', ''a''] d'"
    by (rule reads_current [OF _ _ _ r]) (use e r in \<open>simp_all add: bench_tools_def is_file_iff proper_name_def\<close>)
  then show ?thesis using r e by simp
qed

end
