(* ===== verification/Editing.thy ===== *)
theory Editing
  imports Confinement
begin

text \<open>
  What an agent gets for an edit and for the lines it asks for, and where the tools contradict
  themselves.
\<close>

section \<open>An edit replaces one place\<close>








section \<open>Ranges of lines\<close>

abbreviation in_range :: "int \<Rightarrow> int \<times> int \<Rightarrow> bool" where
  "in_range x r \<equiv> fst r \<le> x \<and> x \<le> snd r"

abbreviation separated :: "(int \<times> int) list \<Rightarrow> bool" where
  "separated \<equiv> sorted_wrt (\<lambda>r s. snd r + 1 < fst s)"

lemma merge_ranges_cover:
  "\<lbrakk>fst cur \<le> snd cur; list_all (\<lambda>r. fst r \<le> snd r) rs; sorted (map fst (cur # rs))\<rbrakk> \<Longrightarrow>
     list_ex (in_range x) (merge_ranges cur rs) \<longleftrightarrow> list_ex (in_range x) (cur # rs)"
proof (induction cur rs rule: merge_ranges.induct)
  case (2 cur r rs)
  show ?case
  proof (cases "fst r \<le> snd cur + 1")
    case True
    from 2(1) [OF True] 2(3-) have "list_ex (in_range x) (merge_ranges (fst cur, max (snd cur) (snd r)) rs)
        \<longleftrightarrow> list_ex (in_range x) ((fst cur, max (snd cur) (snd r)) # rs)" by simp
    moreover have "in_range x (fst cur, max (snd cur) (snd r)) \<longleftrightarrow> in_range x cur \<or> in_range x r"
      using True 2(3-) by auto
    ultimately show ?thesis using True by simp
  next
    case False
    then show ?thesis using 2 by simp
  qed
qed simp

lemma merge_ranges_start: "sorted (map fst (cur # rs)) \<Longrightarrow> r \<in> set (merge_ranges cur rs) \<Longrightarrow> fst cur \<le> fst r"
  by (induction cur rs rule: merge_ranges.induct) (fastforce split: if_splits)+

lemma merge_ranges_separated:
  "\<lbrakk>fst cur \<le> snd cur; list_all (\<lambda>r. fst r \<le> snd r) rs; sorted (map fst (cur # rs))\<rbrakk> \<Longrightarrow>
     separated (merge_ranges cur rs) \<and> list_all (\<lambda>r. fst r \<le> snd r) (merge_ranges cur rs)"
proof (induction cur rs rule: merge_ranges.induct)
  case (2 cur r rs)
  show ?case
  proof (cases "fst r \<le> snd cur + 1")
    case True
    then show ?thesis using 2(1) [OF True] 2(3-) by simp
  next
    case False
    have "fst r \<le> fst t" if "t \<in> set (merge_ranges r rs)" for t
      using merge_ranges_start [OF _ that] 2(5) by simp
    then have "\<forall>t \<in> set (merge_ranges r rs). snd cur + 1 < fst t" using False by fastforce
    then show ?thesis using False 2(2) [OF False] 2(3-) by simp
  qed
qed simp

lemma expand_ranges_ok: "list_all (\<lambda>r. fst r \<le> snd r) (expand_ranges rs c n)"
  by (simp add: expand_ranges_def list_all_iff)

lemma expand_ranges_cover:
  "list_ex (in_range x) (expand_ranges rs c n)
     \<longleftrightarrow> 1 \<le> x \<and> x \<le> n \<and> list_ex (\<lambda>r. fst r - c \<le> x \<and> x \<le> snd r + c) rs"
proof -
  have "x \<ge> max 1 (fst r - c) \<and> x \<le> min n (snd r + c) \<and> max 1 (fst r - c) \<le> min n (snd r + c)
      \<longleftrightarrow> 1 \<le> x \<and> x \<le> n \<and> fst r - c \<le> x \<and> x \<le> snd r + c" for r :: "int \<times> int" by auto
  then show ?thesis unfolding expand_ranges_def list_ex_iff by fastforce
qed

text \<open>
  C25: The ranges of lines that an excerpt of a file is made of are just the lines asked for with their
  context, cut to the file: a line is in a merged range exactly if it is a line of the file at most that
  far from a range asked for. The merged ranges are in order, none is empty and between two of them at
  least one line is left out, so no line is shown twice.
\<close>

theorem merged_ranges_cover:
  "(list_ex (in_range x) (expand_and_merge_ranges rs c n)
      \<longleftrightarrow> 1 \<le> x \<and> x \<le> n \<and> list_ex (\<lambda>r. fst r - c \<le> x \<and> x \<le> snd r + c) rs)
   \<and> separated (expand_and_merge_ranges rs c n)
   \<and> list_all (\<lambda>r. fst r \<le> snd r) (expand_and_merge_ranges rs c n)"
proof -
  define es where "es = sort_key (\<lambda>r. [fst r, snd r]) (expand_ranges rs c n)"
  have "sorted (map (\<lambda>r. [fst r, snd r]) es)" by (simp add: es_def)
  then have "sorted (map fst es)" by (induction es) (auto simp: Cons_le_Cons)
  have same: "set es = set (expand_ranges rs c n)" by (simp add: es_def)
  then have ok: "list_all (\<lambda>r. fst r \<le> snd r) es" using expand_ranges_ok by (simp add: list_all_iff)
  have "list_ex (in_range x) es \<longleftrightarrow> 1 \<le> x \<and> x \<le> n \<and> list_ex (\<lambda>r. fst r - c \<le> x \<and> x \<le> snd r + c) rs"
    using expand_ranges_cover [of x rs c n] unfolding list_ex_iff same .
  then show ?thesis
    using merge_ranges_cover [of "hd es" "tl es" x] merge_ranges_separated [of "hd es" "tl es"] ok \<open>sorted (map fst es)\<close>
    unfolding expand_and_merge_ranges_def es_def [symmetric] by (cases es) simp_all
qed

section \<open>Where the tools contradict themselves\<close>

text \<open>
  A full read that is cut names the lines left out and asks for them; the read is remembered as one of the
  whole file, so the read of these lines is refused.
\<close>

definition tall_disk :: disk where
  "tall_disk = [([''r''], Dir), ([''r'', ''a''], File (concat (replicate 12 (''0123456789'' @ nl))))]"

definition tall_tools :: file_tools where
  "tall_tools = bench_tools\<lparr>ft_root := [''r''], ft_max_chars := 60\<rparr>"

lemma omitted_lines_refused:
  "\<exists>msg ft1. read_file bench_env [Some ''a''] (OffsetInt 1) NoLimit None tall_disk tall_tools = (Reply msg, None, ft1)
     \<and> msg \<noteq> concat (replicate 12 (''0123456789'' @ nl))
     \<and> fst (read_file bench_env [Some ''a''] (OffsetInt 5) (LimitInt 2) None tall_disk ft1) = Reply (refused_full ''a'' [])"
proof -
  let ?r = "read_file bench_env [Some ''a''] (OffsetInt 1) NoLimit None tall_disk tall_tools"
  have "(case ?r of (Reply msg, None, ft1) \<Rightarrow>
      msg \<noteq> concat (replicate 12 (''0123456789'' @ nl))
      \<and> fst (read_file bench_env [Some ''a''] (OffsetInt 5) (LimitInt 2) None tall_disk ft1) = Reply (refused_full ''a'' [])
    | _ \<Rightarrow> False)" by code_simp
  then show ?thesis by (auto split: prod.splits tool_out.splits option.splits)
qed

text \<open>The text of a single long line is shown twice, so the cut text is longer than the text.\<close>

lemma long_line_doubled:
  "length (replicate 50 CHR ''x'') < length (bound_full_read (replicate 50 CHR ''x'') 30)"
  by code_simp

text \<open>The blocked prefixes are compared with the path as it is written.\<close>

lemma blocked_prefix_bypassed:
  "\<exists>msg d' ft'. check_write_allowed (bench_tools\<lparr>ft_blocked := [''a'']\<rparr>) ''a'' \<noteq> None
     \<and> write_file bench_env [Some ''./a''] (Some ''x'') plain_disk (bench_tools\<lparr>ft_blocked := [''a'']\<rparr>) = (msg, d', ft')
     \<and> entry d' [''w'', ''r'', ''a''] = Some (File ''x'')"
proof -
  let ?ft = "bench_tools\<lparr>ft_blocked := [''a'']\<rparr>"
  have "check_write_allowed ?ft ''a'' \<noteq> None" by code_simp
  moreover have "entry (fst (snd (write_file bench_env [Some ''./a''] (Some ''x'') plain_disk ?ft))) [''w'', ''r'', ''a'']
      = Some (File ''x'')" by code_simp
  ultimately show ?thesis by (metis prod.collapse)
qed

text \<open>A call that left the limit to its default, of 200 lines, counts as one of the whole file.\<close>

lemma first_page_counts_as_all:
  "find_covering_read [''r''] tall_disk
     [Response [\<lparr>tc_name = ''read_file'', tc_id = Some ''1'', tc_args = Some [(''path'', JStr ''a'')]\<rparr>],
      Request [\<lparr>tr_name = ''read_file'', tr_id = Some ''1'', tr_content = Some ''the first page''\<rparr>]]
     [''r'', ''a''] (201, Some 200) = Some (1, None)"
  by code_simp

end
