(* ===== verification/Spec2Isabelle.thy ===== *)
theory Spec2Isabelle
  imports Lifecycle Trail Archive Dependencies Moves Family Creation Texts Gate Consumers Rounds Stamps Overlaps
    Excerpts Editing
begin

text \<open>
  robotsix-mill drives tickets through a pipeline of agents. Its core is the ticket service,
  \<open>src/robotsix_mill/core\<close>: every worker, stage, route and command reads and changes tickets through
  \<open>TicketService\<close>, on one SQLite database and one workspace directory per ticket and board. This
  development models that core and proves what the rest of the program relies on.

  \<^bold>\<open>The model.\<close> A \<open>board_db\<close> is the rows of one \<open>mill.db\<close>: tickets, history events, comments,
  each in insertion order. A \<open>world\<close> is the boards by name, the workspace directories by board and
  ticket, the clock, and the calls of \<open>on_transition\<close> so far. A \<open>service\<close> is the bound board, the
  settings it reads, whether a callback is registered, and the external functions: the two digests,
  the \<open>git\<close> program on a clone, the refresh of the remote and the cost of a session. An operation
  is a function from its arguments and a world to a result and a world; the result is an error of the
  datatype \<open>error\<close>, one constructor per exception class and per message, or the value returned. A
  session commits by writing the board back; what comes before an exception inside a session is
  dropped, what an earlier session committed is kept.

  \<^bold>\<open>Theories and sources\<close> (below \<open>src/robotsix_mill\<close>).
  \<^item> \<open>Prelude\<close>: texts as lists of UTF-8 bytes, results, association lists. \<open>Json\<close>: the part of
    Python's \<open>json\<close> that is used. \<open>Regex\<close>: Python's \<open>re\<close> for the patterns that are used.
  \<^item> \<open>States\<close>: \<open>core/states.py\<close>. \<open>Models\<close>: \<open>core/models.py\<close>, \<open>core/datetime_utils.py\<close>.
  \<^item> \<open>Store\<close>: the databases, \<open>_make_event\<close>, and the queries of \<open>core/service/_queries.py\<close>,
    \<open>_base.py\<close> and \<open>_helpers.py\<close>. \<open>Board\<close>: the row table interface, the invariants of a board,
    \<open>agents/runners/verify_runner.py\<close>. \<open>Workspace\<close>: \<open>core/workspace.py\<close> and the artifact files.
  \<^item> \<open>Purge\<close>, \<open>Redraft\<close>: \<open>_delete_mixin.py\<close> and the archive purge. \<open>Merge_Check\<close>:
    \<open>verify_merge_before_done\<close> and \<open>_verify_citations\<close>. \<open>Transition\<close>, \<open>Resume\<close>, \<open>Closing\<close>:
    \<open>_transition_mixin.py\<close>. \<open>Comments\<close>: \<open>_comments.py\<close>. \<open>Create\<close>: \<open>_create_mixin.py\<close>.
    \<open>Metadata\<close>: \<open>_metadata.py\<close>. \<open>Maintenance\<close>: \<open>_maintenance_mixin.py\<close>. \<open>Migrate\<close>:
    \<open>_migrate_mixin.py\<close>.
  \<^item> \<open>Invariant\<close>: the interface between an invariant of a board and the operations, a locale whose
    laws are the primitive writes; each component proves in it that its operations keep the
    invariant. \<open>Cascade\<close>: the recursion of transitions ends. \<open>Service\<close>: the operations as the steps
    of a transition system, and the interpretation of the locale on the invariants.
  \<^item> \<open>Sample\<close>, \<open>Seed\<close>: concrete worlds. \<open>Effects\<close>: the full effect of one operation.
  \<^item> \<open>Errors\<close>: \<open>runtime/transient_errors.py\<close>. \<open>Processing\<close>: \<open>runtime/worker/processing.py\<close>, what
    the worker does with one ticket, stage after stage, with \<open>stage_retry.py\<close>, \<open>stage_progress.py\<close> and
    the outcome of \<open>stages/base.py\<close>. \<open>Chain\<close>, \<open>Budget\<close>, \<open>Rounds\<close>: its theorems.
  \<^item> \<open>Gate\<close>: \<open>runtime/worker/_gate.py\<close>, the admission of stages. \<open>Dispatch\<close>: the queues, claims and
    consumers of \<open>runtime/worker/core.py\<close>. \<open>Consumers\<close>: its theorems.
  \<^item> \<open>Epic\<close>: the re-evaluation of an epic, \<open>runtime/worker/epic.py\<close>. \<open>Dedup\<close>: \<open>core/dedup.py\<close>.
    \<open>Breakdown\<close>: the children proposed after a comment and their order, \<open>agents/epic_breakdown.py\<close> and
    the end of \<open>epic.py\<close>. \<open>Stamps\<close>, \<open>Followups\<close>, \<open>Overlaps\<close>: their theorems.
  \<^item> \<open>Helpers\<close>: \<open>core/duration.py\<close>, \<open>text_utils.py\<close>, \<open>text_noop.py\<close>, \<open>block_reason.py\<close>. \<open>Excerpts\<close>:
    its theorems.
  \<^item> \<open>Paths\<close>: files, directories and symbolic links, and what Python's \<open>pathlib\<close> does with them.
    \<open>File_Tools\<close>: the tools of \<open>agents/fs_tools.py\<close> that read, write, edit, delete and list files, with
    \<open>core/repo_layout.py\<close> and the check of periodic files. \<open>Confinement\<close>, \<open>Editing\<close>: their theorems.

  \<^bold>\<open>What is shown.\<close>
  \<^item> \<open>Service\<close>: every reachable world is well-formed (unique ids, no orphans, links between
    events, the last event names the ticket's state), every ticket is where it says it is, and the
    integrity pass finds nothing unless the event cap ran.
  \<^item> \<open>Lifecycle\<close>: which transitions are refused and accepted, the exact effect of one, blocking and
    resuming, asking and answering, the resume of unblocked tickets, the end of the cascade, and
    that no state is a dead end.
  \<^item> \<open>Trail\<close>: the integrity pass finds tampering and removals, and agrees with its specification; what
    the event cap does to it. \<open>Archive\<close>: what the purge, the comment cap and the orphan repair may
    remove; when the maintenance pass returns.
  \<^item> \<open>Dependencies\<close>: the cycle check is reachability in the graph of all tickets; edits keep it
    acyclic. \<open>Family\<close>: the walks along parent links. \<open>Moves\<close>: migration, redraft, closing by hand.
    \<open>Creation\<close>: slugs and new tickets. \<open>Texts\<close>: what is written is read back.
  \<^item> \<open>Chain\<close>: a pass over a ticket is a run of calls of the service; with the ceiling on it ends,
    unless it goes on for ever with stages that the ceiling does not count. \<open>Budget\<close>: when a failed
    stage is retried, parked or blocked. \<open>Rounds\<close>: what the ceiling does in one turn; an outcome that
    is not allowed any more changes nothing but the history; two uncounted stages without end.
  \<^item> \<open>Gate\<close>: the gate is a counting semaphore with a reserve, and no free slot is left idle while an
    admissible caller waits. \<open>Consumers\<close>: no ticket is in flight twice while no board is deregistered;
    a ticket is shut out of the queues by nothing but the deregistration of its board; the ticket that
    is taken is the best of its queue.
  \<^item> \<open>Followups\<close>, \<open>Overlaps\<close>: the work on epics is a run of calls of the service, whatever the agents
    answer, and stays within its brakes; what the duplicate check answers has passed every gate; the
    planned order of a batch, position by position, and how a package that is needed from another
    repository can make it a cycle. \<open>Stamps\<close>: the time in an id.
  \<^item> \<open>Confinement\<close>: the tools as a transition system; no sequence of calls changes anything outside of
    the checkout, and what the tools remember of a file is on the disk. \<open>Editing\<close>: an edit replaces one
    place of the text, with every line break as a newline; the ranges of an excerpt are the lines asked
    for; where the tools contradict themselves. \<open>Excerpts\<close>: cut texts end where they should, thinned
    diffs keep what they should, durations and block reasons are read back.

  \<^bold>\<open>Recursion and fuel.\<close> The recursion of \<open>transition\<close> through
  \<open>_fire_unblocks\<close> carries fuel: the number of blocked tickets plus two. Each nested call takes
  one ticket out of BLOCKED before it goes deeper, so it is never used up (\<open>cascade_bounded\<close>).
  The dependency walk has one more than the number of all tickets as fuel: its path has no repetition.
  \<open>_collect_subtree\<close> really may not return, on a cycle of parents, and so may the loop over the
  stages of a ticket, when its ceiling is switched off or does not count the stages: both are
  \<open>partial_function (option)\<close>. The exchange of a queued ticket for a better one is a
  \<open>while_option\<close>, shown to end. A chain of duplicates is followed twenty times at most, as in the
  code. All other loops are total; the search of a pattern ends since a repetition that consumes nothing is
  not repeated. The resolution of a path ends since no link is followed twice.

  \<^bold>\<open>Idealisations.\<close> Text comparison and case folding are ASCII; \<open>json.dumps\<close>
  writes bytes above 127 as they are. Failures of the file system and of the database engine do not occur, and
  the sessions of one operation are not interleaved with those of another. A clock reading is the same within
  one operation. The digests are arbitrary functions; where a property needs them not to collide, it says so
  for the two texts at hand. A stage, an agent or the git program is a function of the world that may change
  it; where a property needs it to act through the service only, it says so. The monotonic clock is the clock
  of the world. A cancellation reaches a waiting caller between two steps only; the consumers of a
  deregistered board end in the step that drops its queue, though the thread of a stage that one waits for
  runs on. The order in which Python walks through a set is a parameter. The file tools act one after the
  other on a disk that nothing else changes; the texts are UTF-8, and the reader of PDF files, the YAML parser
  and the Python compiler are parameters.

  \<^bold>\<open>Not modelled.\<close> The stages themselves and the agents they prompt: what they decide depends on the
  answers of language models, and what they do to a ticket goes through the operations modelled here.
  The clients of the forge, of git, of the sandbox and of the tracing service are subprocess and HTTP
  calls. The HTTP routes and the command line pass their arguments to the service. Configuration is
  parsed by a validation library; the settings that are read are records here. The periodic passes
  are timers around runs of agents; of the worker's start and stop, only the queues are modelled. The
  tools that run a command in a container are left out, as are the files that are read for an agent
  before its run, \<open>build_preseed_history\<close>.
\<close>

end
